(* ===== verification/Shift_Prelude.thy ===== *)
theory Shift_Prelude
  imports Complex_Main "HOL-Library.List_Lexorder" "HOL-Library.Char_ord"
begin

text \<open>
  Shared vocabulary of the development: times and 64-bit integers as the Go code uses them,
  results as sums, the bounded retry loop that recurs in the agent, and the keyed store (a Go
  map listed in key order) behind every persisted collection.  The store's contract is the
  locale \<open>keyed_store\<close>, interpreted here on the sorted association list that the components use.
\<close>

section \<open>Collections of proof rules\<close>

named_theorems store_simps \<open>lookup laws of the keyed store\<close>
named_theorems frame_simps \<open>fields an operation leaves unchanged\<close>

section \<open>Times, durations, machine integers\<close>

text \<open>
  An instant is a number of nanoseconds after Go's zero time, so \<open>IsZero\<close> is equality with
  \<open>0\<close>; \<open>Before\<close> and \<open>After\<close> are \<open><\<close>.  Durations are nanoseconds too.
\<close>

type_synonym time = int
type_synonym duration = int

abbreviation IsZero :: "time \<Rightarrow> bool" where
  "IsZero t \<equiv> t = 0"

definition seconds :: "int \<Rightarrow> duration" where
  "seconds n = n * 1000000000"

definition hours :: "int \<Rightarrow> duration" where
  "hours n = seconds (n * 3600)"

text \<open>A Go \<open>int64\<close> value is an \<open>int\<close> in range; arithmetic wraps around.\<close>

definition i64 :: "int \<Rightarrow> int" where
  "i64 x = (x + 2 ^ 63) mod 2 ^ 64 - 2 ^ 63"

definition in_i64 :: "int \<Rightarrow> bool" where
  "in_i64 x \<longleftrightarrow> - (2 ^ 63) \<le> x \<and> x < 2 ^ 63"

text \<open>Equations for evaluation, with the bounds as numerals.\<close>

lemma i64_code [code]: "i64 x = (x + 9223372036854775808) mod 18446744073709551616 - 9223372036854775808"
  by (simp add: i64_def)

lemma in_i64_code [code]: "in_i64 x \<longleftrightarrow> -9223372036854775808 \<le> x \<and> x < 9223372036854775808"
  by (simp add: in_i64_def)

lemma i64_in_range [simp]: "in_i64 (i64 x)"
  by (auto simp: in_i64_def i64_def)

lemma i64_id [simp]: "in_i64 x \<Longrightarrow> i64 x = x"
  by (auto simp: in_i64_def i64_def)

lemma i64_diff_cancel: "in_i64 x \<Longrightarrow> i64 (i64 (x + y) - y) = x"
proof -
  assume x: "in_i64 x"
  have "i64 (i64 (x + y) - y) = i64 x"
    unfolding i64_def by (simp add: algebra_simps mod_simps)
  with x show ?thesis by simp
qed

section \<open>Results\<close>

text \<open>A fallible Go call returns a value or an error: the sum type, \<open>Inl\<close> the error.\<close>

type_synonym ('e, 'a) outcome = "'e + 'a"

definition failed :: "('e, 'a) outcome \<Rightarrow> bool" where
  "failed r \<longleftrightarrow> (case r of Inl _ \<Rightarrow> True | Inr _ \<Rightarrow> False)"

lemma failed_simps [simp]: "failed (Inl e)" "\<not> failed (Inr a)"
  by (simp_all add: failed_def)

section \<open>Bounded retry loops\<close>

text \<open>
  \<open>for attempt := k; attempt < k + n; attempt++\<close> around a body that may leave the loop with a
  value: \<open>Some r\<close> leaves with \<open>r\<close>, \<open>None\<close> goes on.  The result is \<open>None\<close> when every
  attempt went on.
\<close>

fun attempts :: "nat \<Rightarrow> nat \<Rightarrow> (nat \<Rightarrow> 's \<Rightarrow> 'r option \<times> 's) \<Rightarrow> 's \<Rightarrow> 'r option \<times> 's" where
  "attempts 0 k body s = (None, s)"
| "attempts (Suc n) k body s =
     (case body k s of
        (Some r, s') \<Rightarrow> (Some r, s')
      | (None, s') \<Rightarrow> attempts n (Suc k) body s')"

lemma attempts_invariant:
  assumes "P s" and "\<And>i s. P s \<Longrightarrow> P (snd (body i s))"
  shows "P (snd (attempts n k body s))"
  using assms(1)
proof (induction n arbitrary: k s)
  case 0
  then show ?case by simp
next
  case (Suc n)
  then have "P (snd (body k s))" by (simp add: assms(2))
  with Suc.IH show ?case by (auto split: prod.splits option.splits)
qed

text \<open>A value left the loop from some attempt, in a state the invariant describes.\<close>

lemma attempts_result:
  assumes "attempts n k body s = (Some r, t)" and "P s"
    and "\<And>i s. P s \<Longrightarrow> P (snd (body i s))"
  obtains i s' where "P s'" and "body i s' = (Some r, t)"
  using assms(1,2)
proof (induction n arbitrary: k s thesis)
  case 0
  then show ?case by simp
next
  case (Suc n)
  show ?case
  proof (cases "body k s")
    case (Pair res s')
    then have "P s'" using assms(3) [OF Suc.prems(3), of k] by simp
    with Pair Suc show ?thesis by (cases res) auto
  qed
qed

section \<open>Keyed stores\<close>

text \<open>
  Go maps that the code lists in sorted key order are association lists kept sorted by key.
  \<open>st_put\<close> is \<open>items[k] = v\<close>, \<open>st_del\<close> is \<open>delete(items, k)\<close>, \<open>st_list\<close> the values in
  key order.
\<close>

type_synonym 'v store = "(string \<times> 'v) list"

definition st_get :: "'v store \<Rightarrow> string \<Rightarrow> 'v option" where
  "st_get s k = map_of s k"

fun st_put :: "string \<Rightarrow> 'v \<Rightarrow> 'v store \<Rightarrow> 'v store" where
  "st_put k v [] = [(k, v)]"
| "st_put k v ((k', v') # s) =
     (if k < k' then (k, v) # (k', v') # s
      else if k = k' then (k, v) # s
      else (k', v') # st_put k v s)"

definition st_del :: "string \<Rightarrow> 'v store \<Rightarrow> 'v store" where
  "st_del k s = filter (\<lambda>p. fst p \<noteq> k) s"

definition st_list :: "'v store \<Rightarrow> 'v list" where
  "st_list s = map snd s"

definition st_ok :: "'v store \<Rightarrow> bool" where
  "st_ok s \<longleftrightarrow> sorted_wrt (<) (map fst s)"

lemma st_get_Nil [simp]: "st_get [] k = None"
  by (simp add: st_get_def)

lemma st_get_put [simp, store_simps]:
  "st_get (st_put k v s) k' = (if k' = k then Some v else st_get s k')"
  by (induction k v s rule: st_put.induct) (auto simp: st_get_def)

lemma st_get_del [simp, store_simps]:
  "st_get (st_del k s) k' = (if k' = k then None else st_get s k')"
  by (induction s) (auto simp: st_get_def st_del_def)

lemma st_ok_Nil [simp]: "st_ok []"
  by (simp add: st_ok_def)

lemma keys_st_put: "set (map fst (st_put k v s)) = insert k (set (map fst s))"
  by (induction k v s rule: st_put.induct) auto

lemma st_ok_put [simp]: "st_ok s \<Longrightarrow> st_ok (st_put k v s)"
proof (induction k v s rule: st_put.induct)
  case (1 k v)
  then show ?case by (simp add: st_ok_def)
next
  case (2 k v k' v' s)
  have keys: "\<And>x. x \<in> set (st_put k v s) \<Longrightarrow> fst x = k \<or> fst x \<in> fst ` set s"
    using keys_st_put [of k v s] by (metis image_eqI image_set insertE)
  consider "k < k'" | "k = k'" | "k' < k" by (meson linorder_less_linear)
  then show ?case
  proof cases
    case 3
    with 2 keys show ?thesis by (auto simp: st_ok_def dest!: keys)
  qed (use 2 in \<open>auto simp: st_ok_def\<close>)
qed

lemma st_ok_del [simp]: "st_ok s \<Longrightarrow> st_ok (st_del k s)"
  by (auto simp: st_ok_def st_del_def sorted_wrt_map intro: sorted_wrt_filter)

lemma st_list_member: "st_ok s \<Longrightarrow> v \<in> set (st_list s) \<longleftrightarrow> (\<exists>k. st_get s k = Some v)"
proof -
  assume "st_ok s"
  then have "distinct (map fst s)"
    by (auto simp: st_ok_def strict_sorted_iff)
  then show ?thesis
    by (force simp: st_list_def st_get_def)
qed

text \<open>The contract every user of a collection relies on.\<close>

locale keyed_store =
  fixes get :: "'s \<Rightarrow> string \<Rightarrow> 'v option"
    and put :: "string \<Rightarrow> 'v \<Rightarrow> 's \<Rightarrow> 's"
    and del :: "string \<Rightarrow> 's \<Rightarrow> 's"
    and elems :: "'s \<Rightarrow> 'v list"
    and ok :: "'s \<Rightarrow> bool"
  assumes get_put: "get (put k v s) = (get s)(k \<mapsto> v)"
    and get_del: "get (del k s) = (get s)(k := None)"
    and elems_get: "ok s \<Longrightarrow> v \<in> set (elems s) \<longleftrightarrow> (\<exists>k. get s k = Some v)"
    and ok_put: "ok s \<Longrightarrow> ok (put k v s)"
    and ok_del: "ok s \<Longrightarrow> ok (del k s)"
begin

lemma put_put_same: "get (put k v (put k u s)) = get (put k v s)"
  by (simp add: get_put)

lemma put_get_same: "get s k = Some v \<Longrightarrow> get (put k v s) = get s"
  by (auto simp: get_put)

lemma fold_put_other:
  "k \<notin> set ks \<Longrightarrow> get (fold (\<lambda>k'. put k' (f k')) ks s) k = get s k"
  by (induction ks arbitrary: s) (auto simp: get_put)

end

interpretation sorted_store: keyed_store st_get st_put st_del st_list st_ok
  by unfold_locales (auto simp: st_list_member)

end
