(* ===== verification/Encrypted_Collection.thy ===== *)
theory Encrypted_Collection
  imports Shift_Prelude
begin

text \<open>
  \<^verbatim>\<open>src/internal/securestore/collection.go\<close>: the encrypted collection behind every record the
  agent persists, a snapshot file plus a write-ahead journal.  The model keeps the two files
  (\<open>disk\<close>), the process memory (\<open>collection\<close>) and the faults a mutation can meet
  (\<open>io_faults\<close>), so that a crash is "forget the memory and reopen the disk".  Encryption and
  JSON are represented by what opening an entry yields (\<open>je_plain\<close>): \<open>None\<close> when the entry
  does not authenticate under this collection's label and the entry's own header.
\<close>

section \<open>State\<close>

record 'v coll_data =
  cd_revision :: nat
  cd_items :: "'v store"

text \<open>
  One journal entry.  \<open>je_plain = Some (Some v)\<close>: it authenticates and decodes to \<open>v\<close>;
  \<open>Some None\<close>: it authenticates but holds no decodable value (as a delete does).
\<close>

record 'v entry =
  je_format :: nat
  je_revision :: nat
  je_op :: string
  je_id :: string
  je_plain :: "'v option option"

text \<open>A complete journal line: its length in bytes and the entry it parses to, if it parses.\<close>

datatype 'v jline = JLine nat "'v entry option" | JBlank

record 'v journal =
  jl_lines :: "'v jline list"
  jl_tail :: nat

record 'v disk =
  dk_snapshot :: "'v coll_data option"
  dk_journal :: "'v journal option"

record 'v collection =
  co_data :: "'v coll_data"
  co_journal_n :: nat
  co_journal_bytes :: nat
  co_damaged :: bool

datatype write_result = Synced | SyncFailed | ShortWrite nat

record io_faults =
  io_persist :: bool
  io_encode :: bool
  io_open :: bool
  io_write :: write_result
  io_truncate :: bool
  io_remove :: bool
  io_len :: nat

datatype coll_error = IdRequired | NotFound | PersistError | EncodeError | OpenError | AppendError
  | UpdateRefused

definition journal_compact_entries :: nat where
  "journal_compact_entries = 128"

definition journal_compact_bytes :: nat where
  "journal_compact_bytes = 262144"

definition empty_data :: "'v coll_data" where
  "empty_data = \<lparr>cd_revision = 0, cd_items = []\<rparr>"

section \<open>Opening: snapshot and journal replay\<close>

fun jline_len :: "'v jline \<Rightarrow> nat" where
  "jline_len (JLine n _) = n"
| "jline_len JBlank = 1"

definition journal_size :: "'v journal \<Rightarrow> nat" where
  "journal_size j = sum_list (map jline_len (jl_lines j)) + jl_tail j"

definition entry_valid :: "'v entry \<Rightarrow> bool" where
  "entry_valid e \<longleftrightarrow> je_format e = 1 \<and> (je_op e = ''put'' \<or> je_op e = ''delete'') \<and> je_id e \<noteq> []"

definition replay_entry :: "'v coll_data \<Rightarrow> 'v entry \<Rightarrow> 'v coll_data option" where
  "replay_entry d e =
     (case je_plain e of
        None \<Rightarrow> None
      | Some p \<Rightarrow>
          if je_op e = ''put'' then
            (case p of
               None \<Rightarrow> None
             | Some v \<Rightarrow> Some \<lparr>cd_revision = je_revision e, cd_items = st_put (je_id e) v (cd_items d)\<rparr>)
          else Some \<lparr>cd_revision = je_revision e, cd_items = st_del (je_id e) (cd_items d)\<rparr>)"

text \<open>The loop of \<open>replayJournal\<close> over the complete lines: data, applied entries, damaged.\<close>

fun replay_lines :: "'v coll_data \<Rightarrow> nat \<Rightarrow> 'v jline list \<Rightarrow> 'v coll_data \<times> nat \<times> bool" where
  "replay_lines d n [] = (d, n, False)"
| "replay_lines d n (JBlank # ls) = replay_lines d n ls"
| "replay_lines d n (JLine _ None # ls) = (d, n, True)"
| "replay_lines d n (JLine _ (Some e) # ls) =
     (if \<not> entry_valid e then (d, n, True)
      else if je_revision e < cd_revision d then replay_lines d n ls
      else case replay_entry d e of
             None \<Rightarrow> (d, n, True)
           | Some d' \<Rightarrow> replay_lines d' (Suc n) ls)"

definition replay_journal :: "bool \<Rightarrow> 'v collection \<Rightarrow> 'v disk \<Rightarrow> 'v collection \<times> 'v disk" where
  "replay_journal truncate_ok c dk =
     (case dk_journal dk of
        None \<Rightarrow> (c, dk)
      | Some j \<Rightarrow>
          (case replay_lines (co_data c) (co_journal_n c) (jl_lines j) of
             (d, n, damaged) \<Rightarrow>
               let torn = \<not> damaged \<and> 0 < jl_tail j;
                   cut = torn \<and> truncate_ok;
                   j' = (if cut then j\<lparr>jl_tail := 0\<rparr> else j)
               in (c\<lparr>co_data := d, co_journal_n := n,
                     co_journal_bytes := journal_size j',
                     co_damaged := damaged \<or> (torn \<and> \<not> truncate_ok)\<rparr>,
                   dk\<lparr>dk_journal := Some j'\<rparr>)))"

definition open_collection :: "bool \<Rightarrow> 'v disk \<Rightarrow> 'v collection \<times> 'v disk" where
  "open_collection truncate_ok dk =
     replay_journal truncate_ok
       \<lparr>co_data = (case dk_snapshot dk of None \<Rightarrow> empty_data | Some d \<Rightarrow> d),
        co_journal_n = 0, co_journal_bytes = 0, co_damaged = False\<rparr> dk"

section \<open>Appending, compaction\<close>

definition persist :: "bool \<Rightarrow> 'v collection \<Rightarrow> 'v disk \<Rightarrow> bool \<times> 'v disk" where
  "persist ok c dk = (ok, if ok then dk\<lparr>dk_snapshot := Some (co_data c)\<rparr> else dk)"

definition compact :: "io_faults \<Rightarrow> 'v collection \<Rightarrow> 'v disk \<Rightarrow> 'v collection \<times> 'v disk" where
  "compact io c dk =
     (case persist (io_persist io) c dk of
        (False, dk') \<Rightarrow> (c, dk')
      | (True, dk') \<Rightarrow>
          if io_remove io
          then (c\<lparr>co_journal_n := 0, co_journal_bytes := 0\<rparr>, dk'\<lparr>dk_journal := None\<rparr>)
          else (c, dk'))"

definition maybe_compact :: "io_faults \<Rightarrow> 'v collection \<Rightarrow> 'v disk \<Rightarrow> 'v collection \<times> 'v disk" where
  "maybe_compact io c dk =
     (if co_journal_n c < journal_compact_entries \<and> co_journal_bytes c < journal_compact_bytes
      then (c, dk) else compact io c dk)"

text \<open>
  What one \<open>write\<close> leaves in the journal file.  A line written after a torn tail merges with it
  into one line that does not parse.
\<close>

fun write_line :: "write_result \<Rightarrow> nat \<Rightarrow> 'v entry \<Rightarrow> 'v journal \<Rightarrow> 'v journal" where
  "write_line (ShortWrite k) len e j = j\<lparr>jl_tail := jl_tail j + min k (len - 1)\<rparr>"
| "write_line _ len e j =
     j\<lparr>jl_lines := jl_lines j @ [JLine (jl_tail j + len) (if jl_tail j = 0 then Some e else None)],
       jl_tail := 0\<rparr>"

definition append_entry ::
  "io_faults \<Rightarrow> string \<Rightarrow> string \<Rightarrow> 'v option \<Rightarrow> 'v collection \<Rightarrow> 'v disk
     \<Rightarrow> coll_error option \<times> 'v collection \<times> 'v disk" where
  "append_entry io oper k v c dk =
     (let next_rev = cd_revision (co_data c) + 1;
          c1 = c\<lparr>co_data := (co_data c)\<lparr>cd_revision := next_rev\<rparr>\<rparr> in
      if co_damaged c then
        (case persist (io_persist io) c1 dk of
           (False, dk') \<Rightarrow> (Some PersistError, c, dk')
         | (True, dk') \<Rightarrow>
             (None, c1\<lparr>co_journal_n := 0, co_journal_bytes := 0, co_damaged := False\<rparr>,
              if io_remove io then dk'\<lparr>dk_journal := None\<rparr> else dk'))
      else if dk_snapshot dk = None then
        (case persist (io_persist io) c1 dk of
           (False, dk') \<Rightarrow> (Some PersistError, c, dk')
         | (True, dk') \<Rightarrow> (None, c1, dk'))
      else if \<not> io_encode io then (Some EncodeError, c, dk)
      else if \<not> io_open io then (Some OpenError, c, dk)
      else
        let e = \<lparr>je_format = 1, je_revision = next_rev, je_op = oper, je_id = k, je_plain = Some v\<rparr>;
            j = (case dk_journal dk of None \<Rightarrow> \<lparr>jl_lines = [], jl_tail = 0\<rparr> | Some j \<Rightarrow> j);
            dk' = dk\<lparr>dk_journal := Some (write_line (io_write io) (io_len io) e j)\<rparr> in
        if io_write io \<noteq> Synced then
          (if io_truncate io then (Some AppendError, c, dk\<lparr>dk_journal := Some j\<rparr>)
           else (Some AppendError, c1, dk'))
        else
          (case maybe_compact io
                  (c1\<lparr>co_journal_n := co_journal_n c + 1,
                      co_journal_bytes := co_journal_bytes c + io_len io\<rparr>) dk' of
             (c2, dk2) \<Rightarrow> (None, c2, dk2)))"

section \<open>Operations\<close>

definition set_items :: "'v collection \<Rightarrow> 'v store \<Rightarrow> 'v collection" where
  "set_items c s = c\<lparr>co_data := (co_data c)\<lparr>cd_items := s\<rparr>\<rparr>"

definition coll_get :: "'v collection \<Rightarrow> string \<Rightarrow> (coll_error, 'v) outcome" where
  "coll_get c k = (case st_get (cd_items (co_data c)) k of None \<Rightarrow> Inl NotFound | Some v \<Rightarrow> Inr v)"

definition coll_list :: "'v collection \<Rightarrow> 'v list" where
  "coll_list c = st_list (cd_items (co_data c))"

text \<open>
  The mutation is applied in memory, then appended; a failed append puts the previous items
  back (on the collection whose revision \<open>append_entry\<close> may have burned).
\<close>

definition coll_put ::
  "io_faults \<Rightarrow> string \<Rightarrow> 'v \<Rightarrow> 'v collection \<Rightarrow> 'v disk \<Rightarrow> (coll_error, unit) outcome \<times> 'v collection \<times> 'v disk" where
  "coll_put io k v c dk =
     (if k = [] then (Inl IdRequired, c, dk)
      else let previous = cd_items (co_data c) in
        case append_entry io ''put'' k (Some v) (set_items c (st_put k v previous)) dk of
          (None, c', dk') \<Rightarrow> (Inr (), c', dk')
        | (Some err, c', dk') \<Rightarrow> (Inl err, set_items c' previous, dk'))"

definition coll_update ::
  "io_faults \<Rightarrow> string \<Rightarrow> ('v \<Rightarrow> 'v option) \<Rightarrow> 'v collection \<Rightarrow> 'v disk
     \<Rightarrow> (coll_error, 'v) outcome \<times> 'v collection \<times> 'v disk" where
  "coll_update io k f c dk =
     (let previous = cd_items (co_data c) in
      case st_get previous k of
        None \<Rightarrow> (Inl NotFound, c, dk)
      | Some current \<Rightarrow>
          (case f current of
             None \<Rightarrow> (Inl UpdateRefused, c, dk)
           | Some v \<Rightarrow>
               (case append_entry io ''put'' k (Some v) (set_items c (st_put k v previous)) dk of
                  (None, c', dk') \<Rightarrow> (Inr v, c', dk')
                | (Some err, c', dk') \<Rightarrow> (Inl err, set_items c' previous, dk'))))"

definition coll_delete ::
  "io_faults \<Rightarrow> string \<Rightarrow> 'v collection \<Rightarrow> 'v disk \<Rightarrow> (coll_error, unit) outcome \<times> 'v collection \<times> 'v disk" where
  "coll_delete io k c dk =
     (let previous = cd_items (co_data c) in
      case st_get previous k of
        None \<Rightarrow> (Inl NotFound, c, dk)
      | Some current \<Rightarrow>
          (case append_entry io ''delete'' k None (set_items c (st_del k previous)) dk of
             (None, c', dk') \<Rightarrow> (Inr (), c', dk')
           | (Some err, c', dk') \<Rightarrow> (Inl err, set_items c' previous, dk')))"


section \<open>Durability: reopening the disk gives back the memory\<close>

text \<open>What a process that starts on this disk sees; it does not depend on the tail being cut.\<close>

definition reopen_data :: "'v disk \<Rightarrow> 'v coll_data" where
  "reopen_data dk = co_data (fst (open_collection True dk))"

definition snapshot_data :: "'v disk \<Rightarrow> 'v coll_data" where
  "snapshot_data dk = (case dk_snapshot dk of None \<Rightarrow> empty_data | Some d \<Rightarrow> d)"

definition journal_lines :: "'v disk \<Rightarrow> 'v jline list" where
  "journal_lines dk = (case dk_journal dk of None \<Rightarrow> [] | Some j \<Rightarrow> jl_lines j)"

lemma reopen_data_eq: "reopen_data dk = fst (replay_lines (snapshot_data dk) 0 (journal_lines dk))"
  by (simp add: reopen_data_def open_collection_def replay_journal_def snapshot_data_def
      journal_lines_def Let_def split: option.splits prod.splits)

lemma open_collection_data: "co_data (fst (open_collection b dk)) = reopen_data dk"
  by (simp add: reopen_data_def open_collection_def replay_journal_def Let_def
      split: option.splits prod.splits)

text \<open>
  A line that replay may meet on top of data \<open>d\<close>: it authenticates, its revision is not past
  \<open>d\<close>'s, and if it carries \<open>d\<close>'s own revision then it is already reflected in \<open>d\<close>.
\<close>

fun good_line :: "'v coll_data \<Rightarrow> 'v jline \<Rightarrow> bool" where
  "good_line d JBlank = True"
| "good_line d (JLine _ None) = False"
| "good_line d (JLine _ (Some e)) =
     (entry_valid e \<and> je_revision e \<le> cd_revision d
      \<and> (je_revision e = cd_revision d \<longrightarrow> replay_entry d e = Some d))"

definition durable :: "'v collection \<Rightarrow> 'v disk \<Rightarrow> bool" where
  "durable c dk \<longleftrightarrow>
     reopen_data dk = co_data c
   \<and> st_get (cd_items (co_data c)) [] = None
   \<and> (\<not> co_damaged c \<longrightarrow>
        (dk_snapshot dk = None \<longrightarrow> dk_journal dk = None)
      \<and> (\<forall>j. dk_journal dk = Some j \<longrightarrow> jl_tail j = 0)
      \<and> snd (snd (replay_lines (snapshot_data dk) 0 (journal_lines dk))) = False
      \<and> (\<forall>l \<in> set (journal_lines dk). good_line (co_data c) l))"

text \<open>The faults under which a mutation keeps the disk consistent with the memory.\<close>

definition faults_tolerated :: "io_faults \<Rightarrow> bool \<Rightarrow> bool" where
  "faults_tolerated io damaged \<longleftrightarrow>
     (io_write io \<noteq> Synced \<longrightarrow> io_truncate io) \<and> (damaged \<longrightarrow> io_remove io)"

lemma st_put_idem [simp]: "st_put k v (st_put k v s) = st_put k v s"
  by (induction k v s rule: st_put.induct) auto

lemma st_del_idem [simp]: "st_del k (st_del k s) = st_del k s"
  by (simp add: st_del_def)

lemma replay_lines_append:
  "replay_lines d n (ls @ ls') =
     (case replay_lines d n ls of
        (d', n', damaged) \<Rightarrow> if damaged then (d', n', True) else replay_lines d' n' ls')"
  by (induction d n ls rule: replay_lines.induct) (auto split: option.splits prod.splits)

lemma replay_good_lines:
  "\<forall>l \<in> set ls. good_line d l \<Longrightarrow> \<exists>n'. replay_lines d n ls = (d, n', False)"
proof (induction ls arbitrary: n)
  case Nil
  then show ?case by simp
next
  case (Cons l ls)
  from Cons.prems have l: "good_line d l" by simp
  show ?case
  proof (cases "(d, l)" rule: good_line.cases)
    case (3 d' w e)
    with l Cons show ?thesis by (cases "je_revision e < cd_revision d") auto
  qed (use Cons l in auto)
qed

lemma good_line_later: "good_line d l \<Longrightarrow> cd_revision d < cd_revision d' \<Longrightarrow> good_line d' l"
  by (cases "(d, l)" rule: good_line.cases) auto

text \<open>The mutation an entry stands for, and the entry \<open>append_entry\<close> writes for it.\<close>

definition mutates :: "string \<Rightarrow> string \<Rightarrow> 'v option \<Rightarrow> 'v store \<Rightarrow> 'v store \<Rightarrow> bool" where
  "mutates oper k v s s' \<longleftrightarrow> k \<noteq> [] \<and>
     (oper = ''put'' \<and> v \<noteq> None \<and> s' = st_put k (the v) s \<or> oper = ''delete'' \<and> v = None \<and> s' = st_del k s)"

lemma mutates_keys:
  "mutates oper k v s s' \<Longrightarrow> st_get s [] = None \<Longrightarrow> st_get s' [] = None"
  by (auto simp: mutates_def split: if_splits)

lemma replay_written_entry:
  assumes "mutates oper k v (cd_items d) s'"
  defines "e \<equiv> \<lparr>je_format = 1, je_revision = cd_revision d + 1, je_op = oper, je_id = k, je_plain = Some v\<rparr>"
  shows "entry_valid e"
    and "replay_entry d e = Some \<lparr>cd_revision = cd_revision d + 1, cd_items = s'\<rparr>"
    and "replay_entry \<lparr>cd_revision = cd_revision d + 1, cd_items = s'\<rparr> e
           = Some \<lparr>cd_revision = cd_revision d + 1, cd_items = s'\<rparr>"
  using assms by (auto simp: mutates_def entry_valid_def replay_entry_def)

lemma durable_snapshot:
  assumes "st_get (cd_items (co_data c)) [] = None"
    and "dk_snapshot dk = Some (co_data c)"
    and "dk_journal dk = None \<or> \<not> co_damaged c \<and>
           (\<exists>j. dk_journal dk = Some j \<and> jl_tail j = 0 \<and> (\<forall>l \<in> set (jl_lines j). good_line (co_data c) l))"
  shows "durable c dk"
proof -
  have good: "\<forall>l \<in> set (journal_lines dk). good_line (co_data c) l"
    using assms(3) by (auto simp: journal_lines_def)
  then obtain n where "replay_lines (co_data c) 0 (journal_lines dk) = (co_data c, n, False)"
    using replay_good_lines by blast
  with assms good show ?thesis
    by (auto simp: durable_def reopen_data_eq snapshot_data_def)
qed

lemma durable_compact:
  assumes "durable c dk" and "\<not> co_damaged c" and "compact io c dk = (c', dk')"
  shows "durable c' dk' \<and> co_data c' = co_data c \<and> co_damaged c' = co_damaged c"
proof -
  from assms(1,2) have keys: "st_get (cd_items (co_data c)) [] = None"
    and j: "\<And>j. dk_journal dk = Some j \<Longrightarrow> jl_tail j = 0 \<and> (\<forall>l \<in> set (jl_lines j). good_line (co_data c) l)"
    by (auto simp: durable_def journal_lines_def)
  have snap: "durable c2 (dk\<lparr>dk_snapshot := Some (co_data c), dk_journal := jo\<rparr>)"
    if "jo = None \<or> jo = dk_journal dk" "co_data c2 = co_data c" "\<not> co_damaged c2" for jo c2
    using that keys j by (cases "dk_journal dk") (auto intro!: durable_snapshot)
  show ?thesis
    using assms snap [of None "c\<lparr>co_journal_n := 0, co_journal_bytes := 0\<rparr>"] snap [of "dk_journal dk" c]
    by (auto simp: compact_def persist_def split: if_splits)
qed

lemma durable_maybe_compact:
  assumes "durable c dk" and "\<not> co_damaged c" and "maybe_compact io c dk = (c', dk')"
  shows "durable c' dk' \<and> co_data c' = co_data c \<and> co_damaged c' = co_damaged c"
  using assms by (auto simp: maybe_compact_def split: if_splits dest: durable_compact)

lemma durable_journal_append:
  assumes d: "durable c dk" and nd: "\<not> co_damaged c" and snap: "dk_snapshot dk \<noteq> None"
    and m: "mutates oper k v (cd_items (co_data c)) s'"
    and j: "j = (case dk_journal dk of None \<Rightarrow> \<lparr>jl_lines = [], jl_tail = 0\<rparr> | Some j \<Rightarrow> j)"
    and e: "e = \<lparr>je_format = 1, je_revision = cd_revision (co_data c) + 1, je_op = oper, je_id = k, je_plain = Some v\<rparr>"
    and c': "co_data c' = \<lparr>cd_revision = cd_revision (co_data c) + 1, cd_items = s'\<rparr>" "\<not> co_damaged c'"
  shows "durable c' (dk\<lparr>dk_journal := Some (write_line Synced len e j)\<rparr>)"
proof -
  let ?dk = "dk\<lparr>dk_journal := Some (write_line Synced len e j)\<rparr>"
  have tail: "jl_tail j = 0" and lines: "jl_lines j = journal_lines dk"
    using d nd j by (auto simp: durable_def journal_lines_def split: option.splits)
  then have ls: "journal_lines ?dk = journal_lines dk @ [JLine len (Some e)]"
    by (simp add: journal_lines_def)
  obtain n where rep: "replay_lines (snapshot_data dk) 0 (journal_lines dk) = (co_data c, n, False)"
    using d nd by (cases "replay_lines (snapshot_data dk) 0 (journal_lines dk)")
      (auto simp: durable_def reopen_data_eq)
  note we = replay_written_entry [OF m, folded e]
  have "replay_lines (co_data c) n [JLine len (Some e)] = (co_data c', Suc n, False)"
    using we e c' by simp
  moreover have "snapshot_data ?dk = snapshot_data dk"
    by (simp add: snapshot_data_def)
  ultimately have rep': "replay_lines (snapshot_data ?dk) 0 (journal_lines ?dk) = (co_data c', Suc n, False)"
    by (simp only: ls replay_lines_append rep prod.case if_False)
  have new: "good_line (co_data c') (JLine len (Some e))"
    using we e c' by simp
  have old: "good_line (co_data c') l" if "l \<in> set (journal_lines dk)" for l
    using that d nd c' good_line_later [of "co_data c" l "co_data c'"] by (simp add: durable_def)
  have "\<forall>l \<in> set (journal_lines ?dk). good_line (co_data c') l"
    using new old by (simp only: ls) simp
  moreover have "st_get (cd_items (co_data c')) [] = None"
    using mutates_keys [OF m] d c' by (simp add: durable_def)
  ultimately show ?thesis
    using rep' tail snap by (auto simp: durable_def reopen_data_eq)
qed

text \<open>
  One mutation, under any tolerated fault: on success the new items are what a restart reads;
  on failure the caller's rollback is what a restart reads, so nothing the caller was told
  failed comes back.
\<close>

lemma append_entry_durable:
  assumes d: "durable c dk" and m: "mutates oper k v (cd_items (co_data c)) s'"
    and f: "faults_tolerated io (co_damaged c)"
    and app: "append_entry io oper k v (set_items c s') dk = (r, c', dk')"
  shows "r = None \<Longrightarrow> durable c' dk' \<and> cd_items (co_data c') = s'"
    and "r \<noteq> None \<Longrightarrow> durable (set_items c' (cd_items (co_data c))) dk'
           \<and> cd_items (co_data (set_items c' (cd_items (co_data c)))) = cd_items (co_data c)"
proof -
  let ?rev = "Suc (cd_revision (co_data c))"
  let ?new = "\<lparr>cd_revision = ?rev, cd_items = s'\<rparr>"
  have new: "(co_data c)\<lparr>cd_items := s', cd_revision := Suc (cd_revision (co_data c))\<rparr> = ?new"
    by simp
  have keys: "st_get s' [] = None"
    using mutates_keys [OF m] d by (simp add: durable_def)
  have undo: "set_items (set_items c s') (cd_items (co_data c)) = c"
    by (simp add: set_items_def)
  have snap: "durable c2 (dk\<lparr>dk_snapshot := Some ?new, dk_journal := None\<rparr>)"
    if "co_data c2 = ?new" for c2
    using that keys by (auto intro!: durable_snapshot)
  have first: "durable c2 (dk\<lparr>dk_snapshot := Some ?new\<rparr>)"
    if "co_data c2 = ?new" "dk_journal dk = None" for c2
    using that keys by (auto intro!: durable_snapshot)
  have "(r = None \<longrightarrow> durable c' dk' \<and> cd_items (co_data c') = s') \<and>
        (r \<noteq> None \<longrightarrow> durable (set_items c' (cd_items (co_data c))) dk'
           \<and> cd_items (co_data (set_items c' (cd_items (co_data c)))) = cd_items (co_data c))"
  proof (cases "co_damaged c")
    case True
    with app f d show ?thesis
      by (auto simp: append_entry_def persist_def set_items_def Let_def faults_tolerated_def new
          split: if_splits intro!: snap)
  next
    case nd: False
    show ?thesis
    proof (cases "dk_snapshot dk")
      case None
      with nd d have "dk_journal dk = None" by (auto simp: durable_def)
      with nd None app d show ?thesis
        by (auto simp: append_entry_def persist_def set_items_def Let_def new
            split: if_splits intro!: first)
    next
      case (Some d0)
      let ?j = "case dk_journal dk of None \<Rightarrow> \<lparr>jl_lines = [], jl_tail = 0\<rparr> | Some j \<Rightarrow> j"
      let ?e = "\<lparr>je_format = 1, je_revision = ?rev, je_op = oper, je_id = k, je_plain = Some v\<rparr>"
      let ?c1 = "(set_items c s')\<lparr>co_data := ?new, co_journal_n := co_journal_n c + 1,
                   co_journal_bytes := co_journal_bytes c + io_len io\<rparr>"
      let ?dk1 = "dk\<lparr>dk_journal := Some (write_line Synced (io_len io) ?e ?j)\<rparr>"
      have app1: "durable ?c1 ?dk1"
        using durable_journal_append [OF d nd _ m refl refl, of ?c1] Some nd by (simp add: set_items_def)
      have same: "durable c (dk\<lparr>dk_journal := Some ?j\<rparr>)"
        using d Some by (cases "dk_journal dk")
          (auto simp: durable_def reopen_data_eq journal_lines_def snapshot_data_def)
      show ?thesis
      proof (cases "io_encode io \<and> io_open io \<and> io_write io = Synced")
        case True
        obtain c2 dk2 where mc: "maybe_compact io ?c1 ?dk1 = (c2, dk2)"
          by fastforce
        have "r = None" "c' = c2" "dk' = dk2"
          using app nd Some True mc by (auto simp: append_entry_def set_items_def Let_def new)
        with durable_maybe_compact [OF app1 _ mc] nd show ?thesis by (simp add: set_items_def)
      next
        case False
        with app nd Some f have "r \<noteq> None" "c' = set_items c s'"
          "dk' = dk \<or> dk' = dk\<lparr>dk_journal := Some ?j\<rparr>"
          by (auto simp: append_entry_def set_items_def Let_def faults_tolerated_def split: if_splits)
        with d same undo show ?thesis by auto
      qed
    qed
  qed
  then show "r = None \<Longrightarrow> durable c' dk' \<and> cd_items (co_data c') = s'"
    and "r \<noteq> None \<Longrightarrow> durable (set_items c' (cd_items (co_data c))) dk'
           \<and> cd_items (co_data (set_items c' (cd_items (co_data c)))) = cd_items (co_data c)"
    by auto
qed


section \<open>Runs of mutations\<close>

datatype 'v coll_op = Put string 'v | Update string "'v \<Rightarrow> 'v option" | Delete string

definition op_result :: "('e, 'a) outcome \<Rightarrow> 'e option" where
  "op_result r = (case r of Inl e \<Rightarrow> Some e | Inr _ \<Rightarrow> None)"

fun coll_exec :: "io_faults \<Rightarrow> 'v coll_op \<Rightarrow> 'v collection \<times> 'v disk \<Rightarrow> coll_error option \<times> 'v collection \<times> 'v disk" where
  "coll_exec io (Put k v) (c, dk) = (case coll_put io k v c dk of (r, s) \<Rightarrow> (op_result r, s))"
| "coll_exec io (Update k f) (c, dk) = (case coll_update io k f c dk of (r, s) \<Rightarrow> (op_result r, s))"
| "coll_exec io (Delete k) (c, dk) = (case coll_delete io k c dk of (r, s) \<Rightarrow> (op_result r, s))"

text \<open>The abstract map: what an acknowledged operation does, and a refused one does not.\<close>

fun map_exec :: "'v coll_op \<Rightarrow> (string \<rightharpoonup> 'v) \<Rightarrow> (string \<rightharpoonup> 'v)" where
  "map_exec (Put k v) m = m(k \<mapsto> v)"
| "map_exec (Update k f) m = (case m k of None \<Rightarrow> m | Some u \<Rightarrow> (case f u of None \<Rightarrow> m | Some v \<Rightarrow> m(k \<mapsto> v)))"
| "map_exec (Delete k) m = m(k := None)"

definition contents :: "'v collection \<Rightarrow> (string \<rightharpoonup> 'v)" where
  "contents c = st_get (cd_items (co_data c))"

text \<open>A run: each operation meets its own faults; the trace records which were acknowledged.\<close>

fun coll_run :: "(io_faults \<times> 'v coll_op) list \<Rightarrow> 'v collection \<times> 'v disk \<Rightarrow> bool list \<times> 'v collection \<times> 'v disk" where
  "coll_run [] s = ([], s)"
| "coll_run ((io, x) # xs) s =
     (case coll_exec io x s of
        (e, s') \<Rightarrow> (case coll_run xs s' of (acks, s'') \<Rightarrow> ((e = None) # acks, s'')))"

fun map_run :: "bool list \<Rightarrow> (io_faults \<times> 'v coll_op) list \<Rightarrow> (string \<rightharpoonup> 'v) \<Rightarrow> (string \<rightharpoonup> 'v)" where
  "map_run (a # as) ((io, x) # xs) m = map_run as xs (if a then map_exec x m else m)"
| "map_run _ _ m = m"

definition tolerated_run :: "(io_faults \<times> 'v coll_op) list \<Rightarrow> bool" where
  "tolerated_run xs \<longleftrightarrow> list_all (\<lambda>(io, x). faults_tolerated io True) xs"

lemma faults_tolerated_mono: "faults_tolerated io True \<Longrightarrow> faults_tolerated io b"
  by (auto simp: faults_tolerated_def)

lemma append_step:
  assumes d: "durable c dk" and m: "mutates oper k v (cd_items (co_data c)) s'"
    and f: "faults_tolerated io True"
    and app: "append_entry io oper k v (set_items c s') dk = (r, c', dk')"
  shows "durable (if r = None then c' else set_items c' (cd_items (co_data c))) dk'
       \<and> contents (if r = None then c' else set_items c' (cd_items (co_data c)))
           = (if r = None then st_get s' else contents c)"
  using append_entry_durable [OF d m faults_tolerated_mono [OF f] app]
  by (auto simp: contents_def set_items_def)

lemma coll_exec_durable:
  assumes d: "durable c dk" and f: "faults_tolerated io True"
    and ex: "coll_exec io x (c, dk) = (e, c', dk')"
  shows "durable c' dk' \<and> contents c' = (if e = None then map_exec x (contents c) else contents c)"
proof -
  have k: "st_get (cd_items (co_data c)) k = Some v \<Longrightarrow> k \<noteq> []" for k v
    using d by (auto simp: durable_def)
  have put: "mutates ''put'' k (Some v) (cd_items (co_data c)) (st_put k v (cd_items (co_data c)))"
    if "k \<noteq> []" for k v using that by (simp add: mutates_def)
  have del: "mutates ''delete'' k None (cd_items (co_data c)) (st_del k (cd_items (co_data c)))"
    if "k \<noteq> []" for k using that by (simp add: mutates_def)
  have g: "st_get (st_put k v s) = (st_get s)(k \<mapsto> v)" "st_get (st_del k s) = (st_get s)(k := None)"
    for k :: string and v and s :: "'a store" by auto
  show ?thesis
  proof (cases x)
    case (Put k v)
    then show ?thesis
      using ex d append_step [OF d put f, of k v]
      by (cases "append_entry io ''put'' k (Some v) (set_items c (st_put k v (cd_items (co_data c)))) dk")
        (auto simp: coll_put_def Let_def op_result_def contents_def g split: option.splits if_splits)
  next
    case (Update k f')
    show ?thesis
    proof (cases "\<exists>u v. st_get (cd_items (co_data c)) k = Some u \<and> f' u = Some v")
      case True
      then obtain u v where u: "st_get (cd_items (co_data c)) k = Some u" and v: "f' u = Some v" by blast
      obtain r c2 dk2 where
        app: "append_entry io ''put'' k (Some v) (set_items c (st_put k v (cd_items (co_data c)))) dk = (r, c2, dk2)"
        by (metis prod_cases3)
      show ?thesis
        using ex Update u v app append_step [OF d put [OF k [OF u]] f app]
        by (cases r) (auto simp: coll_update_def Let_def op_result_def contents_def g)
    next
      case False
      then show ?thesis
        using ex Update d
        by (auto simp: coll_update_def Let_def op_result_def contents_def split: option.splits)
    qed
  next
    case (Delete k)
    then show ?thesis
      using ex d append_step [OF d del f, of k] k [of k]
      by (cases "append_entry io ''delete'' k None (set_items c (st_del k (cd_items (co_data c)))) dk")
        (auto simp: coll_delete_def Let_def op_result_def contents_def g split: option.splits)
  qed
qed

lemma coll_run_durable:
  assumes "durable c dk" and "tolerated_run xs" and "coll_run xs (c, dk) = (acks, c', dk')"
  shows "durable c' dk' \<and> contents c' = map_run acks xs (contents c)"
  using assms
proof (induction xs arbitrary: c dk acks)
  case Nil
  then show ?case by (simp add: fun_eq_iff)
next
  case (Cons y xs)
  obtain io x where y: "y = (io, x)" by (cases y)
  obtain e c1 dk1 where ex: "coll_exec io x (c, dk) = (e, c1, dk1)" by (metis prod_cases3)
  obtain acks1 where run: "coll_run xs (c1, dk1) = (acks1, c', dk')" and acks: "acks = (e = None) # acks1"
    using Cons.prems(3) y ex by (auto split: prod.splits)
  have f: "faults_tolerated io True" and t: "tolerated_run xs"
    using Cons.prems(2) y by (auto simp: tolerated_run_def)
  from coll_exec_durable [OF Cons.prems(1) f ex]
  have d1: "durable c1 dk1" and m1: "contents c1 = (if e = None then map_exec x (contents c) else contents c)"
    by auto
  from Cons.IH [OF d1 t run] m1 show ?case by (simp add: y acks)
qed

definition empty_disk :: "'v disk" where
  "empty_disk = \<lparr>dk_snapshot = None, dk_journal = None\<rparr>"

lemma durable_fresh: "open_collection b (empty_disk :: 'v disk) = (c, dk) \<Longrightarrow> durable c dk \<and> contents c = Map.empty"
  by (auto simp: open_collection_def empty_disk_def replay_journal_def durable_def reopen_data_eq
      snapshot_data_def journal_lines_def empty_data_def contents_def)


definition io_good :: io_faults where
  "io_good = \<lparr>io_persist = True, io_encode = True, io_open = True, io_write = Synced,
     io_truncate = True, io_remove = True, io_len = 100\<rparr>"


section \<open>The two faults outside the guarantee\<close>

lemmas coll_eval = open_collection_def empty_disk_def replay_journal_def coll_put_def
  append_entry_def persist_def set_items_def io_good_def op_result_def empty_data_def Let_def
  maybe_compact_def journal_compact_entries_def journal_compact_bytes_def journal_size_def
  entry_valid_def replay_entry_def contents_def st_get_def

text \<open>
  If the truncation after a torn append fails too, the journal keeps the torn bytes but is not
  marked damaged: the next put is acknowledged, its line merges with the torn one, and after a
  restart the acknowledged value is gone.
\<close>

theorem torn_append_loses_acknowledged_put:
  "\<exists>c dk. coll_run
      [(io_good, Put ''a'' (1::nat)),
       (io_good\<lparr>io_write := ShortWrite 10, io_truncate := False\<rparr>, Put ''b'' 2),
       (io_good, Put ''c'' 3)] (open_collection True empty_disk) = ([True, False, True], c, dk)
    \<and> contents c ''c'' = Some 3 \<and> contents (fst (open_collection True dk)) ''c'' = None"
  by (simp add: coll_eval)

text \<open>
  If the sync of a complete line fails and the truncation fails as well, the refused put is
  still in the journal: memory does not hold it, a restart brings it back.
\<close>

theorem untruncated_append_resurrects_refused_put:
  "\<exists>c dk. coll_run
      [(io_good, Put ''a'' (1::nat)),
       (io_good\<lparr>io_write := SyncFailed, io_truncate := False\<rparr>, Put ''b'' 2)]
      (open_collection True empty_disk) = ([True, False], c, dk)
    \<and> contents c ''b'' = None \<and> contents (fst (open_collection True dk)) ''b'' = Some 2"
  by (simp add: coll_eval)

text \<open>
  Opening a collection whose journal is damaged leaves the damaged file in place until the
  next mutation folds it into a snapshot.  If removing the file fails then, it is ignored and the
  collection is considered healthy: the following put is acknowledged behind the damage and lost
  at the next restart.
\<close>

theorem unremoved_damaged_journal_loses_acknowledged_put:
  "\<exists>c dk. coll_run
      [(io_good\<lparr>io_remove := False\<rparr>, Put ''a'' (1::nat)), (io_good, Put ''b'' 2)]
      (open_collection True \<lparr>dk_snapshot = Some empty_data,
         dk_journal = Some \<lparr>jl_lines = [JLine 40 None], jl_tail = 0\<rparr>\<rparr>) = ([True, True], c, dk)
    \<and> contents c ''b'' = Some 2 \<and> contents (fst (open_collection True dk)) ''b'' = None"
  by (simp add: coll_eval)

end
