(* ===== verification/Migration_Model.thy ===== *)
theory Migration_Model
  imports Shift_Prelude
begin

text \<open>
  \<^verbatim>\<open>src/internal/model/types.go\<close>: the migration record, its stage machine, the workload record
  and the declared policies.  Enumerated Go strings are datatypes with the source's constructor
  names.  Human-readable texts (event messages, failure reasons) are values of \<open>msg\<close>, one
  constructor per text the code writes; \<open>FailureReason\<close>, a text joined with \<open>"; "\<close>, is the
  list of its parts.  Progress fractions are rationals.
\<close>

section \<open>Workloads\<close>

datatype workload_status = WorkloadRegistered | WorkloadStarting | WorkloadRunning | WorkloadPaused
  | WorkloadCheckpointed | WorkloadRestoring | WorkloadStopped | WorkloadFailed

datatype network_policy = NetworkPreserve | NetworkReconnect | NetworkDrain

record process_state =
  ps_pid :: int
  ps_pgid :: int
  ps_start_ticks :: nat

record checkpoint_policy_spec =
  cp_interval_seconds :: int
  cp_keep_last :: int

record lineage =
  ln_source_workload_id :: string
  ln_source_checkpoint_id :: string
  ln_generation :: nat
  ln_forked_at :: time

datatype policy_error = IntervalTooShort | KeepLastNegative | LineageNeedsWorkload
  | LineageNeedsCheckpoint | LineageNeedsTimestamp

text \<open>\<open>CheckpointPolicySpec.Validate\<close>; the nil receiver is \<open>None\<close>.\<close>

fun checkpoint_policy_validate :: "checkpoint_policy_spec option \<Rightarrow> policy_error option" where
  "checkpoint_policy_validate None = None"
| "checkpoint_policy_validate (Some p) =
     (if cp_interval_seconds p < 10 then Some IntervalTooShort
      else if cp_keep_last p < 0 then Some KeepLastNegative
      else None)"

fun lineage_validate :: "lineage option \<Rightarrow> policy_error option" where
  "lineage_validate None = None"
| "lineage_validate (Some l) =
     (if ln_source_workload_id l = [] then Some LineageNeedsWorkload
      else if ln_source_checkpoint_id l = [] then Some LineageNeedsCheckpoint
      else if IsZero (ln_forked_at l) then Some LineageNeedsTimestamp
      else None)"

section \<open>The stage machine\<close>

datatype migration_stage = MigrationCreated | MigrationDiscover | MigrationValidate
  | MigrationSnapshot | MigrationPrepare | MigrationTransfer | MigrationVerify | MigrationRestore
  | MigrationPostValidate | MigrationSwitch | MigrationCommit | MigrationCleanup
  | MigrationCompleted | MigrationFailed | MigrationRollingBack | MigrationRolledBack
  | MigrationCancelled

fun migration_transitions :: "migration_stage \<Rightarrow> migration_stage list" where
  "migration_transitions MigrationCreated = [MigrationDiscover, MigrationFailed, MigrationCancelled]"
| "migration_transitions MigrationDiscover =
     [MigrationValidate, MigrationRollingBack, MigrationFailed, MigrationCancelled]"
| "migration_transitions MigrationValidate =
     [MigrationSnapshot, MigrationRollingBack, MigrationFailed, MigrationCancelled]"
| "migration_transitions MigrationSnapshot =
     [MigrationPrepare, MigrationTransfer, MigrationRollingBack, MigrationFailed, MigrationCancelled]"
| "migration_transitions MigrationPrepare =
     [MigrationTransfer, MigrationRollingBack, MigrationFailed, MigrationCancelled]"
| "migration_transitions MigrationTransfer =
     [MigrationVerify, MigrationRollingBack, MigrationFailed, MigrationCancelled]"
| "migration_transitions MigrationVerify =
     [MigrationRestore, MigrationRollingBack, MigrationFailed, MigrationCancelled]"
| "migration_transitions MigrationRestore =
     [MigrationPostValidate, MigrationFailed, MigrationRollingBack, MigrationCancelled]"
| "migration_transitions MigrationPostValidate =
     [MigrationSwitch, MigrationRollingBack, MigrationFailed, MigrationCancelled]"
| "migration_transitions MigrationSwitch =
     [MigrationCommit, MigrationRollingBack, MigrationFailed, MigrationCancelled]"
| "migration_transitions MigrationCommit =
     [MigrationCleanup, MigrationRollingBack, MigrationFailed, MigrationCancelled]"
| "migration_transitions MigrationCleanup = [MigrationCompleted, MigrationFailed, MigrationCancelled]"
| "migration_transitions MigrationFailed = []"
| "migration_transitions MigrationRollingBack =
     [MigrationRolledBack, MigrationFailed, MigrationCancelled]"
| "migration_transitions MigrationCompleted = []"
| "migration_transitions MigrationRolledBack = []"
| "migration_transitions MigrationCancelled = []"

definition can_transition :: "migration_stage \<Rightarrow> migration_stage \<Rightarrow> bool" where
  "can_transition from to \<longleftrightarrow> to \<in> set (migration_transitions from)"

section \<open>The migration record\<close>

datatype migration_mode = MigrationCold | MigrationLive

record destination =
  ds_machine_id :: string
  ds_agent_url :: string
  ds_server_name :: string
  ds_route :: string
  ds_relay_endpoint :: string
  ds_relay_ticket :: string

record port_mapping =
  pm_protocol :: string
  pm_container_port :: int
  pm_host_port :: int

record network_plan =
  np_policy :: network_policy
  np_identity_ip :: string
  np_ports :: "port_mapping list"
  np_sockets_carried :: bool
  np_drain_before_checkpoint :: bool

record compatibility_issue =
  ci_code :: string
  ci_error :: bool

record compatibility_report =
  cr_compatible :: bool
  cr_issues :: "compatibility_issue list"

record migration_metrics =
  mm_total_state_bytes :: int
  mm_transferred_bytes :: int
  mm_deduplicated_bytes :: int
  mm_pre_copy_bytes :: int
  mm_checkpoint_duration :: duration
  mm_restore_duration :: duration
  mm_downtime :: duration
  mm_transfer_duration :: duration

text \<open>Failure codes are the persisted strings; \<open>NoFailure\<close> is the empty one.\<close>

datatype failure_code = NoFailure | STATE_PERSIST_FAILED | WORKLOAD_NOT_FOUND
  | DESTINATION_CLIENT_FAILED | DESTINATION_UNREACHABLE | DESTINATION_IS_SOURCE
  | DESTINATION_IDENTITY_MISMATCH | SOURCE_INVENTORY_FAILED | DESTINATION_INCOMPATIBLE
  | NETWORK_PLAN_INVALID | CHECKPOINT_FAILED | DESTINATION_RESERVATION_FAILED
  | KEY_EXPORT_FAILED | KEY_TRANSFER_FAILED | CHUNK_TRANSFER_FAILED | MANIFEST_TRANSFER_FAILED
  | DESTINATION_VERIFY_FAILED | DESTINATION_RESTORE_FAILED | DESTINATION_VALIDATION_FAILED
  | DESTINATION_COMMIT_FAILED | SOURCE_CLEANUP_FAILED | MIGRATION_CANCELLED | AGENT_RESTARTED

datatype msg = MigrationCreatedNote | StageNote migration_stage | NetworkPlanNote
  | DrainedNote | ReservedNote | ProgressNote | CleanupAttentionNote | CompletedNote
  | CompletedPreservedNote | SettledNote | RollingBackNote | ResumeRollbackNote
  | RolledBackNote | UnconfirmedNote | IncompleteNote | CancelledNote
  | NoReservationNote | ProbeFailedNote
  | CauseNote failure_code | RollbackFailedNote | NoClientNote | ResumeFailedNote
  | ThawedUnconfirmedNote | LeftDrainedNote | StopFailedNote

record migration_event =
  ev_sequence :: nat
  ev_stage :: migration_stage
  ev_message :: msg
  ev_timestamp :: time
  ev_progress :: rat
  ev_bytes_done :: int
  ev_bytes_total :: int

record migration =
  m_id :: string
  m_idempotency_key :: string
  m_workload_id :: string
  m_checkpoint_id :: string
  m_source_machine_id :: string
  m_destination :: destination
  m_mode :: migration_mode
  m_pre_copy_passes :: int
  m_stage :: migration_stage
  m_compatibility :: compatibility_report
  m_network :: network_plan
  m_metrics :: migration_metrics
  m_events :: "migration_event list"
  m_created_at :: time
  m_updated_at :: time
  m_completed_at :: "time option"
  m_failure_code :: failure_code
  m_failure_reason :: "msg list"
  m_source_preserved :: bool
  m_revision :: nat

definition terminal :: "migration_stage \<Rightarrow> bool" where
  "terminal s \<longleftrightarrow> s = MigrationCompleted \<or> s = MigrationRolledBack \<or> s = MigrationCancelled \<or> s = MigrationFailed"

text \<open>\<open>Migration.Transition\<close>, at instant \<open>now\<close>; \<open>None\<close> is the refusal.\<close>

definition transition :: "time \<Rightarrow> migration_stage \<Rightarrow> msg \<Rightarrow> rat \<Rightarrow> migration \<Rightarrow> migration option" where
  "transition now to message progress m =
     (if \<not> can_transition (m_stage m) to then None
      else Some (m\<lparr>m_stage := to, m_updated_at := now, m_revision := m_revision m + 1,
        m_events := m_events m @ [\<lparr>ev_sequence = length (m_events m) + 1, ev_stage = to,
           ev_message = message, ev_timestamp = now, ev_progress = progress,
           ev_bytes_done = 0, ev_bytes_total = 0\<rparr>],
        m_completed_at := (if terminal to then Some now else m_completed_at m)\<rparr>))"

text \<open>
  \<open>appendEvent\<close> of \<^verbatim>\<open>src/internal/migration/orchestrator.go\<close>: a progress event, with the history cut
  back to its last 256 events.
\<close>

definition append_event :: "time \<Rightarrow> msg \<Rightarrow> rat \<Rightarrow> int \<Rightarrow> int \<Rightarrow> migration \<Rightarrow> migration" where
  "append_event now message progress bytes_done bytes_total m =
     (let evs = m_events m @ [\<lparr>ev_sequence = length (m_events m) + 1, ev_stage = m_stage m,
           ev_message = message, ev_timestamp = now, ev_progress = progress,
           ev_bytes_done = bytes_done, ev_bytes_total = bytes_total\<rparr>]
      in m\<lparr>m_events := (if length evs > 256 then drop (length evs - 256) evs else evs)\<rparr>)"

definition migration_progress :: "migration_stage \<Rightarrow> rat" where
  "migration_progress s = (case s of
      MigrationDiscover \<Rightarrow> 3/100 | MigrationValidate \<Rightarrow> 8/100 | MigrationSnapshot \<Rightarrow> 12/100
    | MigrationPrepare \<Rightarrow> 28/100 | MigrationTransfer \<Rightarrow> 32/100 | MigrationVerify \<Rightarrow> 72/100
    | MigrationRestore \<Rightarrow> 80/100 | MigrationPostValidate \<Rightarrow> 90/100 | MigrationSwitch \<Rightarrow> 94/100
    | MigrationCommit \<Rightarrow> 97/100 | MigrationCleanup \<Rightarrow> 99/100 | _ \<Rightarrow> 0)"


section \<open>Properties of the stage machine\<close>

fun stage_rank :: "migration_stage \<Rightarrow> nat" where
  "stage_rank MigrationCreated = 0"
| "stage_rank MigrationDiscover = 1"
| "stage_rank MigrationValidate = 2"
| "stage_rank MigrationSnapshot = 3"
| "stage_rank MigrationPrepare = 4"
| "stage_rank MigrationTransfer = 5"
| "stage_rank MigrationVerify = 6"
| "stage_rank MigrationRestore = 7"
| "stage_rank MigrationPostValidate = 8"
| "stage_rank MigrationSwitch = 9"
| "stage_rank MigrationCommit = 10"
| "stage_rank MigrationCleanup = 11"
| "stage_rank MigrationRollingBack = 12"
| "stage_rank _ = 13"

lemma can_transition_rank: "can_transition s t \<Longrightarrow> stage_rank s < stage_rank t"
  by (cases s) (auto simp: can_transition_def)

lemma terminal_iff_stuck: "terminal s \<longleftrightarrow> migration_transitions s = []"
  by (cases s) (auto simp: terminal_def)

text \<open>A history: the stages a record goes through, from its first one.\<close>

inductive stage_path :: "migration_stage \<Rightarrow> migration_stage list \<Rightarrow> migration_stage \<Rightarrow> bool" where
  path_here: "stage_path s [] s"
| path_step: "can_transition s t \<Longrightarrow> stage_path t ts u \<Longrightarrow> stage_path s (t # ts) u"

inductive_cases stage_path_NilE: "stage_path s [] u"
inductive_cases stage_path_ConsE: "stage_path s (t # ts) u"

lemma stage_path_rank: "stage_path s ts u \<Longrightarrow> stage_rank s + length ts \<le> stage_rank u"
  by (induction rule: stage_path.induct) (auto dest: can_transition_rank)

lemma stage_rank_le: "stage_rank s \<le> 13"
  by (cases s) auto

lemma reaches_terminal: "\<exists>ts u. stage_path s ts u \<and> terminal u"
proof (cases "terminal s")
  case True
  then show ?thesis by (blast intro: path_here)
next
  case False
  then have "can_transition s MigrationFailed"
    by (cases s) (auto simp: can_transition_def terminal_def)
  then have "stage_path s [MigrationFailed] MigrationFailed"
    by (blast intro: path_here path_step)
  then show ?thesis by (auto simp: terminal_def)
qed

text \<open>
  C33.  The stage machine cannot loop and cannot wedge: every history has at most thirteen
  transitions, exactly the terminal stages have no way on, and from every stage a terminal one is
  reachable.
\<close>

theorem stage_machine_terminates:
  "(\<forall>ts u. stage_path s ts u \<longrightarrow> length ts \<le> 13)
   \<and> (terminal s \<longleftrightarrow> (\<forall>t. \<not> can_transition s t))
   \<and> (\<exists>ts u. stage_path s ts u \<and> terminal u)"
proof (intro conjI allI impI)
  fix ts u assume "stage_path s ts u"
  then show "length ts \<le> 13" using stage_path_rank [of s ts u] stage_rank_le [of u] by simp
next
  show "terminal s \<longleftrightarrow> (\<forall>t. \<not> can_transition s t)"
    by (cases "migration_transitions s") (auto simp: terminal_iff_stuck can_transition_def)
qed (rule reaches_terminal)

theorem stage_machine_terminates_witness:
  "length [MigrationDiscover, MigrationRollingBack, MigrationRolledBack] \<le> 13"
proof -
  have "stage_path MigrationCreated [MigrationDiscover, MigrationRollingBack, MigrationRolledBack] MigrationRolledBack"
    by (auto intro!: stage_path.intros simp: can_transition_def)
  with stage_machine_terminates [of MigrationCreated] show ?thesis by blast
qed

text \<open>The only way into each stage of the commit pipeline is from the stage before it.\<close>

definition pipeline_before :: "migration_stage \<Rightarrow> migration_stage option" where
  "pipeline_before s = (case s of
      MigrationCompleted \<Rightarrow> Some MigrationCleanup | MigrationCleanup \<Rightarrow> Some MigrationCommit
    | MigrationCommit \<Rightarrow> Some MigrationSwitch | MigrationSwitch \<Rightarrow> Some MigrationPostValidate
    | MigrationPostValidate \<Rightarrow> Some MigrationRestore | MigrationRestore \<Rightarrow> Some MigrationVerify
    | MigrationVerify \<Rightarrow> Some MigrationTransfer | _ \<Rightarrow> None)"

lemma pipeline_unique: "pipeline_before t = Some p \<Longrightarrow> can_transition s t \<Longrightarrow> s = p"
  by (cases t; cases s) (auto simp: pipeline_before_def can_transition_def)

lemma stage_path_snoc:
  "stage_path s ts u \<Longrightarrow> ts \<noteq> [] \<Longrightarrow>
     \<exists>v. stage_path s (butlast ts) v \<and> can_transition v u \<and> last ts = u"
proof (induction rule: stage_path.induct)
  case (path_here s)
  then show ?case by simp
next
  case (path_step s t ts u)
  show ?case
  proof (cases ts)
    case Nil
    with path_step show ?thesis by (auto elim: stage_path_NilE intro: stage_path.path_here)
  next
    case (Cons a as)
    with path_step.IH obtain v where "stage_path t (butlast ts) v" "can_transition v u" "last ts = u"
      by auto
    moreover from this have "stage_path s (t # butlast ts) v"
      by (intro stage_path.path_step path_step.hyps(1))
    ultimately show ?thesis using Cons by auto
  qed
qed

lemma stage_path_through:
  assumes "stage_path MigrationCreated ts u" and "pipeline_before u = Some p"
  shows "\<exists>ts'. ts = ts' @ [u] \<and> stage_path MigrationCreated ts' p"
proof -
  have "ts \<noteq> []"
    using assms by (auto elim!: stage_path_NilE simp: pipeline_before_def)
  with stage_path_snoc [OF assms(1)] pipeline_unique [OF assms(2)] show ?thesis
    by (metis append_butlast_last_id)
qed



section \<open>Properties of the record\<close>

lemma transition_Some:
  "transition now to msg pr m = Some m' \<Longrightarrow> can_transition (m_stage m) to \<and> m_stage m' = to
     \<and> m_workload_id m' = m_workload_id m \<and> m_id m' = m_id m \<and> m_revision m' = m_revision m + 1
     \<and> m_source_preserved m' = m_source_preserved m \<and> m_failure_code m' = m_failure_code m"
  by (auto simp: transition_def split: if_splits)

text \<open>A record is closed exactly when it is in a terminal stage.\<close>

definition completion_recorded :: "migration \<Rightarrow> bool" where
  "completion_recorded m \<longleftrightarrow> (m_completed_at m \<noteq> None \<longleftrightarrow> terminal (m_stage m))"

definition events_numbered :: "migration \<Rightarrow> bool" where
  "events_numbered m \<longleftrightarrow> map ev_sequence (m_events m) = [1..<length (m_events m) + 1]"

lemma append_event_short:
  "length (m_events m) < 256 \<Longrightarrow> events_numbered m \<Longrightarrow> events_numbered (append_event now msg pr x y m)"
  by (simp add: events_numbered_def append_event_def Let_def)


definition sample_metrics :: migration_metrics where
  "sample_metrics = \<lparr>mm_total_state_bytes = 0, mm_transferred_bytes = 0, mm_deduplicated_bytes = 0,
     mm_pre_copy_bytes = 0, mm_checkpoint_duration = 0, mm_restore_duration = 0, mm_downtime = 0,
     mm_transfer_duration = 0\<rparr>"

definition sample_destination :: destination where
  "sample_destination = \<lparr>ds_machine_id = [], ds_agent_url = ''https://b:8443'', ds_server_name = ''b'',
     ds_route = [], ds_relay_endpoint = [], ds_relay_ticket = []\<rparr>"

definition sample_plan :: network_plan where
  "sample_plan = \<lparr>np_policy = NetworkReconnect, np_identity_ip = ''100.64.0.1'', np_ports = [],
     np_sockets_carried = False, np_drain_before_checkpoint = False\<rparr>"

definition sample_migration :: migration where
  "sample_migration = \<lparr>m_id = ''m1'', m_idempotency_key = [], m_workload_id = ''w1'', m_checkpoint_id = [],
     m_source_machine_id = ''src'', m_destination = sample_destination, m_mode = MigrationCold,
     m_pre_copy_passes = 0, m_stage = MigrationCreated,
     m_compatibility = \<lparr>cr_compatible = False, cr_issues = []\<rparr>, m_network = sample_plan,
     m_metrics = sample_metrics,
     m_events = [\<lparr>ev_sequence = 1, ev_stage = MigrationCreated, ev_message = MigrationCreatedNote,
        ev_timestamp = 5, ev_progress = 0, ev_bytes_done = 0, ev_bytes_total = 0\<rparr>],
     m_created_at = 5, m_updated_at = 5, m_completed_at = None, m_failure_code = NoFailure,
     m_failure_reason = [], m_source_preserved = True, m_revision = 1\<rparr>"


text \<open>
  Once a history has been cut back to 256 events its numbering restarts at every step: each
  further progress event carries the sequence number 257, so sequence numbers no longer identify
  events.
\<close>

theorem event_sequence_repeats_after_cut:
  assumes "length (m_events m) = 256"
  shows "let m1 = append_event t1 n1 p1 x1 y1 m; m2 = append_event t2 n2 p2 x2 y2 m1
         in length (m_events m2) = 256
          \<and> ev_sequence (m_events m2 ! 254) = 257 \<and> ev_sequence (m_events m2 ! 255) = 257"
  using assms by (simp add: append_event_def Let_def nth_append)

theorem event_sequence_repeats_after_cut_witness:
  "let m = sample_migration\<lparr>m_events := replicate 256 (hd (m_events sample_migration))\<rparr>;
       m2 = append_event 7 ProgressNote 0 0 0 (append_event 6 ProgressNote 0 0 0 m)
   in ev_sequence (m_events m2 ! 254) = 257 \<and> ev_sequence (m_events m2 ! 255) = 257"
  using event_sequence_repeats_after_cut
    [of "sample_migration\<lparr>m_events := replicate 256 (hd (m_events sample_migration))\<rparr>"
        6 ProgressNote 0 0 0 7 ProgressNote 0 0 0]
  by (simp add: Let_def)

end
