(* ===== verification/Transfer_Session.thy ===== *)
theory Transfer_Session
  imports Shift_Prelude
begin

text \<open>
  \<^verbatim>\<open>src/internal/transfer/session.go\<close>: the incoming-transfer sessions of a destination agent.
  Each operation is one critical section of the session store's mutex; \<open>now\<close> is the clock it
  reads and \<open>put_ok\<close> whether the collection write lands.
\<close>

section \<open>Sessions\<close>

datatype session_state = SessionReserved | SessionKeyReady | SessionManifestReady | SessionVerified
  | SessionHeld | SessionRestored | SessionCommitted | SessionRolledBack | SessionFailed

datatype session_failure = NoSessionFailure | ReservationExpiredReason | RestoreErrorReason

record session =
  ss_id :: string
  ss_source :: string
  ss_workload :: string
  ss_organization :: string
  ss_checkpoint_id :: string
  ss_key_version :: nat
  ss_state :: session_state
  ss_estimated :: int
  ss_received :: int
  ss_attempted :: int
  ss_restore_id :: string
  ss_purpose :: string
  ss_source_url :: string
  ss_keep_last :: int
  ss_fencing :: string
  ss_created :: time
  ss_updated :: time
  ss_expires :: time
  ss_failure :: session_failure

type_synonym sessions = "session store"

datatype session_error = SessionFieldsRequired | UnknownPurpose | BoundElsewhere | BoundPurpose
  | ExpiredOrUsed | SessionNotFound | OtherSource | ReservationExpired | WrongState
  | TransferQuota | AlreadyCommitted | AlreadyHeld | SessionPersist

definition purpose_replication :: string where
  "purpose_replication = ''replication''"

definition valid_purpose :: "string \<Rightarrow> bool" where
  "valid_purpose p \<longleftrightarrow> p = [] \<or> p = purpose_replication"

section \<open>Quotas\<close>

definition default_estimated_bytes :: int where
  "default_estimated_bytes = 2 ^ 30"

definition quota_limit :: "int \<Rightarrow> int" where
  "quota_limit estimated =
     (let e = (if estimated \<le> 0 then default_estimated_bytes else estimated) in i64 (e + e div 20))"

definition attempt_limit :: "int \<Rightarrow> int" where
  "attempt_limit estimated =
     (let e = (if estimated \<le> 0 then default_estimated_bytes else estimated)
      in i64 (i64 (3 * e) + 96 * 2 ^ 20))"

section \<open>Expiry\<close>

definition session_expired :: "session \<Rightarrow> time \<Rightarrow> bool" where
  "session_expired s now \<longleftrightarrow>
     ss_expires s < now \<and> ss_state s \<noteq> SessionCommitted \<and> ss_state s \<noteq> SessionRolledBack"

definition terminal_state :: "session_state \<Rightarrow> bool" where
  "terminal_state st \<longleftrightarrow> st = SessionCommitted \<or> st = SessionRolledBack \<or> st = SessionFailed"

definition reap_session :: "time \<Rightarrow> session \<Rightarrow> session" where
  "reap_session now s = s\<lparr>ss_state := SessionFailed, ss_failure := ReservationExpiredReason, ss_updated := now\<rparr>"

text \<open>
  \<open>ReapExpired\<close>: the number marked, the sessions whose restore the handler must roll back, and
  the store.  \<open>put_ok\<close> says for each session id whether its mark is persisted.
\<close>

fun reap_list :: "time \<Rightarrow> (string \<Rightarrow> bool) \<Rightarrow> session list \<Rightarrow> sessions \<Rightarrow> nat \<times> session list \<times> sessions" where
  "reap_list now put_ok [] st = (0, [], st)"
| "reap_list now put_ok (s # rest) st =
     (if \<not> session_expired s now then reap_list now put_ok rest st
      else let s' = reap_session now s in
        if \<not> put_ok (ss_id s) then reap_list now put_ok rest st
        else case reap_list now put_ok rest (st_put (ss_id s) s' st) of
               (n, restored, st') \<Rightarrow>
                 (n + 1, if ss_restore_id s' \<noteq> [] then s' # restored else restored, st'))"

definition reap_expired :: "time \<Rightarrow> (string \<Rightarrow> bool) \<Rightarrow> sessions \<Rightarrow> nat \<times> session list \<times> sessions" where
  "reap_expired now put_ok st = reap_list now put_ok (st_list st) st"

section \<open>Operations\<close>

definition sessions_reserve ::
  "time \<Rightarrow> bool \<Rightarrow> session \<Rightarrow> sessions \<Rightarrow> (session_error, session) outcome \<times> sessions" where
  "sessions_reserve now put_ok s st =
     (if ss_id s = [] \<or> ss_source s = [] \<or> ss_workload s = [] then (Inl SessionFieldsRequired, st)
      else if \<not> valid_purpose (ss_purpose s) then (Inl UnknownPurpose, st)
      else case st_get st (ss_id s) of
        Some existing \<Rightarrow>
          if ss_source existing \<noteq> ss_source s \<or> ss_workload existing \<noteq> ss_workload s
          then (Inl BoundElsewhere, st)
          else if ss_purpose existing \<noteq> ss_purpose s then (Inl BoundPurpose, st)
          else if session_expired existing now \<or> terminal_state (ss_state existing)
          then (Inl ExpiredOrUsed, st)
          else (Inr existing, st)
      | None \<Rightarrow>
          let s' = s\<lparr>ss_state := SessionReserved, ss_created := now, ss_updated := now,
                ss_estimated := (if ss_estimated s \<le> 0 then default_estimated_bytes else ss_estimated s),
                ss_expires := (if IsZero (ss_expires s) \<or> ss_expires s > now + hours 24
                               then now + hours 2 else ss_expires s)\<rparr>
          in if put_ok then (Inr s', st_put (ss_id s') s' st) else (Inl SessionPersist, st))"

definition sessions_update ::
  "time \<Rightarrow> bool \<Rightarrow> string \<Rightarrow> string \<Rightarrow> (session \<Rightarrow> (session_error, session) outcome) \<Rightarrow> sessions
     \<Rightarrow> (session_error, session) outcome \<times> sessions" where
  "sessions_update now put_ok k source f st =
     (case st_get st k of
        None \<Rightarrow> (Inl SessionNotFound, st)
      | Some s \<Rightarrow>
          if ss_source s \<noteq> source then (Inl OtherSource, st)
          else if session_expired s now then (Inl ReservationExpired, st)
          else case f s of
            Inl e \<Rightarrow> (Inl e, st)
          | Inr s' \<Rightarrow>
              let s'' = s'\<lparr>ss_updated := now\<rparr>
              in if put_ok then (Inr s'', st_put k s'' st) else (Inl SessionPersist, st))"

definition sessions_get :: "time \<Rightarrow> string \<Rightarrow> string \<Rightarrow> sessions \<Rightarrow> (session_error, session) outcome" where
  "sessions_get now k source st =
     (case st_get st k of
        None \<Rightarrow> Inl SessionNotFound
      | Some s \<Rightarrow>
          if ss_source s \<noteq> source then Inl OtherSource
          else if session_expired s now then Inl ReservationExpired
          else Inr s)"

definition sessions_update_cleanup ::
  "time \<Rightarrow> bool \<Rightarrow> string \<Rightarrow> string \<Rightarrow> (session \<Rightarrow> (session_error, session) outcome) \<Rightarrow> sessions
     \<Rightarrow> (session_error, session) outcome \<times> sessions" where
  "sessions_update_cleanup now put_ok k source f st =
     (case st_get st k of
        None \<Rightarrow> (Inl SessionNotFound, st)
      | Some s \<Rightarrow>
          if ss_source s \<noteq> source then (Inl OtherSource, st)
          else case f s of
            Inl e \<Rightarrow> (Inl e, st)
          | Inr s' \<Rightarrow>
              let s'' = s'\<lparr>ss_updated := now\<rparr>
              in if put_ok then (Inr s'', st_put k s'' st) else (Inl SessionPersist, st))"

definition sessions_get_for_cleanup :: "string \<Rightarrow> string \<Rightarrow> sessions \<Rightarrow> (session_error, session) outcome" where
  "sessions_get_for_cleanup k source st =
     (case st_get st k of
        None \<Rightarrow> Inl SessionNotFound
      | Some s \<Rightarrow> if ss_source s \<noteq> source then Inl OtherSource else Inr s)"

definition require_state :: "session \<Rightarrow> session_state list \<Rightarrow> (session_error, unit) outcome" where
  "require_state s allowed = (if ss_state s \<in> set allowed then Inr () else Inl WrongState)"

section \<open>Facts about single operations\<close>

definition sessions_ok :: "sessions \<Rightarrow> bool" where
  "sessions_ok st \<longleftrightarrow> st_ok st \<and> (\<forall>k s. st_get st k = Some s \<longrightarrow> ss_id s = k)"

lemma sessions_get_Inr:
  "sessions_get now k source st = Inr s \<longleftrightarrow>
     st_get st k = Some s \<and> ss_source s = source \<and> \<not> session_expired s now"
  by (auto simp: sessions_get_def split: option.splits)

lemma sessions_get_for_cleanup_Inr:
  "sessions_get_for_cleanup k source st = Inr s \<longleftrightarrow> st_get st k = Some s \<and> ss_source s = source"
  by (auto simp: sessions_get_for_cleanup_def split: option.splits)

lemma sessions_update_shape:
  assumes "sessions_update now ok k source f st = (r, st')"
  shows "(\<exists>e. r = Inl e) \<and> st' = st
   \<or> (\<exists>s s'. st_get st k = Some s \<and> ss_source s = source \<and> \<not> session_expired s now \<and> f s = Inr s'
        \<and> r = Inr (s'\<lparr>ss_updated := now\<rparr>) \<and> st' = st_put k (s'\<lparr>ss_updated := now\<rparr>) st)"
  using assms
  by (auto simp: sessions_update_def Let_def split: option.splits if_splits sum.splits) metis

lemma sessions_update_cleanup_shape:
  assumes "sessions_update_cleanup now ok k source f st = (r, st')"
  shows "(\<exists>e. r = Inl e) \<and> st' = st
   \<or> (\<exists>s s'. st_get st k = Some s \<and> ss_source s = source \<and> f s = Inr s'
        \<and> r = Inr (s'\<lparr>ss_updated := now\<rparr>) \<and> st' = st_put k (s'\<lparr>ss_updated := now\<rparr>) st)"
  using assms
  by (auto simp: sessions_update_cleanup_def Let_def split: option.splits if_splits sum.splits) metis

lemma sessions_reserve_shape:
  assumes "sessions_reserve now ok s st = (r, st')"
  shows "(\<exists>e. r = Inl e) \<and> st' = st
   \<or> (\<exists>s'. st_get st (ss_id s) = Some s' \<and> r = Inr s' \<and> st' = st
        \<and> \<not> terminal_state (ss_state s') \<and> \<not> session_expired s' now)
   \<or> (\<exists>s'. st_get st (ss_id s) = None \<and> r = Inr s' \<and> st' = st_put (ss_id s) s' st
        \<and> ss_state s' = SessionReserved \<and> ss_restore_id s' = ss_restore_id s \<and> ss_id s' = ss_id s)"
  using assms
  by (simp add: sessions_reserve_def Let_def split: option.splits if_splits) auto

section \<open>Reaping\<close>

lemma st_put_present:
  "st_ok st \<Longrightarrow> st_get st k = Some u \<Longrightarrow> st_put k v st = map (\<lambda>(k', v'). (k', if k' = k then v else v')) st"
proof (induction k v st rule: st_put.induct)
  case (1 k v)
  then show ?case by simp
next
  case (2 k v k' v' s)
  have above: "\<forall>p \<in> set s. k' < fst p" and s: "st_ok s"
    using "2.prems"(1) by (auto simp: st_ok_def)
  consider "k < k'" | "k = k'" | "k' < k" by (meson linorder_less_linear)
  then show ?case
  proof cases
    case 1
    then have "st_get ((k', v') # s) k = None"
      using above by (auto simp: st_get_def map_of_eq_None_iff) 
    with "2.prems" show ?thesis by simp
  next
    case eq: 2
    have "map (\<lambda>(k'', v''). (k'', if k'' = k then v else v'')) s = s"
      using above eq by (intro map_idI) auto
    with eq show ?thesis by simp
  next
    case 3
    with "2.prems" have "st_get s k = Some u" by (auto simp: st_get_def split: if_splits)
    with 3 "2.IH" s show ?thesis by auto
  qed
qed

text \<open>The sessions one sweep marks.\<close>

definition reapable :: "time \<Rightarrow> (string \<Rightarrow> bool) \<Rightarrow> session \<Rightarrow> bool" where
  "reapable now put_ok s \<longleftrightarrow> session_expired s now \<and> put_ok (ss_id s)"

lemma reap_list_eq:
  assumes "st_ok st" and "distinct (map ss_id xs)" and "\<forall>x \<in> set xs. st_get st (ss_id x) = Some x"
  shows "reap_list now ok xs st =
     (length (filter (reapable now ok) xs),
      map (reap_session now) (filter (\<lambda>s. reapable now ok s \<and> ss_restore_id s \<noteq> []) xs),
      map (\<lambda>(k, s). (k, if \<exists>x \<in> set xs. ss_id x = k \<and> reapable now ok x then reap_session now s else s)) st)"
  using assms
proof (induction xs arbitrary: st)
  case Nil
  then show ?case by (simp add: case_prod_unfold)
next
  case (Cons x xs)
  show ?case
  proof (cases "reapable now ok x")
    case False
    then show ?thesis using Cons by (auto simp: reapable_def)
  next
    case True
    let ?st = "st_put (ss_id x) (reap_session now x) st"
    have st: "?st = map (\<lambda>(k, s). (k, if k = ss_id x then reap_session now x else s)) st"
      using Cons.prems by (intro st_put_present) auto
    have dist: "distinct (map fst st)"
      using Cons.prems(1) by (simp add: st_ok_def strict_sorted_iff)
    have x: "s = x" if "(ss_id x, s) \<in> set st" for s
      using map_of_is_SomeI [OF dist that] bspec [OF Cons.prems(3), of x] by (simp add: st_get_def)
    have "\<forall>y \<in> set xs. st_get ?st (ss_id y) = Some y"
    proof
      fix y assume y: "y \<in> set xs"
      with Cons.prems(2) have "ss_id y \<noteq> ss_id x" by (metis distinct.simps(2) image_eqI list.map(2) list.set_map)
      with y bspec [OF Cons.prems(3), of y] show "st_get ?st (ss_id y) = Some y" by simp
    qed
    then have IH: "reap_list now ok xs ?st =
     (length (filter (reapable now ok) xs),
      map (reap_session now) (filter (\<lambda>s. reapable now ok s \<and> ss_restore_id s \<noteq> []) xs),
      map (\<lambda>(k, s). (k, if \<exists>x \<in> set xs. ss_id x = k \<and> reapable now ok x then reap_session now s else s)) ?st)"
      using Cons.prems by (intro Cons.IH) auto
    have "map (\<lambda>(k, s). (k, if \<exists>x \<in> set xs. ss_id x = k \<and> reapable now ok x then reap_session now s else s)) ?st
        = map (\<lambda>(k, s). (k, if \<exists>y \<in> set (x # xs). ss_id y = k \<and> reapable now ok y then reap_session now s else s)) st"
      unfolding st using True Cons.prems(2) by (auto simp: reap_session_def dest!: x)
    moreover from True have "session_expired x now" "ok (ss_id x)" by (simp_all add: reapable_def)
    moreover have "ss_restore_id (reap_session now x) = ss_restore_id x" by (simp add: reap_session_def)
    ultimately show ?thesis using True IH by (simp add: Let_def)
  qed
qed

lemma reap_expired_eq:
  assumes "sessions_ok st"
  shows "reap_expired now ok st =
     (length (filter (reapable now ok) (st_list st)),
      map (reap_session now) (filter (\<lambda>s. reapable now ok s \<and> ss_restore_id s \<noteq> []) (st_list st)),
      map (\<lambda>(k, s). (k, if reapable now ok s then reap_session now s else s)) st)"
proof -
  have dist: "distinct (map fst st)" and ids: "\<And>k s. (k, s) \<in> set st \<Longrightarrow> ss_id s = k"
    using assms by (auto simp: sessions_ok_def st_ok_def strict_sorted_iff st_get_def intro: map_of_is_SomeI)
  have m: "map ss_id (st_list st) = map fst st"
    using ids by (auto simp: st_list_def)
  have "\<forall>x \<in> set (st_list st). st_get st (ss_id x) = Some x"
    using dist ids by (auto simp: st_list_def st_get_def)
  then have "reap_expired now ok st =
     (length (filter (reapable now ok) (st_list st)),
      map (reap_session now) (filter (\<lambda>s. reapable now ok s \<and> ss_restore_id s \<noteq> []) (st_list st)),
      map (\<lambda>(k, s). (k, if \<exists>x \<in> set (st_list st). ss_id x = k \<and> reapable now ok x then reap_session now s else s)) st)"
    unfolding reap_expired_def using assms dist m by (intro reap_list_eq) (auto simp: sessions_ok_def)
  moreover have "(\<exists>x \<in> set (st_list st). ss_id x = k \<and> reapable now ok x) = reapable now ok s"
    if ks: "(k, s) \<in> set st" for k s
  proof
    assume "\<exists>x \<in> set (st_list st). ss_id x = k \<and> reapable now ok x"
    then obtain k' x where "(k', x) \<in> set st" "ss_id x = k" "reapable now ok x"
      by (auto simp: st_list_def)
    with ids have "(k, x) \<in> set st" by fastforce
    with ks dist have "x = s" by (metis eq_key_imp_eq_value)
    with \<open>reapable now ok x\<close> show "reapable now ok s" by simp
  next
    assume "reapable now ok s"
    with ks ids show "\<exists>x \<in> set (st_list st). ss_id x = k \<and> reapable now ok x"
      by (force simp: st_list_def)
  qed
  ultimately show ?thesis by (auto intro!: map_cong)
qed


lemma st_get_map: "st_get (map (\<lambda>(k, s). (k, f s)) st) k = map_option f (st_get st k)"
  by (simp add: st_get_def map_of_map)

lemma st_list_map: "st_list (map (\<lambda>(k, s). (k, f s)) st) = map f (st_list st)"
  by (auto simp: st_list_def)

lemma reap_session_fields [simp]:
  "ss_id (reap_session now s) = ss_id s" "ss_restore_id (reap_session now s) = ss_restore_id s"
  "ss_expires (reap_session now s) = ss_expires s" "ss_state (reap_session now s) = SessionFailed"
  by (simp_all add: reap_session_def)

lemma st_ok_map: "st_ok (map (\<lambda>(k, s). (k, f s)) st) = st_ok st"
  by (simp add: st_ok_def comp_def case_prod_unfold)

lemma sessions_ok_reap:
  assumes "sessions_ok st" shows "sessions_ok (snd (snd (reap_expired now ok st)))"
  using assms by (auto simp: reap_expired_eq sessions_ok_def st_ok_map st_get_map split: if_splits)

lemma session_member:
  assumes "sessions_ok st" shows "s \<in> set (st_list st) \<longleftrightarrow> st_get st (ss_id s) = Some s"
  using assms st_list_member [of st s] by (auto simp: sessions_ok_def)

text \<open>
  A sweep marks exactly the expired sessions whose write lands: such a session becomes FAILED,
  every other is untouched; every marked session that had restored a copy is handed to the restore
  handler; and once the writes land, only FAILED sessions are still expired.
\<close>

theorem reap_expired_sweep:
  assumes "sessions_ok st" and "reap_expired now put_ok st = (n, restored, st')"
  shows "(\<forall>k. st_get st' k = map_option (\<lambda>s. if session_expired s now \<and> put_ok k then reap_session now s else s) (st_get st k))
    \<and> n = length (filter (\<lambda>s. session_expired s now \<and> put_ok (ss_id s)) (st_list st))
    \<and> set restored = {reap_session now s | s. st_get st (ss_id s) = Some s \<and> session_expired s now
           \<and> put_ok (ss_id s) \<and> ss_restore_id s \<noteq> []}
    \<and> ((\<forall>i. put_ok i) \<longrightarrow> (\<forall>k s'. st_get st' k = Some s' \<longrightarrow> session_expired s' now \<longrightarrow> ss_state s' = SessionFailed))"
proof -
  have eq: "n = length (filter (reapable now put_ok) (st_list st))"
    "restored = map (reap_session now) (filter (\<lambda>s. reapable now put_ok s \<and> ss_restore_id s \<noteq> []) (st_list st))"
    "st' = map (\<lambda>(k, s). (k, if reapable now put_ok s then reap_session now s else s)) st"
    using assms(2) unfolding reap_expired_eq [OF assms(1)] by simp_all
  have ids: "st_get st k = Some s \<Longrightarrow> ss_id s = k" for k s
    using assms(1) by (simp add: sessions_ok_def)
  have get: "st_get st' k = map_option (\<lambda>s. if session_expired s now \<and> put_ok k then reap_session now s else s) (st_get st k)" for k
    unfolding eq(3) st_get_map using ids by (cases "st_get st k") (auto simp: reapable_def)
  moreover have "n = length (filter (\<lambda>s. session_expired s now \<and> put_ok (ss_id s)) (st_list st))"
    by (simp add: eq(1) reapable_def [abs_def])
  moreover have "set restored = {reap_session now s | s. st_get st (ss_id s) = Some s \<and> session_expired s now
           \<and> put_ok (ss_id s) \<and> ss_restore_id s \<noteq> []}"
    unfolding eq(2) by (auto simp: reapable_def session_member [OF assms(1)])
  moreover have "ss_state s' = SessionFailed"
    if "\<forall>i. put_ok i" "st_get st' k = Some s'" "session_expired s' now" for k s'
    using that get [of k] by (cases "st_get st k") (simp_all split: if_splits, metis reap_session_fields(4))
  ultimately show ?thesis by blast
qed

definition sample_session :: session where
  "sample_session = \<lparr>ss_id = ''t1'', ss_source = ''m1'', ss_workload = ''w1'', ss_organization = [],
     ss_checkpoint_id = ''c1'', ss_key_version = 1, ss_state = SessionRestored, ss_estimated = 1000,
     ss_received = 0, ss_attempted = 0, ss_restore_id = ''r1'', ss_purpose = [], ss_source_url = [],
     ss_keep_last = 0, ss_fencing = [], ss_created = 1, ss_updated = 1, ss_expires = 10,
     ss_failure = NoSessionFailure\<rparr>"

lemma sample_sessions_ok: "sessions_ok [(''t1'', sample_session)]"
  by (auto simp: sessions_ok_def st_ok_def st_get_def sample_session_def)

theorem reap_expired_sweep_witness:
  "reap_expired 20 (\<lambda>_. True) [(''t1'', sample_session)]
     = (1, [reap_session 20 sample_session], [(''t1'', reap_session 20 sample_session)])
   \<and> st_get [(''t1'', reap_session 20 sample_session)] ''t1'' = Some (reap_session 20 sample_session)"
proof -
  have r: "reap_expired 20 (\<lambda>_. True) [(''t1'', sample_session)]
     = (1, [reap_session 20 sample_session], [(''t1'', reap_session 20 sample_session)])"
    by (simp add: reap_expired_def st_list_def session_expired_def sample_session_def reap_session_def Let_def)
  from reap_expired_sweep [OF sample_sessions_ok r] r show ?thesis
    by (simp add: st_get_def session_expired_def sample_session_def)
qed

text \<open>
  FAILED counts as expirable, so a session that a sweep marked is marked, counted and handed to
  the restore handler again by every later sweep: the counts of successive sweeps never fall.
\<close>

theorem reap_expired_recounts:
  assumes "sessions_ok st" and "now \<le> later"
    and "reap_expired now (\<lambda>_. True) st = (n, restored, st')"
    and "reap_expired later (\<lambda>_. True) st' = (n', restored', st'')"
  shows "n \<le> n' \<and> ss_id ` set restored \<subseteq> ss_id ` set restored'"
proof -
  let ?E = "\<lambda>t s. session_expired s t"
  have st': "st' = map (\<lambda>(k, s). (k, if ?E now s then reap_session now s else s)) st"
    and n: "n = length (filter (?E now) (st_list st))"
    and r: "restored = map (reap_session now) (filter (\<lambda>s. ?E now s \<and> ss_restore_id s \<noteq> []) (st_list st))"
    using assms(3) unfolding reap_expired_eq [OF assms(1)] by (simp_all add: reapable_def [abs_def])
  have ok': "sessions_ok st'" using sessions_ok_reap [OF assms(1), of now "\<lambda>_. True"] assms(3) by simp
  have n': "n' = length (filter (?E later) (st_list st'))"
    and r': "restored' = map (reap_session later) (filter (\<lambda>s. ?E later s \<and> ss_restore_id s \<noteq> []) (st_list st'))"
    using assms(4) unfolding reap_expired_eq [OF ok'] by (simp_all add: reapable_def [abs_def])
  have imp: "?E now s \<Longrightarrow> ?E later (if ?E now s then reap_session now s else s)" for s
    using assms(2) by (simp add: session_expired_def)
  have "length (filter (?E now) xs) \<le> length (filter (?E later) (map (\<lambda>s. if ?E now s then reap_session now s else s) xs))" for xs
    using imp by (induction xs) auto
  then have "n \<le> n'" by (simp add: n n' st' st_list_map)
  moreover have "ss_id ` set restored \<subseteq> ss_id ` set restored'"
  proof
    fix i assume "i \<in> ss_id ` set restored"
    then obtain s where s: "s \<in> set (st_list st)" "?E now s" "ss_restore_id s \<noteq> []" "i = ss_id s"
      by (auto simp: r)
    then have "reap_session now s \<in> set (st_list st')" by (force simp: st' st_list_map)
    moreover have "?E later (reap_session now s)" using imp s(2) by fastforce
    ultimately have "reap_session later (reap_session now s) \<in> set restored'" using s by (simp add: r')
    then show "i \<in> ss_id ` set restored'" by (rule rev_image_eqI) (simp add: s(4))
  qed
  ultimately show ?thesis by blast
qed

theorem reap_expired_recounts_witness:
  "reap_expired 30 (\<lambda>_. True) (snd (snd (reap_expired 20 (\<lambda>_. True) [(''t1'', sample_session)])))
     = (1, [reap_session 30 sample_session], [(''t1'', reap_session 30 sample_session)]) \<and> (1::nat) \<le> 1"
proof -
  have 1: "reap_expired 20 (\<lambda>_. True) [(''t1'', sample_session)]
     = (1, [reap_session 20 sample_session], [(''t1'', reap_session 20 sample_session)])"
    by (simp add: reap_expired_def st_list_def session_expired_def sample_session_def reap_session_def Let_def)
  have 2: "reap_expired 30 (\<lambda>_. True) [(''t1'', reap_session 20 sample_session)]
     = (1, [reap_session 30 sample_session], [(''t1'', reap_session 30 sample_session)])"
    by (simp add: reap_expired_def st_list_def session_expired_def sample_session_def reap_session_def Let_def)
  from reap_expired_recounts [OF sample_sessions_ok _ 1 2] 1 2 show ?thesis by simp
qed

end
