(* ===== verification/Go_Strings.thy ===== *)
theory Go_Strings
  imports Shift_Prelude
begin

text \<open>
  The functions of Go's \<^verbatim>\<open>strings\<close>, \<^verbatim>\<open>strconv\<close> and \<^verbatim>\<open>sort\<close> packages the components share.  A
  string is its list of bytes.  Names, commands, versions and identifiers are taken to be ASCII, so
  \<open>TrimSpace\<close>, \<open>ToLower\<close>, \<open>ToUpper\<close> and \<open>EqualFold\<close> are the ASCII cases.  The lemmas are the laws the
  component proofs use: \<open>Split\<close> against \<open>Join\<close>, \<open>Atoi\<close> against \<open>Itoa\<close>, and that trimming and
  changing case are idempotent.
\<close>

section \<open>Spaces and case\<close>

definition is_space :: "char \<Rightarrow> bool" where
  "is_space c \<longleftrightarrow> c = CHR '' '' \<or> (of_char c :: nat) \<in> {9..13}"

definition trim_space :: "string \<Rightarrow> string" where
  "trim_space s = rev (dropWhile is_space (rev (dropWhile is_space s)))"

definition ascii_upper :: "char \<Rightarrow> char" where
  "ascii_upper c = (if CHR ''a'' \<le> c \<and> c \<le> CHR ''z'' then char_of (of_char c - (32 :: nat)) else c)"

definition to_upper :: "string \<Rightarrow> string" where
  "to_upper s = map ascii_upper s"

definition ascii_lower :: "char \<Rightarrow> char" where
  "ascii_lower c = (if CHR ''A'' \<le> c \<and> c \<le> CHR ''Z'' then char_of (of_char c + (32 :: nat)) else c)"

definition to_lower :: "string \<Rightarrow> string" where
  "to_lower s = map ascii_lower s"

definition equal_fold :: "string \<Rightarrow> string \<Rightarrow> bool" where
  "equal_fold a b \<longleftrightarrow> to_upper a = to_upper b"

lemma equal_fold_refl [simp]: "equal_fold a a"
  by (simp add: equal_fold_def)

lemma equal_fold_sym: "equal_fold a b \<longleftrightarrow> equal_fold b a"
  by (auto simp: equal_fold_def)

lemma dropWhile_fixed: "dropWhile P (dropWhile P s) = dropWhile P s"
  by (induction s) auto

lemma dropWhile_kept: "dropWhile P s = s \<longleftrightarrow> s = [] \<or> \<not> P (hd s)"
proof (cases s)
  case (Cons c cs)
  have "dropWhile P cs \<noteq> c # cs" using length_dropWhile_le [of P cs] by (metis impossible_Cons)
  with Cons show ?thesis by auto
qed simp

lemma trim_space_fixed: "s = [] \<or> \<not> is_space (hd s) \<and> \<not> is_space (last s) \<Longrightarrow> trim_space s = s"
  by (cases "s = []") (simp_all add: trim_space_def dropWhile_kept [THEN iffD2] hd_rev)

lemma trim_space_trims: "trim_space s = [] \<or> \<not> is_space (hd (trim_space s)) \<and> \<not> is_space (last (trim_space s))"
proof (cases "trim_space s = []")
  case False
  let ?d = "dropWhile is_space s"
  let ?e = "dropWhile is_space (rev ?d)"
  have e: "?e \<noteq> []" using False by (simp add: trim_space_def)
  have l: "last (trim_space s) = hd ?e" using e by (simp add: trim_space_def last_rev)
  have d: "?d \<noteq> []" using e by (metis dropWhile.simps(1) rev.simps(1))
  have "last ?e = last (rev ?d)" using e by (metis takeWhile_dropWhile_id last_append)
  also have "\<dots> = hd ?d" using d by (simp add: last_rev)
  finally have h: "hd (trim_space s) = hd ?d" by (simp add: trim_space_def hd_rev)
  show ?thesis using e d hd_dropWhile [of is_space "rev ?d"] hd_dropWhile [of is_space s]
    unfolding l h by (metis dropWhile_eq_Nil_conv)
qed simp

lemma trim_space_idem [simp]: "trim_space (trim_space s) = trim_space s"
  using trim_space_trims [of s] by (intro trim_space_fixed)

lemma of_char_lower: "CHR ''A'' \<le> c \<Longrightarrow> c \<le> CHR ''Z'' \<Longrightarrow> (of_char (ascii_lower c) :: nat) = of_char c + 32"
  by (simp add: ascii_lower_def less_eq_char_def)

lemma ascii_lower_idem [simp]: "ascii_lower (ascii_lower c) = ascii_lower c"
proof (cases "CHR ''A'' \<le> c \<and> c \<le> CHR ''Z''")
  case True
  then have "\<not> ascii_lower c \<le> CHR ''Z''" using of_char_lower [of c] by (simp add: less_eq_char_def)
  then show ?thesis by (simp add: ascii_lower_def)
next
  case False
  then have "ascii_lower c = c" by (auto simp: ascii_lower_def)
  then show ?thesis by simp
qed

lemma is_space_lower [simp]: "is_space (ascii_lower c) \<longleftrightarrow> is_space c"
proof (cases "CHR ''A'' \<le> c \<and> c \<le> CHR ''Z''")
  case True
  then have "(of_char (ascii_lower c) :: nat) = of_char c + 32" "65 \<le> (of_char c :: nat)"
    using of_char_lower [of c] by (simp_all add: less_eq_char_def)
  then show ?thesis by (auto simp: is_space_def)
next
  case False
  then have "ascii_lower c = c" by (auto simp: ascii_lower_def)
  then show ?thesis by simp
qed

lemma to_lower_simps [simp]: "to_lower [] = []" "to_lower (to_lower s) = to_lower s" "to_lower s = [] \<longleftrightarrow> s = []"
  by (simp_all add: to_lower_def)

lemma trim_lower [simp]: "trim_space (to_lower (trim_space s)) = to_lower (trim_space s)"
  using trim_space_trims [of s] by (intro trim_space_fixed) (auto simp: to_lower_def hd_map last_map)

definition between :: "char \<Rightarrow> char \<Rightarrow> char \<Rightarrow> bool" where
  "between lo hi c \<longleftrightarrow> of_char c \<in> {of_char lo .. of_char hi :: nat}"

text \<open>Equations for evaluation that compare characters bit by bit.\<close>

lemma between_code [code]: "between lo hi c \<longleftrightarrow> lo \<le> c \<and> c \<le> hi"
  by (simp add: between_def less_eq_char_def)

lemma is_space_code [code]: "is_space c \<longleftrightarrow> c = CHR '' '' \<or> CHR 0x09 \<le> c \<and> c \<le> CHR 0x0D"
  by (simp add: is_space_def less_eq_char_def)

section \<open>Splitting and joining\<close>

fun split_on :: "char \<Rightarrow> string \<Rightarrow> string list" where
  "split_on d [] = [[]]"
| "split_on d (c # cs) =
     (if c = d then [] # split_on d cs
      else case split_on d cs of [] \<Rightarrow> [[c]] | w # ws \<Rightarrow> (c # w) # ws)"

fun join_on :: "char \<Rightarrow> string list \<Rightarrow> string" where
  "join_on d [] = []"
| "join_on d [w] = w"
| "join_on d (w # ws) = w @ d # join_on d ws"

text \<open>\<open>IndexByte\<close> and the slices either side of it: \<open>None\<close> when the byte does not occur.\<close>

definition cut_at :: "char \<Rightarrow> string \<Rightarrow> (string \<times> string) option" where
  "cut_at d s = (if d \<in> set s then Some (takeWhile (\<lambda>c. c \<noteq> d) s, tl (dropWhile (\<lambda>c. c \<noteq> d) s)) else None)"

lemma split_on_not_Nil [simp]: "split_on d s \<noteq> []"
  by (induction s) (auto split: list.splits)

lemma split_on_free [simp]: "d \<notin> set w \<Longrightarrow> split_on d w = [w]"
  by (induction w) auto

lemma split_on_append: "d \<notin> set w \<Longrightarrow> split_on d (w @ d # s) = w # split_on d s"
  by (induction w) auto

lemma split_on_join: "ws \<noteq> [] \<Longrightarrow> (\<And>w. w \<in> set ws \<Longrightarrow> d \<notin> set w) \<Longrightarrow> split_on d (join_on d ws) = ws"
  by (induction d ws rule: join_on.induct) (auto simp: split_on_append)

lemma cut_at_append: "d \<notin> set w \<Longrightarrow> cut_at d (w @ d # s) = Some (w, s)"
  by (induction w) (auto simp: cut_at_def)

lemma cut_at_None [simp]: "cut_at d s = None \<longleftrightarrow> d \<notin> set s"
  by (simp add: cut_at_def)

lemma cut_at_Some: "cut_at d s = Some (w, t) \<Longrightarrow> s = w @ d # t \<and> d \<notin> set w"
proof -
  assume c: "cut_at d s = Some (w, t)"
  then have "d \<in> set s" by (metis cut_at_None option.distinct(1))
  then obtain u v where s: "s = u @ d # v" "d \<notin> set u" by (metis split_list_first)
  with c show ?thesis by (simp add: cut_at_append)
qed

section \<open>Numbers\<close>

text \<open>\<open>strconv.Atoi\<close>.\<close>

definition is_digit :: "char \<Rightarrow> bool" where
  "is_digit c \<longleftrightarrow> CHR ''0'' \<le> c \<and> c \<le> CHR ''9''"

definition read_digits :: "string \<Rightarrow> int option" where
  "read_digits s =
     (if s = [] \<or> \<not> list_all is_digit s then None
      else Some (foldl (\<lambda>a c. a * 10 + (of_char c - 48)) 0 s))"

definition atoi :: "string \<Rightarrow> int option" where
  "atoi s =
     (let v = (case s of [] \<Rightarrow> None
         | c # cs \<Rightarrow> if c = CHR ''-'' then map_option uminus (read_digits cs)
                    else if c = CHR ''+'' then read_digits cs else read_digits s) in
      case v of None \<Rightarrow> None | Some x \<Rightarrow> if in_i64 x then Some x else None)"

text \<open>\<open>strconv.Itoa\<close>.\<close>

definition digit_char :: "nat \<Rightarrow> char" where
  "digit_char n = char_of (48 + n mod 10)"

fun nat_digits :: "nat \<Rightarrow> string" where
  "nat_digits n = (if n < 10 then [digit_char n] else nat_digits (n div 10) @ [digit_char n])"

declare nat_digits.simps [simp del]

definition itoa :: "int \<Rightarrow> string" where
  "itoa i = (if i < 0 then CHR ''-'' # nat_digits (nat (- i)) else nat_digits (nat i))"

lemma of_digit_char: "(of_char (digit_char n) :: nat) = 48 + n mod 10"
  by (simp add: digit_char_def)

lemma is_digit_char [simp]: "is_digit (digit_char n)"
  by (simp add: is_digit_def less_eq_char_def of_digit_char)

lemma digit_value: "(of_char (digit_char n) :: int) = 48 + int (n mod 10)"
proof -
  have "(of_char (digit_char n) :: int) = int (of_char (digit_char n))" by (simp only: of_nat_of_char)
  also have "\<dots> = 48 + int (n mod 10)" unfolding of_digit_char by simp
  finally show ?thesis .
qed

lemma nat_digits_shape: "nat_digits n \<noteq> [] \<and> list_all is_digit (nat_digits n)"
proof (induction n rule: nat_digits.induct)
  case (1 n)
  then show ?case unfolding nat_digits.simps [of n] by simp
qed

lemma nat_digits_value: "foldl (\<lambda>a c. a * 10 + (of_char c - 48)) 0 (nat_digits n) = int n"
proof (induction n rule: nat_digits.induct)
  case (1 n)
  show ?case
  proof (cases "n < 10")
    case True
    then show ?thesis unfolding nat_digits.simps [of n] by (simp add: digit_value)
  next
    case False
    with 1 have ih: "foldl (\<lambda>a c. a * 10 + (of_char c - 48)) 0 (nat_digits (n div 10)) = int (n div 10)" by simp
    have "foldl (\<lambda>a c. a * 10 + (of_char c - 48)) 0 (nat_digits n) = int (n div 10) * 10 + int (n mod 10)"
      using False unfolding nat_digits.simps [of n] by (simp add: ih digit_value)
    then show ?thesis by presburger
  qed
qed

lemma read_nat_digits [simp]: "read_digits (nat_digits n) = Some (int n)"
  using nat_digits_shape [of n] by (simp add: read_digits_def nat_digits_value)

lemma digit_not_sign: "is_digit c \<Longrightarrow> c \<noteq> CHR ''-'' \<and> c \<noteq> CHR ''+'' \<and> c \<noteq> CHR ''.'' \<and> c \<noteq> CHR ''v'' \<and> \<not> is_space c"
  by (auto simp: is_digit_def less_eq_char_def is_space_def)

lemma nat_digits_lead: "is_digit (hd (nat_digits n))" "c \<in> set (nat_digits n) \<Longrightarrow> is_digit c"
  using nat_digits_shape [of n] by (auto simp: list_all_iff)

lemma nat_digits_no_zero: "hd (nat_digits n) = CHR ''0'' \<Longrightarrow> n = 0"
proof (induction n rule: nat_digits.induct)
  case (1 n)
  show ?case
  proof (cases "n < 10")
    case True
    with 1 have "digit_char n = CHR ''0''" by (simp add: nat_digits.simps [of n])
    then have "(of_char (digit_char n) :: nat) = 48" by simp
    with True show ?thesis by (simp add: of_digit_char)
  next
    case False
    have "hd (nat_digits n) = hd (nat_digits (n div 10))"
      using False nat_digits_shape [of "n div 10"] unfolding nat_digits.simps [of n] by simp
    with 1 False have "n div 10 = 0" by simp
    with False show ?thesis by simp
  qed
qed

lemma atoi_nat_digits: "in_i64 (int n) \<Longrightarrow> atoi (nat_digits n) = Some (int n)"
  using nat_digits_shape [of n] digit_not_sign [of "hd (nat_digits n)"] read_nat_digits [of n]
  by (cases "nat_digits n") (auto simp: atoi_def Let_def)

theorem atoi_itoa: "in_i64 i \<Longrightarrow> atoi (itoa i) = Some i"
proof (cases "i < 0")
  case True
  assume "in_i64 i"
  with True show ?thesis by (simp add: itoa_def atoi_def Let_def)
next
  case False
  assume "in_i64 i"
  with False show ?thesis by (simp add: itoa_def atoi_nat_digits)
qed

lemma itoa_number: "0 \<le> i \<Longrightarrow> itoa i \<noteq> [] \<and> (length (itoa i) = 1 \<or> hd (itoa i) \<noteq> CHR ''0'') \<and> (\<forall>c\<in>set (itoa i). is_digit c)"
  using nat_digits_shape [of "nat i"] nat_digits_no_zero [of "nat i"] nat_digits.simps [of 0]
  by (cases "nat i = 0") (auto simp: itoa_def list_all_iff)

end
