(* ===== verification/Workload_Spec.thy ===== *)
theory Workload_Spec
  imports Migration_Model Go_Strings "HOL-Library.Sublist"
begin

text \<open>
  \<^verbatim>\<open>src/internal/model/types.go\<close>: the workload specification and its normalisation, the gate every
  registered and every restored specification passes.  The Go library calls it uses are modelled
  on Unix paths: \<open>filepath.Abs\<close>, \<open>Clean\<close> and \<open>Rel\<close> work on the components of a path.  A URL is
  represented by what \<open>url.Parse\<close> returns for it.
\<close>

section \<open>Library functions\<close>

subsection \<open>Paths\<close>

fun split_slash :: "string \<Rightarrow> string list" where
  "split_slash [] = [[]]"
| "split_slash (c # cs) =
     (if c = CHR ''/'' then [] # split_slash cs
      else case split_slash cs of [] \<Rightarrow> [[c]] | w # ws \<Rightarrow> (c # w) # ws)"

text \<open>\<open>Clean\<close> of a rooted path: drop empty and \<open>.\<close> components, let \<open>..\<close> take the last one away.\<close>

fun clean_comps :: "string list \<Rightarrow> string list \<Rightarrow> string list" where
  "clean_comps acc [] = acc"
| "clean_comps acc (w # ws) =
     (if w = [] \<or> w = ''.'' then clean_comps acc ws
      else if w = ''..'' then clean_comps (butlast acc) ws
      else clean_comps (acc @ [w]) ws)"

definition path_comps :: "string \<Rightarrow> string list" where
  "path_comps p = clean_comps [] (split_slash p)"

fun join_slash :: "string list \<Rightarrow> string" where
  "join_slash [] = []"
| "join_slash [w] = w"
| "join_slash (w # ws) = w @ CHR ''/'' # join_slash ws"

definition is_abs :: "string \<Rightarrow> bool" where
  "is_abs p \<longleftrightarrow> p \<noteq> [] \<and> hd p = CHR ''/''"

definition clean_abs :: "string \<Rightarrow> string" where
  "clean_abs p = CHR ''/'' # join_slash (path_comps p)"

text \<open>\<open>filepath.Abs\<close>; \<open>cwd\<close> is what \<open>Getwd\<close> returns, consulted only for a relative path.\<close>

definition abs_path :: "string option \<Rightarrow> string \<Rightarrow> string option" where
  "abs_path cwd p =
     (if is_abs p then Some (clean_abs p)
      else map_option (\<lambda>wd. clean_abs (wd @ CHR ''/'' # p)) cwd)"

text \<open>\<open>filepath.Rel\<close> of two rooted paths.\<close>

fun strip_common :: "string list \<Rightarrow> string list \<Rightarrow> string list \<times> string list" where
  "strip_common (b # bs) (t # ts) = (if b = t then strip_common bs ts else (b # bs, t # ts))"
| "strip_common bs ts = (bs, ts)"

definition rel_path :: "string \<Rightarrow> string \<Rightarrow> string" where
  "rel_path base targ =
     (case strip_common (path_comps base) (path_comps targ) of
        (bs, ts) \<Rightarrow> if bs = [] \<and> ts = [] then ''.''
                     else join_slash (replicate (length bs) ''..'' @ ts))"

definition path_within :: "string \<Rightarrow> string \<Rightarrow> bool" where
  "path_within rt candidate =
     (let rel = rel_path rt candidate in rel \<noteq> ''..'' \<and> \<not> prefix ''../'' rel)"

section \<open>The specification\<close>

record path_spec =
  pa_path :: string
  pa_mode :: string
  pa_one_fs :: bool
  pa_exclusions :: "string list"

record port_spec =
  po_protocol :: string
  po_container_port :: int
  po_host_port :: int

record parsed_url =
  u_scheme :: string
  u_host :: string
  u_raw_query :: string
  u_fragment :: string

record failover_policy_spec =
  fo_agent_url :: "parsed_url option"
  fo_fencing_provider :: string
  fo_fencing_command :: string
  fo_machine_id :: string
  fo_keep_last :: int

record workload_spec =
  wsp_id :: string
  wsp_name :: string
  wsp_command :: "string list"
  wsp_root_path :: string
  wsp_working_dir :: string
  wsp_environment :: "(string \<times> string) list"
  wsp_uid :: int
  wsp_gid :: int
  wsp_paths :: "path_spec list"
  wsp_ports :: "port_spec list"
  wsp_device_policy :: string
  wsp_network_policy :: string
  wsp_checkpoint_policy :: "checkpoint_policy_spec option"
  wsp_failover_policy :: "failover_policy_spec option"
  wsp_lineage :: "lineage option"
  wsp_created_at :: time
  wsp_updated_at :: time

datatype spec_error = NameRequired | CommandRequired | NewIdFailed | RootRequired | AbsFailed
  | RootForbidden | WorkingDirOutside | NegativeIds | PathRequired | PathOutside | PathModeInvalid
  | UnsafeExclusion | NetworkPolicyInvalid | PolicyInvalid policy_error | FailoverUrlInvalid
  | FailoverKeepLastNegative | FencingProviderInvalid | FencingCommandRequired
  | FailoverNeedsCheckpoint

text \<open>What normalisation reads of its surroundings: the working directory, a fresh id, the clock.\<close>

record spec_env =
  se_cwd :: "string option"
  se_new_id :: "string option"
  se_now :: time

definition path_read_write :: string where "path_read_write = ''read_write''"
definition path_read_only :: string where "path_read_only = ''read_only''"

definition contains_dotdot :: "string \<Rightarrow> bool" where
  "contains_dotdot s \<longleftrightarrow> sublist ''..'' s"

definition path_spec_normalize :: "string option \<Rightarrow> string \<Rightarrow> path_spec \<Rightarrow> (spec_error, path_spec) outcome" where
  "path_spec_normalize cwd rt p =
     (if pa_path p = [] then Inl PathRequired
      else case abs_path cwd (pa_path p) of
        None \<Rightarrow> Inl AbsFailed
      | Some a \<Rightarrow>
          let p = p\<lparr>pa_path := clean_abs a\<rparr> in
          if \<not> path_within rt (pa_path p) then Inl PathOutside
          else let p = (if pa_mode p = [] then p\<lparr>pa_mode := path_read_write\<rparr> else p) in
          if pa_mode p \<noteq> path_read_only \<and> pa_mode p \<noteq> path_read_write then Inl PathModeInvalid
          else if list_ex (\<lambda>e. is_abs e \<or> contains_dotdot e) (pa_exclusions p) then Inl UnsafeExclusion
          else Inr p)"

fun normalize_paths :: "string option \<Rightarrow> string \<Rightarrow> path_spec list \<Rightarrow> (spec_error, path_spec list) outcome" where
  "normalize_paths cwd rt [] = Inr []"
| "normalize_paths cwd rt (p # ps) =
     (case path_spec_normalize cwd rt p of
        Inl e \<Rightarrow> Inl e
      | Inr p' \<Rightarrow> (case normalize_paths cwd rt ps of Inl e \<Rightarrow> Inl e | Inr ps' \<Rightarrow> Inr (p' # ps')))"

text \<open>\<open>FailoverPolicySpec.Validate\<close> also writes the default provider into its receiver.\<close>

fun failover_policy_validate :: "failover_policy_spec option \<Rightarrow> (spec_error, failover_policy_spec option) outcome" where
  "failover_policy_validate None = Inr None"
| "failover_policy_validate (Some p) =
     (case fo_agent_url p of
        None \<Rightarrow> Inl FailoverUrlInvalid
      | Some u \<Rightarrow>
          if u_scheme u \<noteq> ''https'' \<or> u_host u = [] \<or> u_raw_query u \<noteq> [] \<or> u_fragment u \<noteq> []
          then Inl FailoverUrlInvalid
          else if fo_keep_last p < 0 then Inl FailoverKeepLastNegative
          else let p = (if fo_fencing_provider p = [] then p\<lparr>fo_fencing_provider := ''disabled''\<rparr> else p) in
          if fo_fencing_provider p \<notin> {''disabled'', ''self'', ''command''} then Inl FencingProviderInvalid
          else if fo_fencing_provider p = ''command'' \<and> trim_space (fo_fencing_command p) = []
          then Inl FencingCommandRequired
          else Inr (Some p))"

text \<open>
  \<open>WorkloadSpec.Normalize\<close>, check by check.  Health check and resource requirements are not
  touched by it and are left out of the record.
\<close>

definition normalize_policies :: "time \<Rightarrow> workload_spec \<Rightarrow> (spec_error, workload_spec) outcome" where
  "normalize_policies now s =
     (case checkpoint_policy_validate (wsp_checkpoint_policy s) of
        Some e \<Rightarrow> Inl (PolicyInvalid e)
      | None \<Rightarrow>
     (case failover_policy_validate (wsp_failover_policy s) of
        Inl e \<Rightarrow> Inl e
      | Inr fo \<Rightarrow>
          let s = s\<lparr>wsp_failover_policy := fo\<rparr> in
          if wsp_failover_policy s \<noteq> None \<and> wsp_checkpoint_policy s = None then Inl FailoverNeedsCheckpoint
          else case lineage_validate (wsp_lineage s) of
            Some e \<Rightarrow> Inl (PolicyInvalid e)
          | None \<Rightarrow>
              Inr (s\<lparr>wsp_created_at := (if IsZero (wsp_created_at s) then now else wsp_created_at s),
                     wsp_updated_at := now\<rparr>)))"

definition valid_network_policy :: "string \<Rightarrow> bool" where
  "valid_network_policy p \<longleftrightarrow> p \<in> {''preserve'', ''reconnect'', ''drain''}"

definition normalize_tail :: "spec_env \<Rightarrow> workload_spec \<Rightarrow> (spec_error, workload_spec) outcome" where
  "normalize_tail env s =
     (if wsp_uid s < 0 \<or> wsp_gid s < 0 then Inl NegativeIds
      else let ps = (if wsp_paths s = []
                     then [\<lparr>pa_path = wsp_root_path s, pa_mode = path_read_write, pa_one_fs = False, pa_exclusions = []\<rparr>]
                     else wsp_paths s) in
      case normalize_paths (se_cwd env) (wsp_root_path s) ps of
        Inl e \<Rightarrow> Inl e
      | Inr ps' \<Rightarrow>
          let s = s\<lparr>wsp_paths := ps',
                wsp_device_policy := (if wsp_device_policy s = [] then ''reject_incompatible'' else wsp_device_policy s),
                wsp_network_policy := (if wsp_network_policy s = [] then ''reconnect'' else wsp_network_policy s)\<rparr> in
          if \<not> valid_network_policy (wsp_network_policy s) then Inl NetworkPolicyInvalid
          else normalize_policies (se_now env) s)"

definition working_dir_or_root :: "workload_spec \<Rightarrow> string" where
  "working_dir_or_root s = (if wsp_working_dir s = [] then wsp_root_path s else wsp_working_dir s)"

definition normalize :: "spec_env \<Rightarrow> workload_spec \<Rightarrow> (spec_error, workload_spec) outcome" where
  "normalize env s =
     (if trim_space (wsp_name s) = [] then Inl NameRequired
      else if wsp_command s = [] \<or> trim_space (hd (wsp_command s)) = [] then Inl CommandRequired
      else case (if wsp_id s = [] then se_new_id env else Some (wsp_id s)) of
        None \<Rightarrow> Inl NewIdFailed
      | Some i \<Rightarrow>
          let s = s\<lparr>wsp_id := i\<rparr> in
          if wsp_root_path s = [] then Inl RootRequired
          else case abs_path (se_cwd env) (wsp_root_path s) of
            None \<Rightarrow> Inl AbsFailed
          | Some a \<Rightarrow>
              let s = s\<lparr>wsp_root_path := clean_abs a\<rparr> in
              if wsp_root_path s = ''/'' then Inl RootForbidden
              else case abs_path (se_cwd env) (working_dir_or_root s) of
                None \<Rightarrow> Inl AbsFailed
              | Some w \<Rightarrow>
                  let s = s\<lparr>wsp_working_dir := clean_abs w\<rparr> in
                  if \<not> path_within (wsp_root_path s) (wsp_working_dir s) then Inl WorkingDirOutside
                  else normalize_tail env s)"

section \<open>Facts about paths\<close>

definition comp_ok :: "string \<Rightarrow> bool" where
  "comp_ok w \<longleftrightarrow> w \<noteq> [] \<and> w \<noteq> ''.'' \<and> w \<noteq> ''..'' \<and> CHR ''/'' \<notin> set w"

lemma split_slash_not_Nil [simp]: "split_slash s \<noteq> []"
  by (induction s) (auto split: list.splits)

lemma split_slash_free: "w \<in> set (split_slash s) \<Longrightarrow> CHR ''/'' \<notin> set w"
  by (induction s arbitrary: w) (fastforce split: if_splits list.splits)+

lemma clean_comps_ok:
  "list_all (\<lambda>w. CHR ''/'' \<notin> set w) ws \<Longrightarrow> list_all comp_ok acc \<Longrightarrow> list_all comp_ok (clean_comps acc ws)"
proof (induction acc ws rule: clean_comps.induct)
  case (2 acc v ws)
  have "list_all comp_ok (butlast acc)"
    using "2.prems"(2) by (auto simp: list_all_iff dest: in_set_butlastD)
  moreover have "v \<noteq> [] \<Longrightarrow> v \<noteq> ''.'' \<Longrightarrow> v \<noteq> ''..'' \<Longrightarrow> list_all comp_ok (acc @ [v])"
    using "2.prems" by (simp add: comp_ok_def [of v])
  ultimately show ?case using 2 by simp
qed simp

lemma path_comps_ok: "w \<in> set (path_comps p) \<Longrightarrow> comp_ok w"
  using clean_comps_ok [of "split_slash p" "[]"] split_slash_free [of _ p]
  by (auto simp: path_comps_def list_all_iff)

lemma clean_comps_id: "(\<And>w. w \<in> set ws \<Longrightarrow> comp_ok w) \<Longrightarrow> clean_comps acc ws = acc @ ws"
  by (induction acc ws rule: clean_comps.induct) (auto simp: comp_ok_def)

lemma split_slash_append: "CHR ''/'' \<notin> set w \<Longrightarrow> split_slash (w @ CHR ''/'' # s) = w # split_slash s"
  by (induction w) auto

lemma split_slash_word: "CHR ''/'' \<notin> set w \<Longrightarrow> split_slash w = [w]"
  by (induction w) auto

lemma split_join: "ws \<noteq> [] \<Longrightarrow> (\<And>w. w \<in> set ws \<Longrightarrow> CHR ''/'' \<notin> set w) \<Longrightarrow> split_slash (join_slash ws) = ws"
  by (induction ws rule: join_slash.induct) (auto simp: split_slash_append split_slash_word)

lemma path_comps_slash [simp]: "path_comps (CHR ''/'' # s) = path_comps s"
  by (simp add: path_comps_def)

lemma path_comps_join:
  assumes "\<And>w. w \<in> set ws \<Longrightarrow> comp_ok w" shows "path_comps (join_slash ws) = ws"
proof (cases "ws = []")
  case False
  then have "split_slash (join_slash ws) = ws" using assms by (intro split_join) (auto simp: comp_ok_def)
  then show ?thesis using clean_comps_id [of ws "[]"] assms by (simp add: path_comps_def)
qed (simp add: path_comps_def)

lemma path_comps_clean [simp]: "path_comps (clean_abs p) = path_comps p"
  unfolding clean_abs_def by (simp add: path_comps_join path_comps_ok)

lemma clean_abs_idem [simp]: "clean_abs (clean_abs p) = clean_abs p"
  by (simp add: clean_abs_def [of "clean_abs p"] clean_abs_def [of p, symmetric])

lemma is_abs_clean [simp]: "is_abs (clean_abs p)"
  by (simp add: is_abs_def clean_abs_def)

lemma abs_path_clean [simp]: "abs_path cwd (clean_abs p) = Some (clean_abs p)"
  by (simp add: abs_path_def)

lemma strip_common_prefix: "prefix bs ts \<Longrightarrow> strip_common bs ts = ([], drop (length bs) ts)"
  by (induction bs ts rule: strip_common.induct) (auto split: list.splits)

lemma strip_common_not_prefix: "\<not> prefix bs ts \<Longrightarrow> fst (strip_common bs ts) \<noteq> []"
  by (induction bs ts rule: strip_common.induct) auto

definition first_comp :: "string \<Rightarrow> string" where
  "first_comp s = takeWhile (\<lambda>c. c \<noteq> CHR ''/'') s"

lemma first_comp_join: "CHR ''/'' \<notin> set w \<Longrightarrow> first_comp (join_slash (w # ws)) = w"
proof (cases ws)
  case Nil
  then show "CHR ''/'' \<notin> set w \<Longrightarrow> ?thesis" by (simp add: first_comp_def takeWhile_eq_all_conv) metis
next
  case (Cons v vs)
  have "CHR ''/'' \<notin> set w \<Longrightarrow> takeWhile (\<lambda>c. c \<noteq> CHR ''/'') (w @ CHR ''/'' # s) = w" for s
    by (induction w) auto
  with Cons show "CHR ''/'' \<notin> set w \<Longrightarrow> ?thesis" by (simp add: first_comp_def)
qed

lemma first_comp_dotdot: "s = ''..'' \<or> prefix ''../'' s \<Longrightarrow> first_comp s = ''..''"
  by (auto simp: first_comp_def prefix_def)

lemma join_slash_dotdot:
  assumes "\<And>w. w \<in> set ws \<Longrightarrow> comp_ok w"
  shows "join_slash ws \<noteq> ''..'' \<and> \<not> prefix ''../'' (join_slash ws)"
proof (cases ws)
  case (Cons w vs)
  with assms have "comp_ok w" by simp
  then have "first_comp (join_slash ws) \<noteq> ''..''" using Cons first_comp_join by (simp add: comp_ok_def)
  then show ?thesis using first_comp_dotdot [of "join_slash ws"] by argo
qed simp

lemma path_within_prefix: "path_within rt p \<longleftrightarrow> prefix (path_comps rt) (path_comps p)"
proof
  assume "prefix (path_comps rt) (path_comps p)"
  then have r: "strip_common (path_comps rt) (path_comps p) = ([], drop (length (path_comps rt)) (path_comps p))"
    (is "_ = ([], ?r)") by (rule strip_common_prefix)
  have "\<And>w. w \<in> set ?r \<Longrightarrow> comp_ok w" by (meson in_set_dropD path_comps_ok)
  from join_slash_dotdot [OF this] show "path_within rt p"
    unfolding path_within_def rel_path_def r by (simp add: Let_def)
next
  assume within: "path_within rt p"
  show "prefix (path_comps rt) (path_comps p)"
  proof (rule ccontr)
    assume "\<not> ?thesis"
    then obtain b bs ts where s: "strip_common (path_comps rt) (path_comps p) = (b # bs, ts)"
      using strip_common_not_prefix by (metis list.exhaust prod.collapse)
    have "join_slash (''..'' # ws) = ''..'' \<or> prefix ''../'' (join_slash (''..'' # ws))" for ws
      by (cases ws) auto
    then have "\<not> path_within rt p"
      unfolding path_within_def rel_path_def s by (simp add: Let_def)
    with within show False by contradiction
  qed
qed


section \<open>Normal specifications\<close>

definition normal_path :: "string \<Rightarrow> path_spec \<Rightarrow> bool" where
  "normal_path rt p \<longleftrightarrow> pa_path p = clean_abs (pa_path p) \<and> path_within rt (pa_path p)
     \<and> (pa_mode p = path_read_only \<or> pa_mode p = path_read_write)
     \<and> list_all (\<lambda>e. \<not> is_abs e \<and> \<not> contains_dotdot e) (pa_exclusions p)"

definition normal_spec :: "workload_spec \<Rightarrow> bool" where
  "normal_spec s \<longleftrightarrow> trim_space (wsp_name s) \<noteq> [] \<and> wsp_command s \<noteq> [] \<and> trim_space (hd (wsp_command s)) \<noteq> []
     \<and> wsp_id s \<noteq> [] \<and> wsp_root_path s = clean_abs (wsp_root_path s) \<and> wsp_root_path s \<noteq> ''/''
     \<and> wsp_working_dir s = clean_abs (wsp_working_dir s) \<and> path_within (wsp_root_path s) (wsp_working_dir s)
     \<and> 0 \<le> wsp_uid s \<and> 0 \<le> wsp_gid s \<and> wsp_paths s \<noteq> [] \<and> list_all (normal_path (wsp_root_path s)) (wsp_paths s)
     \<and> wsp_device_policy s \<noteq> [] \<and> valid_network_policy (wsp_network_policy s)
     \<and> checkpoint_policy_validate (wsp_checkpoint_policy s) = None
     \<and> failover_policy_validate (wsp_failover_policy s) = Inr (wsp_failover_policy s)
     \<and> (wsp_failover_policy s \<noteq> None \<longrightarrow> wsp_checkpoint_policy s \<noteq> None)
     \<and> lineage_validate (wsp_lineage s) = None \<and> \<not> IsZero (wsp_created_at s)"

lemma path_spec_normalize_Inr: "path_spec_normalize cwd rt p = Inr p' \<Longrightarrow> normal_path rt p'"
  by (auto simp: path_spec_normalize_def normal_path_def Let_def list_all_iff list_ex_iff path_read_write_def
      split: if_splits option.splits)

lemma path_spec_normalize_normal: "normal_path rt p \<Longrightarrow> path_spec_normalize cwd rt p = Inr p"
proof -
  assume n: "normal_path rt p"
  then have "abs_path cwd (pa_path p) = Some (pa_path p)" "clean_abs (pa_path p) = pa_path p" "pa_path p \<noteq> []"
    using abs_path_clean [of cwd "pa_path p"] by (auto simp: normal_path_def clean_abs_def)
  with n show ?thesis
    by (auto simp: path_spec_normalize_def normal_path_def Let_def list_all_iff list_ex_iff path_read_write_def path_read_only_def)
qed

lemma normalize_paths_Inr: "normalize_paths cwd rt ps = Inr ps' \<Longrightarrow> list_all (normal_path rt) ps' \<and> length ps' = length ps"
  by (induction ps arbitrary: ps') (auto split: sum.splits dest: path_spec_normalize_Inr)

lemma normalize_paths_normal: "list_all (normal_path rt) ps \<Longrightarrow> normalize_paths cwd rt ps = Inr ps"
  by (induction ps) (auto simp: path_spec_normalize_normal)

lemma failover_policy_validate_idem:
  "failover_policy_validate fo = Inr fo' \<Longrightarrow> failover_policy_validate fo' = Inr fo' \<and> (fo' = None \<longleftrightarrow> fo = None)"
  by (cases fo) (auto simp: Let_def split: option.splits if_splits)

lemma normalize_policies_Inr:
  assumes "normalize_policies now s = Inr s'"
  shows "\<exists>fo. s' = s\<lparr>wsp_failover_policy := fo, wsp_created_at := (if IsZero (wsp_created_at s) then now else wsp_created_at s),
            wsp_updated_at := now\<rparr>
      \<and> failover_policy_validate fo = Inr fo \<and> (fo \<noteq> None \<longrightarrow> wsp_checkpoint_policy s \<noteq> None)
      \<and> checkpoint_policy_validate (wsp_checkpoint_policy s) = None \<and> lineage_validate (wsp_lineage s) = None"
proof -
  obtain fo where fo: "failover_policy_validate (wsp_failover_policy s) = Inr fo"
    and cp: "checkpoint_policy_validate (wsp_checkpoint_policy s) = None"
    using assms unfolding normalize_policies_def
    by (cases "failover_policy_validate (wsp_failover_policy s)") (simp_all split: option.splits)
  show ?thesis
    using assms failover_policy_validate_idem [OF fo] fo cp unfolding normalize_policies_def
    by (intro exI [of _ fo]) (simp add: Let_def split: if_splits option.splits, auto?)
qed

lemma normalize_tail_Inr:
  assumes "normalize_tail env s = Inr s'" and "se_now env \<noteq> 0"
    and "trim_space (wsp_name s) \<noteq> []" "wsp_command s \<noteq> []" "trim_space (hd (wsp_command s)) \<noteq> []" "wsp_id s \<noteq> []"
    and "wsp_root_path s = clean_abs (wsp_root_path s)" "wsp_root_path s \<noteq> ''/''"
    and "wsp_working_dir s = clean_abs (wsp_working_dir s)" "path_within (wsp_root_path s) (wsp_working_dir s)"
  shows "normal_spec s'"
proof -
  define ps where "ps = (if wsp_paths s = []
                     then [\<lparr>pa_path = wsp_root_path s, pa_mode = path_read_write, pa_one_fs = False, pa_exclusions = []\<rparr>]
                     else wsp_paths s)"
  define dp where "dp = (if wsp_device_policy s = [] then ''reject_incompatible'' else wsp_device_policy s)"
  define np where "np = (if wsp_network_policy s = [] then ''reconnect'' else wsp_network_policy s)"
  note tail = assms(1) [unfolded normalize_tail_def Let_def, folded ps_def dp_def np_def]
  obtain ps' where p: "normalize_paths (se_cwd env) (wsp_root_path s) ps = Inr ps'"
    using tail by (cases "normalize_paths (se_cwd env) (wsp_root_path s) ps") (simp_all split: if_splits)
  have ids: "0 \<le> wsp_uid s" "0 \<le> wsp_gid s" and np: "valid_network_policy np"
    and pol: "normalize_policies (se_now env) (s\<lparr>wsp_paths := ps', wsp_device_policy := dp, wsp_network_policy := np\<rparr>) = Inr s'"
    using tail p by (simp_all split: if_splits)
  have "ps \<noteq> []" "dp \<noteq> []" by (simp_all add: ps_def dp_def)
  with normalize_paths_Inr [OF p] have "list_all (normal_path (wsp_root_path s)) ps'" "ps' \<noteq> []" by auto
  with normalize_policies_Inr [OF pol] ids np \<open>dp \<noteq> []\<close> assms(2-) show ?thesis
    by (auto simp: normal_spec_def split: if_splits)
qed

lemma normalize_Inr:
  assumes "normalize env s = Inr s'" and "se_now env \<noteq> 0" and "se_new_id env \<noteq> Some []"
  shows "normal_spec s'"
proof -
  define wd where "wd i a = working_dir_or_root (s\<lparr>wsp_id := i, wsp_root_path := clean_abs a\<rparr>)" for i a
  have t: "trim_space (wsp_name s) \<noteq> []" "wsp_command s \<noteq> []" "trim_space (hd (wsp_command s)) \<noteq> []"
    using assms(1) by (simp_all add: normalize_def split: if_splits)
  obtain i where i: "(if wsp_id s = [] then se_new_id env else Some (wsp_id s)) = Some i"
    using assms(1) t by (cases "if wsp_id s = [] then se_new_id env else Some (wsp_id s)") (simp_all add: normalize_def)
  obtain a where a: "abs_path (se_cwd env) (wsp_root_path s) = Some a"
    using assms(1) t i by (cases "abs_path (se_cwd env) (wsp_root_path s)") (simp_all add: normalize_def Let_def split: if_splits)
  obtain w where w: "abs_path (se_cwd env) (wd i a) = Some w"
    using assms(1) t i a
    by (cases "abs_path (se_cwd env) (wd i a)") (simp_all add: normalize_def Let_def wd_def [symmetric] split: if_splits)
  have "i \<noteq> []" using i assms(3) by (auto split: if_splits)
  have "clean_abs a \<noteq> ''/''" "path_within (clean_abs a) (clean_abs w)"
    "normalize_tail env (s\<lparr>wsp_id := i, wsp_root_path := clean_abs a, wsp_working_dir := clean_abs w\<rparr>) = Inr s'"
    using assms(1) t i a w by (simp_all add: normalize_def Let_def wd_def [symmetric] split: if_splits)
  with normalize_tail_Inr [OF this(3) assms(2)] t \<open>i \<noteq> []\<close> show ?thesis by simp
qed

lemma normalize_normal:
  assumes "normal_spec s" shows "normalize env s = Inr (s\<lparr>wsp_updated_at := se_now env\<rparr>)"
proof -
  have c: "abs_path (se_cwd env) (wsp_root_path s) = Some (wsp_root_path s)"
      "abs_path (se_cwd env) (wsp_working_dir s) = Some (wsp_working_dir s)"
      "wsp_root_path s \<noteq> []" "wsp_working_dir s \<noteq> []"
      "clean_abs (wsp_root_path s) = wsp_root_path s" "clean_abs (wsp_working_dir s) = wsp_working_dir s"
    using assms abs_path_clean [of "se_cwd env" "wsp_root_path s"] abs_path_clean [of "se_cwd env" "wsp_working_dir s"]
    by (auto simp: normal_spec_def clean_abs_def)
  have "normalize_policies (se_now env) s = Inr (s\<lparr>wsp_updated_at := se_now env\<rparr>)"
    using assms by (auto simp: normal_spec_def normalize_policies_def Let_def)
  moreover have "normalize_paths (se_cwd env) (wsp_root_path s) (wsp_paths s) = Inr (wsp_paths s)"
    using assms by (intro normalize_paths_normal) (simp add: normal_spec_def)
  moreover have "wsp_network_policy s \<noteq> []"
    using assms by (auto simp: normal_spec_def valid_network_policy_def)
  ultimately have "normalize_tail env s = Inr (s\<lparr>wsp_updated_at := se_now env\<rparr>)"
    using assms by (simp add: normalize_tail_def normal_spec_def Let_def)
  then show ?thesis using c assms by (simp add: normalize_def normal_spec_def Let_def working_dir_or_root_def)
qed


text \<open>
  C11.  Normalisation confines a workload and is stable.  An accepted specification has an absolute,
  clean root below \<open>/\<close>; its working directory and every captured path lie below that root,
  component by component; its identities are not negative; a failover policy comes with a checkpoint
  schedule of at least ten seconds; and normalising the result again, in any environment, changes
  nothing but the update time.
\<close>

theorem normalize_confines_and_stable:
  assumes "normalize env s = Inr s'" and "se_now env \<noteq> 0" and "se_new_id env \<noteq> Some []"
  shows "is_abs (wsp_root_path s') \<and> path_comps (wsp_root_path s') \<noteq> []
    \<and> prefix (path_comps (wsp_root_path s')) (path_comps (wsp_working_dir s'))
    \<and> (\<forall>p \<in> set (wsp_paths s'). prefix (path_comps (wsp_root_path s')) (path_comps (pa_path p))
          \<and> (\<forall>e \<in> set (pa_exclusions p). \<not> is_abs e \<and> \<not> contains_dotdot e))
    \<and> 0 \<le> wsp_uid s' \<and> 0 \<le> wsp_gid s' \<and> wsp_id s' \<noteq> [] \<and> wsp_command s' \<noteq> []
    \<and> (wsp_failover_policy s' \<noteq> None \<longrightarrow>
         (\<exists>c. wsp_checkpoint_policy s' = Some c \<and> 10 \<le> cp_interval_seconds c \<and> 0 \<le> cp_keep_last c))
    \<and> normalize env' s' = Inr (s'\<lparr>wsp_updated_at := se_now env'\<rparr>)"
proof -
  have n: "normal_spec s'" using normalize_Inr [OF assms] .
  have "path_comps (wsp_root_path s') \<noteq> []"
    using n clean_abs_def [of "wsp_root_path s'"] by (auto simp: normal_spec_def)
  moreover have "is_abs (wsp_root_path s')"
    using n is_abs_clean [of "wsp_root_path s'"] by (simp add: normal_spec_def)
  moreover have "wsp_failover_policy s' \<noteq> None \<longrightarrow>
         (\<exists>c. wsp_checkpoint_policy s' = Some c \<and> 10 \<le> cp_interval_seconds c \<and> 0 \<le> cp_keep_last c)"
    using n by (cases "wsp_checkpoint_policy s'") (auto simp: normal_spec_def split: if_splits)
  ultimately show ?thesis using n normalize_normal [OF n, of env']
    by (auto simp: normal_spec_def normal_path_def path_within_prefix list_all_iff)
qed

definition sample_spec :: workload_spec where
  "sample_spec = \<lparr>wsp_id = ''w1'', wsp_name = ''job'', wsp_command = [''run''], wsp_root_path = ''/srv//job/./'',
     wsp_working_dir = ''/srv/job/a/../b'', wsp_environment = [], wsp_uid = 1000, wsp_gid = 1000, wsp_paths = [],
     wsp_ports = [], wsp_device_policy = [], wsp_network_policy = [],
     wsp_checkpoint_policy = Some \<lparr>cp_interval_seconds = 60, cp_keep_last = 3\<rparr>, wsp_failover_policy = None,
     wsp_lineage = None, wsp_created_at = 0, wsp_updated_at = 0\<rparr>"

definition sample_env :: spec_env where
  "sample_env = \<lparr>se_cwd = None, se_new_id = None, se_now = 5\<rparr>"

definition sample_normal :: workload_spec where
  "sample_normal = sample_spec\<lparr>wsp_root_path := ''/srv/job'', wsp_working_dir := ''/srv/job/b'',
     wsp_paths := [\<lparr>pa_path = ''/srv/job'', pa_mode = ''read_write'', pa_one_fs = False, pa_exclusions = []\<rparr>],
     wsp_device_policy := ''reject_incompatible'', wsp_network_policy := ''reconnect'',
     wsp_created_at := 5, wsp_updated_at := 5\<rparr>"

lemma sample_normalizes: "normalize sample_env sample_spec = Inr sample_normal"
  by code_simp

theorem normalize_confines_and_stable_witness:
  "normalize sample_env sample_spec = Inr sample_normal \<and> is_abs (wsp_root_path sample_normal)
   \<and> prefix (path_comps ''/srv/job'') (path_comps ''/srv/job/b'')
   \<and> normalize sample_env sample_normal = Inr sample_normal"
  using normalize_confines_and_stable [OF sample_normalizes, of sample_env] sample_normalizes
  by (simp add: sample_env_def sample_normal_def)

end
