(* ===== verification/Runtime_Manager.thy ===== *)
theory Runtime_Manager
  imports Workload_Spec
begin

text \<open>
  \<^verbatim>\<open>src/internal/runtime/manager.go\<close>: the workload runtime of one agent.  Its state is the workload
  collection, the set \<open>stopping\<close> of workloads whose end the agent ordered, and the machine's
  processes.  Every operation is one critical section of the manager's mutex, except \<open>Stop\<close>, which
  releases the mutex while it signals and waits; \<open>rt_stop\<close> composes its two sections.  What the
  operating system and the collection answer is the environment argument.
\<close>

section \<open>State\<close>

record workload =
  wl_spec :: workload_spec
  wl_status :: workload_status
  wl_process :: "process_state option"
  wl_latest_checkpoint :: string
  wl_generation :: nat
  wl_last_error :: string

text \<open>A process of the machine: \<open>kp_stopped\<close> after SIGSTOP or while CRIU left it frozen.\<close>

record kproc =
  kp_pid :: int
  kp_pgid :: int
  kp_ticks :: nat
  kp_stopped :: bool

record runtime =
  rt_records :: "workload store"
  rt_stopping :: "string set"
  rt_kernel :: "kproc list"

datatype rt_error = RtNotFound | RtSpec spec_error | RtPolicy policy_error | RootMissing | RootNotDirectory
  | WorkingDirMissing | NameTaken | IdTaken | IdIsName | NameIsId | HasFailoverPolicy | NeedsCheckpointPolicy
  | AlreadyRunning | CannotStart workload_status | ExecutableMissing | LogFailed | CgroupFailed
  | AgentBinaryMissing | NeedsRootAgent | SpawnFailed | IdentityFailed | ProcessNotAlive | SignalFailed
  | CredentialsMismatch | RestoreIdMismatch | RestoreRename | DestinationActive | RtIdRequired | ActiveMetadata
  | StopFirst | RtPersist

text \<open>
  The environment of one operation.  \<open>re_put\<close>: the collection write lands.  \<open>re_signal\<close>: signals
  are permitted.  \<open>re_exits\<close>: the signalled group is gone before the grace period ends.
  \<open>re_waiter\<close>: the goroutine waiting for the process records the exit before \<open>Stop\<close> takes the
  mutex again.
\<close>

record rt_env =
  re_spec :: spec_env
  re_put :: bool
  re_signal :: bool
  re_exits :: bool
  re_waiter :: bool
  re_root_exists :: bool
  re_root_dir :: bool
  re_workdir :: bool
  re_executable :: bool
  re_log :: bool
  re_cgroup :: bool
  re_privileged :: bool
  re_self :: bool
  re_same_ids :: bool
  re_spawn :: bool
  re_ticks :: bool
  re_pgid :: bool
  re_creds :: bool
  re_proc :: kproc

section \<open>Processes\<close>

definition process_alive :: "kproc list \<Rightarrow> int \<Rightarrow> nat \<Rightarrow> bool" where
  "process_alive ks pid ticks \<longleftrightarrow> 0 < pid \<and> list_ex (\<lambda>p. kp_pid p = pid \<and> kp_ticks p = ticks) ks"

definition proc_alive :: "kproc list \<Rightarrow> process_state option \<Rightarrow> bool" where
  "proc_alive ks po = (case po of None \<Rightarrow> False | Some p \<Rightarrow> process_alive ks (ps_pid p) (ps_start_ticks p))"

definition in_group :: "int \<Rightarrow> kproc \<Rightarrow> bool" where
  "in_group pgid p \<longleftrightarrow> kp_pgid p = pgid"

definition set_stopped :: "bool \<Rightarrow> int \<Rightarrow> kproc list \<Rightarrow> kproc list" where
  "set_stopped b pgid ks = map (\<lambda>p. if in_group pgid p then p\<lparr>kp_stopped := b\<rparr> else p) ks"

definition kill_group :: "int \<Rightarrow> kproc list \<Rightarrow> kproc list" where
  "kill_group pgid ks = filter (\<lambda>p. \<not> in_group pgid p) ks"

definition kill_pid :: "int \<Rightarrow> kproc list \<Rightarrow> kproc list" where
  "kill_pid pid ks = filter (\<lambda>p. kp_pid p \<noteq> pid) ks"

text \<open>\<open>kill(-pgid)\<close> fails with ESRCH when the group is empty and otherwise when it is not permitted.\<close>

definition group_exists :: "int \<Rightarrow> kproc list \<Rightarrow> bool" where
  "group_exists pgid ks \<longleftrightarrow> list_ex (in_group pgid) ks"

section \<open>Lookup and registration\<close>

definition rt_get :: "runtime \<Rightarrow> string \<Rightarrow> workload option" where
  "rt_get rt k =
     (case st_get (rt_records rt) k of
        Some w \<Rightarrow> Some w
      | None \<Rightarrow> find (\<lambda>w. wsp_name (wl_spec w) = k) (st_list (rt_records rt)))"

definition rt_put :: "rt_env \<Rightarrow> string \<Rightarrow> workload \<Rightarrow> runtime \<Rightarrow> (rt_error, workload) outcome \<times> runtime" where
  "rt_put env k w rt =
     (if re_put env then (Inr w, rt\<lparr>rt_records := st_put k w (rt_records rt)\<rparr>) else (Inl RtPersist, rt))"

fun create_conflict :: "workload_spec \<Rightarrow> workload list \<Rightarrow> rt_error option" where
  "create_conflict s [] = None"
| "create_conflict s (w # ws) =
     (if equal_fold (wsp_name (wl_spec w)) (wsp_name s) then Some NameTaken
      else if wsp_id (wl_spec w) = wsp_id s then Some IdTaken
      else if equal_fold (wsp_name (wl_spec w)) (wsp_id s) then Some IdIsName
      else if wsp_id (wl_spec w) = wsp_name s then Some NameIsId
      else create_conflict s ws)"

definition new_workload :: "workload_spec \<Rightarrow> workload_status \<Rightarrow> workload" where
  "new_workload s st = \<lparr>wl_spec = s, wl_status = st, wl_process = None, wl_latest_checkpoint = [],
     wl_generation = 1, wl_last_error = []\<rparr>"

definition rt_create :: "rt_env \<Rightarrow> workload_spec \<Rightarrow> runtime \<Rightarrow> (rt_error, workload) outcome \<times> runtime" where
  "rt_create env spec rt =
     (case normalize (re_spec env) spec of
        Inl e \<Rightarrow> (Inl (RtSpec e), rt)
      | Inr s \<Rightarrow>
          if \<not> re_root_exists env then (Inl RootMissing, rt)
          else if \<not> re_root_dir env then (Inl RootNotDirectory, rt)
          else if \<not> re_workdir env then (Inl WorkingDirMissing, rt)
          else case create_conflict s (st_list (rt_records rt)) of
            Some e \<Rightarrow> (Inl e, rt)
          | None \<Rightarrow> rt_put env (wsp_id s) (new_workload s WorkloadRegistered) rt)"

definition rt_set_checkpoint_policy ::
  "rt_env \<Rightarrow> string \<Rightarrow> checkpoint_policy_spec option \<Rightarrow> runtime \<Rightarrow> (rt_error, workload) outcome \<times> runtime" where
  "rt_set_checkpoint_policy env k policy rt =
     (case checkpoint_policy_validate policy of
        Some e \<Rightarrow> (Inl (RtPolicy e), rt)
      | None \<Rightarrow>
     (case rt_get rt k of
        None \<Rightarrow> (Inl RtNotFound, rt)
      | Some w \<Rightarrow>
          if policy = None \<and> wsp_failover_policy (wl_spec w) \<noteq> None then (Inl HasFailoverPolicy, rt)
          else let s = (wl_spec w)\<lparr>wsp_checkpoint_policy := policy, wsp_updated_at := se_now (re_spec env)\<rparr>
               in rt_put env (wsp_id s) (w\<lparr>wl_spec := s\<rparr>) rt))"

definition rt_set_failover_policy ::
  "rt_env \<Rightarrow> string \<Rightarrow> failover_policy_spec option \<Rightarrow> runtime \<Rightarrow> (rt_error, workload) outcome \<times> runtime" where
  "rt_set_failover_policy env k policy rt =
     (case failover_policy_validate policy of
        Inl e \<Rightarrow> (Inl (RtSpec e), rt)
      | Inr policy' \<Rightarrow>
     (case rt_get rt k of
        None \<Rightarrow> (Inl RtNotFound, rt)
      | Some w \<Rightarrow>
          if policy' \<noteq> None \<and> wsp_checkpoint_policy (wl_spec w) = None then (Inl NeedsCheckpointPolicy, rt)
          else let s = (wl_spec w)\<lparr>wsp_failover_policy := policy', wsp_updated_at := se_now (re_spec env)\<rparr>
               in rt_put env (wsp_id s) (w\<lparr>wl_spec := s\<rparr>) rt))"

section \<open>Starting, signalling, stopping\<close>

definition startable :: "workload_status \<Rightarrow> bool" where
  "startable st \<longleftrightarrow> st = WorkloadRegistered \<or> st = WorkloadStopped \<or> st = WorkloadCheckpointed \<or> st = WorkloadFailed"

definition proc_of :: "kproc \<Rightarrow> process_state" where
  "proc_of p = \<lparr>ps_pid = kp_pid p, ps_pgid = kp_pgid p, ps_start_ticks = kp_ticks p\<rparr>"

definition rt_start :: "rt_env \<Rightarrow> string \<Rightarrow> runtime \<Rightarrow> (rt_error, workload) outcome \<times> runtime" where
  "rt_start env k rt =
     (case rt_get rt k of
        None \<Rightarrow> (Inl RtNotFound, rt)
      | Some w \<Rightarrow>
          if proc_alive (rt_kernel rt) (wl_process w) then (Inl AlreadyRunning, rt)
          else if \<not> startable (wl_status w) then (Inl (CannotStart (wl_status w)), rt)
          else if \<not> re_executable env then (Inl ExecutableMissing, rt)
          else if \<not> re_log env then (Inl LogFailed, rt)
          else if \<not> re_cgroup env then (Inl CgroupFailed, rt)
          else if re_privileged env \<and> \<not> re_self env then (Inl AgentBinaryMissing, rt)
          else if \<not> re_privileged env \<and> \<not> re_same_ids env then (Inl NeedsRootAgent, rt)
          else if \<not> re_spawn env then (Inl SpawnFailed, rt)
          else if \<not> re_ticks env \<or> \<not> re_pgid env then (Inl IdentityFailed, rt)
          else let w' = w\<lparr>wl_status := WorkloadRunning, wl_process := Some (proc_of (re_proc env)),
                          wl_generation := wl_generation w + 1, wl_last_error := []\<rparr> in
          if \<not> re_put env then (Inl RtPersist, rt)
          else (Inr w', rt\<lparr>rt_records := st_put (wsp_id (wl_spec w)) w' (rt_records rt),
                          rt_kernel := re_proc env # rt_kernel rt,
                          rt_stopping := rt_stopping rt - {wsp_id (wl_spec w)}\<rparr>))"

definition signal_and_update ::
  "bool \<Rightarrow> workload_status \<Rightarrow> rt_env \<Rightarrow> string \<Rightarrow> runtime \<Rightarrow> (rt_error, workload) outcome \<times> runtime" where
  "signal_and_update stop st env k rt =
     (case rt_get rt k of
        None \<Rightarrow> (Inl RtNotFound, rt)
      | Some w \<Rightarrow>
     (case wl_process w of
        None \<Rightarrow> (Inl ProcessNotAlive, rt)
      | Some p \<Rightarrow>
          if \<not> process_alive (rt_kernel rt) (ps_pid p) (ps_start_ticks p) then (Inl ProcessNotAlive, rt)
          else if \<not> re_signal env \<or> \<not> group_exists (ps_pgid p) (rt_kernel rt) then (Inl SignalFailed, rt)
          else rt_put env (wsp_id (wl_spec w)) (w\<lparr>wl_status := st, wl_generation := wl_generation w + 1\<rparr>)
                 (rt\<lparr>rt_kernel := set_stopped stop (ps_pgid p) (rt_kernel rt)\<rparr>)))"

definition rt_pause :: "rt_env \<Rightarrow> string \<Rightarrow> runtime \<Rightarrow> (rt_error, workload) outcome \<times> runtime" where
  "rt_pause = signal_and_update True WorkloadPaused"

definition rt_resume :: "rt_env \<Rightarrow> string \<Rightarrow> runtime \<Rightarrow> (rt_error, workload) outcome \<times> runtime" where
  "rt_resume = signal_and_update False WorkloadRunning"

text \<open>
  \<open>recordExit\<close>: the exit of the process with the given start ticks; \<open>err\<close> is the exit error, if any.
  The write failure is only logged.
\<close>

definition rt_record_exit :: "bool \<Rightarrow> string \<Rightarrow> nat \<Rightarrow> string option \<Rightarrow> runtime \<Rightarrow> runtime" where
  "rt_record_exit put_ok k ticks err rt =
     (case st_get (rt_records rt) k of
        None \<Rightarrow> rt
      | Some w \<Rightarrow>
     (case wl_process w of
        None \<Rightarrow> rt
      | Some p \<Rightarrow>
          if ps_start_ticks p \<noteq> ticks then rt
          else let retired = k \<in> rt_stopping rt;
                   w' = (case err of
                           Some e \<Rightarrow> if \<not> retired then w\<lparr>wl_last_error := e, wl_status := WorkloadFailed\<rparr>
                                      else w\<lparr>wl_last_error := [], wl_status := WorkloadStopped\<rparr>
                         | None \<Rightarrow> w\<lparr>wl_last_error := [], wl_status := WorkloadStopped\<rparr>);
                   w'' = w'\<lparr>wl_process := None, wl_generation := wl_generation w + 1\<rparr>
               in rt\<lparr>rt_stopping := rt_stopping rt - {k},
                     rt_records := (if put_ok then st_put k w'' (rt_records rt) else rt_records rt)\<rparr>))"

text \<open>
  The signalling part of \<open>Stop\<close>, run without the mutex.  It returns whether the group was signalled.
  A checkpointed tree is killed outright; any other is continued, asked to terminate, and killed when
  the grace period ends.
\<close>

definition stop_signal :: "rt_env \<Rightarrow> workload \<Rightarrow> process_state \<Rightarrow> runtime \<Rightarrow> bool \<times> runtime" where
  "stop_signal env w p rt =
     (let g = ps_pgid p; ks = rt_kernel rt;
          permitted = re_signal env \<or> \<not> group_exists g ks;
          ks1 = (if wl_status w = WorkloadCheckpointed \<or> \<not> re_signal env then ks else set_stopped False g ks)
      in if \<not> permitted then (False, rt\<lparr>rt_kernel := ks1, rt_stopping := rt_stopping rt - {wsp_id (wl_spec w)}\<rparr>)
         else let ks2 = (if wl_status w = WorkloadCheckpointed \<or> re_exits env then kill_group g ks1 else ks1);
                  ks3 = (if process_alive ks2 (ps_pid p) (ps_start_ticks p) then kill_group g ks2 else ks2)
              in (True, rt\<lparr>rt_kernel := ks3\<rparr>))"

text \<open>
  The closing part of \<open>Stop\<close>, after the mutex is taken again.
\<close>

definition stop_record :: "rt_env \<Rightarrow> string \<Rightarrow> runtime \<Rightarrow> (rt_error, workload) outcome \<times> runtime" where
  "stop_record env k rt =
     (case rt_get rt k of
        None \<Rightarrow> (Inl RtNotFound, rt)
      | Some w \<Rightarrow>
          let w' = w\<lparr>wl_status := WorkloadStopped, wl_process := None, wl_generation := wl_generation w + 1\<rparr> in
          if \<not> re_put env then (Inl RtPersist, rt)
          else (Inr w', rt\<lparr>rt_records := st_put (wsp_id (wl_spec w)) w' (rt_records rt),
                          rt_stopping := rt_stopping rt - {wsp_id (wl_spec w)}\<rparr>))"

definition rt_stop :: "rt_env \<Rightarrow> string \<Rightarrow> runtime \<Rightarrow> (rt_error, workload) outcome \<times> runtime" where
  "rt_stop env k rt =
     (case rt_get rt k of
        None \<Rightarrow> (Inl RtNotFound, rt)
      | Some w \<Rightarrow>
          let i = wsp_id (wl_spec w) in
          if \<not> proc_alive (rt_kernel rt) (wl_process w)
          then let w' = w\<lparr>wl_status := WorkloadStopped, wl_process := None, wl_generation := wl_generation w + 1\<rparr>;
                   rt' = rt\<lparr>rt_stopping := rt_stopping rt - {i}\<rparr>
               in rt_put env i w' rt'
          else case wl_process w of
            None \<Rightarrow> (Inl ProcessNotAlive, rt)
          | Some p \<Rightarrow>
              (case stop_signal env w p (rt\<lparr>rt_stopping := insert i (rt_stopping rt)\<rparr>) of
                 (False, rt') \<Rightarrow> (Inl SignalFailed, rt')
               | (True, rt') \<Rightarrow>
                   stop_record env i
                     (if re_waiter env \<and> \<not> process_alive (rt_kernel rt') (ps_pid p) (ps_start_ticks p)
                      then rt_record_exit (re_put env) i (ps_start_ticks p) (Some ''signal'') rt' else rt')))"

definition rt_retire :: "string \<Rightarrow> runtime \<Rightarrow> runtime" where
  "rt_retire k rt = rt\<lparr>rt_stopping := insert k (rt_stopping rt)\<rparr>"

section \<open>Restores and checkpoints\<close>

definition rt_adopt_restored :: "rt_env \<Rightarrow> string \<Rightarrow> kproc \<Rightarrow> runtime \<Rightarrow> (rt_error, workload) outcome \<times> runtime" where
  "rt_adopt_restored env k p rt =
     (case rt_get rt k of
        None \<Rightarrow> (Inl RtNotFound, rt)
      | Some w \<Rightarrow>
          if \<not> re_creds env then (Inl CredentialsMismatch, rt\<lparr>rt_kernel := kill_pid (kp_pid p) (rt_kernel rt)\<rparr>)
          else if \<not> re_ticks env \<or> \<not> re_pgid env then (Inl IdentityFailed, rt)
          else let w' = w\<lparr>wl_process := Some (proc_of p), wl_status := WorkloadRunning, wl_generation := wl_generation w + 1\<rparr>;
                   rt' = rt\<lparr>rt_stopping := rt_stopping rt - {k}\<rparr>
               in if \<not> re_cgroup env then (Inl CgroupFailed, rt')
                  else rt_put env k w' rt')"

text \<open>
  \<open>PrepareRestore\<close> returns the record and whether it created it.
\<close>

definition rt_prepare_restore ::
  "rt_env \<Rightarrow> workload_spec \<Rightarrow> runtime \<Rightarrow> (rt_error, workload \<times> bool) outcome \<times> runtime" where
  "rt_prepare_restore env spec rt =
     (case rt_get rt (wsp_id spec) of
        None \<Rightarrow>
          (case normalize (re_spec env) spec of
             Inl e \<Rightarrow> (Inl (RtSpec e), rt)
           | Inr s \<Rightarrow>
               if list_ex (\<lambda>w. equal_fold (wsp_name (wl_spec w)) (wsp_name s) \<and> wsp_id (wl_spec w) \<noteq> wsp_id s)
                    (st_list (rt_records rt))
               then (Inl NameTaken, rt)
               else let w = new_workload s WorkloadRestoring in
                 if re_put env then (Inr (w, True), rt\<lparr>rt_records := st_put (wsp_id s) w (rt_records rt)\<rparr>)
                 else (Inl RtPersist, rt))
      | Some w \<Rightarrow>
          if wsp_id (wl_spec w) \<noteq> wsp_id spec then (Inl RestoreIdMismatch, rt)
          else if \<not> equal_fold (wsp_name (wl_spec w)) (wsp_name spec) then (Inl RestoreRename, rt)
          else case normalize (re_spec env) spec of
            Inl e \<Rightarrow> (Inl (RtSpec e), rt)
          | Inr s \<Rightarrow>
              if proc_alive (rt_kernel rt) (wl_process w) \<and> wl_status w \<noteq> WorkloadCheckpointed
              then (Inl DestinationActive, rt)
              else let w' = w\<lparr>wl_spec := s, wl_status := WorkloadRestoring, wl_process := None,
                              wl_generation := wl_generation w + 1\<rparr> in
                if re_put env then (Inr (w', False), rt\<lparr>rt_records := st_put (wsp_id s) w' (rt_records rt)\<rparr>)
                else (Inl RtPersist, rt))"

definition rt_mark_restore_failed :: "rt_env \<Rightarrow> string \<Rightarrow> string \<Rightarrow> runtime \<Rightarrow> (rt_error, workload) outcome \<times> runtime" where
  "rt_mark_restore_failed env k reason rt =
     (case rt_get rt k of
        None \<Rightarrow> (Inl RtNotFound, rt)
      | Some w \<Rightarrow> rt_put env k (w\<lparr>wl_status := WorkloadFailed, wl_process := None, wl_last_error := reason,
                                wl_generation := wl_generation w + 1\<rparr>) rt)"

definition rt_restore_metadata :: "rt_env \<Rightarrow> workload \<Rightarrow> runtime \<Rightarrow> (rt_error, workload) outcome \<times> runtime" where
  "rt_restore_metadata env w rt =
     (if wsp_id (wl_spec w) = [] then (Inl RtIdRequired, rt)
      else case rt_get rt (wsp_id (wl_spec w)) of
        Some current \<Rightarrow>
          if proc_alive (rt_kernel rt) (wl_process current) then (Inl ActiveMetadata, rt)
          else rt_put env (wsp_id (wl_spec w)) w rt
      | None \<Rightarrow> rt_put env (wsp_id (wl_spec w)) w rt)"

definition rt_mark_checkpoint ::
  "rt_env \<Rightarrow> string \<Rightarrow> string \<Rightarrow> bool \<Rightarrow> runtime \<Rightarrow> (rt_error, workload) outcome \<times> runtime" where
  "rt_mark_checkpoint env k cid still_running rt =
     (case rt_get rt k of
        None \<Rightarrow> (Inl RtNotFound, rt)
      | Some w \<Rightarrow>
          rt_put env (wsp_id (wl_spec w))
            (w\<lparr>wl_latest_checkpoint := cid,
               wl_status := (if still_running then WorkloadRunning else WorkloadCheckpointed),
               wl_generation := wl_generation w + 1\<rparr>) rt)"

definition rt_delete :: "rt_env \<Rightarrow> string \<Rightarrow> runtime \<Rightarrow> (rt_error, unit) outcome \<times> runtime" where
  "rt_delete env k rt =
     (case rt_get rt k of
        None \<Rightarrow> (Inl RtNotFound, rt)
      | Some w \<Rightarrow>
          if proc_alive (rt_kernel rt) (wl_process w) then (Inl StopFirst, rt)
          else if \<not> re_put env then (Inl RtPersist, rt)
          else (Inr (), rt\<lparr>rt_records := st_del (wsp_id (wl_spec w)) (rt_records rt)\<rparr>))"

text \<open>
  \<open>Reconcile\<close>, run when the agent opens: records of processes that did not survive are closed.
  \<open>put_ok\<close> says for each workload whether its write lands; a failure ends the pass with an error.
\<close>

definition reconcile_one :: "kproc list \<Rightarrow> workload \<Rightarrow> workload option" where
  "reconcile_one ks w =
     (if wl_process w = None \<or> proc_alive ks (wl_process w) then None
      else Some (if wl_status w = WorkloadRunning \<or> wl_status w = WorkloadPaused \<or> wl_status w = WorkloadStarting
                 then w\<lparr>wl_process := None, wl_status := WorkloadFailed,
                        wl_last_error := ''recorded process is no longer running'', wl_generation := wl_generation w + 1\<rparr>
                 else w\<lparr>wl_process := None, wl_status := WorkloadStopped, wl_generation := wl_generation w + 1\<rparr>))"

fun reconcile_list :: "(string \<Rightarrow> bool) \<Rightarrow> kproc list \<Rightarrow> workload list \<Rightarrow> workload store \<Rightarrow> bool \<times> workload store" where
  "reconcile_list put_ok ks [] st = (True, st)"
| "reconcile_list put_ok ks (w # ws) st =
     (case reconcile_one ks w of
        None \<Rightarrow> reconcile_list put_ok ks ws st
      | Some w' \<Rightarrow>
          if put_ok (wsp_id (wl_spec w)) then reconcile_list put_ok ks ws (st_put (wsp_id (wl_spec w)) w' st)
          else (False, st))"

definition rt_reconcile :: "(string \<Rightarrow> bool) \<Rightarrow> runtime \<Rightarrow> bool \<times> runtime" where
  "rt_reconcile put_ok rt =
     (case reconcile_list put_ok (rt_kernel rt) (st_list (rt_records rt)) (rt_records rt) of
        (ok, st) \<Rightarrow> (ok, rt\<lparr>rt_records := st\<rparr>))"

section \<open>The workload environment\<close>

text \<open>
  \<open>mergedEnvironment\<close>: \<open>lookup\<close> is the agent's own environment.  Go map iteration order does not
  matter, since the keys are sorted; a specification's environment is a map, so its keys differ.
\<close>

definition workload_base_environment :: "string list" where
  "workload_base_environment = [''PATH'', ''HOME'', ''TZ'', ''LANG'']"

definition default_workload_path :: string where
  "default_workload_path = ''/usr/local/sbin:/usr/local/bin:/usr/sbin:/usr/bin:/sbin:/bin''"

definition agent_credential_names :: "string list" where
  "agent_credential_names = [''AWS_ACCESS_KEY_ID'', ''AWS_SECRET_ACCESS_KEY'', ''AWS_SESSION_TOKEN'',
     ''AWS_SECURITY_TOKEN'', ''S3_ACCESS_KEY_ID'', ''S3_SECRET_ACCESS_KEY'', ''S3_SESSION_TOKEN'']"

definition is_agent_credential_env :: "string \<Rightarrow> bool" where
  "is_agent_credential_env key =
     (let u = to_upper key in prefix ''SHIFT_'' u \<or> u \<in> set agent_credential_names)"

definition base_environment :: "(string \<Rightarrow> string option) \<Rightarrow> string store" where
  "base_environment lookup =
     (let v = fold (\<lambda>k m. case lookup k of None \<Rightarrow> m | Some x \<Rightarrow> st_put k x m) workload_base_environment []
      in if st_get v ''PATH'' = None then st_put ''PATH'' default_workload_path v else v)"

definition overlay_environment :: "(string \<times> string) list \<Rightarrow> string store \<Rightarrow> string store" where
  "overlay_environment overrides v =
     fold (\<lambda>(k, x) m. if trim_space k = [] \<or> is_agent_credential_env k then m else st_put k x m) overrides v"

definition merged_environment :: "(string \<Rightarrow> string option) \<Rightarrow> (string \<times> string) list \<Rightarrow> string list" where
  "merged_environment lookup overrides =
     map (\<lambda>(k, x). k @ ''='' @ x) (overlay_environment overrides (base_environment lookup))"


section \<open>Consistency of the records\<close>

text \<open>
  A process is recorded only in an active status; the collection is keyed by the workload's id; names
  differ even when case is ignored, so that a lookup by name has one answer.
\<close>

definition wl_ok :: "workload \<Rightarrow> bool" where
  "wl_ok w \<longleftrightarrow> (wl_process w \<noteq> None \<longrightarrow>
     wl_status w = WorkloadRunning \<or> wl_status w = WorkloadPaused \<or> wl_status w = WorkloadCheckpointed)"

definition name_free :: "workload store \<Rightarrow> string \<Rightarrow> string \<Rightarrow> bool" where
  "name_free st k n \<longleftrightarrow> (\<forall>k' w. st_get st k' = Some w \<longrightarrow> equal_fold (wsp_name (wl_spec w)) n \<longrightarrow> k' = k)"

definition records_ok :: "workload store \<Rightarrow> bool" where
  "records_ok st \<longleftrightarrow> st_ok st
     \<and> (\<forall>k w. st_get st k = Some w \<longrightarrow> wsp_id (wl_spec w) = k \<and> wl_ok w \<and> name_free st k (wsp_name (wl_spec w)))"

lemma records_ok_put:
  assumes "records_ok st" "wsp_id (wl_spec w) = k" "wl_ok w" "name_free st k (wsp_name (wl_spec w))"
  shows "records_ok (st_put k w st)"
  using assms unfolding records_ok_def name_free_def
  by (auto simp: equal_fold_sym split: if_splits)

lemma records_ok_del: "records_ok st \<Longrightarrow> records_ok (st_del k st)"
  by (auto simp: records_ok_def name_free_def split: if_splits)

lemma records_okD:
  assumes "records_ok st" "st_get st k = Some w"
  shows "wsp_id (wl_spec w) = k" "wl_ok w" "name_free st k (wsp_name (wl_spec w))"
  using assms by (auto simp: records_ok_def)

lemma rt_get_key:
  assumes "records_ok (rt_records rt)" "rt_get rt k = Some w"
  shows "st_get (rt_records rt) (wsp_id (wl_spec w)) = Some w"
proof (cases "st_get (rt_records rt) k")
  case None
  with assms(2) have "w \<in> set (st_list (rt_records rt))"
    by (auto simp: rt_get_def find_Some_iff)
  with assms(1) show ?thesis
    by (auto simp: records_ok_def st_list_member)
next
  case (Some v)
  with assms show ?thesis by (auto simp: rt_get_def records_ok_def)
qed

lemma records_ok_rewrite:
  assumes "records_ok (rt_records rt)" "rt_get rt k = Some w"
    and "wsp_id (wl_spec w') = wsp_id (wl_spec w)" "wsp_name (wl_spec w') = wsp_name (wl_spec w)" "wl_ok w'"
  shows "records_ok (st_put (wsp_id (wl_spec w)) w' (rt_records rt))"
  using records_ok_put [OF assms(1), of w' "wsp_id (wl_spec w)"] assms(3-)
    records_okD(3) [OF assms(1) rt_get_key [OF assms(1,2)]] by simp

lemma create_conflict_None:
  "create_conflict s ws = None \<Longrightarrow> w \<in> set ws \<Longrightarrow>
     \<not> equal_fold (wsp_name (wl_spec w)) (wsp_name s) \<and> wsp_id (wl_spec w) \<noteq> wsp_id s
     \<and> \<not> equal_fold (wsp_name (wl_spec w)) (wsp_id s) \<and> wsp_id (wl_spec w) \<noteq> wsp_name s"
proof (induction ws)
  case (Cons v ws)
  then have "create_conflict s ws = None" and "\<not> equal_fold (wsp_name (wl_spec v)) (wsp_name s)"
    "wsp_id (wl_spec v) \<noteq> wsp_id s" "\<not> equal_fold (wsp_name (wl_spec v)) (wsp_id s)" "wsp_id (wl_spec v) \<noteq> wsp_name s"
    by (simp_all split: if_splits)
  with Cons show ?case by (cases "w = v") simp_all
qed simp

lemma name_freeI:
  assumes "st_ok st" "\<And>w. w \<in> set (st_list st) \<Longrightarrow> equal_fold (wsp_name (wl_spec w)) n \<Longrightarrow> wsp_id (wl_spec w) = k"
    and "\<And>k w. st_get st k = Some w \<Longrightarrow> wsp_id (wl_spec w) = k"
  shows "name_free st k n"
  unfolding name_free_def using assms st_list_member [OF assms(1)] by metis

text \<open>The records an operation leaves: unchanged, or one record rewritten or dropped.\<close>

lemma rt_put_records:
  "rt_records (snd (rt_put env k w rt)) = (if re_put env then st_put k w (rt_records rt) else rt_records rt)"
  by (simp add: rt_put_def)

lemma normalize_name: "normalize env s = Inr s' \<Longrightarrow> wsp_name s' = wsp_name s \<and> (wsp_id s \<noteq> [] \<longrightarrow> wsp_id s' = wsp_id s)"
proof -
  have pol: "wsp_name b = wsp_name a \<and> wsp_id b = wsp_id a" if "normalize_policies now a = Inr b" for now a b
    using normalize_policies_Inr [OF that] by auto
  have tail: "wsp_name b = wsp_name a \<and> wsp_id b = wsp_id a" if "normalize_tail env a = Inr b" for a b
    using that by (auto simp: normalize_tail_def Let_def split: if_splits sum.splits dest!: pol)
  assume "normalize env s = Inr s'"
  then show ?thesis
    by (auto simp: normalize_def Let_def split: if_splits option.splits dest!: tail)
qed

section \<open>Every operation keeps the records consistent\<close>

lemma create_ok: "records_ok (rt_records rt) \<Longrightarrow> records_ok (rt_records (snd (rt_create env s rt)))"
proof -
  assume ok: "records_ok (rt_records rt)"
  have "records_ok (st_put (wsp_id s') (new_workload s' WorkloadRegistered) (rt_records rt))"
    if "create_conflict s' (st_list (rt_records rt)) = None" for s'
  proof (rule records_ok_put [OF ok])
    show "name_free (rt_records rt) (wsp_id s') (wsp_name (wl_spec (new_workload s' WorkloadRegistered)))"
      using create_conflict_None [OF that] ok
      by (intro name_freeI) (auto simp: records_ok_def new_workload_def)
  qed (simp_all add: new_workload_def wl_ok_def)
  with ok show ?thesis
    by (auto simp: rt_create_def rt_put_records split: sum.split option.split)
qed

lemma policy_ok:
  assumes "records_ok (rt_records rt)"
  shows "records_ok (rt_records (snd (rt_set_checkpoint_policy env k cp rt)))"
    and "records_ok (rt_records (snd (rt_set_failover_policy env k fo rt)))"
  using assms records_okD(2) [OF assms rt_get_key [OF assms]]
  by (auto simp: rt_set_checkpoint_policy_def rt_set_failover_policy_def Let_def rt_put_records wl_ok_def
      split: option.split sum.split intro!: records_ok_rewrite [OF assms])

lemma start_ok: "records_ok (rt_records rt) \<Longrightarrow> records_ok (rt_records (snd (rt_start env k rt)))"
  by (auto simp: rt_start_def Let_def wl_ok_def split: option.split intro!: records_ok_rewrite)

lemma signal_ok:
  assumes "records_ok (rt_records rt)" "st = WorkloadRunning \<or> st = WorkloadPaused"
  shows "records_ok (rt_records (snd (signal_and_update b st env k rt)))"
  using assms
  by (auto simp: signal_and_update_def rt_put_records wl_ok_def split: option.split intro!: records_ok_rewrite [OF assms(1)])

lemma records_ok_closed:
  assumes "records_ok st" "st_get st k = Some w" "wl_process w' = None" "wl_spec w' = wl_spec w"
  shows "records_ok (st_put k w' st)"
  using assms records_okD [OF assms(1,2)] by (intro records_ok_put) (simp_all add: wl_ok_def)

lemma record_exit_ok: "records_ok (rt_records rt) \<Longrightarrow> records_ok (rt_records (rt_record_exit b k t e rt))"
  unfolding rt_record_exit_def Let_def
  by (auto split: option.split elim!: records_ok_closed)

lemma stop_record_ok: "records_ok (rt_records rt) \<Longrightarrow> records_ok (rt_records (snd (stop_record env k rt)))"
  by (auto simp: stop_record_def Let_def wl_ok_def split: option.split intro!: records_ok_rewrite)

lemma stop_signal_records: "rt_records (snd (stop_signal env w p rt)) = rt_records rt"
  by (simp add: stop_signal_def Let_def)

lemma stop_ok:
  assumes "records_ok (rt_records rt)" shows "records_ok (rt_records (snd (rt_stop env k rt)))"
proof -
  have closed: "records_ok (rt_records (snd (rt_put env (wsp_id (wl_spec w))
      (w\<lparr>wl_status := WorkloadStopped, wl_process := None, wl_generation := n\<rparr>)
      (rt\<lparr>rt_stopping := S\<rparr>))))" if "rt_get rt k = Some w" for w n S
    using assms by (auto simp: rt_put_records wl_ok_def intro!: records_ok_rewrite [OF assms that])
  have kept: "records_ok (rt_records rt')" if "stop_signal env w p (rt\<lparr>rt_stopping := S\<rparr>) = (b, rt')" for w p S b rt'
    using stop_signal_records [of env w p "rt\<lparr>rt_stopping := S\<rparr>"] that assms by simp
  show ?thesis
    using assms closed kept
    by (auto simp: rt_stop_def Let_def split: option.split prod.split bool.split
        intro!: stop_record_ok record_exit_ok)
qed

lemma adopt_ok:
  assumes "records_ok (rt_records rt)" "st_get (rt_records rt) k \<noteq> None"
  shows "records_ok (rt_records (snd (rt_adopt_restored env k p rt)))"
proof -
  obtain w where w: "st_get (rt_records rt) k = Some w" using assms(2) by auto
  have "records_ok (st_put k (w\<lparr>wl_process := q, wl_status := WorkloadRunning, wl_generation := n\<rparr>) (rt_records rt))" for q n
    using records_okD [OF assms(1) w] assms(1) by (intro records_ok_put) (simp_all add: wl_ok_def)
  with assms(1) w show ?thesis
    by (simp add: rt_adopt_restored_def rt_get_def rt_put_records Let_def)
qed

lemma prepare_restore_ok:
  assumes "records_ok (rt_records rt)" "wsp_id spec \<noteq> []"
  shows "records_ok (rt_records (snd (rt_prepare_restore env spec rt)))"
proof -
  have ids: "\<And>k w. st_get (rt_records rt) k = Some w \<Longrightarrow> wsp_id (wl_spec w) = k"
    using assms(1) by (simp add: records_ok_def)
  have fresh: "records_ok (st_put (wsp_id s) (new_workload s WorkloadRestoring) (rt_records rt))"
    if "\<forall>w \<in> set (st_list (rt_records rt)). equal_fold (wsp_name (wl_spec w)) (wsp_name s) \<longrightarrow> wsp_id (wl_spec w) = wsp_id s" for s
    using that assms(1) ids
    by (intro records_ok_put [OF assms(1)] name_freeI) (auto simp: new_workload_def wl_ok_def records_ok_def)
  have replaced: "records_ok (st_put (wsp_id s) (w\<lparr>wl_spec := s, wl_status := WorkloadRestoring, wl_process := None, wl_generation := n\<rparr>) (rt_records rt))"
    if "rt_get rt (wsp_id spec) = Some w" "wsp_id (wl_spec w) = wsp_id spec" "equal_fold (wsp_name (wl_spec w)) (wsp_name spec)"
      "normalize (re_spec env) spec = Inr s" for w s n
  proof -
    have s: "wsp_name s = wsp_name spec" "wsp_id s = wsp_id spec"
      using normalize_name [OF that(4)] assms(2) by simp_all
    have "name_free (rt_records rt) (wsp_id spec) (wsp_name (wl_spec w))"
      using records_okD(3) [OF assms(1) rt_get_key [OF assms(1) that(1)]] that(2) by simp
    then have "name_free (rt_records rt) (wsp_id s) (wsp_name s)"
      using that(3) s by (simp add: name_free_def equal_fold_def)
    with assms(1) show ?thesis by (intro records_ok_put) (simp_all add: wl_ok_def)
  qed
  show ?thesis using assms(1)
    by (auto simp: rt_prepare_restore_def Let_def list_ex_iff split: option.split sum.split intro!: fresh replaced)
qed

lemma mark_restore_failed_ok:
  assumes "records_ok (rt_records rt)" "st_get (rt_records rt) k \<noteq> None"
  shows "records_ok (rt_records (snd (rt_mark_restore_failed env k r rt)))"
  using assms by (auto simp: rt_mark_restore_failed_def rt_get_def rt_put_records elim!: records_ok_closed)

lemma restore_metadata_ok:
  assumes "records_ok (rt_records rt)" "wl_ok w" "name_free (rt_records rt) (wsp_id (wl_spec w)) (wsp_name (wl_spec w))"
  shows "records_ok (rt_records (snd (rt_restore_metadata env w rt)))"
  using assms by (simp add: rt_restore_metadata_def rt_put_records records_ok_put split: option.split)

lemma mark_checkpoint_ok:
  assumes "records_ok (rt_records rt)" shows "records_ok (rt_records (snd (rt_mark_checkpoint env k c b rt)))"
  using assms
  by (auto simp: rt_mark_checkpoint_def rt_put_records wl_ok_def split: option.split intro!: records_ok_rewrite [OF assms])

lemma delete_ok: "records_ok (rt_records rt) \<Longrightarrow> records_ok (rt_records (snd (rt_delete env k rt)))"
  by (simp add: rt_delete_def records_ok_del split: option.split)

lemma reconcile_one_fields:
  "reconcile_one ks w = Some w' \<Longrightarrow> wl_spec w' = wl_spec w \<and> wl_process w' = None"
  by (auto simp: reconcile_one_def split: if_splits)

lemma reconcile_list_ok:
  "records_ok st \<Longrightarrow> (\<forall>w \<in> set ws. \<exists>v. st_get st (wsp_id (wl_spec w)) = Some v \<and> wl_spec v = wl_spec w)
     \<Longrightarrow> records_ok (snd (reconcile_list ok ks ws st))"
proof (induction ws arbitrary: st)
  case (Cons w ws)
  show ?case
  proof (cases "reconcile_one ks w")
    case None
    with Cons show ?thesis by simp
  next
    case (Some w')
    obtain v where v: "st_get st (wsp_id (wl_spec w)) = Some v" "wl_spec v = wl_spec w" using Cons.prems(2) by auto
    have w': "wl_spec w' = wl_spec w" "wl_process w' = None" using reconcile_one_fields [OF Some] by auto
    let ?st = "st_put (wsp_id (wl_spec w)) w' st"
    have "records_ok ?st" using Cons.prems(1) v w' by (intro records_ok_closed [where w = v]) simp_all
    moreover have "\<forall>u \<in> set ws. \<exists>x. st_get ?st (wsp_id (wl_spec u)) = Some x \<and> wl_spec x = wl_spec u"
    proof
      fix u assume "u \<in> set ws"
      with Cons.prems(2) obtain x where x: "st_get st (wsp_id (wl_spec u)) = Some x" "wl_spec x = wl_spec u" by auto
      show "\<exists>x. st_get ?st (wsp_id (wl_spec u)) = Some x \<and> wl_spec x = wl_spec u"
        using x v w' by (cases "wsp_id (wl_spec u) = wsp_id (wl_spec w)") auto
    qed
    ultimately have "records_ok (snd (reconcile_list ok ks ws ?st))" by (rule Cons.IH)
    with Some Cons.prems(1) show ?thesis by simp
  qed
qed simp

lemma reconcile_ok:
  assumes "records_ok (rt_records rt)" shows "records_ok (rt_records (snd (rt_reconcile ok rt)))"
proof -
  have "\<forall>w \<in> set (st_list (rt_records rt)). \<exists>v. st_get (rt_records rt) (wsp_id (wl_spec w)) = Some v \<and> wl_spec v = wl_spec w"
    using assms st_list_member [of "rt_records rt"] by (auto simp: records_ok_def)
  from reconcile_list_ok [OF assms this, of ok "rt_kernel rt"] show ?thesis
    by (auto simp: rt_reconcile_def split: prod.splits)
qed

lemmas runtime_ok = create_ok policy_ok start_ok signal_ok record_exit_ok stop_ok adopt_ok prepare_restore_ok
  mark_restore_failed_ok restore_metadata_ok mark_checkpoint_ok delete_ok reconcile_ok

subsection \<open>Histories\<close>

datatype rt_op = Create workload_spec | SetCheckpointPolicy string "checkpoint_policy_spec option"
  | SetFailoverPolicy string "failover_policy_spec option" | Start string | Pause string | Resume string
  | Stop string | RecordExit string nat "string option" | Retire string | AdoptRestored string kproc
  | PrepareRestore workload_spec | MarkRestoreFailed string string | RestoreMetadata workload
  | MarkCheckpoint string string bool | DeleteWorkload string | Reconcile "string \<Rightarrow> bool"

fun rt_exec :: "rt_env \<Rightarrow> rt_op \<Rightarrow> runtime \<Rightarrow> runtime" where
  "rt_exec env (Create s) rt = snd (rt_create env s rt)"
| "rt_exec env (SetCheckpointPolicy k p) rt = snd (rt_set_checkpoint_policy env k p rt)"
| "rt_exec env (SetFailoverPolicy k p) rt = snd (rt_set_failover_policy env k p rt)"
| "rt_exec env (Start k) rt = snd (rt_start env k rt)"
| "rt_exec env (Pause k) rt = snd (rt_pause env k rt)"
| "rt_exec env (Resume k) rt = snd (rt_resume env k rt)"
| "rt_exec env (Stop k) rt = snd (rt_stop env k rt)"
| "rt_exec env (RecordExit k t e) rt = rt_record_exit (re_put env) k t e rt"
| "rt_exec env (Retire k) rt = rt_retire k rt"
| "rt_exec env (AdoptRestored k p) rt = snd (rt_adopt_restored env k p rt)"
| "rt_exec env (PrepareRestore s) rt = snd (rt_prepare_restore env s rt)"
| "rt_exec env (MarkRestoreFailed k r) rt = snd (rt_mark_restore_failed env k r rt)"
| "rt_exec env (RestoreMetadata w) rt = snd (rt_restore_metadata env w rt)"
| "rt_exec env (MarkCheckpoint k c b) rt = snd (rt_mark_checkpoint env k c b rt)"
| "rt_exec env (DeleteWorkload k) rt = snd (rt_delete env k rt)"
| "rt_exec env (Reconcile f) rt = snd (rt_reconcile f rt)"

text \<open>
  What the restorer's calls rely on: it adopts and fails a workload it prepared, prepares one with an
  id, and puts back a record it read.
\<close>

fun rt_op_ok :: "rt_op \<Rightarrow> runtime \<Rightarrow> bool" where
  "rt_op_ok (AdoptRestored k p) rt = (st_get (rt_records rt) k \<noteq> None)"
| "rt_op_ok (PrepareRestore s) rt = (wsp_id s \<noteq> [])"
| "rt_op_ok (MarkRestoreFailed k r) rt = (st_get (rt_records rt) k \<noteq> None)"
| "rt_op_ok (RestoreMetadata w) rt = (wl_ok w \<and>
     (case st_get (rt_records rt) (wsp_id (wl_spec w)) of
        None \<Rightarrow> False
      | Some v \<Rightarrow> equal_fold (wsp_name (wl_spec w)) (wsp_name (wl_spec v))))"
| "rt_op_ok _ rt = True"

fun rt_run :: "(rt_env \<times> rt_op) list \<Rightarrow> runtime \<Rightarrow> runtime option" where
  "rt_run [] rt = Some rt"
| "rt_run ((env, op) # ops) rt = (if rt_op_ok op rt then rt_run ops (rt_exec env op rt) else None)"

lemma rt_exec_ok:
  assumes "records_ok (rt_records rt)" "rt_op_ok op rt"
  shows "records_ok (rt_records (rt_exec env op rt))"
proof (cases op)
  case (RestoreMetadata w)
  from assms(2) RestoreMetadata obtain v where v: "st_get (rt_records rt) (wsp_id (wl_spec w)) = Some v" "wl_ok w"
    "equal_fold (wsp_name (wl_spec w)) (wsp_name (wl_spec v))"
    by (auto split: option.splits)
  have "name_free (rt_records rt) (wsp_id (wl_spec w)) (wsp_name (wl_spec w))"
    using records_okD(3) [OF assms(1) v(1)] v(3) by (simp add: name_free_def equal_fold_def)
  with RestoreMetadata v assms(1) show ?thesis by (simp add: restore_metadata_ok)
qed (use assms in \<open>simp_all add: runtime_ok rt_pause_def rt_resume_def rt_retire_def\<close>)


definition env_good :: rt_env where
  "env_good = \<lparr>re_spec = sample_env, re_put = True, re_signal = True, re_exits = True, re_waiter = True,
     re_root_exists = True, re_root_dir = True, re_workdir = True, re_executable = True, re_log = True,
     re_cgroup = True, re_privileged = True, re_self = True, re_same_ids = True, re_spawn = True, re_ticks = True,
     re_pgid = True, re_creds = True, re_proc = \<lparr>kp_pid = 10, kp_pgid = 10, kp_ticks = 7, kp_stopped = False\<rparr>\<rparr>"

definition rt_empty :: runtime where
  "rt_empty = \<lparr>rt_records = [], rt_stopping = {}, rt_kernel = []\<rparr>"

lemma records_ok_empty [simp]: "records_ok []"
  by (simp add: records_ok_def)

definition rt_sample_ops :: "(rt_env \<times> rt_op) list" where
  "rt_sample_ops = [(env_good, Create sample_spec), (env_good, Start ''job''), (env_good, Stop ''w1'')]"

definition rt_sample_end :: runtime where
  "rt_sample_end = \<lparr>rt_records = [(''w1'', \<lparr>wl_spec = sample_normal, wl_status = WorkloadStopped, wl_process = None,
     wl_latest_checkpoint = [], wl_generation = 4, wl_last_error = []\<rparr>)], rt_stopping = {}, rt_kernel = []\<rparr>"

lemma rt_sample_run: "rt_run rt_sample_ops rt_empty = Some rt_sample_end"
  by code_simp



section \<open>Stopping a workload\<close>

definition others :: "int \<Rightarrow> kproc list \<Rightarrow> kproc list" where
  "others g ks = filter (\<lambda>p. \<not> in_group g p) ks"

lemma others_simps [simp]:
  "others g (kill_group g ks) = others g ks" "others g (set_stopped b g ks) = others g ks"
  by (induction ks) (auto simp: others_def kill_group_def set_stopped_def in_group_def)

definition leads_group :: "kproc list \<Rightarrow> process_state \<Rightarrow> bool" where
  "leads_group ks p \<longleftrightarrow> (\<forall>q \<in> set ks. kp_pid q = ps_pid p \<and> kp_ticks q = ps_start_ticks p \<longrightarrow> kp_pgid q = ps_pgid p)"

lemma leads_set_stopped: "leads_group ks p \<Longrightarrow> leads_group (set_stopped b g ks) p"
  by (auto simp: leads_group_def set_stopped_def split: if_splits)

lemma leads_kill: "leads_group ks p \<Longrightarrow> leads_group (kill_group g ks) p"
  by (auto simp: leads_group_def kill_group_def)

lemma not_alive_killed: "leads_group ks p \<Longrightarrow> \<not> process_alive (kill_group (ps_pgid p) ks) (ps_pid p) (ps_start_ticks p)"
  by (auto simp: leads_group_def kill_group_def process_alive_def list_ex_iff in_group_def)

lemma stop_signal_True:
  assumes "stop_signal env w p rt = (True, rt')" "leads_group (rt_kernel rt) p"
  shows "\<not> process_alive (rt_kernel rt') (ps_pid p) (ps_start_ticks p)"
    "others (ps_pgid p) (rt_kernel rt') = others (ps_pgid p) (rt_kernel rt)" "rt_stopping rt' = rt_stopping rt"
proof -
  let ?ks1 = "if wl_status w = WorkloadCheckpointed \<or> \<not> re_signal env then rt_kernel rt
              else set_stopped False (ps_pgid p) (rt_kernel rt)"
  have 1: "leads_group ?ks1 p" using assms(2) leads_set_stopped by auto
  have "\<not> process_alive (if process_alive ks (ps_pid p) (ps_start_ticks p) then kill_group (ps_pgid p) ks else ks)
      (ps_pid p) (ps_start_ticks p)" if "leads_group ks p" for ks
    using not_alive_killed [OF that] by simp
  from this [of "kill_group (ps_pgid p) ?ks1"] this [of ?ks1] 1 leads_kill [OF 1, of "ps_pgid p"]
  show "\<not> process_alive (rt_kernel rt') (ps_pid p) (ps_start_ticks p)"
    using assms(1) by (auto simp: stop_signal_def Let_def split: if_splits)
  show "others (ps_pgid p) (rt_kernel rt') = others (ps_pgid p) (rt_kernel rt)" "rt_stopping rt' = rt_stopping rt"
    using assms(1) by (auto simp: stop_signal_def Let_def split: if_splits)
qed

lemma stop_signal_False:
  assumes "stop_signal env w p rt = (False, rt')"
  shows "rt_kernel rt' = rt_kernel rt \<and> rt_records rt' = rt_records rt \<and> rt_stopping rt' = rt_stopping rt - {wsp_id (wl_spec w)}"
  using assms by (auto simp: stop_signal_def Let_def split: if_splits)


definition rt_running :: runtime where
  "rt_running = \<lparr>rt_records = [(''w1'', \<lparr>wl_spec = sample_normal, wl_status = WorkloadRunning,
     wl_process = Some \<lparr>ps_pid = 10, ps_pgid = 10, ps_start_ticks = 7\<rparr>,
     wl_latest_checkpoint = [], wl_generation = 2, wl_last_error = []\<rparr>)], rt_stopping = {},
     rt_kernel = [\<lparr>kp_pid = 10, kp_pgid = 10, kp_ticks = 7, kp_stopped = False\<rparr>]\<rparr>"

lemma rt_running_ok: "records_ok (rt_records rt_running)"
  by (auto simp: rt_running_def records_ok_def st_ok_def st_get_def name_free_def wl_ok_def sample_normal_def sample_spec_def)

lemma rt_running_stop: "rt_stop env_good ''w1'' rt_running =
   (Inr (snd (hd (rt_records rt_sample_end))), rt_sample_end)"
  by code_simp


section \<open>What a workload inherits\<close>

lemma st_put_entry: "(k, x) \<in> set (st_put k' x' v) \<Longrightarrow> (k, x) = (k', x') \<or> (k, x) \<in> set v"
  by (induction k' x' v rule: st_put.induct) (auto split: if_splits)

lemma overlay_Cons:
  "overlay_environment ((k, x) # ovr) v =
     overlay_environment ovr (if trim_space k = [] \<or> is_agent_credential_env k then v else st_put k x v)"
  by (simp add: overlay_environment_def)

lemma overlay_keys:
  "(k, x) \<in> set (overlay_environment ovr v) \<Longrightarrow>
     (k, x) \<in> set v \<or> (k, x) \<in> set ovr \<and> \<not> is_agent_credential_env k \<and> trim_space k \<noteq> []"
proof (induction ovr arbitrary: v)
  case (Cons p ovr)
  obtain k' x' where p: "p = (k', x')" by (cases p)
  show ?case
  proof (cases "trim_space k' = [] \<or> is_agent_credential_env k'")
    case True
    with Cons.prems p have "(k, x) \<in> set (overlay_environment ovr v)" by (simp add: overlay_Cons)
    from Cons.IH [OF this] show ?thesis by auto
  next
    case False
    with Cons.prems p have "(k, x) \<in> set (overlay_environment ovr (st_put k' x' v))" by (simp add: overlay_Cons)
    from Cons.IH [OF this] st_put_entry [of k x k' x' v] False p show ?thesis by auto
  qed
qed (simp add: overlay_environment_def)

lemma base_environment_keys:
  assumes "(k, x) \<in> set (base_environment lookup)" shows "k \<in> set workload_base_environment"
proof -
  have "(k, x) \<in> set (fold (\<lambda>k m. case lookup k of None \<Rightarrow> m | Some x \<Rightarrow> st_put k x m) ks v) \<Longrightarrow> (k, x) \<in> set v \<or> k \<in> set ks" for ks v
    by (induction ks arbitrary: v) (auto dest: st_put_entry split: option.splits)
  from this [of workload_base_environment "[]"] assms show ?thesis
    by (auto simp: base_environment_def Let_def workload_base_environment_def dest!: st_put_entry split: if_splits)
qed

lemma overlay_sorted: "st_ok v \<Longrightarrow> st_ok (overlay_environment ovr v)"
  unfolding overlay_environment_def by (induction ovr arbitrary: v) auto

lemma base_sorted: "st_ok (base_environment lookup)"
proof -
  have "st_ok v \<Longrightarrow> st_ok (fold (\<lambda>k m. case lookup k of None \<Rightarrow> m | Some x \<Rightarrow> st_put k x m) ks v)" for ks v
    by (induction ks arbitrary: v) (auto split: option.splits)
  from this [of "[]"] show ?thesis by (simp add: base_environment_def Let_def)
qed

definition env_name :: "string \<Rightarrow> string" where
  "env_name e = takeWhile (\<lambda>c. c \<noteq> CHR ''='') e"

lemma env_name_entry: "CHR ''='' \<notin> set k \<Longrightarrow> env_name (k @ ''='' @ x) = k"
  unfolding env_name_def by (induction k) auto

lemma base_not_credential: "list_all (\<lambda>k. \<not> is_agent_credential_env k \<and> CHR ''='' \<notin> set k) workload_base_environment"
  by code_simp

text \<open>
  C36.  As long as the declared names contain no \<open>=\<close>, no workload is spawned with a variable that
  names an agent credential, in any spelling of its case, whatever the agent's own environment and
  the specification hold; every variable it gets is one of the four inherited ones or one the
  specification declares; and a search path is always set.
\<close>

theorem environment_scrubbed:
  assumes "\<forall>(k, x) \<in> set overrides. CHR ''='' \<notin> set k"
    and "e \<in> set (merged_environment lookup overrides)"
  shows "\<not> is_agent_credential_env (env_name e)
    \<and> (env_name e \<in> set workload_base_environment \<or> (\<exists>x. (env_name e, x) \<in> set overrides \<and> e = env_name e @ ''='' @ x))
    \<and> (\<exists>d \<in> set (merged_environment lookup overrides). env_name d = ''PATH'')"
proof -
  let ?v = "overlay_environment overrides (base_environment lookup)"
  have key: "(k, x) \<in> set ?v \<Longrightarrow> \<not> is_agent_credential_env k \<and> CHR ''='' \<notin> set k
      \<and> (k \<in> set workload_base_environment \<or> (k, x) \<in> set overrides)" for k x
    using overlay_keys [of k x overrides "base_environment lookup"] base_environment_keys [of k x lookup]
      base_not_credential assms(1) by (auto simp: list_all_iff)
  obtain k x where e: "e = k @ ''='' @ x" and kx: "(k, x) \<in> set ?v"
    using assms(2) by (auto simp: merged_environment_def)
  have n: "env_name e = k" using key [OF kx] env_name_entry [of k x] e by simp
  have keep: "st_get v ''PATH'' \<noteq> None \<Longrightarrow> st_get (overlay_environment ovr v) ''PATH'' \<noteq> None" for ovr v
    by (induction ovr arbitrary: v) (auto simp: overlay_environment_def)
  have "st_get (base_environment lookup) ''PATH'' \<noteq> None"
    by (simp add: base_environment_def Let_def)
  from keep [OF this, of overrides] obtain y where "st_get ?v ''PATH'' = Some y" by auto
  then have "(''PATH'', y) \<in> set ?v" by (auto simp: st_get_def dest: map_of_SomeD)
  then have "''PATH'' @ ''='' @ y \<in> set (merged_environment lookup overrides)"
    by (force simp: merged_environment_def)
  moreover have "env_name (''PATH'' @ ''='' @ y) = ''PATH''" by (simp add: env_name_def)
  ultimately have "\<exists>d \<in> set (merged_environment lookup overrides). env_name d = ''PATH''" by blast
  moreover have "k \<in> set workload_base_environment \<or> (k, x) \<in> set overrides" using key [OF kx] by simp
  ultimately show ?thesis using key [OF kx] n e by auto
qed

definition sample_overrides :: "(string \<times> string) list" where
  "sample_overrides = [(''aws_access_key_id'', ''x''), (''MODE'', ''batch''), (''Shift_API_KEY'', ''y'')]"

lemma sample_environment:
  "merged_environment (\<lambda>k. if k = ''HOME'' then Some ''/root'' else None) sample_overrides =
     [''HOME=/root'', ''MODE=batch'', ''PATH=/usr/local/sbin:/usr/local/bin:/usr/sbin:/usr/bin:/sbin:/bin'']"
  by code_simp

theorem environment_scrubbed_witness:
  "\<not> is_agent_credential_env (env_name ''MODE=batch'')
   \<and> (env_name ''MODE=batch'' \<in> set workload_base_environment
      \<or> (\<exists>x. (env_name ''MODE=batch'', x) \<in> set sample_overrides \<and> ''MODE=batch'' = env_name ''MODE=batch'' @ ''='' @ x))
   \<and> (\<exists>d \<in> set (merged_environment (\<lambda>k. if k = ''HOME'' then Some ''/root'' else None) sample_overrides). env_name d = ''PATH'')"
proof (rule environment_scrubbed)
  show "\<forall>(k, x) \<in> set sample_overrides. CHR ''='' \<notin> set k" by (simp add: sample_overrides_def)
  show "''MODE=batch'' \<in> set (merged_environment (\<lambda>k. if k = ''HOME'' then Some ''/root'' else None) sample_overrides)"
    by (simp add: sample_environment)
qed

text \<open>
  A declared name that contains \<open>=\<close> gets past the scrubbing: it is compared with the credential
  names as a whole, but the process reads the variable up to the first \<open>=\<close>.
\<close>

theorem environment_scrub_bypassed:
  "\<exists>e \<in> set (merged_environment (\<lambda>_. None) [(''AWS_ACCESS_KEY_ID=AKIA'', ''1'')]).
     is_agent_credential_env (env_name e)"
proof
  show "''AWS_ACCESS_KEY_ID=AKIA=1'' \<in> set (merged_environment (\<lambda>_. None) [(''AWS_ACCESS_KEY_ID=AKIA'', ''1'')])"
    by code_simp
  show "is_agent_credential_env (env_name ''AWS_ACCESS_KEY_ID=AKIA=1'')" by code_simp
qed

section \<open>A restored workload that its name does not find\<close>

text \<open>
  \<open>Create\<close> refuses a workload whose name is another workload's id; \<open>PrepareRestore\<close> admits it.
  Looking the restored workload up by its name then finds the other workload.
\<close>

theorem restored_name_shadowed_by_id:
  assumes "records_ok (rt_records rt)" and "st_get (rt_records rt) n = Some v"
    and "rt_get rt (wsp_id spec) = None" and "wsp_id spec \<noteq> []" and "wsp_name spec = n"
    and "rt_prepare_restore env spec rt = (Inr (w, True), rt')"
  shows "wsp_name (wl_spec w) = n \<and> st_get (rt_records rt') (wsp_id spec) = Some w \<and> rt_get rt' n = Some v \<and> v \<noteq> w
    \<and> (\<forall>env w'. fst (rt_create env spec rt) \<noteq> Inr w')"
proof -
  obtain s where s: "normalize (re_spec env) spec = Inr s" "w = new_workload s WorkloadRestoring"
    "rt' = rt\<lparr>rt_records := st_put (wsp_id s) w (rt_records rt)\<rparr>"
    using assms(3,6) by (auto simp: rt_prepare_restore_def Let_def split: sum.splits if_splits)
  have ns: "wsp_name s = n" "wsp_id s = wsp_id spec" using normalize_name [OF s(1)] assms(4,5) by simp_all
  have idv: "wsp_id (wl_spec v) = n" using records_okD(1) [OF assms(1,2)] .
  have "st_get (rt_records rt) (wsp_id spec) = None" using assms(3) by (simp add: rt_get_def split: option.splits)
  then have neq: "n \<noteq> wsp_id spec" using assms(2) by auto
  have mem: "v \<in> set (st_list (rt_records rt))" using st_list_member [of "rt_records rt" v] assms(1,2) by (auto simp: records_ok_def)
  have "fst (rt_create env' spec rt) \<noteq> Inr w'" for env' w'
  proof (cases "normalize (re_spec env') spec")
    case (Inr t)
    have "wsp_name t = n" using normalize_name [OF Inr] assms(5) by simp
    then have "create_conflict t (st_list (rt_records rt)) \<noteq> None"
      using create_conflict_None [OF _ mem, of t] idv by auto
    then show ?thesis using Inr by (auto simp: rt_create_def split: option.splits)
  qed (simp add: rt_create_def)
  moreover have "v \<noteq> w" using idv ns neq s(2) by (auto simp: new_workload_def)
  ultimately show ?thesis using s ns assms(2) neq by (simp add: rt_get_def new_workload_def)
qed

definition sample_clash :: workload_spec where
  "sample_clash = sample_spec\<lparr>wsp_id := ''w2'', wsp_name := ''w1''\<rparr>"

definition sample_clash_normal :: workload_spec where
  "sample_clash_normal = sample_normal\<lparr>wsp_id := ''w2'', wsp_name := ''w1''\<rparr>"

lemma sample_clash_restored:
  "rt_prepare_restore env_good sample_clash rt_running =
     (Inr (new_workload sample_clash_normal WorkloadRestoring, True),
      rt_running\<lparr>rt_records := rt_records rt_running @ [(''w2'', new_workload sample_clash_normal WorkloadRestoring)]\<rparr>)"
  by code_simp

theorem restored_name_shadowed_by_id_witness:
  "rt_get (snd (rt_prepare_restore env_good sample_clash rt_running)) ''w1''
     = Some (snd (hd (rt_records rt_running)))"
proof -
  have 1: "st_get (rt_records rt_running) ''w1'' = Some (snd (hd (rt_records rt_running)))"
    by (simp add: rt_running_def st_get_def)
  have 2: "rt_get rt_running (wsp_id sample_clash) = None" by code_simp
  have 3: "wsp_id sample_clash \<noteq> []" "wsp_name sample_clash = ''w1''" by (simp_all add: sample_clash_def)
  from restored_name_shadowed_by_id [OF rt_running_ok 1 2 3 sample_clash_restored] show ?thesis
    by (simp add: sample_clash_restored)
qed

end
