(* ===== verification/Restore_Transaction.thy ===== *)
theory Restore_Transaction
  imports Runtime_Manager
begin

text \<open>
  \<^verbatim>\<open>src/internal/checkpoint/restore.go\<close>: the restore transaction.  \<open>Prepare\<close> stages a checkpoint,
  switches the workload's root directory, and restores the process; \<open>Commit\<close> keeps the result,
  \<open>Rollback\<close> undoes it, and \<open>Recover\<close> finishes what a stopped agent left.  \<open>Prepare\<close> and
  \<open>rollback\<close> are sequences of steps with at most one durable effect each, so that an agent that stops
  between two of them is a prefix of the sequence.  The outcome of every call into the operating
  system, the chunk store, CRIU and the collection is an answer of the environment.  Timestamps, which
  no branch reads, and the lazy-pages daemon are left out.
\<close>

section \<open>State\<close>

datatype restore_state = RestorePreparing | RestoreFilesystemSwitched | RestoreProcessRunning
  | RestoreValidated | RestoreCommitted | RestoreRollingBack | RestoreRolledBack | RestoreFailed

text \<open>The directories of a transaction: the workload's root and the names derived from its id.\<close>

datatype path = TargetAt string | BackupOf string | StagingOf string | ImagesOf string | FailedOf string

type_synonym tree = string

record restore_record =
  rr_id :: string
  rr_checkpoint :: string
  rr_workload :: string
  rr_state :: restore_state
  rr_target :: string
  rr_backup :: "path option"
  rr_pid :: int
  rr_created :: bool
  rr_previous :: "workload option"
  rr_lazy :: bool

text \<open>
  \<open>rs_in_flight\<close> is the guard over target roots, \<open>rs_network\<close> the workloads with a network presence
  or port reservations.
\<close>

record restorer =
  rs_records :: "restore_record store"
  rs_in_flight :: "string set"
  rs_fs :: "path \<Rightarrow> tree option"
  rs_network :: "string set"
  rs_runtime :: runtime

text \<open>The points of the code where a call answers with success or an error.\<close>

datatype point = LazyEngine | LazyFeature | LoadManifest | TrustAdmit | Inspect | CheckCompatible | LoadPolicy
  | CheckTarget | NotMountpoint | HasNetworkLayer | Mappings | NetworkPrepare | ValidateAssets | FilesystemAsset
  | ProcessChain | NewId | PutRecord | MkStaging | MkRestoreDir | Extract | ValidateRoot | MaterializeChain
  | ImagesDir | PinTarget | Recheck | LstatTarget | NotSymlink | PutBackup | RenameBackup | PutFresh
  | MaterializeRoot | RenameBack | SyncParent | PutSwitched | CallPrepareRestore | PutCreated | ParkSource
  | StartLazy | PutLazy | CriuRestore | CallAdopt | CallResume | PutRunning | Health | NetworkPlan
  | NetworkMappings | NetworkActivate | NetworkStatus | PutValidated
  | RbPut | RbStopCall | RbPin | RbLstat | RbRenameAside | RbRenameBackup | RbDelete | RbMetadata | RbResume
  | RbMarkFailed | RbRemoveFailed | RbFinalPut | RbSync | CommitRemoveBackup | CommitPut

record rs_env =
  pe_ok :: "point \<Rightarrow> bool"
  pe_rt :: "point \<Rightarrow> rt_env"
  pe_lazy :: bool
  pe_network :: bool
  pe_id :: string
  pe_checkpoint :: string
  pe_spec :: workload_spec
  pe_tree :: tree
  pe_proc :: kproc
  pe_reaped :: bool
  pe_killed :: bool

text \<open>\<open>rename\<close>: the source must exist; the target root is never a non-empty directory where it is used as a target.\<close>

definition fs_rename :: "path \<Rightarrow> path \<Rightarrow> (path \<Rightarrow> tree option) \<Rightarrow> (path \<Rightarrow> tree option) option" where
  "fs_rename a b fs = (if fs a = None \<or> fs b \<noteq> None then None else Some (fs(b := fs a, a := None)))"

definition fs_remove :: "path \<Rightarrow> (path \<Rightarrow> tree option) \<Rightarrow> (path \<Rightarrow> tree option)" where
  "fs_remove p fs = fs(p := None)"

definition put_record :: "bool \<Rightarrow> restore_record \<Rightarrow> restorer \<Rightarrow> restorer" where
  "put_record ok r sys = (if ok then sys\<lparr>rs_records := st_put (rr_id r) r (rs_records sys)\<rparr> else sys)"

definition begin_restore :: "string \<Rightarrow> restorer \<Rightarrow> restorer option" where
  "begin_restore tr sys =
     (if tr \<in> rs_in_flight sys then None else Some (sys\<lparr>rs_in_flight := insert tr (rs_in_flight sys)\<rparr>))"

definition end_restore :: "string \<Rightarrow> restorer \<Rightarrow> restorer" where
  "end_restore tr sys = sys\<lparr>rs_in_flight := rs_in_flight sys - {tr}\<rparr>"

definition deactivate :: "bool \<Rightarrow> string \<Rightarrow> restorer \<Rightarrow> restorer" where
  "deactivate net k sys = (if net then sys\<lparr>rs_network := rs_network sys - {k}\<rparr> else sys)"

section \<open>Reaping a superseded source\<close>

text \<open>
  \<open>reapSupersededSource\<close>: \<open>pe_reaped\<close> says that the process no longer answers after the parked control group was
  killed, \<open>pe_killed\<close> that one of the two kill calls is delivered.
\<close>

definition reap_superseded :: "rs_env \<Rightarrow> restore_record \<Rightarrow> restorer \<Rightarrow> restorer" where
  "reap_superseded env r sys =
     (case rr_previous r of
        None \<Rightarrow> sys
      | Some w \<Rightarrow>
     (case wl_process w of
        None \<Rightarrow> sys
      | Some p \<Rightarrow>
          let rt = rs_runtime sys;
              rt1 = (if pe_reaped env then rt\<lparr>rt_kernel := kill_group (ps_pgid p) (rt_kernel rt)\<rparr> else rt)
          in if \<not> process_alive (rt_kernel rt1) (ps_pid p) (ps_start_ticks p) then sys\<lparr>rs_runtime := rt1\<rparr>
             else let rt2 = rt_retire (rr_workload r) rt1
                  in sys\<lparr>rs_runtime := (if pe_killed env then rt2\<lparr>rt_kernel := kill_group (ps_pgid p) (rt_kernel rt2)\<rparr> else rt2)\<rparr>))"

section \<open>Rollback\<close>

text \<open>
  The locals of \<open>rollback\<close>: the record, the state it had on entry, whether the backup was found on
  disk, and whether a failed root was moved aside.
\<close>

record rbx =
  bx_rec :: restore_record
  bx_sys :: restorer
  bx_original :: restore_state
  bx_on_disk :: bool
  bx_aside :: bool

datatype rb_step = RbMark | RbStop | RbNetwork | RbProbe | RbAside | RbBackup | RbWorkload | RbCleanup | RbFinish

definition rb_steps :: "rb_step list" where
  "rb_steps = [RbMark, RbStop, RbNetwork, RbProbe, RbAside, RbBackup, RbWorkload, RbCleanup, RbFinish]"

definition switched :: "rbx \<Rightarrow> bool" where
  "switched x \<longleftrightarrow> bx_on_disk x \<or> bx_original x = RestoreFilesystemSwitched \<or> bx_original x = RestoreProcessRunning
     \<or> bx_original x = RestoreValidated \<or> bx_original x = RestoreRollingBack"

definition rb_mark :: "rs_env \<Rightarrow> rbx \<Rightarrow> bool \<times> rbx" where
  "rb_mark env x =
     (let r = (bx_rec x)\<lparr>rr_state := RestoreRollingBack\<rparr>
      in (True, x\<lparr>bx_original := rr_state (bx_rec x), bx_rec := r, bx_sys := put_record (pe_ok env RbPut) r (bx_sys x)\<rparr>))"

definition rb_stop :: "rs_env \<Rightarrow> rbx \<Rightarrow> bool \<times> rbx" where
  "rb_stop env x =
     (let sys = bx_sys x; k = rr_workload (bx_rec x) in
      case rt_get (rs_runtime sys) k of
        None \<Rightarrow> (True, x)
      | Some w \<Rightarrow>
          if wl_process w = None then (True, x)
          else (True, x\<lparr>bx_sys := sys\<lparr>rs_runtime := snd (rt_stop (pe_rt env RbStopCall) k (rs_runtime sys))\<rparr>\<rparr>))"

definition rb_network :: "rs_env \<Rightarrow> rbx \<Rightarrow> bool \<times> rbx" where
  "rb_network env x = (True, x\<lparr>bx_sys := deactivate (pe_network env) (rr_workload (bx_rec x)) (bx_sys x)\<rparr>)"

definition rb_probe :: "rs_env \<Rightarrow> rbx \<Rightarrow> bool \<times> rbx" where
  "rb_probe env x =
     (True, x\<lparr>bx_on_disk := (case rr_backup (bx_rec x) of None \<Rightarrow> False | Some p \<Rightarrow> rs_fs (bx_sys x) p \<noteq> None)\<rparr>)"

definition rb_aside :: "rs_env \<Rightarrow> rbx \<Rightarrow> bool \<times> rbx" where
  "rb_aside env x =
     (if \<not> switched x then (True, x)
      else if \<not> pe_ok env RbPin \<or> \<not> pe_ok env RbLstat then (False, x)
      else let sys = bx_sys x; t = TargetAt (rr_target (bx_rec x)) in
      if rs_fs sys t = None then (True, x)
      else case fs_rename t (FailedOf (rr_id (bx_rec x))) (rs_fs sys) of
        None \<Rightarrow> (False, x)
      | Some fs \<Rightarrow>
          if pe_ok env RbRenameAside then (True, x\<lparr>bx_sys := sys\<lparr>rs_fs := fs\<rparr>, bx_aside := True\<rparr>) else (False, x))"

definition rb_backup :: "rs_env \<Rightarrow> rbx \<Rightarrow> bool \<times> rbx" where
  "rb_backup env x =
     (if \<not> bx_on_disk x then (True, x)
      else case rr_backup (bx_rec x) of
        None \<Rightarrow> (True, x)
      | Some b \<Rightarrow>
     (case fs_rename b (TargetAt (rr_target (bx_rec x))) (rs_fs (bx_sys x)) of
        None \<Rightarrow> (False, x)
      | Some fs \<Rightarrow>
          if pe_ok env RbRenameBackup then (True, x\<lparr>bx_sys := (bx_sys x)\<lparr>rs_fs := fs\<rparr>\<rparr>) else (False, x)))"

definition rb_workload :: "rs_env \<Rightarrow> rbx \<Rightarrow> bool \<times> rbx" where
  "rb_workload env x =
     (let sys = bx_sys x; r = bx_rec x; rt = rs_runtime sys; k = rr_workload r;
          rt' = (if rr_created r then snd (rt_delete (pe_rt env RbDelete) k rt)
                 else case rr_previous r of
                   Some w \<Rightarrow>
                     let w' = (if wl_process w \<noteq> None \<and> \<not> proc_alive (rt_kernel rt) (wl_process w)
                               then w\<lparr>wl_process := None\<rparr> else w);
                         rt1 = snd (rt_restore_metadata (pe_rt env RbMetadata) w' rt)
                     in if wl_process w' \<noteq> None then snd (rt_resume (pe_rt env RbResume) k rt1) else rt1
                 | None \<Rightarrow> snd (rt_mark_restore_failed (pe_rt env RbMarkFailed) k ''restore rolled back'' rt))
      in (True, x\<lparr>bx_sys := sys\<lparr>rs_runtime := rt'\<rparr>\<rparr>))"

definition rb_cleanup :: "rs_env \<Rightarrow> rbx \<Rightarrow> bool \<times> rbx" where
  "rb_cleanup env x =
     (let i = rr_id (bx_rec x); sys = bx_sys x
      in (True, x\<lparr>bx_sys := sys\<lparr>rs_fs := fs_remove (ImagesOf i) (fs_remove (StagingOf i) (rs_fs sys))\<rparr>\<rparr>))"

definition rb_finish :: "rs_env \<Rightarrow> rbx \<Rightarrow> bool \<times> rbx" where
  "rb_finish env x =
     (let r = (bx_rec x)\<lparr>rr_state := RestoreRolledBack\<rparr>
      in if pe_ok env RbFinalPut
         then (pe_ok env RbSync, x\<lparr>bx_rec := r, bx_sys := put_record True r (bx_sys x)\<rparr>)
         else (False, x\<lparr>bx_rec := r\<rparr>))"

fun rb_exec :: "rs_env \<Rightarrow> rb_step \<Rightarrow> rbx \<Rightarrow> bool \<times> rbx" where
  "rb_exec env RbMark x = rb_mark env x"
| "rb_exec env RbStop x = rb_stop env x"
| "rb_exec env RbNetwork x = rb_network env x"
| "rb_exec env RbProbe x = rb_probe env x"
| "rb_exec env RbAside x = rb_aside env x"
| "rb_exec env RbBackup x = rb_backup env x"
| "rb_exec env RbWorkload x = rb_workload env x"
| "rb_exec env RbCleanup x = rb_cleanup env x"
| "rb_exec env RbFinish x = rb_finish env x"

fun rb_run :: "rs_env \<Rightarrow> rb_step list \<Rightarrow> rbx \<Rightarrow> bool \<times> rbx" where
  "rb_run env [] x = (True, x)"
| "rb_run env (s # ss) x = (case rb_exec env s x of (True, x') \<Rightarrow> rb_run env ss x' | (False, x') \<Rightarrow> (False, x'))"

definition rb_start :: "restore_record \<Rightarrow> restorer \<Rightarrow> rbx" where
  "rb_start r sys = \<lparr>bx_rec = r, bx_sys = sys, bx_original = rr_state r, bx_on_disk = False, bx_aside = False\<rparr>"

text \<open>\<open>rollback\<close>, with its deferred calls: the root moved aside is removed and the guard released.\<close>

definition rollback :: "rs_env \<Rightarrow> restore_record \<Rightarrow> restorer \<Rightarrow> bool \<times> restore_record \<times> restorer" where
  "rollback env r sys =
     (case rb_run env rb_steps (rb_start r sys) of
        (ok, x) \<Rightarrow>
          let sys' = bx_sys x;
              sys'' = (if bx_aside x \<and> pe_ok env RbRemoveFailed
                       then sys'\<lparr>rs_fs := fs_remove (FailedOf (rr_id r)) (rs_fs sys')\<rparr> else sys')
          in (ok, bx_rec x, end_restore (rr_target r) sys''))"

text \<open>An agent that stops after the first \<open>n\<close> steps of a rollback: nothing deferred runs.\<close>

definition rollback_crash :: "rs_env \<Rightarrow> nat \<Rightarrow> restore_record \<Rightarrow> restorer \<Rightarrow> restorer" where
  "rollback_crash env n r sys = bx_sys (snd (rb_run env (take n rb_steps) (rb_start r sys)))"

section \<open>Prepare\<close>

definition target_root :: "rs_env \<Rightarrow> string" where
  "target_root env = clean_abs (wsp_root_path (pe_spec env))"

definition has_ports :: "rs_env \<Rightarrow> bool" where
  "has_ports env \<longleftrightarrow> wsp_ports (pe_spec env) \<noteq> []"

text \<open>The checks before anything is claimed or written.\<close>

definition prepare_admit :: "rs_env \<Rightarrow> bool" where
  "prepare_admit env \<longleftrightarrow>
     (pe_lazy env \<longrightarrow> pe_ok env LazyEngine \<and> pe_ok env LazyFeature)
     \<and> pe_ok env LoadManifest \<and> pe_ok env TrustAdmit \<and> pe_ok env Inspect \<and> pe_ok env CheckCompatible
     \<and> pe_ok env LoadPolicy \<and> pe_ok env CheckTarget \<and> pe_ok env NotMountpoint"

definition new_record :: "rs_env \<Rightarrow> restorer \<Rightarrow> restore_record" where
  "new_record env sys = \<lparr>rr_id = pe_id env, rr_checkpoint = pe_checkpoint env, rr_workload = wsp_id (pe_spec env),
     rr_state = RestorePreparing, rr_target = target_root env, rr_backup = Some (BackupOf (pe_id env)), rr_pid = 0,
     rr_created = False, rr_previous = rt_get (rs_runtime sys) (wsp_id (pe_spec env)), rr_lazy = False\<rparr>"

text \<open>
  From the guard to the first write of the record.  \<open>Inl\<close>: refused, with the guard released and the
  port reservations returned.
\<close>

definition prepare_begin :: "rs_env \<Rightarrow> restorer \<Rightarrow> restorer + restore_record \<times> restorer" where
  "prepare_begin env sys =
     (case begin_restore (target_root env) sys of
        None \<Rightarrow> Inl sys
      | Some sys1 \<Rightarrow>
          if has_ports env \<and> \<not> (pe_network env \<and> pe_ok env Mappings \<and> pe_ok env NetworkPrepare)
          then Inl (end_restore (target_root env) sys1)
          else let k = wsp_id (pe_spec env);
                   sys2 = (if has_ports env then sys1\<lparr>rs_network := insert k (rs_network sys1)\<rparr> else sys1);
                   refuse = Inl (end_restore (target_root env) (deactivate (has_ports env) k sys2))
          in if \<not> pe_ok env ValidateAssets \<or> \<not> pe_ok env FilesystemAsset \<or> \<not> pe_ok env ProcessChain \<or> \<not> pe_ok env NewId
             then refuse
             else let r = new_record env sys2 in
               if pe_ok env PutRecord then Inr (r, put_record True r sys2) else refuse)"

record ptx =
  tx_rec :: restore_record
  tx_sys :: restorer

datatype prep_step = PrStage | PrRecord | PrBackup | PrActivate | PrSwitched | PrWorkload | PrCreated | PrPark
  | PrLazy | PrProcess | PrAdopt | PrResume | PrRunning | PrPublish | PrValidated

definition prep_steps :: "prep_step list" where
  "prep_steps = [PrStage, PrRecord, PrBackup, PrActivate, PrSwitched, PrWorkload, PrCreated, PrPark,
     PrLazy, PrProcess, PrAdopt, PrResume, PrRunning, PrPublish, PrValidated]"

definition set_fs :: "path \<Rightarrow> tree option \<Rightarrow> ptx \<Rightarrow> ptx" where
  "set_fs p t x = x\<lparr>tx_sys := (tx_sys x)\<lparr>rs_fs := (rs_fs (tx_sys x))(p := t)\<rparr>\<rparr>"

definition put_tx :: "bool \<Rightarrow> ptx \<Rightarrow> bool \<times> ptx" where
  "put_tx ok x = (ok, x\<lparr>tx_sys := put_record ok (tx_rec x) (tx_sys x)\<rparr>)"

definition pr_stage :: "rs_env \<Rightarrow> ptx \<Rightarrow> bool \<times> ptx" where
  "pr_stage env x =
     (let i = rr_id (tx_rec x) in
      if \<not> pe_ok env MkStaging then (False, x)
      else let x1 = set_fs (StagingOf i) (Some []) x in
      if \<not> pe_ok env MkRestoreDir then (False, x1)
      else let x2 = set_fs (ImagesOf i) (Some []) x1 in
      if \<not> pe_ok env Extract then (False, x2)
      else let x3 = set_fs (StagingOf i) (Some (pe_tree env)) x2 in
      (pe_ok env ValidateRoot \<and> pe_ok env MaterializeChain \<and> pe_ok env ImagesDir, x3))"

definition pr_record :: "rs_env \<Rightarrow> ptx \<Rightarrow> bool \<times> ptx" where
  "pr_record env x =
     (if \<not> pe_ok env PinTarget \<or> \<not> pe_ok env Recheck \<or> \<not> pe_ok env LstatTarget then (False, x)
      else let r = tx_rec x in
      if rs_fs (tx_sys x) (TargetAt (rr_target r)) \<noteq> None
      then if \<not> pe_ok env NotSymlink then (False, x)
           else put_tx (pe_ok env PutBackup) (x\<lparr>tx_rec := r\<lparr>rr_backup := Some (BackupOf (rr_id r))\<rparr>\<rparr>)
      else put_tx (pe_ok env PutFresh) (x\<lparr>tx_rec := r\<lparr>rr_backup := None, rr_state := RestoreFilesystemSwitched\<rparr>\<rparr>))"

definition pr_backup :: "rs_env \<Rightarrow> ptx \<Rightarrow> bool \<times> ptx" where
  "pr_backup env x =
     (case rr_backup (tx_rec x) of
        None \<Rightarrow> (True, x)
      | Some b \<Rightarrow>
          let failing = (False, x\<lparr>tx_rec := (tx_rec x)\<lparr>rr_backup := None\<rparr>\<rparr>) in
          if \<not> pe_ok env RenameBackup then failing
          else case fs_rename (TargetAt (rr_target (tx_rec x))) b (rs_fs (tx_sys x)) of
            None \<Rightarrow> failing
          | Some fs \<Rightarrow> (True, x\<lparr>tx_sys := (tx_sys x)\<lparr>rs_fs := fs\<rparr>\<rparr>))"

definition pr_activate :: "rs_env \<Rightarrow> ptx \<Rightarrow> bool \<times> ptx" where
  "pr_activate env x =
     (let r = tx_rec x; fs = rs_fs (tx_sys x); t = TargetAt (rr_target r) in
      if pe_ok env MaterializeRoot
      then (True, x\<lparr>tx_rec := r\<lparr>rr_state := RestoreFilesystemSwitched\<rparr>,
                    tx_sys := (tx_sys x)\<lparr>rs_fs := fs(t := fs (StagingOf (rr_id r)), StagingOf (rr_id r) := Some [])\<rparr>\<rparr>)
      else case rr_backup r of
        None \<Rightarrow> (False, x)
      | Some b \<Rightarrow>
     (case fs_rename b t fs of
        None \<Rightarrow> (False, x)
      | Some fs' \<Rightarrow> if pe_ok env RenameBack then (False, x\<lparr>tx_sys := (tx_sys x)\<lparr>rs_fs := fs'\<rparr>\<rparr>) else (False, x)))"

definition pr_switched :: "rs_env \<Rightarrow> ptx \<Rightarrow> bool \<times> ptx" where
  "pr_switched env x = (if \<not> pe_ok env SyncParent then (False, x) else put_tx (pe_ok env PutSwitched) x)"

definition set_runtime :: "runtime \<Rightarrow> ptx \<Rightarrow> ptx" where
  "set_runtime rt x = x\<lparr>tx_sys := (tx_sys x)\<lparr>rs_runtime := rt\<rparr>\<rparr>"

definition pr_workload :: "rs_env \<Rightarrow> ptx \<Rightarrow> bool \<times> ptx" where
  "pr_workload env x =
     (case rt_prepare_restore (pe_rt env CallPrepareRestore) (pe_spec env) (rs_runtime (tx_sys x)) of
        (Inl e, rt) \<Rightarrow> (False, set_runtime rt x)
      | (Inr (w, created), rt) \<Rightarrow> (True, (set_runtime rt x)\<lparr>tx_rec := (tx_rec x)\<lparr>rr_created := created\<rparr>\<rparr>))"

definition pr_created :: "rs_env \<Rightarrow> ptx \<Rightarrow> bool \<times> ptx" where
  "pr_created env x = put_tx (pe_ok env PutCreated) x"

definition pr_park :: "rs_env \<Rightarrow> ptx \<Rightarrow> bool \<times> ptx" where
  "pr_park env x =
     (let rt = rs_runtime (tx_sys x);
          frozen = (case rr_previous (tx_rec x) of
                      None \<Rightarrow> False
                    | Some w \<Rightarrow> wl_status w = WorkloadCheckpointed \<and> proc_alive (rt_kernel rt) (wl_process w))
      in if frozen \<and> \<not> pe_ok env ParkSource then (False, x)
         else (True, if has_ports env then x\<lparr>tx_sys := reap_superseded env (tx_rec x) (tx_sys x)\<rparr> else x))"

definition pr_lazy :: "rs_env \<Rightarrow> ptx \<Rightarrow> bool \<times> ptx" where
  "pr_lazy env x =
     (if \<not> pe_lazy env then (True, x)
      else if \<not> pe_ok env StartLazy then (False, x)
      else put_tx (pe_ok env PutLazy) (x\<lparr>tx_rec := (tx_rec x)\<lparr>rr_lazy := True\<rparr>\<rparr>))"

definition pr_process :: "rs_env \<Rightarrow> ptx \<Rightarrow> bool \<times> ptx" where
  "pr_process env x =
     (if \<not> pe_ok env CriuRestore then (False, x)
      else let rt = rs_runtime (tx_sys x) in (True, set_runtime (rt\<lparr>rt_kernel := pe_proc env # rt_kernel rt\<rparr>) x))"

definition pr_adopt :: "rs_env \<Rightarrow> ptx \<Rightarrow> bool \<times> ptx" where
  "pr_adopt env x =
     (case rt_adopt_restored (pe_rt env CallAdopt) (wsp_id (pe_spec env)) (pe_proc env) (rs_runtime (tx_sys x)) of
        (Inl e, rt) \<Rightarrow> (False, set_runtime (rt\<lparr>rt_kernel := kill_pid (kp_pid (pe_proc env)) (rt_kernel rt)\<rparr>) x)
      | (Inr w, rt) \<Rightarrow> (True, set_runtime rt x))"

definition pr_resume :: "rs_env \<Rightarrow> ptx \<Rightarrow> bool \<times> ptx" where
  "pr_resume env x =
     (case rt_resume (pe_rt env CallResume) (wsp_id (pe_spec env)) (rs_runtime (tx_sys x)) of
        (Inl e, rt) \<Rightarrow> (False, set_runtime rt x)
      | (Inr w, rt) \<Rightarrow> (True, (set_runtime rt x)\<lparr>tx_rec := (tx_rec x)\<lparr>rr_pid := kp_pid (pe_proc env), rr_state := RestoreProcessRunning\<rparr>\<rparr>))"

definition pr_running :: "rs_env \<Rightarrow> ptx \<Rightarrow> bool \<times> ptx" where
  "pr_running env x = put_tx (pe_ok env PutRunning) x"

definition pr_publish :: "rs_env \<Rightarrow> ptx \<Rightarrow> bool \<times> ptx" where
  "pr_publish env x =
     (if \<not> pe_ok env Health then (False, x)
      else if \<not> pe_network env then (True, x)
      else if \<not> pe_ok env NetworkPlan \<or> \<not> pe_ok env NetworkMappings \<or> \<not> pe_ok env NetworkActivate then (False, x)
      else (pe_ok env NetworkStatus,
            x\<lparr>tx_sys := (tx_sys x)\<lparr>rs_network := insert (wsp_id (pe_spec env)) (rs_network (tx_sys x))\<rparr>\<rparr>))"

definition pr_validated :: "rs_env \<Rightarrow> ptx \<Rightarrow> bool \<times> ptx" where
  "pr_validated env x = put_tx (pe_ok env PutValidated) (x\<lparr>tx_rec := (tx_rec x)\<lparr>rr_state := RestoreValidated\<rparr>\<rparr>)"

fun pr_exec :: "rs_env \<Rightarrow> prep_step \<Rightarrow> ptx \<Rightarrow> bool \<times> ptx" where
  "pr_exec env PrStage x = pr_stage env x"
| "pr_exec env PrRecord x = pr_record env x"
| "pr_exec env PrBackup x = pr_backup env x"
| "pr_exec env PrActivate x = pr_activate env x"
| "pr_exec env PrSwitched x = pr_switched env x"
| "pr_exec env PrWorkload x = pr_workload env x"
| "pr_exec env PrCreated x = pr_created env x"
| "pr_exec env PrPark x = pr_park env x"
| "pr_exec env PrLazy x = pr_lazy env x"
| "pr_exec env PrProcess x = pr_process env x"
| "pr_exec env PrAdopt x = pr_adopt env x"
| "pr_exec env PrResume x = pr_resume env x"
| "pr_exec env PrRunning x = pr_running env x"
| "pr_exec env PrPublish x = pr_publish env x"
| "pr_exec env PrValidated x = pr_validated env x"

fun pr_run :: "rs_env \<Rightarrow> prep_step list \<Rightarrow> ptx \<Rightarrow> bool \<times> ptx" where
  "pr_run env [] x = (True, x)"
| "pr_run env (s # ss) x = (case pr_exec env s x of (True, x') \<Rightarrow> pr_run env ss x' | (False, x') \<Rightarrow> (False, x'))"

text \<open>
  \<open>Prepare\<close> with its deferred calls: a failing step rolls the transaction back, returns the ports and
  releases the guard.
\<close>

definition prepare :: "rs_env \<Rightarrow> restorer \<Rightarrow> restore_record option \<times> restorer" where
  "prepare env sys =
     (if \<not> prepare_admit env then (None, sys)
      else case prepare_begin env sys of
        Inl sys1 \<Rightarrow> (None, sys1)
      | Inr (r, sys1) \<Rightarrow>
     (case pr_run env prep_steps \<lparr>tx_rec = r, tx_sys = sys1\<rparr> of
        (True, x) \<Rightarrow> (Some (tx_rec x), tx_sys x)
      | (False, x) \<Rightarrow>
     (case rollback env (tx_rec x) (tx_sys x) of
        (ok, r', sys2) \<Rightarrow>
          (None, end_restore (target_root env) (deactivate (has_ports env) (wsp_id (pe_spec env)) sys2)))))"

text \<open>An agent that stops after the first \<open>n\<close> steps of \<open>Prepare\<close>.\<close>

definition prepare_crash :: "rs_env \<Rightarrow> nat \<Rightarrow> restorer \<Rightarrow> restorer" where
  "prepare_crash env n sys =
     (case prepare_begin env sys of
        Inl sys1 \<Rightarrow> sys1
      | Inr (r, sys1) \<Rightarrow> tx_sys (snd (pr_run env (take n prep_steps) \<lparr>tx_rec = r, tx_sys = sys1\<rparr>)))"

section \<open>Commit, Rollback, Recover\<close>

datatype restore_error = RestoreNotFound | NotValidated | RemoveBackupFailed | RestorePersist
  | CommittedRestore | RollbackFailedError

definition commit :: "rs_env \<Rightarrow> string \<Rightarrow> restorer \<Rightarrow> (restore_error, restore_record) outcome \<times> restorer" where
  "commit env k sys =
     (case st_get (rs_records sys) k of
        None \<Rightarrow> (Inl RestoreNotFound, sys)
      | Some r \<Rightarrow>
          if rr_state r = RestoreCommitted then (Inr r, end_restore (rr_target r) sys)
          else if rr_state r \<noteq> RestoreValidated then (Inl NotValidated, sys)
          else let sys1 = reap_superseded env r sys in
          if rr_backup r \<noteq> None \<and> \<not> pe_ok env CommitRemoveBackup then (Inl RemoveBackupFailed, sys1)
          else let fs1 = (case rr_backup r of None \<Rightarrow> rs_fs sys1 | Some b \<Rightarrow> fs_remove b (rs_fs sys1));
                   fs2 = fs_remove (StagingOf (rr_id r)) fs1;
                   fs3 = (if rr_lazy r then fs2 else fs_remove (ImagesOf (rr_id r)) fs2);
                   sys2 = sys1\<lparr>rs_fs := fs3\<rparr>;
                   r' = r\<lparr>rr_state := RestoreCommitted\<rparr>
               in if pe_ok env CommitPut
                  then (Inr r', end_restore (rr_target r) (sys2\<lparr>rs_records := st_put k r' (rs_records sys2)\<rparr>))
                  else (Inl RestorePersist, sys2))"

definition rollback_restore :: "rs_env \<Rightarrow> string \<Rightarrow> restorer \<Rightarrow> (restore_error, restore_record) outcome \<times> restorer" where
  "rollback_restore env k sys =
     (case st_get (rs_records sys) k of
        None \<Rightarrow> (Inl RestoreNotFound, sys)
      | Some r \<Rightarrow>
          if rr_state r = RestoreRolledBack then (Inr r, sys)
          else if rr_state r = RestoreCommitted then (Inl CommittedRestore, sys)
          else case rollback env r sys of
            (True, r', sys') \<Rightarrow> (Inr r', sys')
          | (False, r', sys') \<Rightarrow> (Inl RollbackFailedError, sys'))"

text \<open>\<open>Recover\<close> over the records listed when the agent opens; an error ends it.\<close>

definition recover_one :: "rs_env \<Rightarrow> restore_record \<Rightarrow> restorer \<Rightarrow> bool \<times> restorer" where
  "recover_one env r sys =
     (if rr_state r \<in> {RestorePreparing, RestoreFilesystemSwitched, RestoreProcessRunning, RestoreRollingBack}
      then (case rollback env r sys of (ok, r', sys') \<Rightarrow> (ok, sys'))
      else if rr_state r = RestoreValidated
      then if (case rt_get (rs_runtime sys) (rr_workload r) of
                 None \<Rightarrow> False
               | Some w \<Rightarrow> proc_alive (rt_kernel (rs_runtime sys)) (wl_process w))
           then (case commit env (rr_id r) sys of (res, sys') \<Rightarrow> (\<not> failed res, sys'))
           else (case rollback env r sys of (ok, r', sys') \<Rightarrow> (ok, sys'))
      else (True, sys))"

fun recover_list :: "(string \<Rightarrow> rs_env) \<Rightarrow> restore_record list \<Rightarrow> restorer \<Rightarrow> bool \<times> restorer" where
  "recover_list envs [] sys = (True, sys)"
| "recover_list envs (r # rs) sys =
     (case recover_one (envs (rr_id r)) r sys of
        (True, sys') \<Rightarrow> recover_list envs rs sys'
      | (False, sys') \<Rightarrow> (False, sys'))"

definition recover :: "(string \<Rightarrow> rs_env) \<Rightarrow> restorer \<Rightarrow> bool \<times> restorer" where
  "recover envs sys = recover_list envs (st_list (rs_records sys)) sys"

text \<open>An agent that starts again: the guard over target roots begins empty.\<close>

definition reopen :: "(string \<Rightarrow> rs_env) \<Rightarrow> restorer \<Rightarrow> bool \<times> restorer" where
  "reopen envs sys = recover envs (sys\<lparr>rs_in_flight := {}\<rparr>)"


section \<open>What a rollback restores\<close>

text \<open>
  A record from which a rollback can restore the original root \<open>orig\<close>: nothing was touched yet, or
  the original waits in the backup, or there was no original and the record says that the root was
  switched.
\<close>

definition recoverable :: "tree option \<Rightarrow> restore_record \<Rightarrow> (path \<Rightarrow> tree option) \<Rightarrow> bool" where
  "recoverable orig r fs \<longleftrightarrow>
     (let t = TargetAt (rr_target r); b = BackupOf (rr_id r) in
       (rr_state r = RestorePreparing \<and> fs t = orig \<and> fs b = None \<and> rr_backup r \<in> {None, Some b})
     \<or> (rr_backup r = Some b \<and> fs b = orig \<and> orig \<noteq> None
         \<and> rr_state r \<in> {RestorePreparing, RestoreFilesystemSwitched, RestoreProcessRunning, RestoreValidated})
     \<or> (rr_backup r = None \<and> orig = None \<and> fs b = None
         \<and> rr_state r \<in> {RestoreFilesystemSwitched, RestoreProcessRunning, RestoreValidated}))"

lemma put_record_frame [simp]:
  "rs_fs (put_record ok r sys) = rs_fs sys" "rs_runtime (put_record ok r sys) = rs_runtime sys"
  "rs_network (put_record ok r sys) = rs_network sys" "rs_in_flight (put_record ok r sys) = rs_in_flight sys"
  by (simp_all add: put_record_def)

lemma put_record_get [simp]:
  "st_get (rs_records (put_record ok r sys)) k = (if ok \<and> k = rr_id r then Some r else st_get (rs_records sys) k)"
  by (simp add: put_record_def)

lemma deactivate_frame [simp]:
  "rs_fs (deactivate b k sys) = rs_fs sys" "rs_runtime (deactivate b k sys) = rs_runtime sys"
  "rs_records (deactivate b k sys) = rs_records sys" "rs_in_flight (deactivate b k sys) = rs_in_flight sys"
  by (simp_all add: deactivate_def)

lemma end_restore_frame [simp]:
  "rs_fs (end_restore t sys) = rs_fs sys" "rs_runtime (end_restore t sys) = rs_runtime sys"
  "rs_records (end_restore t sys) = rs_records sys" "rs_network (end_restore t sys) = rs_network sys"
  by (simp_all add: end_restore_def)

text \<open>The steps up to the probe touch no directory.\<close>

definition on_disk :: "restore_record \<Rightarrow> (path \<Rightarrow> tree option) \<Rightarrow> bool" where
  "on_disk r fs = (case rr_backup r of None \<Rightarrow> False | Some p \<Rightarrow> fs p \<noteq> None)"

lemma rb_run_probe:
  "\<exists>sys1. rs_fs sys1 = rs_fs sys
     \<and> (\<forall>k. st_get (rs_records sys1) k =
           (if pe_ok env RbPut \<and> k = rr_id r then Some (r\<lparr>rr_state := RestoreRollingBack\<rparr>) else st_get (rs_records sys) k))
     \<and> rb_run env (RbMark # RbStop # RbNetwork # RbProbe # ss) (rb_start r sys) =
         rb_run env ss \<lparr>bx_rec = r\<lparr>rr_state := RestoreRollingBack\<rparr>, bx_sys = sys1, bx_original = rr_state r,
           bx_on_disk = on_disk r (rs_fs sys), bx_aside = False\<rparr>"
proof -
  define r1 where "r1 = r\<lparr>rr_state := RestoreRollingBack\<rparr>"
  define x1 where "x1 = \<lparr>bx_rec = r1, bx_sys = put_record (pe_ok env RbPut) r1 sys, bx_original = rr_state r,
     bx_on_disk = False, bx_aside = False\<rparr>"
  have 1: "rb_mark env (rb_start r sys) = (True, x1)"
    by (simp add: rb_mark_def rb_start_def x1_def r1_def Let_def)
  obtain sys2 where 2: "rb_stop env x1 = (True, x1\<lparr>bx_sys := sys2\<rparr>)" "rs_fs sys2 = rs_fs sys"
    "rs_records sys2 = rs_records (put_record (pe_ok env RbPut) r1 sys)"
  proof (cases "rt_get (rs_runtime sys) (rr_workload r1)")
    case None
    then have "rb_stop env x1 = (True, x1\<lparr>bx_sys := put_record (pe_ok env RbPut) r1 sys\<rparr>)"
      by (simp add: rb_stop_def x1_def Let_def)
    then show thesis by (intro that) simp_all
  next
    case (Some w)
    show thesis
    proof (cases "wl_process w = None")
      case True
      with Some have "rb_stop env x1 = (True, x1\<lparr>bx_sys := put_record (pe_ok env RbPut) r1 sys\<rparr>)"
        by (simp add: rb_stop_def x1_def Let_def)
      then show thesis by (intro that) simp_all
    next
      case False
      let ?s = "(put_record (pe_ok env RbPut) r1 sys)\<lparr>rs_runtime := snd (rt_stop (pe_rt env RbStopCall) (rr_workload r1) (rs_runtime sys))\<rparr>"
      from False Some have "rb_stop env x1 = (True, x1\<lparr>bx_sys := ?s\<rparr>)" by (auto simp: rb_stop_def x1_def Let_def)
      then show thesis by (rule that) simp_all
    qed
  qed
  let ?s3 = "deactivate (pe_network env) (rr_workload r1) sys2"
  have 3: "rb_network env (x1\<lparr>bx_sys := sys2\<rparr>) = (True, x1\<lparr>bx_sys := ?s3\<rparr>)"
    by (simp add: rb_network_def x1_def)
  have 4: "rb_probe env (x1\<lparr>bx_sys := ?s3\<rparr>) = (True, x1\<lparr>bx_sys := ?s3, bx_on_disk := on_disk r (rs_fs sys)\<rparr>)"
    by (simp add: rb_probe_def x1_def on_disk_def 2 r1_def split: option.split)
  show ?thesis
    by (rule exI [of _ ?s3]) (simp add: 1 2 3 4, simp add: x1_def r1_def)
qed

definition fs_cleaned :: "string \<Rightarrow> (path \<Rightarrow> tree option) \<Rightarrow> (path \<Rightarrow> tree option)" where
  "fs_cleaned i fs = fs_remove (ImagesOf i) (fs_remove (StagingOf i) fs)"

lemma rb_workload_shape: "\<exists>rt. rb_workload env x = (True, x\<lparr>bx_sys := (bx_sys x)\<lparr>rs_runtime := rt\<rparr>\<rparr>)"
  unfolding rb_workload_def Let_def by (rule exI, rule refl)

lemma rb_run_tail:
  assumes "rb_run env [RbWorkload, RbCleanup, RbFinish] x = (ok, x')"
  shows "rs_fs (bx_sys x') = fs_cleaned (rr_id (bx_rec x)) (rs_fs (bx_sys x)) \<and> bx_aside x' = bx_aside x
     \<and> bx_rec x' = (bx_rec x)\<lparr>rr_state := RestoreRolledBack\<rparr>
     \<and> (ok \<longrightarrow> st_get (rs_records (bx_sys x')) (rr_id (bx_rec x)) = Some (bx_rec x'))"
proof -
  obtain rt where "rb_workload env x = (True, x\<lparr>bx_sys := (bx_sys x)\<lparr>rs_runtime := rt\<rparr>\<rparr>)"
    using rb_workload_shape by blast
  with assms show ?thesis
    by (auto simp: rb_cleanup_def rb_finish_def fs_cleaned_def Let_def split: if_splits bool.splits)
qed

lemma fs_cleaned_simps [simp]:
  "fs_cleaned i fs (TargetAt t) = fs (TargetAt t)" "fs_cleaned i fs (BackupOf j) = fs (BackupOf j)"
  "fs_cleaned i fs (FailedOf j) = fs (FailedOf j)"
  by (simp_all add: fs_cleaned_def fs_remove_def)

lemma rb_aside_records: "rb_aside env x = (b, y) \<Longrightarrow> rs_records (bx_sys y) = rs_records (bx_sys x) \<and> bx_rec y = bx_rec x
    \<and> bx_on_disk y = bx_on_disk x"
  by (auto simp: rb_aside_def Let_def split: if_splits option.splits)

lemma rb_backup_records: "rb_backup env x = (b, y) \<Longrightarrow> rs_records (bx_sys y) = rs_records (bx_sys x) \<and> bx_rec y = bx_rec x"
  by (auto simp: rb_backup_def split: if_splits option.splits)

lemma rb_tail_records:
  assumes "rb_run env [RbWorkload, RbCleanup, RbFinish] x = (ok, y)"
  shows "st_get (rs_records (bx_sys y)) k = (if pe_ok env RbFinalPut \<and> k = rr_id (bx_rec x) then Some (bx_rec y) else st_get (rs_records (bx_sys x)) k)"
proof -
  obtain rt where "rb_workload env x = (True, x\<lparr>bx_sys := (bx_sys x)\<lparr>rs_runtime := rt\<rparr>\<rparr>)"
    using rb_workload_shape by blast
  with assms show ?thesis
    by (auto simp: rb_cleanup_def rb_finish_def Let_def split: if_splits bool.splits)
qed

text \<open>The directories when both renames of a rollback went through.\<close>

lemma rb_renames:
  assumes "recoverable orig r fs" and "rs_fs sys1 = fs" and "fs (FailedOf (rr_id r)) = None"
    and x4: "x4 = \<lparr>bx_rec = r\<lparr>rr_state := RestoreRollingBack\<rparr>, bx_sys = sys1, bx_original = rr_state r,
           bx_on_disk = on_disk r fs, bx_aside = False\<rparr>"
    and x5: "rb_aside env x4 = (True, x5)" and x6: "rb_backup env x5 = (True, x6)"
  shows "rs_fs (bx_sys x6) (TargetAt (rr_target r)) = orig \<and> rs_fs (bx_sys x6) (BackupOf (rr_id r)) = None"
proof (cases "on_disk r fs")
  case True
  let ?t = "TargetAt (rr_target r)" and ?b = "BackupOf (rr_id r)"
  from True assms(1) have b: "rr_backup r = Some ?b" "fs ?b = orig" "orig \<noteq> None"
    by (auto simp: recoverable_def on_disk_def Let_def)
  have "rs_fs (bx_sys x5) ?t = None \<and> rs_fs (bx_sys x5) ?b = orig \<and> bx_rec x5 = bx_rec x4 \<and> bx_on_disk x5"
    using x5 x4 True assms(2) b by (auto simp: rb_aside_def switched_def Let_def fs_rename_def split: if_splits option.splits)
  with x6 x4 b show ?thesis
    by (auto simp: rb_backup_def fs_rename_def split: if_splits)
next
  case False
  let ?t = "TargetAt (rr_target r)" and ?b = "BackupOf (rr_id r)"
  have "x6 = x5" using False x6 x4 rb_aside_records [OF x5]
    by (auto simp: rb_backup_def split: if_splits)
  moreover from False assms(1) have "fs ?b = None"
    "rr_state r = RestorePreparing \<and> fs ?t = orig \<or>
     orig = None \<and> rr_state r \<in> {RestoreFilesystemSwitched, RestoreProcessRunning, RestoreValidated}"
    by (auto simp: recoverable_def on_disk_def Let_def)
  ultimately show ?thesis using x5 x4 assms(2) False
    by (auto simp: rb_aside_def switched_def Let_def fs_rename_def split: if_splits option.splits)
qed

lemma rollback_cases:
  assumes "rollback env r sys = (ok, r', sys')" and "recoverable orig r (rs_fs sys)"
    and "rs_fs sys (FailedOf (rr_id r)) = None"
  shows "(rs_fs sys' (TargetAt (rr_target r)) = orig \<and> rs_fs sys' (BackupOf (rr_id r)) = None
      \<and> r' = r\<lparr>rr_state := RestoreRolledBack\<rparr> \<and> (ok \<longrightarrow> st_get (rs_records sys') (rr_id r) = Some r')
      \<and> st_get (rs_records sys') (rr_id r) \<in> {Some r', Some (r\<lparr>rr_state := RestoreRollingBack\<rparr>), st_get (rs_records sys) (rr_id r)})
    \<or> (\<not> ok \<and> st_get (rs_records sys') (rr_id r) \<in> {Some (r\<lparr>rr_state := RestoreRollingBack\<rparr>), st_get (rs_records sys) (rr_id r)})"
proof -
  let ?r = "r\<lparr>rr_state := RestoreRollingBack\<rparr>"
  obtain sys1 where sys1: "rs_fs sys1 = rs_fs sys" "rb_run env rb_steps (rb_start r sys) =
      rb_run env [RbAside, RbBackup, RbWorkload, RbCleanup, RbFinish]
        \<lparr>bx_rec = ?r, bx_sys = sys1, bx_original = rr_state r, bx_on_disk = on_disk r (rs_fs sys), bx_aside = False\<rparr>"
    and rec1: "st_get (rs_records sys1) (rr_id r) \<in> {Some ?r, st_get (rs_records sys) (rr_id r)}"
    unfolding rb_steps_def using rb_run_probe [of sys env r "[RbAside, RbBackup, RbWorkload, RbCleanup, RbFinish]"] by auto
  define x4 where "x4 = \<lparr>bx_rec = ?r, bx_sys = sys1, bx_original = rr_state r, bx_on_disk = on_disk r (rs_fs sys), bx_aside = False\<rparr>"
  obtain x where run: "rb_run env rb_steps (rb_start r sys) = (ok, x)" by (cases "rb_run env rb_steps (rb_start r sys)") (use assms(1) in \<open>auto simp: rollback_def Let_def\<close>)
  have out: "r' = bx_rec x" "rs_records sys' = rs_records (bx_sys x)"
    "rs_fs sys' = rs_fs (bx_sys x) \<or> rs_fs sys' = fs_remove (FailedOf (rr_id r)) (rs_fs (bx_sys x))"
    using assms(1) run by (auto simp: rollback_def Let_def)
  obtain b5 x5 where x5: "rb_aside env x4 = (b5, x5)" by fastforce
  obtain b6 x6 where x6: "rb_backup env x5 = (b6, x6)" by fastforce
  have k5: "rs_records (bx_sys x5) = rs_records sys1" "bx_rec x5 = ?r" using rb_aside_records [OF x5] by (simp_all add: x4_def)
  have k6: "rs_records (bx_sys x6) = rs_records sys1" "bx_rec x6 = ?r" using rb_backup_records [OF x6] k5 by simp_all
  show ?thesis
  proof (cases "b5 \<and> b6")
    case True
    then have tail: "rb_run env [RbWorkload, RbCleanup, RbFinish] x6 = (ok, x)"
      using run sys1(2) x5 x6 by (simp add: x4_def)
    have "rs_fs (bx_sys x6) (TargetAt (rr_target r)) = orig \<and> rs_fs (bx_sys x6) (BackupOf (rr_id r)) = None"
      using rb_renames [OF assms(2) sys1(1) assms(3) x4_def] x5 x6 True by simp
    with rb_run_tail [OF tail] k6 out have "rs_fs sys' (TargetAt (rr_target r)) = orig \<and> rs_fs sys' (BackupOf (rr_id r)) = None
        \<and> r' = r\<lparr>rr_state := RestoreRolledBack\<rparr> \<and> (ok \<longrightarrow> st_get (rs_records sys') (rr_id r) = Some r')"
      by (auto simp: fs_remove_def)
    moreover have "st_get (rs_records sys') (rr_id r) \<in> {Some r', Some ?r, st_get (rs_records sys) (rr_id r)}"
      using rb_tail_records [OF tail, of "rr_id r"] k6 rec1 out by auto
    ultimately show ?thesis by blast
  next
    case False
    then have "\<not> ok" "rs_records (bx_sys x) = rs_records sys1"
      using run sys1(2) x5 x6 k5 k6 by (auto simp: x4_def split: bool.splits)
    then show ?thesis using rec1 out by simp
  qed
qed

section \<open>What every step of Prepare keeps\<close>

text \<open>
  At every point of \<open>Prepare\<close> the original root is recoverable, both from the record in hand and from
  the one that was last written.
\<close>

definition prep_inv :: "rs_env \<Rightarrow> tree option \<Rightarrow> ptx \<Rightarrow> bool" where
  "prep_inv env orig x \<longleftrightarrow>
     rr_id (tx_rec x) = pe_id env \<and> rr_target (tx_rec x) = target_root env \<and> recoverable orig (tx_rec x) (rs_fs (tx_sys x))
     \<and> rs_fs (tx_sys x) (FailedOf (pe_id env)) = None
     \<and> (\<exists>p. st_get (rs_records (tx_sys x)) (pe_id env) = Some p \<and> rr_id p = pe_id env \<and> rr_target p = target_root env
            \<and> recoverable orig p (rs_fs (tx_sys x))
            \<and> (rr_state p = RestoreValidated \<longrightarrow> rs_fs (tx_sys x) (TargetAt (target_root env)) = Some (pe_tree env)))"

text \<open>A step that keeps the two roots, and moves the record only forward along its states.\<close>

definition same_roots :: "rs_env \<Rightarrow> (path \<Rightarrow> tree option) \<Rightarrow> (path \<Rightarrow> tree option) \<Rightarrow> bool" where
  "same_roots env fs fs' \<longleftrightarrow> fs' (TargetAt (target_root env)) = fs (TargetAt (target_root env))
     \<and> fs' (BackupOf (pe_id env)) = fs (BackupOf (pe_id env)) \<and> fs' (FailedOf (pe_id env)) = fs (FailedOf (pe_id env))"

lemma recoverable_same_roots:
  assumes "same_roots env fs fs'" "rr_id r = pe_id env" "rr_target r = target_root env"
  shows "recoverable orig r fs' = recoverable orig r fs"
  using assms by (simp add: recoverable_def same_roots_def)

lemma prep_inv_runtime:
  assumes "prep_inv env orig x" "tx_rec y = tx_rec x" "rs_records (tx_sys y) = rs_records (tx_sys x)"
    and "same_roots env (rs_fs (tx_sys x)) (rs_fs (tx_sys y))"
  shows "prep_inv env orig y"
  using assms recoverable_same_roots [OF assms(4)] by (auto simp: prep_inv_def same_roots_def)

lemma prep_inv_put:
  assumes "prep_inv env orig x" "recoverable orig r (rs_fs (tx_sys x))" "rr_id r = pe_id env" "rr_target r = target_root env"
    and "rr_state r = RestoreValidated \<longrightarrow> rs_fs (tx_sys x) (TargetAt (target_root env)) = Some (pe_tree env)"
  shows "prep_inv env orig (snd (put_tx ok (x\<lparr>tx_rec := r\<rparr>)))"
  using assms by (auto simp: prep_inv_def put_tx_def)

lemma same_roots_refl [simp]: "same_roots env fs fs"
  by (simp add: same_roots_def)

lemma set_fs_frame [simp]:
  "tx_rec (set_fs p t x) = tx_rec x" "rs_records (tx_sys (set_fs p t x)) = rs_records (tx_sys x)"
  "rs_fs (tx_sys (set_fs p t x)) = (rs_fs (tx_sys x))(p := t)"
  by (simp_all add: set_fs_def)

lemma set_runtime_frame [simp]:
  "tx_rec (set_runtime rt x) = tx_rec x" "rs_records (tx_sys (set_runtime rt x)) = rs_records (tx_sys x)"
  "rs_fs (tx_sys (set_runtime rt x)) = rs_fs (tx_sys x)"
  by (simp_all add: set_runtime_def)

lemma reap_superseded_frame [simp]:
  "rs_fs (reap_superseded env r sys) = rs_fs sys" "rs_records (reap_superseded env r sys) = rs_records sys"
  by (simp_all add: reap_superseded_def Let_def split: option.split)

lemma pr_stage_inv: "prep_inv env orig x \<Longrightarrow> prep_inv env orig (snd (pr_stage env x))"
  by (auto simp: pr_stage_def Let_def same_roots_def elim!: prep_inv_runtime)

definition late_state :: "restore_state \<Rightarrow> bool" where
  "late_state s \<longleftrightarrow> s \<in> {RestoreFilesystemSwitched, RestoreProcessRunning, RestoreValidated}"

lemma late_states [simp]: "late_state RestoreFilesystemSwitched" "late_state RestoreProcessRunning" "late_state RestoreValidated"
  by (simp_all add: late_state_def)

lemma recoverable_advance:
  assumes "recoverable orig r fs" "late_state (rr_state r)"
    and "late_state (rr_state r')"
    and "rr_id r' = rr_id r" "rr_target r' = rr_target r" "rr_backup r' = rr_backup r"
  shows "recoverable orig r' fs"
  using assms by (auto simp: recoverable_def late_state_def Let_def)

text \<open>The four stretches of \<open>Prepare\<close>: before the record names a backup, after, the original moved, the new root active.\<close>

definition p_begun :: "rs_env \<Rightarrow> tree option \<Rightarrow> ptx \<Rightarrow> bool" where
  "p_begun env orig x \<longleftrightarrow> prep_inv env orig x \<and> rr_state (tx_rec x) = RestorePreparing
     \<and> rr_backup (tx_rec x) = Some (BackupOf (pe_id env)) \<and> rs_fs (tx_sys x) (TargetAt (target_root env)) = orig
     \<and> rs_fs (tx_sys x) (BackupOf (pe_id env)) = None"

definition staged :: "rs_env \<Rightarrow> ptx \<Rightarrow> bool" where
  "staged env x \<longleftrightarrow> rs_fs (tx_sys x) (StagingOf (pe_id env)) = Some (pe_tree env)"

definition p_recorded :: "rs_env \<Rightarrow> tree option \<Rightarrow> ptx \<Rightarrow> bool" where
  "p_recorded env orig x \<longleftrightarrow> prep_inv env orig x
     \<and> rs_fs (tx_sys x) (TargetAt (target_root env)) = orig \<and> rs_fs (tx_sys x) (BackupOf (pe_id env)) = None
     \<and> (if orig = None then rr_state (tx_rec x) = RestoreFilesystemSwitched \<and> rr_backup (tx_rec x) = None
            \<and> st_get (rs_records (tx_sys x)) (pe_id env) = Some (tx_rec x)
         else rr_state (tx_rec x) = RestorePreparing \<and> rr_backup (tx_rec x) = Some (BackupOf (pe_id env))
            \<and> st_get (rs_records (tx_sys x)) (pe_id env) = Some (tx_rec x))"

definition p_moved :: "rs_env \<Rightarrow> tree option \<Rightarrow> ptx \<Rightarrow> bool" where
  "p_moved env orig x \<longleftrightarrow> prep_inv env orig x
     \<and> rs_fs (tx_sys x) (TargetAt (target_root env)) = None \<and> rs_fs (tx_sys x) (BackupOf (pe_id env)) = orig
     \<and> (if orig = None then rr_state (tx_rec x) = RestoreFilesystemSwitched \<and> rr_backup (tx_rec x) = None
         else rr_state (tx_rec x) = RestorePreparing \<and> rr_backup (tx_rec x) = Some (BackupOf (pe_id env)))
     \<and> st_get (rs_records (tx_sys x)) (pe_id env) = Some (tx_rec x)"

definition p_active :: "rs_env \<Rightarrow> tree option \<Rightarrow> ptx \<Rightarrow> bool" where
  "p_active env orig x \<longleftrightarrow> prep_inv env orig x
     \<and> late_state (rr_state (tx_rec x))
     \<and> rs_fs (tx_sys x) (TargetAt (target_root env)) = Some (pe_tree env) \<and> rs_fs (tx_sys x) (BackupOf (pe_id env)) = orig"

lemma pr_stage_begun:
  assumes "p_begun env orig x" "pr_stage env x = (ok, y)"
  shows "prep_inv env orig y \<and> (ok \<longrightarrow> p_begun env orig y \<and> staged env y)"
proof -
  have i: "rr_id (tx_rec x) = pe_id env" "prep_inv env orig x" using assms(1) by (auto simp: p_begun_def prep_inv_def)
  have y: "prep_inv env orig y" using pr_stage_inv [OF i(2)] assms(2) by simp
  have f: "tx_rec y = tx_rec x \<and> same_roots env (rs_fs (tx_sys x)) (rs_fs (tx_sys y)) \<and> (ok \<longrightarrow> staged env y)"
    using assms(2) i(1) by (auto simp: pr_stage_def Let_def same_roots_def staged_def split: if_splits)
  with y assms(1) show ?thesis by (auto simp: p_begun_def same_roots_def)
qed

lemma pr_record_begun:
  assumes "p_begun env orig x" "pr_record env x = (ok, y)"
  shows "prep_inv env orig y \<and> rs_fs (tx_sys y) = rs_fs (tx_sys x) \<and> (ok \<longrightarrow> p_recorded env orig y)"
proof -
  let ?r = "tx_rec x"
  have i: "rr_id ?r = pe_id env" "rr_target ?r = target_root env" "prep_inv env orig x"
    using assms(1) by (auto simp: p_begun_def prep_inv_def)
  have r1: "recoverable orig (?r\<lparr>rr_backup := Some (BackupOf (rr_id ?r))\<rparr>) (rs_fs (tx_sys x))"
    using assms(1) i by (simp add: p_begun_def recoverable_def Let_def)
  have r2: "orig = None \<Longrightarrow> recoverable orig (?r\<lparr>rr_backup := None, rr_state := RestoreFilesystemSwitched\<rparr>) (rs_fs (tx_sys x))"
    using assms(1) i by (simp add: p_begun_def recoverable_def Let_def)
  show ?thesis
  proof (cases "orig = None")
    case True
    with assms i prep_inv_put [OF i(3) r2 [OF True], of "pe_ok env PutFresh"] show ?thesis
      by (auto simp: pr_record_def p_begun_def p_recorded_def put_tx_def Let_def split: if_splits)
  next
    case False
    with assms i prep_inv_put [OF i(3) r1, of "pe_ok env PutBackup"] show ?thesis
      by (auto simp: pr_record_def p_begun_def p_recorded_def put_tx_def Let_def split: if_splits)
  qed
qed

lemma pr_backup_recorded:
  assumes "p_recorded env orig x" "staged env x" "pr_backup env x = (ok, y)"
  shows "prep_inv env orig y \<and> (ok \<longrightarrow> p_moved env orig y \<and> staged env y)"
proof -
  have i: "rr_id (tx_rec x) = pe_id env" "rr_target (tx_rec x) = target_root env" "prep_inv env orig x"
    using assms(1) by (auto simp: p_recorded_def prep_inv_def)
  show ?thesis
  proof (cases "orig = None")
    case True
    with assms have "y = x" "rr_backup (tx_rec x) = None" by (auto simp: p_recorded_def pr_backup_def)
    with assms True i(3) show ?thesis by (auto simp: p_recorded_def p_moved_def)
  next
    case False
    then have b: "rr_backup (tx_rec x) = Some (BackupOf (pe_id env))" "rr_state (tx_rec x) = RestorePreparing"
      "st_get (rs_records (tx_sys x)) (pe_id env) = Some (tx_rec x)"
      "rs_fs (tx_sys x) (TargetAt (target_root env)) = orig" "rs_fs (tx_sys x) (BackupOf (pe_id env)) = None"
      using assms(1) by (auto simp: p_recorded_def)
    let ?fs = "(rs_fs (tx_sys x))(BackupOf (pe_id env) := orig, TargetAt (target_root env) := None)"
    have fail: "prep_inv env orig (x\<lparr>tx_rec := (tx_rec x)\<lparr>rr_backup := None\<rparr>\<rparr>)"
      using i b by (auto simp: prep_inv_def recoverable_def Let_def)
    have ok: "prep_inv env orig (x\<lparr>tx_sys := (tx_sys x)\<lparr>rs_fs := ?fs\<rparr>\<rparr>)"
      using i b False by (auto simp: prep_inv_def recoverable_def Let_def)
    show ?thesis
      using assms(2,3) fail ok b False i(2)
      by (auto simp: pr_backup_def fs_rename_def Let_def p_moved_def staged_def split: if_splits)
  qed
qed

lemma pr_activate_moved:
  assumes "p_moved env orig x" "staged env x" "pr_activate env x = (ok, y)"
  shows "prep_inv env orig y \<and> (ok \<longrightarrow> p_active env orig y)"
proof -
  let ?r = "tx_rec x" and ?fs = "rs_fs (tx_sys x)"
  have i: "rr_id ?r = pe_id env" "rr_target ?r = target_root env" "prep_inv env orig x"
    and m: "?fs (TargetAt (target_root env)) = None" "?fs (BackupOf (pe_id env)) = orig"
      "st_get (rs_records (tx_sys x)) (pe_id env) = Some ?r" "?fs (FailedOf (pe_id env)) = None"
    using assms(1) by (auto simp: p_moved_def prep_inv_def)
  have c: "orig = None \<and> rr_backup ?r = None \<and> rr_state ?r = RestoreFilesystemSwitched
    \<or> orig \<noteq> None \<and> rr_backup ?r = Some (BackupOf (pe_id env)) \<and> rr_state ?r = RestorePreparing"
    using assms(1) by (auto simp: p_moved_def split: if_splits)
  let ?fs1 = "?fs(TargetAt (target_root env) := Some (pe_tree env), StagingOf (pe_id env) := Some [])"
  let ?fs2 = "?fs(TargetAt (target_root env) := orig, BackupOf (pe_id env) := None)"
  have ok: "prep_inv env orig (x\<lparr>tx_rec := ?r\<lparr>rr_state := RestoreFilesystemSwitched\<rparr>, tx_sys := (tx_sys x)\<lparr>rs_fs := ?fs1\<rparr>\<rparr>)"
    using i m c by (auto simp: prep_inv_def recoverable_def Let_def)
  have undo: "orig \<noteq> None \<Longrightarrow> prep_inv env orig (x\<lparr>tx_sys := (tx_sys x)\<lparr>rs_fs := ?fs2\<rparr>\<rparr>)"
    using i m c by (auto simp: prep_inv_def recoverable_def Let_def)
  show ?thesis
  proof (cases "pe_ok env MaterializeRoot")
    case True
    then have "y = x\<lparr>tx_rec := ?r\<lparr>rr_state := RestoreFilesystemSwitched\<rparr>, tx_sys := (tx_sys x)\<lparr>rs_fs := ?fs1\<rparr>\<rparr>"
      using assms(2,3) i by (auto simp: pr_activate_def Let_def staged_def)
    with ok m show ?thesis by (simp add: p_active_def)
  next
    case False
    with assms(3) i m c undo show ?thesis
      by (auto simp: pr_activate_def Let_def fs_rename_def split: option.splits if_splits)
  qed
qed

lemma p_active_put:
  assumes "p_active env orig x" "late_state (rr_state r)"
    "rr_id r = rr_id (tx_rec x)" "rr_target r = rr_target (tx_rec x)" "rr_backup r = rr_backup (tx_rec x)"
  shows "p_active env orig (snd (put_tx b (x\<lparr>tx_rec := r\<rparr>)))"
proof -
  have i: "prep_inv env orig x" "late_state (rr_state (tx_rec x))" "rr_id (tx_rec x) = pe_id env" "rr_target (tx_rec x) = target_root env"
    "recoverable orig (tx_rec x) (rs_fs (tx_sys x))"
    "rs_fs (tx_sys x) (TargetAt (target_root env)) = Some (pe_tree env)" "rs_fs (tx_sys x) (BackupOf (pe_id env)) = orig"
    using assms(1) unfolding p_active_def prep_inv_def by blast+
  have "recoverable orig r (rs_fs (tx_sys x))"
    using recoverable_advance [OF i(5,2) assms(2-)] .
  with i assms have "prep_inv env orig (snd (put_tx b (x\<lparr>tx_rec := r\<rparr>)))"
    by (intro prep_inv_put) simp_all
  then show ?thesis unfolding p_active_def using i assms(2) by (simp add: put_tx_def)
qed

lemma p_active_rec:
  assumes "p_active env orig x" "late_state (rr_state r)"
    "rr_id r = rr_id (tx_rec x)" "rr_target r = rr_target (tx_rec x)" "rr_backup r = rr_backup (tx_rec x)"
  shows "p_active env orig (x\<lparr>tx_rec := r\<rparr>)"
  using p_active_put [OF assms, of False] by (simp add: put_tx_def put_record_def)

lemma p_active_sys:
  assumes "p_active env orig x" "rs_fs sys = rs_fs (tx_sys x)" "rs_records sys = rs_records (tx_sys x)"
  shows "p_active env orig (x\<lparr>tx_sys := sys\<rparr>)"
  using assms by (auto simp: p_active_def prep_inv_def)

lemma p_active_runtime: "p_active env orig x \<Longrightarrow> p_active env orig (set_runtime rt x)"
  unfolding set_runtime_def by (rule p_active_sys) auto

lemma p_active_state: "p_active env orig x \<Longrightarrow> late_state (rr_state (tx_rec x))"
  by (simp add: p_active_def)

lemma pr_late_steps:
  assumes "p_active env orig x"
    and "s \<in> {PrSwitched, PrWorkload, PrCreated, PrPark, PrLazy, PrProcess, PrAdopt, PrResume, PrRunning, PrPublish, PrValidated}"
  shows "p_active env orig (snd (pr_exec env s x))"
proof -
  note put = p_active_put [OF assms(1)] and keep = p_active_state [OF assms(1)]
  have self: "p_active env orig (snd (put_tx b x))" for b
    using put [of "tx_rec x" b] keep by simp
  have created: "p_active env orig ((set_runtime rt x)\<lparr>tx_rec := (tx_rec x)\<lparr>rr_created := c\<rparr>\<rparr>)" for rt c
    using p_active_rec [OF p_active_runtime [OF assms(1)], of "(tx_rec x)\<lparr>rr_created := c\<rparr>" rt] keep by simp
  have resumed: "p_active env orig ((set_runtime rt x)\<lparr>tx_rec := (tx_rec x)\<lparr>rr_pid := p, rr_state := RestoreProcessRunning\<rparr>\<rparr>)" for rt p
    using p_active_rec [OF p_active_runtime [OF assms(1)], of "(tx_rec x)\<lparr>rr_pid := p, rr_state := RestoreProcessRunning\<rparr>" rt] by simp
  have lazy: "p_active env orig (snd (put_tx b (x\<lparr>tx_rec := (tx_rec x)\<lparr>rr_lazy := True\<rparr>\<rparr>)))" for b
    using put [of "(tx_rec x)\<lparr>rr_lazy := True\<rparr>" b] keep by simp
  have validated: "p_active env orig (snd (put_tx b (x\<lparr>tx_rec := (tx_rec x)\<lparr>rr_state := RestoreValidated\<rparr>\<rparr>)))" for b
    using put [of "(tx_rec x)\<lparr>rr_state := RestoreValidated\<rparr>" b] by simp
  from assms(2) show ?thesis
    using assms(1) self created resumed lazy validated p_active_runtime [OF assms(1)] p_active_sys [OF assms(1)]
    by (auto simp: pr_switched_def pr_workload_def pr_created_def pr_park_def pr_lazy_def pr_process_def
        pr_adopt_def pr_resume_def pr_running_def pr_publish_def pr_validated_def Let_def split: sum.splits prod.splits)
qed

definition late_steps :: "prep_step list" where
  "late_steps = [PrSwitched, PrWorkload, PrCreated, PrPark, PrLazy, PrProcess, PrAdopt, PrResume, PrRunning, PrPublish, PrValidated]"

lemma pr_run_late:
  "p_active env orig x \<Longrightarrow> set ss \<subseteq> set late_steps \<Longrightarrow> pr_run env ss x = (ok, y) \<Longrightarrow> p_active env orig y"
proof (induction ss arbitrary: x)
  case (Cons s ss)
  obtain b x1 where e: "pr_exec env s x = (b, x1)" by fastforce
  have "p_active env orig x1" using pr_late_steps [OF Cons.prems(1), of s] Cons.prems(2) e by (simp add: late_steps_def)
  with Cons e show ?case by (cases b) auto
qed simp

lemma pr_run_early:
  assumes "p_begun env orig x" "pr_run env (take n [PrStage, PrRecord, PrBackup, PrActivate]) x = (ok, y)"
  shows "prep_inv env orig y \<and> (ok \<and> 4 \<le> n \<longrightarrow> p_active env orig y)"
proof -
  have inv: "p_begun env orig z \<Longrightarrow> prep_inv env orig z" "p_recorded env orig z \<Longrightarrow> prep_inv env orig z"
    "p_moved env orig z \<Longrightarrow> prep_inv env orig z" for z
    by (simp_all add: p_begun_def p_recorded_def p_moved_def)
  obtain b1 x1 where 1: "pr_stage env x = (b1, x1)" by fastforce
  obtain b2 x2 where 2: "pr_record env x1 = (b2, x2)" by fastforce
  obtain b3 x3 where 3: "pr_backup env x2 = (b3, x3)" by fastforce
  obtain b4 x4 where 4: "pr_activate env x3 = (b4, x4)" by fastforce
  note s1 = pr_stage_begun [OF assms(1) 1]
  have s2: "b1 \<Longrightarrow> prep_inv env orig x2 \<and> (b2 \<longrightarrow> p_recorded env orig x2 \<and> staged env x2)"
    using s1 pr_record_begun [OF _ 2] by (auto simp: staged_def)
  have s3: "b1 \<Longrightarrow> b2 \<Longrightarrow> prep_inv env orig x3 \<and> (b3 \<longrightarrow> p_moved env orig x3 \<and> staged env x3)"
    using s2 pr_backup_recorded [OF _ _ 3] by auto
  have s4: "b1 \<Longrightarrow> b2 \<Longrightarrow> b3 \<Longrightarrow> prep_inv env orig x4 \<and> (b4 \<longrightarrow> p_active env orig x4)"
    using s3 pr_activate_moved [OF _ _ 4] by auto
  consider "n = 0" | "n = 1" | "n = 2" | "n = 3" | "4 \<le> n" by linarith
  then show ?thesis
  proof cases
    case 1 then show ?thesis using assms inv by simp
  next
    case 2 then show ?thesis using assms(2) \<open>pr_stage env x = (b1, x1)\<close> s1 by (cases b1) auto
  next
    case 3 then show ?thesis using assms(2) \<open>pr_stage env x = (b1, x1)\<close> \<open>pr_record env x1 = (b2, x2)\<close> s1 s2
      by (cases b1; cases b2) (auto simp: numeral_2_eq_2)
  next
    case 4 then show ?thesis using assms(2) \<open>pr_stage env x = (b1, x1)\<close> \<open>pr_record env x1 = (b2, x2)\<close>
        \<open>pr_backup env x2 = (b3, x3)\<close> s1 s2 s3
      by (cases b1; cases b2; cases b3) (auto simp: numeral_3_eq_3)
  next
    case 5 then show ?thesis using assms(2) \<open>pr_stage env x = (b1, x1)\<close> \<open>pr_record env x1 = (b2, x2)\<close>
        \<open>pr_backup env x2 = (b3, x3)\<close> \<open>pr_activate env x3 = (b4, x4)\<close> s1 s2 s3 s4
      by (cases b1; cases b2; cases b3; cases b4) auto
  qed
qed

lemma pr_run_append:
  "pr_run env (as @ bs) x = (case pr_run env as x of (True, y) \<Rightarrow> pr_run env bs y | (False, y) \<Rightarrow> (False, y))"
  by (induction as arbitrary: x) (auto split: prod.splits bool.splits)

lemma prep_steps_split: "prep_steps = [PrStage, PrRecord, PrBackup, PrActivate] @ late_steps"
  by (simp add: prep_steps_def late_steps_def)

lemma pr_run_inv:
  assumes "p_begun env orig x" "pr_run env (take n prep_steps) x = (ok, y)"
  shows "prep_inv env orig y \<and> (ok \<and> 4 \<le> n \<longrightarrow> p_active env orig y)"
proof -
  let ?e = "[PrStage, PrRecord, PrBackup, PrActivate]"
  obtain b z where e: "pr_run env (take n ?e) x = (b, z)" by fastforce
  note early = pr_run_early [OF assms(1) e]
  have t: "take n prep_steps = take n ?e @ take (n - 4) late_steps"
    unfolding prep_steps_split take_append by (simp add: eval_nat_numeral)
  show ?thesis
  proof (cases "b \<and> 4 \<le> n")
    case True
    have "pr_run env (take n ?e @ take (n - 4) late_steps) x = (ok, y)" using assms(2) t by simp
    then have "pr_run env (take (n - 4) late_steps) z = (ok, y)" using e True unfolding pr_run_append by simp
    then have "p_active env orig y" using pr_run_late [OF _ set_take_subset] early True by blast
    then show ?thesis by (simp add: p_active_def)
  next
    case False
    have "pr_run env (take n ?e @ take (n - 4) late_steps) x = (ok, y)" using assms(2) t by simp
    then have "y = z \<and> ok = b" using e False unfolding pr_run_append by (cases b) auto
    with early show ?thesis by simp
  qed
qed

lemma pr_run_validated:
  assumes "pr_run env prep_steps x = (True, y)"
  shows "rr_state (tx_rec y) = RestoreValidated \<and> st_get (rs_records (tx_sys y)) (rr_id (tx_rec y)) = Some (tx_rec y)"
proof -
  obtain b z where z: "pr_run env (butlast prep_steps) x = (b, z)" by fastforce
  have "prep_steps = butlast prep_steps @ [PrValidated]" by (simp add: prep_steps_def)
  then have "pr_run env (butlast prep_steps @ [PrValidated]) x = (True, y)" using assms by simp
  with z have "pr_validated env z = (True, y)" by (cases b) (auto simp: pr_run_append split: prod.splits bool.splits)
  then show ?thesis by (auto simp: pr_validated_def put_tx_def)
qed

text \<open>A transaction id that has not been used, and whose directories do not exist.\<close>

definition fresh_id :: "rs_env \<Rightarrow> restorer \<Rightarrow> bool" where
  "fresh_id env sys \<longleftrightarrow> st_get (rs_records sys) (pe_id env) = None
     \<and> rs_fs sys (BackupOf (pe_id env)) = None \<and> rs_fs sys (FailedOf (pe_id env)) = None"

lemma prepare_begin_begun:
  assumes "fresh_id env sys" "prepare_begin env sys = Inr (r, sys1)"
  shows "p_begun env (rs_fs sys (TargetAt (target_root env))) \<lparr>tx_rec = r, tx_sys = sys1\<rparr>"
  using assms
  by (auto simp: prepare_begin_def begin_restore_def fresh_id_def p_begun_def prep_inv_def recoverable_def new_record_def Let_def
      split: option.splits if_splits)

lemma prepare_begin_refused:
  assumes "prepare_begin env sys = Inl sys1"
  shows "rs_fs sys1 = rs_fs sys \<and> rs_records sys1 = rs_records sys \<and> rs_runtime sys1 = rs_runtime sys"
  using assms by (auto simp: prepare_begin_def begin_restore_def Let_def split: option.splits if_splits)


section \<open>Recovery\<close>

definition settled :: "restore_record \<Rightarrow> bool" where
  "settled r \<longleftrightarrow> rr_state r \<in> {RestoreCommitted, RestoreRolledBack, RestoreFailed}"

lemma recover_settled: "settled r \<Longrightarrow> recover_one env r sys = (True, sys)"
  by (auto simp: recover_one_def settled_def)

lemma recover_list_settled: "list_all settled rs \<Longrightarrow> recover_list envs rs sys = (True, sys)"
  by (induction rs) (auto simp: recover_settled)

lemma recover_list_one:
  "list_all settled as \<Longrightarrow> list_all settled bs \<Longrightarrow> recover_list envs (as @ p # bs) sys = recover_one (envs (rr_id p)) p sys"
  by (induction as) (auto simp: recover_settled recover_list_settled split: prod.split bool.split)

definition restores_ok :: "restore_record store \<Rightarrow> bool" where
  "restores_ok st \<longleftrightarrow> st_ok st \<and> (\<forall>k r. st_get st k = Some r \<longrightarrow> rr_id r = k)"

lemma recover_only:
  assumes "restores_ok (rs_records sys)" "st_get (rs_records sys) k = Some p"
    and "\<And>k' r. k' \<noteq> k \<Longrightarrow> st_get (rs_records sys) k' = Some r \<Longrightarrow> settled r"
  shows "recover envs sys = recover_one (envs k) p sys"
proof -
  have ok: "st_ok (rs_records sys)" and ids: "\<And>k r. st_get (rs_records sys) k = Some r \<Longrightarrow> rr_id r = k"
    using assms(1) by (auto simp: restores_ok_def)
  have dist: "distinct (map fst (rs_records sys))" using ok by (simp add: st_ok_def strict_sorted_iff)
  have "(k, p) \<in> set (rs_records sys)" using assms(2) by (simp add: st_get_def map_of_SomeD)
  then obtain as bs where split: "rs_records sys = as @ (k, p) # bs" by (meson split_list)
  have other: "settled r" if "(k', r) \<in> set as \<union> set bs" for k' r
  proof -
    have "k' \<noteq> k" using dist that split by (force simp: image_iff)
    moreover have "st_get (rs_records sys) k' = Some r"
      using map_of_is_SomeI [OF dist, of k' r] that split by (auto simp: st_get_def)
    ultimately show ?thesis using assms(3) by blast
  qed
  have "list_all settled (map snd as)" "list_all settled (map snd bs)" using other by (force simp: list_all_iff)+
  from recover_list_one [OF this, of envs p sys] ids [OF assms(2)] show ?thesis
    by (simp add: recover_def st_list_def split)
qed

lemma commit_Inr:
  assumes "commit env k sys = (Inr r, sys')" "st_get (rs_records sys) k = Some p" "rr_state p = RestoreValidated"
    and "rr_backup p \<in> {None, Some (BackupOf (rr_id p))}" "rr_backup p = None \<longrightarrow> rs_fs sys (BackupOf (rr_id p)) = None"
  shows "rs_fs sys' (TargetAt t) = rs_fs sys (TargetAt t) \<and> rs_fs sys' (BackupOf (rr_id p)) = None
    \<and> r = p\<lparr>rr_state := RestoreCommitted\<rparr> \<and> st_get (rs_records sys') k = Some r"
  using assms by (auto simp: commit_def Let_def fs_remove_def split: if_splits)

lemma recover_recoverable:
  assumes "recover_one env p sys = (True, sys')" "recoverable orig p (rs_fs sys)" "rs_fs sys (FailedOf (rr_id p)) = None"
    and "st_get (rs_records sys) (rr_id p) = Some p"
  shows "(rs_fs sys' (TargetAt (rr_target p)) = orig \<and> rs_fs sys' (BackupOf (rr_id p)) = None
      \<and> st_get (rs_records sys') (rr_id p) = Some (p\<lparr>rr_state := RestoreRolledBack\<rparr>))
    \<or> (rr_state p = RestoreValidated \<and> rs_fs sys' (TargetAt (rr_target p)) = rs_fs sys (TargetAt (rr_target p))
      \<and> rs_fs sys' (BackupOf (rr_id p)) = None \<and> st_get (rs_records sys') (rr_id p) = Some (p\<lparr>rr_state := RestoreCommitted\<rparr>))"
proof -
  obtain ok r' sys1 where rb: "rollback env p sys = (ok, r', sys1)" by (cases "rollback env p sys") auto
  note undo = rollback_cases [OF rb assms(2,3)]
  consider "sys' = sys1" "ok" | r where "rr_state p = RestoreValidated" "commit env (rr_id p) sys = (Inr r, sys')"
    using assms(1,2) rb
    by (auto simp: recover_one_def recoverable_def failed_def Let_def split: if_splits option.splits prod.splits sum.splits)
  then show ?thesis
  proof cases
    case 1
    with undo show ?thesis by auto
  next
    case 2
    have "rr_backup p \<in> {None, Some (BackupOf (rr_id p))}" "rr_backup p = None \<longrightarrow> rs_fs sys (BackupOf (rr_id p)) = None"
      using assms(2) by (auto simp: recoverable_def Let_def)
    from commit_Inr [OF 2(2) assms(4) 2(1) this, of "rr_target p"] 2 show ?thesis by simp
  qed
qed

lemma restores_ok_put: "restores_ok st \<Longrightarrow> rr_id r = k \<Longrightarrow> restores_ok (st_put k r st)"
  by (auto simp: restores_ok_def split: if_splits)

definition only_own :: "rs_env \<Rightarrow> restore_record store \<Rightarrow> restore_record store \<Rightarrow> bool" where
  "only_own env st st' \<longleftrightarrow> (restores_ok st \<longrightarrow> restores_ok st') \<and> (\<forall>k. k \<noteq> pe_id env \<longrightarrow> st_get st' k = st_get st k)"

lemma only_own_refl [simp]: "only_own env st st"
  by (simp add: only_own_def)

lemma pr_exec_own:
  assumes "rr_id (tx_rec x) = pe_id env"
  shows "rr_id (tx_rec (snd (pr_exec env s x))) = pe_id env
    \<and> only_own env (rs_records (tx_sys x)) (rs_records (tx_sys (snd (pr_exec env s x))))"
proof -
  have put: "only_own env (rs_records sys) (rs_records (put_record b r sys))" if "rr_id r = pe_id env" for b r sys
    using that restores_ok_put by (auto simp: only_own_def put_record_def)
  show ?thesis using assms put
    by (cases s) (auto simp: pr_stage_def pr_record_def pr_backup_def pr_activate_def pr_switched_def pr_workload_def pr_created_def
        pr_park_def pr_lazy_def pr_process_def pr_adopt_def pr_resume_def pr_running_def pr_publish_def pr_validated_def put_tx_def
        Let_def split: sum.splits prod.splits option.splits)
qed

lemma pr_run_own:
  assumes "rr_id (tx_rec x) = pe_id env" "pr_run env ss x = (ok, y)"
  shows "only_own env (rs_records (tx_sys x)) (rs_records (tx_sys y))"
  using assms
proof (induction ss arbitrary: x)
  case (Cons s ss)
  obtain b z where e: "pr_exec env s x = (b, z)" by fastforce
  have z: "rr_id (tx_rec z) = pe_id env" "only_own env (rs_records (tx_sys x)) (rs_records (tx_sys z))"
    using pr_exec_own [OF Cons.prems(1), of s] e by auto
  show ?case
  proof (cases b)
    case True
    with Cons.IH [OF z(1)] Cons.prems(2) e z(2) show ?thesis by (auto simp: only_own_def)
  next
    case False
    with Cons.prems(2) e z(2) show ?thesis by simp
  qed
qed simp


section \<open>Rollbacks that destroy\<close>

text \<open>A rollback that stops before the directories are touched leaves the mark and nothing else on disk.\<close>

lemma rb_stop_disk: "rb_stop env x = (b, y) \<Longrightarrow> b \<and> rs_fs (bx_sys y) = rs_fs (bx_sys x) \<and> rs_records (bx_sys y) = rs_records (bx_sys x)"
  by (auto simp: rb_stop_def Let_def split: option.splits if_splits)

lemma rollback_crash_marked:
  assumes "pe_ok env RbPut" "0 < n" "n \<le> 4"
  shows "rs_fs (rollback_crash env n r sys) = rs_fs sys
    \<and> rs_records (rollback_crash env n r sys) = st_put (rr_id r) (r\<lparr>rr_state := RestoreRollingBack\<rparr>) (rs_records sys)"
proof -
  let ?r = "r\<lparr>rr_state := RestoreRollingBack\<rparr>"
  have 1: "rb_mark env (rb_start r sys) = (True, (rb_start r sys)\<lparr>bx_rec := ?r, bx_sys := put_record True ?r sys\<rparr>)" (is "_ = (True, ?x1)")
    using assms(1) by (simp add: rb_mark_def rb_start_def Let_def)
  obtain x2 where 2: "rb_stop env ?x1 = (True, x2)" "rs_fs (bx_sys x2) = rs_fs sys" "rs_records (bx_sys x2) = st_put (rr_id r) ?r (rs_records sys)"
    using rb_stop_disk [of env ?x1] by (cases "rb_stop env ?x1") (auto simp: put_record_def)
  consider "n = Suc 0" | "n = Suc (Suc 0)" | "n = Suc (Suc (Suc 0))" | "n = Suc (Suc (Suc (Suc 0)))" using assms(2,3) by linarith
  then show ?thesis
    by cases (simp_all add: rollback_crash_def rb_steps_def 1 2 rb_network_def rb_probe_def, simp_all add: put_record_def)
qed

text \<open>A rollback that takes the root for a switched one and finds no backup removes the root.\<close>

lemma rollback_unbacked:
  assumes "rollback env r sys = (ok, r', sys')" and "rr_state r = RestoreRollingBack \<or> late_state (rr_state r)" and "\<forall>q. pe_ok env q"
    and "rs_fs sys (TargetAt (rr_target r)) = Some t" and "rr_backup r = None \<or> rr_backup r = Some (BackupOf (rr_id r))"
    and "rs_fs sys (BackupOf (rr_id r)) = None" and "rs_fs sys (FailedOf (rr_id r)) = None"
  shows "ok \<and> rs_fs sys' (TargetAt (rr_target r)) = None \<and> rs_fs sys' (BackupOf (rr_id r)) = None \<and> rs_fs sys' (FailedOf (rr_id r)) = None"
proof -
  let ?r = "r\<lparr>rr_state := RestoreRollingBack\<rparr>" and ?tail = "[RbWorkload, RbCleanup, RbFinish]"
  have nd: "\<not> on_disk r (rs_fs sys)" using assms(5,6) by (auto simp: on_disk_def)
  obtain sys1 where s1: "rs_fs sys1 = rs_fs sys" "rb_run env rb_steps (rb_start r sys) = rb_run env (RbAside # RbBackup # ?tail)
      \<lparr>bx_rec = ?r, bx_sys = sys1, bx_original = rr_state r, bx_on_disk = on_disk r (rs_fs sys), bx_aside = False\<rparr>"
    unfolding rb_steps_def using rb_run_probe [of sys env r "RbAside # RbBackup # ?tail"] by auto
  define x5 where "x5 = \<lparr>bx_rec = ?r, bx_sys = sys1\<lparr>rs_fs := (rs_fs sys)(FailedOf (rr_id r) := Some t, TargetAt (rr_target r) := None)\<rparr>,
    bx_original = rr_state r, bx_on_disk = False, bx_aside = True\<rparr>"
  have "rb_run env rb_steps (rb_start r sys) = rb_run env ?tail x5"
    using assms(2-4,7) s1 nd by (auto simp: rb_aside_def switched_def rb_backup_def fs_rename_def late_state_def Let_def x5_def)
  moreover obtain b x where run: "rb_run env ?tail x5 = (b, x)" by fastforce
  moreover have "b" using run assms(3) rb_workload_shape [of env x5]
    by (auto simp: rb_cleanup_def rb_finish_def Let_def)
  ultimately show ?thesis using assms(1,3,6) rb_run_tail [OF run]
    by (auto simp: rollback_def Let_def fs_remove_def x5_def)
qed

text \<open>
  A rollback is not repeatable.  Take a restore that failed before it touched the workload's
  root: the record reads PREPARING, the root is the original and there is no backup.  If the agent
  stops during the rollback, after the mark ROLLING_BACK is written, the recovery that runs when the
  agent opens takes the root for a switched one, moves it aside and deletes it.
\<close>

theorem interrupted_rollback_deletes_root:
  assumes "rr_state r = RestorePreparing" and "rr_backup r = Some (BackupOf (rr_id r))"
    and "rs_fs sys (TargetAt (rr_target r)) = Some t" and "rs_fs sys (BackupOf (rr_id r)) = None"
    and "rs_fs sys (FailedOf (rr_id r)) = None"
    and "restores_ok (rs_records sys)" and "\<forall>k p. st_get (rs_records sys) k = Some p \<longrightarrow> k \<noteq> rr_id r \<longrightarrow> settled p"
    and "pe_ok env RbPut" and "0 < n" and "n \<le> 4"
    and "\<forall>q. pe_ok (envs (rr_id r)) q"
    and "reopen envs (rollback_crash env n r sys) = (ok, sys')"
  shows "ok \<and> rs_fs sys' (TargetAt (rr_target r)) = None \<and> rs_fs sys' (BackupOf (rr_id r)) = None
    \<and> rs_fs sys' (FailedOf (rr_id r)) = None"
proof -
  let ?r = "r\<lparr>rr_state := RestoreRollingBack\<rparr>" and ?e = "envs (rr_id r)"
  define s where "s = rollback_crash env n r sys"
  have fs: "rs_fs s = rs_fs sys"
    and rec: "st_get (rs_records s) k = (if k = rr_id r then Some ?r else st_get (rs_records sys) k)"
    and ok: "restores_ok (rs_records s)" for k
    using rollback_crash_marked [OF assms(8,9,10), of r sys] restores_ok_put [OF assms(6), of ?r "rr_id r"]
    by (simp_all add: s_def)
  let ?s = "s\<lparr>rs_in_flight := {}\<rparr>"
  have "recover envs ?s = recover_one ?e ?r ?s"
    using ok rec assms(7) by (intro recover_only) auto
  then have one: "recover_one ?e ?r ?s = (ok, sys')" using assms(12) by (simp add: reopen_def s_def)
  obtain rok r' sys1 where rb: "rollback ?e ?r ?s = (rok, r', sys1)" by (cases "rollback ?e ?r ?s") auto
  then have "ok = rok" "sys' = sys1" using one by (simp_all add: recover_one_def)
  with rollback_unbacked [OF rb] assms(2-5,11) fs show ?thesis by simp
qed

text \<open>
  \<open>Commit\<close> removes the backup before its record is written.  If that write fails, the record still
  reads VALIDATED, and the rollback that answers the failed commit deletes the restored root with
  nothing to put back.
\<close>

theorem failed_commit_then_rollback_deletes_root:
  assumes "st_get (rs_records sys) k = Some r" and "rr_id r = k" and "rr_state r = RestoreValidated"
    and "rr_backup r = Some (BackupOf k)" and "rs_fs sys (TargetAt (rr_target r)) = Some t"
    and "rs_fs sys (BackupOf k) = Some old" and "rs_fs sys (FailedOf k) = None"
    and "pe_ok env CommitRemoveBackup" and "\<not> pe_ok env CommitPut" and "\<forall>q. pe_ok env' q"
    and "commit env k sys = (res, sys1)" and "rollback_restore env' k sys1 = (res', sys2)"
  shows "res = Inl RestorePersist \<and> rs_fs sys2 (TargetAt (rr_target r)) = None \<and> rs_fs sys2 (BackupOf k) = None"
proof -
  have c: "res = Inl RestorePersist" "st_get (rs_records sys1) k = Some r" "rs_fs sys1 (TargetAt (rr_target r)) = Some t"
    "rs_fs sys1 (BackupOf k) = None" "rs_fs sys1 (FailedOf k) = None"
    using assms(1-9,11) by (auto simp: commit_def Let_def fs_remove_def)
  obtain ok r' s2 where rb: "rollback env' r sys1 = (ok, r', s2)" by (cases "rollback env' r sys1") auto
  have "sys2 = s2" using assms(3,12) c(2) rb by (cases ok) (simp_all add: rollback_restore_def)
  with rollback_unbacked [OF rb _ assms(10) c(3)] assms(2-4) c show ?thesis by simp
qed

section \<open>Processes a failed restore takes down\<close>

lemma not_alive_set_stopped: "process_alive (set_stopped b g ks) pid t = process_alive ks pid t"
  by (induction ks) (auto simp: set_stopped_def process_alive_def)

lemma rt_workload_kernel:
  "rt_kernel (snd (rt_delete env k rt)) = rt_kernel rt" "rt_kernel (snd (rt_restore_metadata env w rt)) = rt_kernel rt"
  "rt_kernel (snd (rt_mark_restore_failed env k s rt)) = rt_kernel rt"
  by (auto simp: rt_delete_def rt_restore_metadata_def rt_mark_restore_failed_def rt_put_def split: option.splits)

lemma rt_resume_alive: "process_alive (rt_kernel (snd (rt_resume env k rt))) pid t = process_alive (rt_kernel rt) pid t"
  by (auto simp: rt_resume_def signal_and_update_def rt_put_def not_alive_set_stopped split: option.splits)

lemma rb_workload_alive:
  "rb_workload env x = (b, y) \<Longrightarrow> process_alive (rt_kernel (rs_runtime (bx_sys y))) pid t = process_alive (rt_kernel (rs_runtime (bx_sys x))) pid t"
  by (auto simp: rb_workload_def Let_def rt_workload_kernel rt_resume_alive split: option.splits if_splits)

lemma rb_other_runtime:
  "s \<in> {RbMark, RbNetwork, RbProbe, RbAside, RbBackup, RbCleanup, RbFinish} \<Longrightarrow> rb_exec env s x = (b, y) \<Longrightarrow>
     rs_runtime (bx_sys y) = rs_runtime (bx_sys x)"
  by (auto simp: rb_mark_def rb_network_def rb_probe_def rb_aside_def rb_backup_def rb_cleanup_def rb_finish_def Let_def
      split: if_splits option.splits)

lemma rb_run_alive:
  "set ss \<subseteq> {RbMark, RbNetwork, RbProbe, RbAside, RbBackup, RbWorkload, RbCleanup, RbFinish} \<Longrightarrow> rb_run env ss x = (b, y) \<Longrightarrow>
     process_alive (rt_kernel (rs_runtime (bx_sys y))) pid t = process_alive (rt_kernel (rs_runtime (bx_sys x))) pid t"
proof (induction ss arbitrary: x)
  case (Cons s ss)
  obtain c z where e: "rb_exec env s x = (c, z)" by fastforce
  have "process_alive (rt_kernel (rs_runtime (bx_sys z))) pid t = process_alive (rt_kernel (rs_runtime (bx_sys x))) pid t"
    using e Cons.prems(1) rb_workload_alive [of env x c z] rb_other_runtime [of s env x c z] by (cases "s = RbWorkload") auto
  with Cons e show ?case by (cases c) auto
qed simp

lemma rt_stop_kills:
  assumes "rt_get rt k = Some w" "wl_process w = Some p" "leads_group (rt_kernel rt) p" "re_signal env"
  shows "\<not> process_alive (rt_kernel (snd (rt_stop env k rt))) (ps_pid p) (ps_start_ticks p)"
proof (cases "process_alive (rt_kernel rt) (ps_pid p) (ps_start_ticks p)")
  case False
  with assms show ?thesis by (auto simp: rt_stop_def proc_alive_def Let_def rt_put_def)
next
  case True
  let ?i = "wsp_id (wl_spec w)" and ?rt = "rt\<lparr>rt_stopping := insert (wsp_id (wl_spec w)) (rt_stopping rt)\<rparr>"
  obtain rt1 where sig: "stop_signal env w p ?rt = (True, rt1)"
    using assms(4) by (auto simp: stop_signal_def Let_def)
  have gone: "\<not> process_alive (rt_kernel rt1) (ps_pid p) (ps_start_ticks p)"
    using stop_signal_True(1) [OF sig] assms(3) by simp
  have k: "rt_kernel (rt_record_exit b i t e rt1) = rt_kernel rt1" for b i t e
    by (auto simp: rt_record_exit_def Let_def split: option.splits)
  have k2: "rt_kernel (snd (stop_record env i rt2)) = rt_kernel rt2" for i rt2
    by (auto simp: stop_record_def Let_def split: option.splits)
  show ?thesis using assms(1,2) True sig gone
    by (simp add: rt_stop_def proc_alive_def Let_def k k2)
qed

lemma rollback_stops_recorded_process:
  assumes "rollback env r sys = (ok, r', sys')" and "rt_get (rs_runtime sys) (rr_workload r) = Some w"
    and "wl_process w = Some p" and "leads_group (rt_kernel (rs_runtime sys)) p" and "re_signal (pe_rt env RbStopCall)"
  shows "\<not> process_alive (rt_kernel (rs_runtime sys')) (ps_pid p) (ps_start_ticks p)"
proof -
  let ?r = "r\<lparr>rr_state := RestoreRollingBack\<rparr>"
  let ?x1 = "(rb_start r sys)\<lparr>bx_original := rr_state r, bx_rec := ?r, bx_sys := put_record (pe_ok env RbPut) ?r sys\<rparr>"
  have 1: "rb_mark env (rb_start r sys) = (True, ?x1)" by (simp add: rb_mark_def rb_start_def Let_def)
  obtain x2 where 2: "rb_stop env ?x1 = (True, x2)"
    "\<not> process_alive (rt_kernel (rs_runtime (bx_sys x2))) (ps_pid p) (ps_start_ticks p)"
    using rt_stop_kills [OF assms(2-5)] assms(2,3) by (auto simp: rb_stop_def Let_def)
  obtain b x where run: "rb_run env (drop 2 rb_steps) x2 = (b, x)" by fastforce
  have "rb_run env rb_steps (rb_start r sys) = (b, x)" using run 1 2(1) by (simp add: rb_steps_def)
  moreover have "\<not> process_alive (rt_kernel (rs_runtime (bx_sys x))) (ps_pid p) (ps_start_ticks p)"
    using rb_run_alive [OF _ run, of "ps_pid p" "ps_start_ticks p"] 2(2) by (simp add: rb_steps_def)
  ultimately show ?thesis using assms(1) by (auto simp: rollback_def Let_def split: if_splits)
qed

lemma pr_early_runtime:
  assumes "pr_run env (take 5 prep_steps) x = (b, y)"
  shows "rs_runtime (tx_sys y) = rs_runtime (tx_sys x) \<and> rr_workload (tx_rec y) = rr_workload (tx_rec x)"
proof -
  have step: "rs_runtime (tx_sys z) = rs_runtime (tx_sys x) \<and> rr_workload (tx_rec z) = rr_workload (tx_rec x)"
    if "pr_exec env s x = (c, z)" "s \<in> {PrStage, PrRecord, PrBackup, PrActivate, PrSwitched}" for s x c z
    using that by (auto simp: pr_stage_def pr_record_def pr_backup_def pr_activate_def pr_switched_def put_tx_def set_fs_def Let_def
        split: if_splits option.splits)
  have "pr_run env ss x = (b, y) \<Longrightarrow> set ss \<subseteq> {PrStage, PrRecord, PrBackup, PrActivate, PrSwitched} \<Longrightarrow>
     rs_runtime (tx_sys y) = rs_runtime (tx_sys x) \<and> rr_workload (tx_rec y) = rr_workload (tx_rec x)" for ss x
  proof (induction ss arbitrary: x)
    case (Cons s ss)
    obtain c z where e: "pr_exec env s x = (c, z)" by fastforce
    with step [OF e] Cons show ?case by (cases c) auto
  qed simp
  from this [OF assms] show ?thesis by (simp add: prep_steps_def eval_nat_numeral)
qed

lemma pr_workload_failed_runtime:
  assumes "pr_workload env x = (False, y)"
  shows "rs_runtime (tx_sys y) = rs_runtime (tx_sys x) \<and> rr_workload (tx_rec y) = rr_workload (tx_rec x)"
  using assms
  by (auto simp: pr_workload_def rt_prepare_restore_def set_runtime_def Let_def split: prod.splits sum.splits option.splits if_splits)

text \<open>
  A restore that fails before it takes the workload's record over kills the workload's own
  process.  This is the answer to a restore over a running workload: \<open>PrepareRestore\<close> refuses it because
  the workload is active, and the rollback of the refused restore stops that workload.  It also
  reaches the frozen source that a checkpoint keeps as the copy to fall back on.
\<close>

theorem failed_restore_kills_the_workload:
  assumes "prepare_admit env" and "prepare_begin env sys = Inr (r0, sys0)"
    and "pr_run env (take 6 prep_steps) \<lparr>tx_rec = r0, tx_sys = sys0\<rparr> = (False, y)"
    and "rt_get (rs_runtime sys) (wsp_id (pe_spec env)) = Some w" and "wl_process w = Some p"
    and "process_alive (rt_kernel (rs_runtime sys)) (ps_pid p) (ps_start_ticks p)"
    and "leads_group (rt_kernel (rs_runtime sys)) p" and "re_signal (pe_rt env RbStopCall)"
    and "prepare env sys = (res, sys')"
  shows "res = None \<and> \<not> process_alive (rt_kernel (rs_runtime sys')) (ps_pid p) (ps_start_ticks p)"
proof -
  let ?x0 = "\<lparr>tx_rec = r0, tx_sys = sys0\<rparr>"
  have x0: "rs_runtime sys0 = rs_runtime sys" "rr_workload r0 = wsp_id (pe_spec env)"
    using assms(2) by (auto simp: prepare_begin_def begin_restore_def new_record_def Let_def split: option.splits if_splits)
  have "take 6 prep_steps = take 5 prep_steps @ [PrWorkload]" by (simp add: prep_steps_def)
  then have run: "pr_run env (take 5 prep_steps @ [PrWorkload]) ?x0 = (False, y)" using assms(3) by simp
  obtain b z where z: "pr_run env (take 5 prep_steps) ?x0 = (b, z)" by fastforce
  have "y = z \<or> pr_workload env z = (False, y)"
    using run z unfolding pr_run_append by (cases b) (auto split: prod.splits bool.splits)
  then have y: "rs_runtime (tx_sys y) = rs_runtime sys" "rr_workload (tx_rec y) = wsp_id (pe_spec env)"
    using pr_early_runtime [OF z] pr_workload_failed_runtime [of env z y] x0 by auto
  have "prep_steps = take 6 prep_steps @ drop 6 prep_steps" by simp
  then have "pr_run env (take 6 prep_steps @ drop 6 prep_steps) ?x0 = pr_run env prep_steps ?x0" by simp
  then have full: "pr_run env prep_steps ?x0 = (False, y)" using assms(3) unfolding pr_run_append by simp
  obtain ok r' s2 where rb: "rollback env (tx_rec y) (tx_sys y) = (ok, r', s2)" by (cases "rollback env (tx_rec y) (tx_sys y)") auto
  have "\<not> process_alive (rt_kernel (rs_runtime s2)) (ps_pid p) (ps_start_ticks p)"
    using rollback_stops_recorded_process [OF rb] y assms(4,5,7,8) by simp
  moreover have "res = None" "rs_runtime sys' = rs_runtime s2" using assms(1,2,9) full rb by (auto simp: prepare_def)
  ultimately show ?thesis by simp
qed

text \<open>
  Committing a restore over a still living frozen source marks the workload as retired and kills the source.  The
  exit of the killed source does not clear that mark, because the record already belongs to the restored
  process; so when the restored process later dies with an error, the record says STOPPED with
  no error instead of FAILED.
\<close>

theorem committed_restore_hides_next_crash:
  assumes "commit env k sys = (Inr r', sys1)" and "st_get (rs_records sys) k = Some r" and "rr_state r = RestoreValidated"
    and "rr_previous r = Some v" and "wl_process v = Some old"
    and "process_alive (rt_kernel (rs_runtime sys)) (ps_pid old) (ps_start_ticks old)" and "\<not> pe_reaped env"
    and "st_get (rt_records (rs_runtime sys)) (rr_workload r) = Some w" and "wl_process w = Some q"
    and "ps_start_ticks q \<noteq> ps_start_ticks old"
    and "rt1 = rt_record_exit b (rr_workload r) (ps_start_ticks old) e0 (rs_runtime sys1)"
    and "rt2 = rt_record_exit True (rr_workload r) (ps_start_ticks q) (Some e) rt1"
  shows "\<exists>w'. st_get (rt_records rt2) (rr_workload r) = Some w' \<and> wl_status w' = WorkloadStopped \<and> wl_last_error w' = []"
proof -
  have c: "rt_records (rs_runtime sys1) = rt_records (rs_runtime sys)" "rr_workload r \<in> rt_stopping (rs_runtime sys1)"
    using assms(1-7) by (auto simp: commit_def reap_superseded_def rt_retire_def Let_def split: if_splits)
  then have "rt1 = rs_runtime sys1" using assms(8-11) by (simp add: rt_record_exit_def)
  with c assms(8,9,12) show ?thesis by (simp add: rt_record_exit_def Let_def)
qed

section \<open>A worked restore\<close>

definition rs_good :: rs_env where
  "rs_good = \<lparr>pe_ok = (\<lambda>_. True), pe_rt = (\<lambda>_. env_good), pe_lazy = False, pe_network = False, pe_id = ''r1'',
     pe_checkpoint = ''c1'', pe_spec = sample_spec, pe_tree = ''new'',
     pe_proc = \<lparr>kp_pid = 20, kp_pgid = 20, kp_ticks = 9, kp_stopped = True\<rparr>, pe_reaped = False, pe_killed = True\<rparr>"

definition rs_idle :: "runtime \<Rightarrow> restorer" where
  "rs_idle rt = \<lparr>rs_records = [], rs_in_flight = {}, rs_fs = (\<lambda>p. if p = TargetAt ''/srv/job'' then Some ''old'' else None),
     rs_network = {}, rs_runtime = rt\<rparr>"

lemma rs_good_target: "target_root rs_good = ''/srv/job''"
  by code_simp

lemma rs_good_id [simp]: "pe_id rs_good = ''r1''" "pe_tree rs_good = ''new''"
  by (simp_all add: rs_good_def)

lemma rs_idle_fresh: "fresh_id rs_good (rs_idle rt)" "restores_ok (rs_records (rs_idle rt))"
    "\<forall>k r. st_get (rs_records (rs_idle rt)) k = Some r \<longrightarrow> settled r"
  by (simp_all add: fresh_id_def rs_idle_def restores_ok_def)

lemma rs_idle_root: "rs_fs (rs_idle rt) (TargetAt ''/srv/job'') = Some ''old''"
  by (simp add: rs_idle_def)



definition rs_torn :: restore_record where
  "rs_torn = \<lparr>rr_id = ''r1'', rr_checkpoint = ''c1'', rr_workload = ''w1'', rr_state = RestorePreparing, rr_target = ''/srv/job'',
     rr_backup = Some (BackupOf ''r1''), rr_pid = 0, rr_created = False, rr_previous = None, rr_lazy = False\<rparr>"

theorem interrupted_rollback_deletes_root_witness:
  "rs_fs (snd (reopen (\<lambda>_. rs_good) (rollback_crash rs_good 2 rs_torn (rs_idle rt_empty)))) (TargetAt ''/srv/job'') = None"
proof -
  let ?o = "reopen (\<lambda>_. rs_good) (rollback_crash rs_good 2 rs_torn (rs_idle rt_empty))"
  have o: "?o = (fst ?o, snd ?o)" by simp
  from interrupted_rollback_deletes_root [of rs_torn "rs_idle rt_empty" "''old''" rs_good 2 "\<lambda>_. rs_good", OF _ _ _ _ _ _ _ _ _ _ _ o]
  show ?thesis by (simp add: rs_torn_def rs_good_def rs_idle_def restores_ok_def)
qed

definition rs_nearly :: restorer where
  "rs_nearly = (rs_idle rt_empty)\<lparr>rs_records := [(''r1'', rs_torn\<lparr>rr_state := RestoreValidated\<rparr>)],
     rs_fs := (\<lambda>p. if p = TargetAt ''/srv/job'' then Some ''new'' else if p = BackupOf ''r1'' then Some ''old'' else None)\<rparr>"

theorem failed_commit_then_rollback_deletes_root_witness:
  "rs_fs (snd (rollback_restore rs_good ''r1''
       (snd (commit (rs_good\<lparr>pe_ok := (\<lambda>q. q \<noteq> CommitPut)\<rparr>) ''r1'' rs_nearly)))) (TargetAt ''/srv/job'') = None"
proof -
  let ?c = "commit (rs_good\<lparr>pe_ok := (\<lambda>q. q \<noteq> CommitPut)\<rparr>) ''r1'' rs_nearly"
  let ?b = "rollback_restore rs_good ''r1'' (snd ?c)"
  have c: "?c = (fst ?c, snd ?c)" and b: "?b = (fst ?b, snd ?b)" by simp_all
  from failed_commit_then_rollback_deletes_root [of rs_nearly "''r1''" "rs_torn\<lparr>rr_state := RestoreValidated\<rparr>" "''new''" "''old''", OF _ _ _ _ _ _ _ _ _ _ c b]
  show ?thesis by (simp add: rs_nearly_def rs_torn_def rs_good_def rs_idle_def st_get_def)
qed

theorem failed_restore_kills_the_workload_witness:
  "process_alive (rt_kernel rt_running) 10 7 \<and> fst (prepare rs_good (rs_idle rt_running)) = None
   \<and> \<not> process_alive (rt_kernel (rs_runtime (snd (prepare rs_good (rs_idle rt_running))))) 10 7"
proof -
  let ?s = "rs_idle rt_running" and ?p = "\<lparr>ps_pid = 10, ps_pgid = 10, ps_start_ticks = 7\<rparr>"
  let ?w = "snd (hd (rt_records rt_running))"
  have "(case prepare_begin rs_good ?s of Inl _ \<Rightarrow> False
     | Inr (r, s) \<Rightarrow> \<not> fst (pr_run rs_good (take 6 prep_steps) \<lparr>tx_rec = r, tx_sys = s\<rparr>))" by code_simp
  then obtain r0 s0 where b: "prepare_begin rs_good ?s = Inr (r0, s0)"
    and f: "\<not> fst (pr_run rs_good (take 6 prep_steps) \<lparr>tx_rec = r0, tx_sys = s0\<rparr>)" by (auto split: sum.splits)
  then have run: "pr_run rs_good (take 6 prep_steps) \<lparr>tx_rec = r0, tx_sys = s0\<rparr> =
     (False, snd (pr_run rs_good (take 6 prep_steps) \<lparr>tx_rec = r0, tx_sys = s0\<rparr>))" by (metis (full_types) prod.collapse)
  have a: "prepare_admit rs_good" by (simp add: prepare_admit_def rs_good_def)
  have g: "rt_get (rs_runtime ?s) (wsp_id (pe_spec rs_good)) = Some ?w" by code_simp
  have p: "wl_process ?w = Some ?p" by (simp add: rt_running_def)
  have al: "process_alive (rt_kernel (rs_runtime ?s)) (ps_pid ?p) (ps_start_ticks ?p)"
    by (simp add: rs_idle_def rt_running_def process_alive_def)
  have l: "leads_group (rt_kernel (rs_runtime ?s)) ?p" by (simp add: leads_group_def rs_idle_def rt_running_def)
  have si: "re_signal (pe_rt rs_good RbStopCall)" by (simp add: rs_good_def env_good_def)
  have o: "prepare rs_good ?s = (fst (prepare rs_good ?s), snd (prepare rs_good ?s))" by simp
  from failed_restore_kills_the_workload [OF a b run g p al l si o] al show ?thesis
    by (simp add: rs_idle_def)
qed

definition rs_over :: restorer where
  "rs_over = rs_nearly\<lparr>rs_records := [(''r1'', rs_torn\<lparr>rr_state := RestoreValidated,
        rr_previous := Some ((snd (hd (rt_records rt_running)))\<lparr>wl_process := Some \<lparr>ps_pid = 5, ps_pgid = 5, ps_start_ticks = 3\<rparr>\<rparr>)\<rparr>)],
     rs_runtime := rt_running\<lparr>rt_kernel := \<lparr>kp_pid = 5, kp_pgid = 5, kp_ticks = 3, kp_stopped = True\<rparr> # rt_kernel rt_running\<rparr>\<rparr>"

theorem committed_restore_hides_next_crash_witness:
  "\<exists>w'. st_get (rt_records (rt_record_exit True ''w1'' 7 (Some ''oom'')
       (rt_record_exit True ''w1'' 3 (Some ''signal'') (rs_runtime (snd (commit rs_good ''r1'' rs_over)))))) ''w1'' = Some w'
     \<and> wl_status w' = WorkloadStopped \<and> wl_last_error w' = []"
proof -
  let ?r = "rs_torn\<lparr>rr_state := RestoreValidated,
        rr_previous := Some ((snd (hd (rt_records rt_running)))\<lparr>wl_process := Some \<lparr>ps_pid = 5, ps_pgid = 5, ps_start_ticks = 3\<rparr>\<rparr>)\<rparr>"
  have "\<not> failed (fst (commit rs_good ''r1'' rs_over))" by code_simp
  then obtain r' where c: "commit rs_good ''r1'' rs_over = (Inr r', snd (commit rs_good ''r1'' rs_over))"
    by (cases "fst (commit rs_good ''r1'' rs_over)") (auto simp: prod_eq_iff)
  have g: "st_get (rs_records rs_over) ''r1'' = Some ?r" by (simp add: rs_over_def st_get_def)
  from committed_restore_hides_next_crash [OF c g,
      where v = "(snd (hd (rt_records rt_running)))\<lparr>wl_process := Some \<lparr>ps_pid = 5, ps_pgid = 5, ps_start_ticks = 3\<rparr>\<rparr>"
        and old = "\<lparr>ps_pid = 5, ps_pgid = 5, ps_start_ticks = 3\<rparr>" and w = "snd (hd (rt_records rt_running))"
        and q = "\<lparr>ps_pid = 10, ps_pgid = 10, ps_start_ticks = 7\<rparr>" and b = True and ?e0.0 = "Some ''signal''" and e = "''oom''",
      OF _ _ _ _ _ _ _ _ refl refl]
  show ?thesis
    by (simp add: rs_over_def rs_torn_def rs_good_def rt_running_def st_get_def process_alive_def)
qed

lemma pr_run_id: "rr_id (tx_rec x) = pe_id env \<Longrightarrow> pr_run env ss x = (ok, y) \<Longrightarrow> rr_id (tx_rec y) = pe_id env"
proof (induction ss arbitrary: x)
  case (Cons s ss)
  obtain b z where e: "pr_exec env s x = (b, z)" by fastforce
  have "rr_id (tx_rec z) = pe_id env" using pr_exec_own [OF Cons.prems(1), of s] e by simp
  with Cons e show ?case by (cases b) auto
qed simp

section \<open>The restorer as a service\<close>

text \<open>
  What a client of the restorer relies on, in terms of the recorded state of a restore: a successful
  \<open>Prepare\<close> leaves its own record VALIDATED, a successful \<open>Commit\<close> leaves it COMMITTED, a successful
  \<open>Rollback\<close> leaves it ROLLED_BACK; no call changes another record, and none leaves the two final states.
\<close>

locale restore_service =
  fixes service_ok :: "'r \<Rightarrow> bool"
    and state_of :: "'r \<Rightarrow> string \<Rightarrow> restore_state option"
    and unused :: "'e \<Rightarrow> 'r \<Rightarrow> bool"
    and ident :: "'e \<Rightarrow> string"
    and prepare_op :: "'e \<Rightarrow> 'r \<Rightarrow> restore_record option \<times> 'r"
    and commit_op :: "'e \<Rightarrow> string \<Rightarrow> 'r \<Rightarrow> (restore_error, restore_record) outcome \<times> 'r"
    and rollback_op :: "'e \<Rightarrow> string \<Rightarrow> 'r \<Rightarrow> (restore_error, restore_record) outcome \<times> 'r"
  assumes prepare_law: "service_ok s \<Longrightarrow> unused e s \<Longrightarrow> prepare_op e s = (out, s') \<Longrightarrow>
      service_ok s' \<and> state_of s (ident e) = None \<and> (\<forall>k. k \<noteq> ident e \<longrightarrow> state_of s' k = state_of s k)
      \<and> (\<forall>rec. out = Some rec \<longrightarrow> rr_id rec = ident e \<and> state_of s' (ident e) = Some RestoreValidated)"
    and commit_law: "service_ok s \<Longrightarrow> commit_op e k s = (res, s') \<Longrightarrow>
      service_ok s' \<and> (\<forall>j. j \<noteq> k \<longrightarrow> state_of s' j = state_of s j)
      \<and> (if failed res then state_of s' k = state_of s k else state_of s' k = Some RestoreCommitted)
      \<and> (\<not> failed res \<longrightarrow> state_of s k \<in> {Some RestoreValidated, Some RestoreCommitted})"
    and rollback_law: "service_ok s \<Longrightarrow> rollback_op e k s = (res, s') \<Longrightarrow>
      service_ok s' \<and> (\<forall>j. j \<noteq> k \<longrightarrow> state_of s' j = state_of s j)
      \<and> (\<not> failed res \<longrightarrow> state_of s' k = Some RestoreRolledBack)
      \<and> (state_of s k \<in> {Some RestoreCommitted, Some RestoreRolledBack} \<longrightarrow> s' = s)
      \<and> (state_of s k = Some RestoreCommitted \<longrightarrow> failed res) \<and> (state_of s k \<noteq> None \<longrightarrow> state_of s' k \<noteq> None)"

lemma rb_exec_own:
  assumes "rb_exec env s x = (b, y)"
  shows "rr_id (bx_rec y) = rr_id (bx_rec x)
    \<and> (\<forall>k. k \<noteq> rr_id (bx_rec x) \<longrightarrow> st_get (rs_records (bx_sys y)) k = st_get (rs_records (bx_sys x)) k)
    \<and> (restores_ok (rs_records (bx_sys x)) \<longrightarrow> restores_ok (rs_records (bx_sys y)))
    \<and> (\<forall>k. st_get (rs_records (bx_sys x)) k \<noteq> None \<longrightarrow> st_get (rs_records (bx_sys y)) k \<noteq> None)"
proof (cases s)
  case RbWorkload
  then show ?thesis using assms rb_workload_shape [of env x] by auto
next
  case RbAside
  then show ?thesis using assms rb_aside_records [of env x b y] by simp
next
  case RbBackup
  then show ?thesis using assms rb_backup_records [of env x b y] by simp
qed (use assms restores_ok_put in \<open>auto simp: rb_mark_def rb_stop_def rb_network_def rb_probe_def rb_cleanup_def rb_finish_def put_record_def Let_def
      split: if_splits option.splits prod.splits\<close>)

lemma rb_run_own:
  assumes "rb_run env ss x = (ok, y)"
  shows "rr_id (bx_rec y) = rr_id (bx_rec x)
    \<and> (\<forall>k. k \<noteq> rr_id (bx_rec x) \<longrightarrow> st_get (rs_records (bx_sys y)) k = st_get (rs_records (bx_sys x)) k)
    \<and> (restores_ok (rs_records (bx_sys x)) \<longrightarrow> restores_ok (rs_records (bx_sys y)))
    \<and> (\<forall>k. st_get (rs_records (bx_sys x)) k \<noteq> None \<longrightarrow> st_get (rs_records (bx_sys y)) k \<noteq> None)"
  using assms
proof (induction ss arbitrary: x)
  case (Cons s ss)
  obtain b z where e: "rb_exec env s x = (b, z)" by fastforce
  note one = rb_exec_own [OF e]
  show ?case
  proof (cases b)
    case True
    with Cons.IH [of z] Cons.prems e one show ?thesis by simp
  next
    case False
    with Cons.prems e one show ?thesis by simp
  qed
qed simp

lemma rb_run_append:
  "rb_run env (as @ bs) x = (case rb_run env as x of (True, y) \<Rightarrow> rb_run env bs y | (False, y) \<Rightarrow> (False, y))"
  by (induction as arbitrary: x) (auto split: prod.splits bool.splits)

lemma rollback_own:
  assumes "rollback env r sys = (ok, r', sys')"
  shows "(\<forall>k. k \<noteq> rr_id r \<longrightarrow> st_get (rs_records sys') k = st_get (rs_records sys) k)
    \<and> (restores_ok (rs_records sys) \<longrightarrow> restores_ok (rs_records sys'))
    \<and> (\<forall>k. st_get (rs_records sys) k \<noteq> None \<longrightarrow> st_get (rs_records sys') k \<noteq> None)
    \<and> (ok \<longrightarrow> map_option rr_state (st_get (rs_records sys') (rr_id r)) = Some RestoreRolledBack)"
proof -
  obtain x where run: "rb_run env rb_steps (rb_start r sys) = (ok, x)"
    by (cases "rb_run env rb_steps (rb_start r sys)") (use assms in \<open>auto simp: rollback_def Let_def\<close>)
  have rec: "rs_records sys' = rs_records (bx_sys x)" using assms run by (auto simp: rollback_def Let_def)
  have start: "bx_rec (rb_start r sys) = r" "bx_sys (rb_start r sys) = sys" by (simp_all add: rb_start_def)
  have "map_option rr_state (st_get (rs_records (bx_sys x)) (rr_id r)) = Some RestoreRolledBack" if ok
  proof -
    obtain b y where y: "rb_run env (butlast rb_steps) (rb_start r sys) = (b, y)" by fastforce
    have "rb_steps = butlast rb_steps @ [RbFinish]" by (simp add: rb_steps_def)
    then have "rb_run env (butlast rb_steps @ [RbFinish]) (rb_start r sys) = (True, x)" using run that by simp
    with y have "rb_finish env y = (True, x)" unfolding rb_run_append by (cases b) (auto split: prod.splits bool.splits)
    moreover have "rr_id (bx_rec y) = rr_id r" using rb_run_own [OF y] start by simp
    ultimately show ?thesis by (auto simp: rb_finish_def Let_def split: if_splits)
  qed
  with rb_run_own [OF run] start rec show ?thesis by simp
qed

definition rs_state :: "restorer \<Rightarrow> string \<Rightarrow> restore_state option" where
  "rs_state sys k = map_option rr_state (st_get (rs_records sys) k)"

definition rs_ok :: "restorer \<Rightarrow> bool" where
  "rs_ok sys \<longleftrightarrow> restores_ok (rs_records sys)"

lemma prepare_begin_own:
  assumes "prepare_begin env sys = Inr (r, sys1)"
  shows "rr_id r = pe_id env \<and> only_own env (rs_records sys) (rs_records sys1)"
  using assms restores_ok_put
  by (auto simp: prepare_begin_def begin_restore_def new_record_def only_own_def put_record_def Let_def split: option.splits if_splits)

lemma prepare_service:
  assumes "rs_ok sys" and "fresh_id env sys" and "prepare env sys = (res, sys')"
  shows "rs_ok sys' \<and> rs_state sys (pe_id env) = None \<and> (\<forall>k. k \<noteq> pe_id env \<longrightarrow> rs_state sys' k = rs_state sys k)
    \<and> (\<forall>rec. res = Some rec \<longrightarrow> rr_id rec = pe_id env \<and> rs_state sys' (pe_id env) = Some RestoreValidated)"
proof (cases "prepare_admit env")
  case False
  with assms show ?thesis by (simp add: prepare_def fresh_id_def rs_state_def)
next
  case admit: True
  show ?thesis
  proof (cases "prepare_begin env sys")
    case (Inl sys1)
    then have "res = None" "sys' = sys1" using assms(3) admit by (simp_all add: prepare_def)
    with prepare_begin_refused [OF Inl] assms show ?thesis by (simp add: fresh_id_def rs_state_def rs_ok_def)
  next
    case (Inr p)
    obtain r sys1 where p: "p = (r, sys1)" by fastforce
    note own1 = prepare_begin_own [OF Inr [unfolded p]]
    obtain ok x where run: "pr_run env prep_steps \<lparr>tx_rec = r, tx_sys = sys1\<rparr> = (ok, x)" by fastforce
    have own2: "rr_id (tx_rec x) = pe_id env" "only_own env (rs_records sys1) (rs_records (tx_sys x))"
      using pr_run_own [OF _ run] pr_run_id [OF _ run] own1 by simp_all
    show ?thesis
    proof (cases ok)
      case True
      then have "res = Some (tx_rec x)" "sys' = tx_sys x" using assms(3) admit Inr p run by (simp_all add: prepare_def)
      with own1 own2 pr_run_validated [of env _ x] run True assms show ?thesis
        by (auto simp: only_own_def rs_ok_def rs_state_def fresh_id_def)
    next
      case False
      obtain b r' sys2 where rb: "rollback env (tx_rec x) (tx_sys x) = (b, r', sys2)" by (metis prod_cases3)
      then have "res = None" "rs_records sys' = rs_records sys2"
        using assms(3) admit Inr p run False by (auto simp: prepare_def)
      with own1 own2 rollback_own [OF rb] assms show ?thesis
        by (auto simp: only_own_def rs_ok_def rs_state_def fresh_id_def)
    qed
  qed
qed

lemma commit_service:
  assumes "rs_ok sys" and "commit env k sys = (res, sys')"
  shows "rs_ok sys' \<and> (\<forall>j. j \<noteq> k \<longrightarrow> rs_state sys' j = rs_state sys j)
    \<and> (if failed res then rs_state sys' k = rs_state sys k else rs_state sys' k = Some RestoreCommitted)
    \<and> (\<not> failed res \<longrightarrow> rs_state sys k \<in> {Some RestoreValidated, Some RestoreCommitted})"
proof (cases "st_get (rs_records sys) k")
  case None
  with assms show ?thesis by (auto simp: commit_def rs_state_def)
next
  case (Some r)
  then have "rr_id r = k" using assms(1) by (simp add: rs_ok_def restores_ok_def)
  then have put: "restores_ok (st_put k (r\<lparr>rr_state := RestoreCommitted\<rparr>) (rs_records sys))"
    using assms(1) by (simp add: rs_ok_def restores_ok_put)
  show ?thesis using assms Some put by (auto simp: commit_def rs_ok_def rs_state_def Let_def split: if_splits)
qed

lemma rollback_service:
  assumes "rs_ok sys" and "rollback_restore env k sys = (res, sys')"
  shows "rs_ok sys' \<and> (\<forall>j. j \<noteq> k \<longrightarrow> rs_state sys' j = rs_state sys j)
    \<and> (\<not> failed res \<longrightarrow> rs_state sys' k = Some RestoreRolledBack)
    \<and> (rs_state sys k \<in> {Some RestoreCommitted, Some RestoreRolledBack} \<longrightarrow> sys' = sys)
    \<and> (rs_state sys k = Some RestoreCommitted \<longrightarrow> failed res)
    \<and> (rs_state sys k \<noteq> None \<longrightarrow> rs_state sys' k \<noteq> None)"
proof (cases "st_get (rs_records sys) k")
  case None
  with assms show ?thesis by (auto simp: rollback_restore_def rs_state_def)
next
  case (Some r)
  then have id: "rr_id r = k" using assms(1) by (simp add: rs_ok_def restores_ok_def)
  obtain ok r' s2 where rb: "rollback env r sys = (ok, r', s2)" by (metis prod_cases3)
  show ?thesis
    using assms Some rb rollback_own [OF rb] id
    by (cases ok) (auto simp: rollback_restore_def rs_state_def rs_ok_def split: if_splits)
qed

interpretation rsv: restore_service rs_ok rs_state fresh_id pe_id prepare commit rollback_restore
  by unfold_locales (rule prepare_service commit_service rollback_service; assumption)+

end
