(* ===== verification/Workload_Keys.thy ===== *)
theory Workload_Keys
  imports Shift_Prelude
begin

text \<open>
  \<^verbatim>\<open>src/internal/securestore/keys.go\<close>: the master keyring and the workload data keys wrapped under it.
  The state is the manager in memory and the two kinds of files on disk.  Authenticated encryption is
  symbolic: a box remembers the key and the associated data it was sealed with and opens under exactly
  those.  Random keys, the success of every file write and the order in which the directory is listed
  are arguments.
\<close>

section \<open>State\<close>

type_synonym key = string

definition key_size :: nat where
  "key_size = 32"

text \<open>A box: sealing key, associated data, content.\<close>

datatype 'a box = Box key 'a key

fun open_box :: "key \<Rightarrow> 'a \<Rightarrow> 'a box \<Rightarrow> key option" where
  "open_box k a (Box k' a' content) = (if k = k' \<and> a = a' then Some content else None)"

text \<open>
  A master key is stored raw, or sealed under the key derived from the external key file with its
  version as associated data.
\<close>

datatype material = Raw key | SealedMaterial "nat box"

record master_key_record =
  mk_version :: nat
  mk_material :: material
  mk_retired :: bool

record keyring =
  kr_active :: nat
  kr_keys :: "master_key_record list"

record wrapped_key_record =
  wr_workload :: string
  wr_version :: nat
  wr_by :: nat
  wr_box :: "(string \<times> nat \<times> nat) box"

text \<open>\<open>km_wrap\<close> is the key derived from the key file, absent when the keyring is not protected.\<close>

record key_manager =
  km_ring :: keyring
  km_wrap :: "key option"

record key_disk =
  kd_ring :: "keyring option"
  kd_files :: "wrapped_key_record list store"

datatype key_error = RingMissing | RingInvalid | RingSealed | KeyWrite | NoWorkloadKey | InvalidRecord
  | KeyLength | DifferentKey | NoMasterKey | Undecryptable

definition next_version :: "nat \<Rightarrow> nat" where
  "next_version v = (v + 1) mod 2 ^ 32"

section \<open>Opening\<close>

definition seal_record :: "key option \<Rightarrow> nat \<Rightarrow> key \<Rightarrow> master_key_record" where
  "seal_record wrap v k =
     \<lparr>mk_version = v,
      mk_material = (case wrap of None \<Rightarrow> Raw k | Some w \<Rightarrow> SealedMaterial (Box w v k)),
      mk_retired = False\<rparr>"

fun sealed_material :: "material \<Rightarrow> bool" where
  "sealed_material (Raw k) = False"
| "sealed_material (SealedMaterial b) = True"

definition check_ring :: "key option \<Rightarrow> keyring \<Rightarrow> (key_error, key_manager) outcome" where
  "check_ring wrap ring =
     (if kr_keys ring = [] then Inl RingInvalid
      else if wrap = None \<and> (\<exists>r \<in> set (kr_keys ring). sealed_material (mk_material r)) then Inl RingSealed
      else Inr \<lparr>km_ring = ring, km_wrap = wrap\<rparr>)"

definition open_manager ::
  "key option \<Rightarrow> bool \<Rightarrow> bool \<Rightarrow> key \<Rightarrow> key_disk \<Rightarrow> (key_error, key_manager) outcome \<times> key_disk" where
  "open_manager wrap mint write_ok fresh disk =
     (case kd_ring disk of
        Some ring \<Rightarrow> (check_ring wrap ring, disk)
      | None \<Rightarrow>
          if \<not> mint then (Inl RingMissing, disk)
          else let ring = \<lparr>kr_active = 1, kr_keys = [seal_record wrap 1 fresh]\<rparr> in
          if \<not> write_ok then (Inl KeyWrite, disk)
          else (check_ring wrap ring, disk\<lparr>kd_ring := Some ring\<rparr>))"

section \<open>Wrapping\<close>

fun open_material :: "key option \<Rightarrow> nat \<Rightarrow> material \<Rightarrow> key option" where
  "open_material wrap v (Raw k) = (if length k = key_size then Some k else None)"
| "open_material wrap v (SealedMaterial b) = (case wrap of None \<Rightarrow> None | Some w \<Rightarrow> open_box w v b)"

definition master_key :: "key_manager \<Rightarrow> nat \<Rightarrow> key option" where
  "master_key km v =
     (case find (\<lambda>r. mk_version r = v) (kr_keys (km_ring km)) of
        None \<Rightarrow> None
      | Some r \<Rightarrow> open_material (km_wrap km) v (mk_material r))"

definition wrap_with :: "key \<Rightarrow> nat \<Rightarrow> string \<Rightarrow> nat \<Rightarrow> key \<Rightarrow> wrapped_key_record" where
  "wrap_with master mv w v k = \<lparr>wr_workload = w, wr_version = v, wr_by = mv, wr_box = Box master (w, v, mv) k\<rparr>"

definition unwrap :: "key_manager \<Rightarrow> wrapped_key_record \<Rightarrow> (key_error, key) outcome" where
  "unwrap km r =
     (case master_key km (wr_by r) of
        None \<Rightarrow> Inl NoMasterKey
      | Some m \<Rightarrow>
     (case open_box m (wr_workload r, wr_version r, wr_by r) (wr_box r) of
        None \<Rightarrow> Inl Undecryptable
      | Some k \<Rightarrow> Inr k))"

definition load_records :: "key_disk \<Rightarrow> string \<Rightarrow> (key_error, wrapped_key_record list) outcome" where
  "load_records disk w =
     (case st_get (kd_files disk) w of
        None \<Rightarrow> Inl NoWorkloadKey
      | Some rs \<Rightarrow> if list_all (\<lambda>r. wr_workload r = w) rs then Inr rs else Inl InvalidRecord)"

definition records_or_none :: "key_disk \<Rightarrow> string \<Rightarrow> (key_error, wrapped_key_record list) outcome" where
  "records_or_none disk w =
     (case load_records disk w of Inl NoWorkloadKey \<Rightarrow> Inr [] | r \<Rightarrow> r)"

definition store_workload_key ::
  "bool \<Rightarrow> key_manager \<Rightarrow> string \<Rightarrow> nat \<Rightarrow> key \<Rightarrow> wrapped_key_record list \<Rightarrow> key_disk \<Rightarrow> (key_error, unit) outcome \<times> key_disk" where
  "store_workload_key write_ok km w v k rs disk =
     (let mv = kr_active (km_ring km) in
      case master_key km mv of
        None \<Rightarrow> (Inl NoMasterKey, disk)
      | Some m \<Rightarrow>
          if \<not> write_ok then (Inl KeyWrite, disk)
          else (Inr (), disk\<lparr>kd_files := st_put w (sort_key wr_version (rs @ [wrap_with m mv w v k])) (kd_files disk)\<rparr>))"

section \<open>Workload keys\<close>

definition workload_key :: "key_manager \<Rightarrow> key_disk \<Rightarrow> string \<Rightarrow> nat \<Rightarrow> (key_error, key) outcome" where
  "workload_key km disk w v =
     (case load_records disk w of
        Inl e \<Rightarrow> Inl e
      | Inr rs \<Rightarrow> (case find (\<lambda>r. wr_version r = v) rs of None \<Rightarrow> Inl NoWorkloadKey | Some r \<Rightarrow> unwrap km r))"

definition get_or_create_workload_key ::
  "bool \<Rightarrow> key \<Rightarrow> key_manager \<Rightarrow> string \<Rightarrow> key_disk \<Rightarrow> (key_error, nat \<times> key) outcome \<times> key_disk" where
  "get_or_create_workload_key write_ok fresh km w disk =
     (case records_or_none disk w of
        Inl e \<Rightarrow> (Inl e, disk)
      | Inr rs \<Rightarrow>
          if rs \<noteq> []
          then (case unwrap km (last rs) of Inl e \<Rightarrow> Inl e | Inr k \<Rightarrow> Inr (wr_version (last rs), k), disk)
          else case store_workload_key write_ok km w 1 fresh [] disk of
                 (Inl e, disk') \<Rightarrow> (Inl e, disk')
               | (Inr _, disk') \<Rightarrow> (Inr (1, fresh), disk'))"

definition import_workload_key ::
  "bool \<Rightarrow> key_manager \<Rightarrow> string \<Rightarrow> nat \<Rightarrow> key \<Rightarrow> key_disk \<Rightarrow> (key_error, unit) outcome \<times> key_disk" where
  "import_workload_key write_ok km w v k disk =
     (if length k \<noteq> key_size then (Inl KeyLength, disk)
      else case records_or_none disk w of
        Inl e \<Rightarrow> (Inl e, disk)
      | Inr rs \<Rightarrow>
     (case find (\<lambda>r. wr_version r = v) rs of
        Some r \<Rightarrow> (case unwrap km r of
                     Inl e \<Rightarrow> Inl e
                   | Inr existing \<Rightarrow> if existing = k then Inr () else Inl DifferentKey, disk)
      | None \<Rightarrow> store_workload_key write_ok km w v k rs disk))"

definition rotate_workload_key ::
  "bool \<Rightarrow> key \<Rightarrow> key_manager \<Rightarrow> string \<Rightarrow> key_disk \<Rightarrow> (key_error, nat \<times> key) outcome \<times> key_disk" where
  "rotate_workload_key write_ok fresh km w disk =
     (case records_or_none disk w of
        Inl e \<Rightarrow> (Inl e, disk)
      | Inr rs \<Rightarrow>
          let v = (if rs = [] then 1 else next_version (wr_version (last rs))) in
          case store_workload_key write_ok km w v fresh rs disk of
            (Inl e, disk') \<Rightarrow> (Inl e, disk')
          | (Inr _, disk') \<Rightarrow> (Inr (v, fresh), disk'))"

section \<open>Rotating the master key\<close>

fun rewrap_records :: "key_manager \<Rightarrow> key \<Rightarrow> nat \<Rightarrow> wrapped_key_record list \<Rightarrow> (key_error, wrapped_key_record list) outcome" where
  "rewrap_records km m mv [] = Inr []"
| "rewrap_records km m mv (r # rs) =
     (case unwrap km r of
        Inl e \<Rightarrow> Inl e
      | Inr k \<Rightarrow>
     (case rewrap_records km m mv rs of
        Inl e \<Rightarrow> Inl e
      | Inr rs' \<Rightarrow> Inr (wrap_with m mv (wr_workload r) (wr_version r) k # rs')))"

text \<open>\<open>rewrapWorkloadFile\<close>: a file is written whole or not at all.\<close>

definition rewrap_workload_file ::
  "bool \<Rightarrow> key_manager \<Rightarrow> string \<Rightarrow> key_disk \<Rightarrow> (key_error, unit) outcome \<times> key_disk" where
  "rewrap_workload_file write_ok km w disk =
     (case st_get (kd_files disk) w of
        None \<Rightarrow> (Inl NoWorkloadKey, disk)
      | Some rs \<Rightarrow>
     (let mv = kr_active (km_ring km) in
      case master_key km mv of
        None \<Rightarrow> (Inl NoMasterKey, disk)
      | Some m \<Rightarrow>
     (case rewrap_records km m mv rs of
        Inl e \<Rightarrow> (Inl e, disk)
      | Inr rs' \<Rightarrow>
          if \<not> write_ok then (Inl KeyWrite, disk)
          else (Inr (), disk\<lparr>kd_files := st_put w rs' (kd_files disk)\<rparr>))))"

fun rewrap_files :: "(string \<Rightarrow> bool) \<Rightarrow> key_manager \<Rightarrow> string list \<Rightarrow> key_disk \<Rightarrow> (key_error, unit) outcome \<times> key_disk" where
  "rewrap_files write_ok km [] disk = (Inr (), disk)"
| "rewrap_files write_ok km (w # ws) disk =
     (case rewrap_workload_file (write_ok w) km w disk of
        (Inl e, disk') \<Rightarrow> (Inl e, disk')
      | (Inr _, disk') \<Rightarrow> rewrap_files write_ok km ws disk')"

definition bump_version :: "keyring \<Rightarrow> nat" where
  "bump_version ring =
     foldl (\<lambda>nv r. if mk_version r \<ge> nv then next_version (mk_version r) else nv) (kr_active ring) (kr_keys ring)"

definition add_master :: "key_manager \<Rightarrow> key \<Rightarrow> key_manager" where
  "add_master km fresh =
     (let nv = bump_version (km_ring km)
      in km\<lparr>km_ring := \<lparr>kr_active = nv, kr_keys = kr_keys (km_ring km) @ [seal_record (km_wrap km) nv fresh]\<rparr>\<rparr>)"

definition retire_others :: "nat \<Rightarrow> keyring \<Rightarrow> keyring" where
  "retire_others nv ring =
     ring\<lparr>kr_keys := map (\<lambda>r. if mk_version r \<noteq> nv then r\<lparr>mk_retired := True\<rparr> else r) (kr_keys ring)\<rparr>"

text \<open>
  \<open>RotateMasterKey\<close>.  The first result is the version returned, or the error.  The keyring in memory
  is changed before it is written, and stays changed when the write fails.
\<close>

definition rotate_master_key ::
  "bool \<Rightarrow> (string \<Rightarrow> bool) \<Rightarrow> bool \<Rightarrow> key \<Rightarrow> string list \<Rightarrow> key_manager \<Rightarrow> key_disk
     \<Rightarrow> (key_error, nat) outcome \<times> key_manager \<times> key_disk" where
  "rotate_master_key ring_ok file_ok retire_ok fresh order km disk =
     (let nv = bump_version (km_ring km); km1 = add_master km fresh in
      if \<not> ring_ok then (Inl KeyWrite, km1, disk)
      else let disk1 = disk\<lparr>kd_ring := Some (km_ring km1)\<rparr> in
      case rewrap_files file_ok km1 order disk1 of
        (Inl e, disk2) \<Rightarrow> (Inl e, km1, disk2)
      | (Inr _, disk2) \<Rightarrow>
          let km2 = km1\<lparr>km_ring := retire_others nv (km_ring km1)\<rparr> in
          if \<not> retire_ok then (Inl KeyWrite, km2, disk2)
          else (Inr nv, km2, disk2\<lparr>kd_ring := Some (km_ring km2)\<rparr>))"

text \<open>A process that stops after the first \<open>n\<close> files of the rotation were written.\<close>

definition rotate_crash :: "nat \<Rightarrow> key \<Rightarrow> string list \<Rightarrow> key_manager \<Rightarrow> key_disk \<Rightarrow> key_disk" where
  "rotate_crash n fresh order km disk =
     (let km1 = add_master km fresh
      in snd (rewrap_files (\<lambda>w. True) km1 (take n order) (disk\<lparr>kd_ring := Some (km_ring km1)\<rparr>)))"


section \<open>Finding by a distinct key\<close>

lemma find_key_iff:
  "distinct (map f xs) \<Longrightarrow> find (\<lambda>r. f r = v) xs = Some r \<longleftrightarrow> r \<in> set xs \<and> f r = v"
  by (induction xs) auto

lemma find_key_None: "find (\<lambda>r. f r = v) xs = None \<longleftrightarrow> v \<notin> f ` set xs"
  by (induction xs) auto

lemma find_key_set:
  assumes "distinct (map f xs)" and "distinct (map f ys)" and "set xs = set ys"
  shows "find (\<lambda>r. f r = v) xs = find (\<lambda>r. f r = v) ys"
  using assms find_key_iff [of f xs v] find_key_iff [of f ys v] find_key_None [of f v xs] find_key_None [of f v ys]
  by (metis not_None_eq)

lemma find_append: "find P (xs @ ys) = (case find P xs of None \<Rightarrow> find P ys | Some x \<Rightarrow> Some x)"
  by (induction xs) auto

section \<open>Invariant\<close>

text \<open>What a keyring says about its keys; the retirement marks are not part of it.\<close>

definition ring_keys :: "keyring \<Rightarrow> nat \<times> (nat \<times> material) list" where
  "ring_keys ring = (kr_active ring, map (\<lambda>r. (mk_version r, mk_material r)) (kr_keys ring))"

definition ring_wf :: "key_manager \<Rightarrow> bool" where
  "ring_wf km \<longleftrightarrow> distinct (map mk_version (kr_keys (km_ring km)))
     \<and> kr_active (km_ring km) \<in> mk_version ` set (kr_keys (km_ring km))
     \<and> (\<forall>r \<in> set (kr_keys (km_ring km)). open_material (km_wrap km) (mk_version r) (mk_material r) \<noteq> None)"

definition readable :: "key_manager \<Rightarrow> wrapped_key_record \<Rightarrow> bool" where
  "readable km r \<longleftrightarrow> \<not> failed (unwrap km r)"

definition file_wf :: "key_manager \<Rightarrow> string \<Rightarrow> wrapped_key_record list \<Rightarrow> bool" where
  "file_wf km w rs \<longleftrightarrow> sorted_wrt (<) (map wr_version rs) \<and> list_all (\<lambda>r. wr_workload r = w \<and> readable km r) rs"

text \<open>Memory and disk agree on the master keys, and every wrapped key can be read.\<close>

definition keys_ok :: "key_manager \<Rightarrow> key_disk \<Rightarrow> bool" where
  "keys_ok km disk \<longleftrightarrow> ring_wf km \<and> st_ok (kd_files disk)
     \<and> (\<exists>ring. kd_ring disk = Some ring \<and> ring_keys ring = ring_keys (km_ring km))
     \<and> (\<forall>w rs. st_get (kd_files disk) w = Some rs \<longrightarrow> file_wf km w rs)"

lemma find_ring:
  "find (\<lambda>r. mk_version r = v) rs = Some r \<Longrightarrow> map_of (map (\<lambda>r. (mk_version r, mk_material r)) rs) v = Some (mk_material r)"
  by (induction rs) (auto split: if_splits)

lemma find_ring_None:
  "find (\<lambda>r. mk_version r = v) rs = None \<Longrightarrow> map_of (map (\<lambda>r. (mk_version r, mk_material r)) rs) v = None"
  by (induction rs) (auto split: if_splits)

lemma master_key_map:
  "master_key km v = (case map_of (snd (ring_keys (km_ring km))) v of
     None \<Rightarrow> None | Some mat \<Rightarrow> open_material (km_wrap km) v mat)"
  using find_ring [of v "kr_keys (km_ring km)"] find_ring_None [of v "kr_keys (km_ring km)"]
  by (cases "find (\<lambda>r. mk_version r = v) (kr_keys (km_ring km))") (simp_all add: master_key_def ring_keys_def)

lemma ring_keys_retire [simp]: "ring_keys (retire_others nv ring) = ring_keys ring"
  by (auto simp: ring_keys_def retire_others_def)

text \<open>Only the master keys and the wrapping key decide what can be read.\<close>

lemma unwrap_cong:
  "master_key km (wr_by r) = master_key km' (wr_by r) \<Longrightarrow> unwrap km r = unwrap km' r"
  by (simp add: unwrap_def)

lemma unwrap_wrap_with: "master_key km mv = Some m \<Longrightarrow> unwrap km (wrap_with m mv w v k) = Inr k"
  by (simp add: unwrap_def wrap_with_def)

lemma ring_active:
  assumes "ring_wf km"
  obtains m where "master_key km (kr_active (km_ring km)) = Some m"
proof -
  let ?rs = "kr_keys (km_ring km)" and ?v = "kr_active (km_ring km)"
  obtain r where r: "r \<in> set ?rs" "mk_version r = ?v" using assms by (auto simp: ring_wf_def)
  then have f: "find (\<lambda>r. mk_version r = ?v) ?rs = Some r" using assms by (simp add: find_key_iff ring_wf_def)
  have "open_material (km_wrap km) (mk_version r) (mk_material r) \<noteq> None" using assms r unfolding ring_wf_def by blast
  with r f that show thesis by (auto simp: master_key_def)
qed

text \<open>The version a rotation picks is above every version of the ring.\<close>

lemma bump_foldl:
  assumes "\<forall>r \<in> set rs. mk_version r < 2 ^ 32 - 1"
  shows "foldl (\<lambda>nv r. if mk_version r \<ge> nv then next_version (mk_version r) else nv) a rs \<ge> a
    \<and> (\<forall>r \<in> set rs. mk_version r < foldl (\<lambda>nv r. if mk_version r \<ge> nv then next_version (mk_version r) else nv) a rs)"
  using assms
proof (induction rs arbitrary: a)
  case (Cons r rs)
  then have s: "mk_version r < 2 ^ 32 - 1" by simp
  let ?a = "if mk_version r \<ge> a then next_version (mk_version r) else a"
  have nv: "next_version (mk_version r) = mk_version r + 1" using s by (simp add: next_version_def)
  have a: "a \<le> ?a" "mk_version r < ?a" by (simp_all add: nv)
  from Cons have ih: "foldl (\<lambda>nv r. if mk_version r \<ge> nv then next_version (mk_version r) else nv) ?a rs \<ge> ?a
    \<and> (\<forall>r \<in> set rs. mk_version r < foldl (\<lambda>nv r. if mk_version r \<ge> nv then next_version (mk_version r) else nv) ?a rs)"
    by simp
  with a show ?case by (simp del: if_split)
qed simp

definition versions_small :: "key_manager \<Rightarrow> bool" where
  "versions_small km \<longleftrightarrow> (\<forall>r \<in> set (kr_keys (km_ring km)). mk_version r < 2 ^ 32 - 1)"

lemma bump_above: "versions_small km \<Longrightarrow> r \<in> set (kr_keys (km_ring km)) \<Longrightarrow> mk_version r < bump_version (km_ring km)"
  using bump_foldl [of "kr_keys (km_ring km)" "kr_active (km_ring km)"]
  by (simp add: versions_small_def bump_version_def)

lemma open_material_seal: "length k = key_size \<Longrightarrow> open_material wrap v (mk_material (seal_record wrap v k)) = Some k"
  by (simp add: seal_record_def split: option.splits)

lemma add_master_keeps:
  "master_key km v = Some m \<Longrightarrow> master_key (add_master km fresh) v = Some m"
  by (auto simp: master_key_def add_master_def Let_def find_append split: option.splits)

lemma add_master_active:
  assumes "versions_small km" and "length fresh = key_size"
  shows "master_key (add_master km fresh) (bump_version (km_ring km)) = Some fresh"
proof -
  have "find (\<lambda>r. mk_version r = bump_version (km_ring km)) (kr_keys (km_ring km)) = None"
    using bump_above [OF assms(1)] by (fastforce simp: find_key_None)
  moreover have "mk_version (seal_record wrap v k) = v" for wrap v k by (simp add: seal_record_def)
  ultimately show ?thesis
    using open_material_seal [OF assms(2)]
    by (simp add: master_key_def add_master_def Let_def find_append)
qed

lemma add_master_wf:
  assumes "ring_wf km" and "versions_small km" and "length fresh = key_size"
  shows "ring_wf (add_master km fresh)"
proof -
  have "mk_version (seal_record wrap v k) = v" for wrap v k by (simp add: seal_record_def)
  moreover have "bump_version (km_ring km) \<notin> mk_version ` set (kr_keys (km_ring km))"
    using bump_above [OF assms(2)] by fastforce
  ultimately show ?thesis
    using assms(1) open_material_seal [OF assms(3)]
    by (auto simp: ring_wf_def add_master_def Let_def)
qed

lemma unwrap_add_master:
  "readable km r \<Longrightarrow> unwrap (add_master km fresh) r = unwrap km r"
  using add_master_keeps [of km "wr_by r" _ fresh]
  by (cases "master_key km (wr_by r)") (auto simp: readable_def unwrap_def)

section \<open>Files under a rotation\<close>

definition files_ok :: "key_manager \<Rightarrow> key_disk \<Rightarrow> bool" where
  "files_ok km disk \<longleftrightarrow> st_ok (kd_files disk) \<and> (\<forall>w rs. st_get (kd_files disk) w = Some rs \<longrightarrow> file_wf km w rs)"

definition same_keys :: "key_manager \<Rightarrow> key_disk \<Rightarrow> key_manager \<Rightarrow> key_disk \<Rightarrow> bool" where
  "same_keys km disk km' disk' \<longleftrightarrow> (\<forall>w v. workload_key km' disk' w v = workload_key km disk w v)"

lemma keys_ok_iff:
  "keys_ok km disk \<longleftrightarrow> ring_wf km \<and> files_ok km disk
     \<and> (\<exists>ring. kd_ring disk = Some ring \<and> ring_keys ring = ring_keys (km_ring km))"
  by (auto simp: keys_ok_def files_ok_def)

lemma load_records_wf:
  "files_ok km disk \<Longrightarrow> load_records disk w = (case st_get (kd_files disk) w of None \<Rightarrow> Inl NoWorkloadKey | Some rs \<Rightarrow> Inr rs)"
  by (cases "st_get (kd_files disk) w")
    (fastforce simp: load_records_def files_ok_def file_wf_def list_all_iff)+

lemma workload_key_wf:
  "files_ok km disk \<Longrightarrow> workload_key km disk w v =
     (case st_get (kd_files disk) w of
        None \<Rightarrow> Inl NoWorkloadKey
      | Some rs \<Rightarrow> (case find (\<lambda>r. wr_version r = v) rs of None \<Rightarrow> Inl NoWorkloadKey | Some r \<Rightarrow> unwrap km r))"
  by (simp add: workload_key_def load_records_wf split: option.splits)

definition rewrapped :: "key_manager \<Rightarrow> key \<Rightarrow> nat \<Rightarrow> wrapped_key_record \<Rightarrow> wrapped_key_record" where
  "rewrapped km m mv r = wrap_with m mv (wr_workload r) (wr_version r) (projr (unwrap km r))"

lemma rewrapped_sel [simp]:
  "wr_version (rewrapped km m mv r) = wr_version r" "wr_workload (rewrapped km m mv r) = wr_workload r"
  by (simp_all add: rewrapped_def wrap_with_def)

lemma unwrap_rewrapped:
  "readable km r \<Longrightarrow> master_key km mv = Some m \<Longrightarrow> unwrap km (rewrapped km m mv r) = unwrap km r"
  by (cases "unwrap km r") (simp_all add: rewrapped_def unwrap_wrap_with readable_def)

lemma rewrap_records_eq:
  "list_all (readable km) rs \<Longrightarrow> rewrap_records km m mv rs = Inr (map (rewrapped km m mv) rs)"
proof (induction rs)
  case (Cons r rs)
  then show ?case by (cases "unwrap km r") (simp_all add: readable_def rewrapped_def)
qed simp

lemma find_map_key: "(\<And>r. f (g r) = f r) \<Longrightarrow> find (\<lambda>r. f r = v) (map g rs) = map_option g (find (\<lambda>r. f r = v) rs)"
  by (induction rs) auto

lemma file_wf_rewrapped:
  assumes "file_wf km w rs" and "master_key km mv = Some m"
  shows "file_wf km w (map (rewrapped km m mv) rs)"
proof -
  have "readable km (rewrapped km m mv r)" if "readable km r" for r
    using that unwrap_rewrapped [OF that assms(2)] by (simp add: readable_def)
  with assms(1) show ?thesis by (auto simp: file_wf_def list_all_iff comp_def)
qed

lemma lookup_rewrapped:
  assumes "file_wf km w rs" and "master_key km mv = Some m"
  shows "(case find (\<lambda>r. wr_version r = v) (map (rewrapped km m mv) rs) of None \<Rightarrow> Inl NoWorkloadKey | Some r \<Rightarrow> unwrap km r)
       = (case find (\<lambda>r. wr_version r = v) rs of None \<Rightarrow> Inl NoWorkloadKey | Some r \<Rightarrow> unwrap km r)"
proof (cases "find (\<lambda>r. wr_version r = v) rs")
  case (Some r)
  then have "r \<in> set rs" by (auto simp: find_Some_iff)
  then have "readable km r" using assms(1) by (simp add: file_wf_def list_all_iff)
  with Some assms(2) show ?thesis by (simp add: find_map_key unwrap_rewrapped)
qed (simp add: find_map_key)

lemma rewrap_workload_file_keeps:
  assumes "files_ok km disk" and "rewrap_workload_file ok km w disk = (r, disk')"
  shows "files_ok km disk' \<and> same_keys km disk km disk' \<and> kd_ring disk' = kd_ring disk"
proof (cases "disk' = disk")
  case True
  with assms show ?thesis by (simp add: same_keys_def)
next
  case False
  then obtain rs m where rs: "st_get (kd_files disk) w = Some rs" and m: "master_key km (kr_active (km_ring km)) = Some m"
    using assms(2) by (auto simp: rewrap_workload_file_def Let_def split: option.splits)
  have wf: "file_wf km w rs" using assms(1) rs by (simp add: files_ok_def)
  then have "list_all (readable km) rs" by (simp add: file_wf_def list_all_iff)
  then have disk': "disk' = disk\<lparr>kd_files := st_put w (map (rewrapped km m (kr_active (km_ring km))) rs) (kd_files disk)\<rparr>"
    using assms(2) rs m False by (auto simp: rewrap_workload_file_def rewrap_records_eq split: if_splits)
  have ok: "files_ok km disk'"
    using assms(1) file_wf_rewrapped [OF wf m] by (simp add: files_ok_def disk')
  have "workload_key km disk' w' v = workload_key km disk w' v" for w' v
    using lookup_rewrapped [OF wf m, of v] rs
    unfolding workload_key_wf [OF ok] workload_key_wf [OF assms(1)] by (simp add: disk')
  with ok show ?thesis by (simp add: same_keys_def disk')
qed

lemma rewrap_files_keeps:
  assumes "files_ok km disk" and "rewrap_files ok km ws disk = (r, disk')"
  shows "files_ok km disk' \<and> same_keys km disk km disk' \<and> kd_ring disk' = kd_ring disk"
  using assms
proof (induction ws arbitrary: disk)
  case (Cons w ws)
  obtain r1 disk1 where one: "rewrap_workload_file (ok w) km w disk = (r1, disk1)" by fastforce
  note keep = rewrap_workload_file_keeps [OF Cons.prems(1) one]
  show ?case
  proof (cases r1)
    case Inl
    with Cons.prems one keep show ?thesis by auto
  next
    case Inr
    with Cons.prems one have "rewrap_files ok km ws disk1 = (r, disk')" by simp
    with Cons.IH [of disk1] keep show ?thesis by (simp add: same_keys_def)
  qed
qed (simp add: same_keys_def)

lemma files_ok_add_master:
  assumes "files_ok km disk" and "kd_files disk' = kd_files disk"
  shows "files_ok (add_master km fresh) disk' \<and> same_keys km disk (add_master km fresh) disk'"
proof -
  have "readable (add_master km fresh) r" if "readable km r" for r
    using that unwrap_add_master [OF that] by (simp add: readable_def)
  then have ok: "files_ok (add_master km fresh) disk'"
    using assms by (auto simp: files_ok_def file_wf_def list_all_iff)
  have "workload_key (add_master km fresh) disk' w v = workload_key km disk w v" for w v
  proof (cases "st_get (kd_files disk) w")
    case None
    with ok assms show ?thesis by (simp add: workload_key_wf)
  next
    case (Some rs)
    then have "file_wf km w rs" using assms(1) by (simp add: files_ok_def)
    then have "unwrap (add_master km fresh) r = unwrap km r" if "r \<in> set rs" for r
      using that by (simp add: unwrap_add_master file_wf_def list_all_iff)
    moreover have "r \<in> set rs" if "find (\<lambda>r. wr_version r = v) rs = Some r" for r
      using that by (auto simp: find_Some_iff)
    ultimately show ?thesis
      using ok assms Some by (cases "find (\<lambda>r. wr_version r = v) rs") (simp_all add: workload_key_wf)
  qed
  with ok show ?thesis by (simp add: same_keys_def)
qed

lemma workload_key_cong:
  assumes "\<And>x. unwrap km x = unwrap km' x" and "kd_files disk = kd_files disk'"
  shows "workload_key km disk w v = workload_key km' disk' w v"
  using assms by (simp add: workload_key_def load_records_def split: sum.split option.split)

text \<open>Opening again reads the same keys.\<close>

lemma reopen_same_keys:
  assumes "keys_ok km disk"
  obtains km' where "open_manager (km_wrap km) mint ok fresh disk = (Inr km', disk)" "same_keys km disk km' disk"
proof -
  obtain ring where ring: "kd_ring disk = Some ring" "ring_keys ring = ring_keys (km_ring km)"
    using assms by (auto simp: keys_ok_def)
  let ?km = "\<lparr>km_ring = ring, km_wrap = km_wrap km\<rparr>"
  have wf: "ring_wf km" and files: "files_ok km disk" using assms by (simp_all add: keys_ok_iff)
  have maps: "map (\<lambda>r. (mk_version r, mk_material r)) (kr_keys ring) = map (\<lambda>r. (mk_version r, mk_material r)) (kr_keys (km_ring km))"
    using ring(2) by (simp add: ring_keys_def)
  have "kr_keys ring \<noteq> []" using wf maps by (auto simp: ring_wf_def)
  moreover have "\<not> sealed_material (mk_material r)" if "km_wrap km = None" "r \<in> set (kr_keys ring)" for r
  proof -
    have "(mk_version r, mk_material r) \<in> set (map (\<lambda>r. (mk_version r, mk_material r)) (kr_keys (km_ring km)))"
      using that(2) by (simp flip: maps)
    then obtain r' where "r' \<in> set (kr_keys (km_ring km))" "mk_material r' = mk_material r" by auto
    then have "open_material None (mk_version r') (mk_material r) \<noteq> None" using wf that(1) unfolding ring_wf_def by fastforce
    then show ?thesis by (cases "mk_material r") auto
  qed
  ultimately have "open_manager (km_wrap km) mint ok fresh disk = (Inr ?km, disk)"
    using ring(1) by (auto simp: open_manager_def check_ring_def)
  moreover have "same_keys km disk ?km disk"
  proof -
    have "unwrap ?km r = unwrap km r" for r by (rule unwrap_cong) (simp add: master_key_map ring(2) split: option.split)
    then show ?thesis using workload_key_cong [of ?km km disk disk] by (simp add: same_keys_def)
  qed
  ultimately show thesis by (rule that)
qed

lemma ring_wf_keys:
  "ring_wf km \<longleftrightarrow> (let (a, keys) = ring_keys (km_ring km) in
     distinct (map fst keys) \<and> a \<in> fst ` set keys \<and> (\<forall>p \<in> set keys. open_material (km_wrap km) (fst p) (snd p) \<noteq> None))"
  by (auto simp: ring_wf_def ring_keys_def comp_def image_image)

lemma rotation_files:
  assumes "keys_ok km disk" and "versions_small km" and "length fresh = key_size"
    and "rewrap_files f (add_master km fresh) ws (disk\<lparr>kd_ring := Some (km_ring (add_master km fresh))\<rparr>) = (q, d)"
  shows "keys_ok (add_master km fresh) d \<and> same_keys km disk (add_master km fresh) d"
proof -
  let ?km = "add_master km fresh" and ?disk = "disk\<lparr>kd_ring := Some (km_ring (add_master km fresh))\<rparr>"
  have wf: "ring_wf ?km" using add_master_wf assms(1-3) by (simp add: keys_ok_iff)
  have base: "files_ok ?km ?disk \<and> same_keys km disk ?km ?disk"
    using assms(1) by (intro files_ok_add_master) (simp_all add: keys_ok_iff)
  show ?thesis
    using rewrap_files_keeps [OF conjunct1 [OF base] assms(4)] wf base by (auto simp: keys_ok_iff same_keys_def)
qed

lemma rotation_keeps_all:
  assumes "keys_ok km disk" and "versions_small km" and "length fresh = key_size"
    and "rotate_master_key True file_ok retire_ok fresh order km disk = (r, km', disk')"
  shows "keys_ok km' disk' \<and> same_keys km disk km' disk' \<and> km_wrap km' = km_wrap km"
proof -
  let ?km = "add_master km fresh" and ?disk = "disk\<lparr>kd_ring := Some (km_ring (add_master km fresh))\<rparr>"
  have wf: "ring_wf ?km" using add_master_wf assms(1-3) by (simp add: keys_ok_iff)
  have wrap: "km_wrap ?km = km_wrap km" by (simp add: add_master_def Let_def)
  obtain q d where run: "rewrap_files file_ok ?km order ?disk = (q, d)" by fastforce
  note mid = rotation_files [OF assms(1-3) run]
  show ?thesis
  proof (cases q)
    case Inl
    with assms(4) run mid wrap show ?thesis by (auto simp: rotate_master_key_def Let_def)
  next
    case (Inr u)
    let ?km2 = "?km\<lparr>km_ring := retire_others (bump_version (km_ring km)) (km_ring ?km)\<rparr>"
    have mk: "master_key ?km2 v = master_key ?km v" for v by (simp add: master_key_map split: option.split)
    then have uw: "unwrap ?km2 x = unwrap ?km x" for x by (simp add: unwrap_def split: option.split)
    have ring: "ring_wf ?km2" using wf by (simp add: ring_wf_keys)
    have same: "same_keys km disk ?km2 e" if "kd_files e = kd_files d" for e
      using mid workload_key_cong [OF uw that] by (simp add: same_keys_def)
    have ok: "keys_ok ?km2 e" if "kd_files e = kd_files d" "kd_ring e = Some (km_ring ?km2) \<or> e = d" for e
      using mid uw ring that
      by (auto simp: keys_ok_def file_wf_def readable_def)
    show ?thesis using assms(4) run Inr same ok wrap by (auto simp: rotate_master_key_def Let_def split: if_splits)
  qed
qed

section \<open>Properties\<close>

text \<open>
  C20.  A rotation of the master key loses no workload key, wherever it stops.  Once the new keyring is
  written, whichever of the later writes fail, and also when the process dies after any number of the
  workload files, every workload key reads the same as before, in the running manager and in one that
  opens the directory again.
\<close>

theorem rotation_keeps_workload_keys:
  assumes "keys_ok km disk" and "versions_small km" and "length fresh = key_size"
    and "rotate_master_key True file_ok retire_ok fresh order km disk = (r, km', disk')"
  shows "keys_ok km' disk' \<and> same_keys km disk km' disk'
    \<and> (\<exists>km''. open_manager (km_wrap km) mint ok k disk' = (Inr km'', disk') \<and> same_keys km disk km'' disk')
    \<and> (\<exists>km''. open_manager (km_wrap km) mint ok k (rotate_crash n fresh order km disk)
               = (Inr km'', rotate_crash n fresh order km disk)
           \<and> same_keys km disk km'' (rotate_crash n fresh order km disk))"
proof -
  let ?km = "add_master km fresh"
  note final = rotation_keeps_all [OF assms]
  have wrap: "km_wrap ?km = km_wrap km" by (simp add: add_master_def Let_def)
  obtain c d' where crash: "rewrap_files (\<lambda>w. True) ?km (take n order) (disk\<lparr>kd_ring := Some (km_ring ?km)\<rparr>) = (c, d')" by fastforce
  have crash': "rotate_crash n fresh order km disk = d'" by (simp add: rotate_crash_def Let_def crash)
  obtain km1 where one: "open_manager (km_wrap km) mint ok k disk' = (Inr km1, disk')" "same_keys km' disk' km1 disk'"
    using reopen_same_keys [of km' disk' mint ok k] final by auto
  obtain km2 where two: "open_manager (km_wrap km) mint ok k d' = (Inr km2, d')" "same_keys ?km d' km2 d'"
    using reopen_same_keys [of ?km d' mint ok k] rotation_files [OF assms(1-3) crash] wrap by auto
  show ?thesis using final one two rotation_files [OF assms(1-3) crash] unfolding crash' by (auto simp: same_keys_def)
qed

text \<open>
  A rotation whose first write fails leaves the new master key active in memory only.  A workload
  key created after that is acknowledged and wrapped under a master key that is nowhere on disk: once
  the agent opens the directory again, that key, and with it every checkpoint of the workload, cannot
  be read any more.
\<close>

theorem failed_rotation_loses_new_keys:
  assumes "keys_ok km disk" and "versions_small km" and "length fresh = key_size"
    and "rotate_master_key False file_ok retire_ok fresh order km disk = (r, km1, disk1)"
    and "st_get (kd_files disk) w = None"
    and "get_or_create_workload_key True k km1 w disk1 = (r', disk2)"
    and "open_manager (km_wrap km) mint ok k' disk2 = (Inr km2, disk2)"
  shows "r = Inl KeyWrite \<and> r' = Inr (1, k) \<and> workload_key km1 disk2 w 1 = Inr k
    \<and> workload_key km2 disk2 w 1 = Inl NoMasterKey"
proof -
  let ?nv = "bump_version (km_ring km)"
  have km1: "km1 = add_master km fresh" "disk1 = disk" "r = Inl KeyWrite"
    using assms(4) by (simp_all add: rotate_master_key_def Let_def)
  have active: "kr_active (km_ring km1) = ?nv" by (simp add: km1 add_master_def Let_def)
  have m: "master_key km1 ?nv = Some fresh" using add_master_active assms(2,3) by (simp add: km1)
  have create: "r' = Inr (1, k)"
    "disk2 = disk\<lparr>kd_files := st_put w [wrap_with fresh ?nv w 1 k] (kd_files disk)\<rparr>"
    using assms(5,6) m
    by (simp_all add: get_or_create_workload_key_def records_or_none_def load_records_def
        store_workload_key_def km1(2) active Let_def)
  have now: "workload_key km1 disk2 w 1 = Inr k"
    using m unwrap_wrap_with [OF m, of w 1 k]
    by (simp add: create workload_key_def load_records_def) (simp add: wrap_with_def)
  obtain ring where ring: "kd_ring disk = Some ring" "ring_keys ring = ring_keys (km_ring km)"
    using assms(1) by (auto simp: keys_ok_def)
  have km2: "km2 = \<lparr>km_ring = ring, km_wrap = km_wrap km\<rparr>"
    using assms(7) ring(1) by (auto simp: create open_manager_def check_ring_def split: if_splits)
  have "find (\<lambda>r. mk_version r = ?nv) (kr_keys (km_ring km)) = None"
    using bump_above [OF assms(2)] by (fastforce simp: find_key_None)
  then have "map_of (snd (ring_keys ring)) ?nv = None"
    unfolding ring(2) by (simp add: ring_keys_def find_ring_None)
  then have "master_key km2 ?nv = None" by (simp add: master_key_map km2)
  then have "workload_key km2 disk2 w 1 = Inl NoMasterKey"
    by (simp add: create workload_key_def load_records_def unwrap_def wrap_with_def)
  with km1(3) create(1) now show ?thesis by simp
qed


section \<open>Sequences of operations\<close>

datatype key_op = GetOrCreate bool key string | ImportKey bool string nat key | RotateWorkload bool key string
  | RotateMaster "string \<Rightarrow> bool" bool key "string list"

text \<open>One operation, with the workload key it acknowledges.\<close>

fun key_exec :: "key_op \<Rightarrow> key_manager \<times> key_disk \<Rightarrow> (string \<times> nat \<times> key) option \<times> key_manager \<times> key_disk" where
  "key_exec (GetOrCreate ok fresh w) (km, disk) =
     (case get_or_create_workload_key ok fresh km w disk of
        (Inl e, disk') \<Rightarrow> (None, km, disk') | (Inr (v, k), disk') \<Rightarrow> (Some (w, v, k), km, disk'))"
| "key_exec (ImportKey ok w v k) (km, disk) =
     (case import_workload_key ok km w v k disk of
        (Inl e, disk') \<Rightarrow> (None, km, disk') | (Inr _, disk') \<Rightarrow> (Some (w, v, k), km, disk'))"
| "key_exec (RotateWorkload ok fresh w) (km, disk) =
     (case rotate_workload_key ok fresh km w disk of
        (Inl e, disk') \<Rightarrow> (None, km, disk') | (Inr (v, k), disk') \<Rightarrow> (Some (w, v, k), km, disk'))"
| "key_exec (RotateMaster file_ok retire_ok fresh order) (km, disk) =
     (case rotate_master_key True file_ok retire_ok fresh order km disk of (r, km', disk') \<Rightarrow> (None, km', disk'))"

text \<open>No version counter wraps around, and random keys have the key size.\<close>

fun key_op_ok :: "key_op \<Rightarrow> key_manager \<times> key_disk \<Rightarrow> bool" where
  "key_op_ok (GetOrCreate ok fresh w) st = True"
| "key_op_ok (ImportKey ok w v k) st = True"
| "key_op_ok (RotateWorkload ok fresh w) (km, disk) =
     (case st_get (kd_files disk) w of None \<Rightarrow> True | Some rs \<Rightarrow> list_all (\<lambda>r. wr_version r < 2 ^ 32 - 1) rs)"
| "key_op_ok (RotateMaster file_ok retire_ok fresh order) (km, disk) = (versions_small km \<and> length fresh = key_size)"

fun key_run :: "key_op list \<Rightarrow> key_manager \<times> key_disk \<Rightarrow> ((string \<times> nat \<times> key) list \<times> key_manager \<times> key_disk) option" where
  "key_run [] st = Some ([], st)"
| "key_run (x # xs) st =
     (if \<not> key_op_ok x st then None
      else case key_exec x st of
        (ack, st') \<Rightarrow> map_option (\<lambda>(acks, st''). (case ack of None \<Rightarrow> acks | Some a \<Rightarrow> a # acks, st'')) (key_run xs st'))"

text \<open>Every key that could be read still reads the same.\<close>

definition keeps_keys :: "key_manager \<Rightarrow> key_disk \<Rightarrow> key_manager \<Rightarrow> key_disk \<Rightarrow> bool" where
  "keeps_keys km disk km' disk' \<longleftrightarrow> (\<forall>w v k. workload_key km disk w v = Inr k \<longrightarrow> workload_key km' disk' w v = Inr k)"

lemma keeps_keys_refl [simp]: "keeps_keys km disk km disk"
  by (simp add: keeps_keys_def)

lemma same_keeps: "same_keys km disk km' disk' \<Longrightarrow> keeps_keys km disk km' disk'"
  by (simp add: same_keys_def keeps_keys_def)

lemma file_wf_distinct: "file_wf km w rs \<Longrightarrow> distinct (map wr_version rs)"
  by (simp add: file_wf_def strict_sorted_iff)

lemma records_or_none_wf:
  "files_ok km disk \<Longrightarrow> records_or_none disk w = Inr (case st_get (kd_files disk) w of None \<Rightarrow> [] | Some rs \<Rightarrow> rs)"
  by (simp add: records_or_none_def load_records_wf split: option.splits)

lemma file_wf_insert:
  assumes "file_wf km w rs" and "v \<notin> wr_version ` set rs" and "master_key km mv = Some m"
  shows "file_wf km w (sort_key wr_version (rs @ [wrap_with m mv w v k]))"
proof -
  have sel: "wr_version (wrap_with m mv w v k) = v" "wr_workload (wrap_with m mv w v k) = w"
    by (simp_all add: wrap_with_def)
  have "distinct (map wr_version (rs @ [wrap_with m mv w v k]))"
    using file_wf_distinct [OF assms(1)] assms(2) by (simp add: sel)
  then have "distinct (map wr_version (sort_key wr_version (rs @ [wrap_with m mv w v k])))"
    by (metis distinct_map distinct_sort set_sort)
  moreover have "readable km (wrap_with m mv w v k)"
    by (simp add: readable_def unwrap_wrap_with [OF assms(3)])
  ultimately show ?thesis
    using assms(1) by (auto simp: file_wf_def strict_sorted_iff list_all_iff sel)
qed

lemma store_workload_key_keeps:
  assumes "keys_ok km disk" and "rs = (case st_get (kd_files disk) w of None \<Rightarrow> [] | Some rs \<Rightarrow> rs)"
    and "v \<notin> wr_version ` set rs" and "store_workload_key ok km w v k rs disk = (r, disk')"
  shows "keys_ok km disk' \<and> keeps_keys km disk km disk' \<and> (r = Inr () \<longrightarrow> workload_key km disk' w v = Inr k)"
proof (cases r)
  case (Inl e)
  with assms show ?thesis by (auto simp: store_workload_key_def Let_def split: option.splits if_splits)
next
  case (Inr u)
  let ?mv = "kr_active (km_ring km)"
  have files: "files_ok km disk" using assms(1) by (simp add: keys_ok_iff)
  have wf: "file_wf km w rs"
    using files assms(2) by (auto simp: files_ok_def file_wf_def split: option.splits)
  obtain m where m: "master_key km ?mv = Some m" using Inr assms(4) by (auto simp: store_workload_key_def Let_def split: option.splits)
  let ?x = "wrap_with m ?mv w v k"
  let ?rs = "sort_key wr_version (rs @ [?x])"
  have disk': "disk' = disk\<lparr>kd_files := st_put w ?rs (kd_files disk)\<rparr>"
    using Inr assms(4) m by (auto simp: store_workload_key_def Let_def split: if_splits)
  have wf': "file_wf km w ?rs" by (rule file_wf_insert [OF wf assms(3) m])
  have files': "files_ok km disk'" using files wf' by (simp add: files_ok_def disk')
  have ok: "keys_ok km disk'" using assms(1) files' by (simp add: keys_ok_iff disk')
  have fnd: "find (\<lambda>r. wr_version r = v') ?rs = Some y" if "y \<in> set ?rs" "wr_version y = v'" for y v'
    using that file_wf_distinct [OF wf'] by (simp only: find_key_iff)
  have "workload_key km disk' w' v' = Inr k'" if old: "workload_key km disk w' v' = Inr k'" for w' v' k'
  proof (cases "w' = w")
    case True
    with old obtain rs0 where rs0: "st_get (kd_files disk) w = Some rs0"
      by (cases "st_get (kd_files disk) w") (simp_all add: workload_key_wf [OF files])
    then have rs: "st_get (kd_files disk) w = Some rs" by (simp add: assms(2))
    with old True obtain y where y: "find (\<lambda>r. wr_version r = v') rs = Some y" "unwrap km y = Inr k'"
      by (cases "find (\<lambda>r. wr_version r = v') rs") (simp_all add: workload_key_wf [OF files])
    then have "y \<in> set rs" "wr_version y = v'" by (auto simp: find_Some_iff)
    then show ?thesis using fnd [of y v'] y True unfolding workload_key_wf [OF files'] by (simp add: disk')
  next
    case False
    with old show ?thesis unfolding workload_key_wf [OF files'] workload_key_wf [OF files] by (simp add: disk')
  qed
  moreover have "workload_key km disk' w v = Inr k"
    using fnd [of ?x v] unwrap_wrap_with [OF m, of w v k]
    unfolding workload_key_wf [OF files'] by (simp add: disk') (simp add: wrap_with_def)
  ultimately show ?thesis using ok by (simp add: keeps_keys_def)
qed

lemma key_exec_keeps:
  assumes "keys_ok km disk" and "key_op_ok x (km, disk)" and "key_exec x (km, disk) = (ack, km', disk')"
  shows "keys_ok km' disk' \<and> keeps_keys km disk km' disk' \<and> km_wrap km' = km_wrap km
    \<and> (case ack of None \<Rightarrow> True | Some (w, v, k) \<Rightarrow> workload_key km' disk' w v = Inr k)"
proof -
  have files: "files_ok km disk" using assms(1) by (simp add: keys_ok_iff)
  have stored: "keys_ok km d \<and> keeps_keys km disk km d \<and> (r = Inr () \<longrightarrow> workload_key km d w v = Inr k)"
    if "v \<notin> wr_version ` set (case st_get (kd_files disk) w of None \<Rightarrow> [] | Some rs \<Rightarrow> rs)"
      "store_workload_key ok km w v k (case st_get (kd_files disk) w of None \<Rightarrow> [] | Some rs \<Rightarrow> rs) disk = (r, d)" for ok w v k r d
    using store_workload_key_keeps [OF assms(1) refl that] .
  have last_key: "workload_key km disk w (wr_version (last rs)) = unwrap km (last rs)"
    if "st_get (kd_files disk) w = Some rs" "rs \<noteq> []" for w rs
  proof -
    have "file_wf km w rs" using files that by (simp add: files_ok_def)
    then have "find (\<lambda>r. wr_version r = wr_version (last rs)) rs = Some (last rs)"
      using file_wf_distinct that(2) by (simp add: find_key_iff)
    with that show ?thesis by (simp add: workload_key_wf [OF files])
  qed
  show ?thesis
  proof (cases x)
    case (GetOrCreate ok fresh w)
    show ?thesis
    proof (cases "st_get (kd_files disk) w = None \<or> st_get (kd_files disk) w = Some []")
      case True
      obtain r d where st: "store_workload_key ok km w 1 fresh [] disk = (r, d)" by fastforce
      have "(case st_get (kd_files disk) w of None \<Rightarrow> [] | Some rs \<Rightarrow> rs) = []" using True by auto
      with stored [of 1 w ok fresh r d] st True GetOrCreate assms(3) files show ?thesis
        by (auto simp: get_or_create_workload_key_def records_or_none_wf split: sum.splits)
    next
      case False
      then obtain rs where "st_get (kd_files disk) w = Some rs" "rs \<noteq> []" by auto
      with GetOrCreate assms files last_key show ?thesis
        by (auto simp: get_or_create_workload_key_def records_or_none_wf split: sum.splits)
    qed
  next
    case (ImportKey ok w v k)
    let ?rs = "case st_get (kd_files disk) w of None \<Rightarrow> [] | Some rs \<Rightarrow> rs"
    show ?thesis
    proof (cases "find (\<lambda>r. wr_version r = v) ?rs")
      case None
      then have "v \<notin> wr_version ` set ?rs" by (simp add: find_key_None)
      with stored [of v w ok k] None ImportKey assms files show ?thesis
        by (auto simp: import_workload_key_def records_or_none_wf split: sum.splits if_splits prod.splits)
    next
      case (Some y)
      then have "workload_key km disk w v = unwrap km y"
        by (auto simp: workload_key_wf [OF files] split: option.splits)
      with Some ImportKey assms files show ?thesis
        by (auto simp: import_workload_key_def records_or_none_wf split: sum.splits if_splits)
    qed
  next
    case (RotateWorkload ok fresh w)
    let ?rs = "case st_get (kd_files disk) w of None \<Rightarrow> [] | Some rs \<Rightarrow> rs"
    let ?v = "if ?rs = [] then 1 else next_version (wr_version (last ?rs))"
    have "?v \<notin> wr_version ` set ?rs"
    proof (cases "?rs = []")
      case False
      then obtain rs where rs: "st_get (kd_files disk) w = Some rs" "rs \<noteq> []" by (auto split: option.splits)
      have sorted: "sorted (map wr_version rs)"
        using files rs by (auto simp: files_ok_def file_wf_def strict_sorted_iff)
      have "wr_version (last rs) < 2 ^ 32 - 1" using RotateWorkload assms(2) rs by (auto simp: list_all_iff)
      then have nv: "next_version (wr_version (last rs)) = wr_version (last rs) + 1" by (simp add: next_version_def)
      have "wr_version y \<le> wr_version (last rs)" if "y \<in> set rs" for y
      proof -
        obtain i where "i < length rs" "y = rs ! i" using \<open>y \<in> set rs\<close> by (auto simp: in_set_conv_nth)
        then show ?thesis using sorted rs(2) sorted_nth_mono [OF sorted, of i "length rs - 1"] by (simp add: last_conv_nth)
      qed
      with rs nv show ?thesis by fastforce
    qed simp
    with stored [of ?v w ok fresh] RotateWorkload assms(3) files show ?thesis
      by (auto simp: rotate_workload_key_def records_or_none_wf Let_def split: sum.splits prod.splits)
  next
    case (RotateMaster file_ok retire_ok fresh order)
    then have r: "rotate_master_key True file_ok retire_ok fresh order km disk = (fst (rotate_master_key True file_ok retire_ok fresh order km disk), km', disk')" "ack = None"
      using assms(3) by (auto split: prod.splits)
    have "km_wrap km' = km_wrap km"
      using r(1) by (auto simp: rotate_master_key_def add_master_def Let_def split: prod.splits sum.splits if_splits)
    with r rotation_keeps_all [OF assms(1) _ _ r(1)] RotateMaster assms(2) same_keeps show ?thesis by simp
  qed
qed



section \<open>A small key store\<close>

definition sample_master :: key where
  "sample_master = replicate 32 CHR ''m''"

definition sample_data_key :: key where
  "sample_data_key = replicate 32 CHR ''d''"

definition sample_km :: key_manager where
  "sample_km = \<lparr>km_ring = \<lparr>kr_active = 1, kr_keys = [seal_record None 1 sample_master]\<rparr>, km_wrap = None\<rparr>"

definition sample_key_disk :: key_disk where
  "sample_key_disk = \<lparr>kd_ring = Some (km_ring sample_km),
     kd_files = [(''w'', [wrap_with sample_master 1 ''w'' 1 sample_data_key])]\<rparr>"

lemma sample_keys_ok: "keys_ok sample_km sample_key_disk"
proof -
  have "unwrap sample_km (wrap_with sample_master 1 ''w'' 1 sample_data_key) = Inr sample_data_key" by code_simp
  moreover have "ring_wf sample_km"
    by (simp add: ring_wf_def sample_km_def seal_record_def sample_master_def key_size_def)
  ultimately show ?thesis
    by (auto simp: keys_ok_def sample_key_disk_def st_ok_def st_get_def file_wf_def readable_def wrap_with_def)
qed

lemma sample_small: "versions_small sample_km"
  by (simp add: versions_small_def sample_km_def seal_record_def)

definition sample_rotation :: "(key_error, nat) outcome \<times> key_manager \<times> key_disk" where
  "sample_rotation = rotate_master_key True (\<lambda>w. False) True (replicate 32 CHR ''n'') [''w''] sample_km sample_key_disk"

theorem rotation_keeps_workload_keys_witness:
  "workload_key (fst (snd sample_rotation)) (snd (snd sample_rotation)) ''w'' 1 = Inr sample_data_key"
proof -
  have "same_keys sample_km sample_key_disk (fst (snd sample_rotation)) (snd (snd sample_rotation))"
    using rotation_keeps_workload_keys [OF sample_keys_ok sample_small, of "replicate 32 CHR ''n''" "\<lambda>w. False" True "[''w'']"
        "fst sample_rotation" "fst (snd sample_rotation)" "snd (snd sample_rotation)"]
    by (simp add: sample_rotation_def key_size_def)
  moreover have "workload_key sample_km sample_key_disk ''w'' 1 = Inr sample_data_key" by code_simp
  ultimately show ?thesis by (simp add: same_keys_def)
qed

definition sample_failed_km :: key_manager where
  "sample_failed_km = \<lparr>km_ring = \<lparr>kr_active = 2,
      kr_keys = [seal_record None 1 sample_master, seal_record None 2 (replicate 32 CHR ''n'')]\<rparr>, km_wrap = None\<rparr>"

lemma sample_add_master: "add_master sample_km (replicate 32 CHR ''n'') = sample_failed_km"
  by (simp add: add_master_def sample_km_def sample_failed_km_def bump_version_def seal_record_def next_version_def)

definition sample_lost_disk :: key_disk where
  "sample_lost_disk = snd (get_or_create_workload_key True sample_data_key sample_failed_km ''x'' sample_key_disk)"

theorem failed_rotation_loses_new_keys_witness:
  "workload_key sample_failed_km sample_lost_disk ''x'' 1 = Inr sample_data_key
   \<and> workload_key sample_km sample_lost_disk ''x'' 1 = Inl NoMasterKey"
proof -
  have "rotate_master_key False (\<lambda>w. True) True (replicate 32 CHR ''n'') [] sample_km sample_key_disk
      = (Inl KeyWrite, sample_failed_km, sample_key_disk)"
    by (simp add: rotate_master_key_def sample_add_master Let_def)
  moreover have "open_manager (km_wrap sample_km) True True [] sample_lost_disk = (Inr sample_km, sample_lost_disk)" by code_simp
  moreover have "st_get (kd_files sample_key_disk) ''x'' = None" by code_simp
  ultimately show ?thesis
    using failed_rotation_loses_new_keys [OF sample_keys_ok sample_small, of "replicate 32 CHR ''n''" "\<lambda>w. True" True "[]"
        "Inl KeyWrite" sample_failed_km sample_key_disk "''x''" sample_data_key
        "fst (get_or_create_workload_key True sample_data_key sample_failed_km ''x'' sample_key_disk)" sample_lost_disk
        True True "[]" sample_km]
    by (simp add: key_size_def sample_lost_disk_def)
qed

definition sample_key_ops :: "key_op list" where
  "sample_key_ops = [GetOrCreate True sample_data_key ''x'', ImportKey False ''y'' 3 sample_data_key,
     ImportKey True ''x'' 2 (replicate 32 CHR ''r''), GetOrCreate False [] ''w'']"

definition sample_key_end :: "key_manager \<times> key_disk" where
  "sample_key_end = snd (the (key_run sample_key_ops (sample_km, sample_key_disk)))"


end
