(* ===== verification/Chunk_Store.thy ===== *)
theory Chunk_Store
  imports Workload_Keys "HOL-Library.Sublist"
begin

text \<open>
  \<^verbatim>\<open>src/internal/chunkstore/store.go\<close>: the content-addressed store of encrypted chunks.  The framing of a
  chunk is modelled byte by byte; the cipher, the digests and the compressors are the parameter
  \<open>codec\<close>, whose laws are the named hypothesis \<open>codec_laws\<close>.  Nonces, the success of file
  operations and what a concurrent writer left at the path are arguments.
\<close>

section \<open>Data\<close>

type_synonym bytes = string

record chunk_ref =
  cr_address :: string
  cr_key_version :: nat
  cr_plain_size :: int
  cr_stored_size :: int
  cr_cipher_sha :: string
  cr_plain_sha :: string
  cr_sequence :: int
  cr_compression :: string

record asset_manifest =
  am_name :: string
  am_plain_size :: int
  am_stored_size :: int
  am_sha :: string
  am_chunks :: "chunk_ref list"

record codec =
  cx_mac :: "key \<Rightarrow> string \<Rightarrow> bytes \<Rightarrow> string"
  cx_sha :: "bytes \<Rightarrow> string"
  cx_seal :: "key \<Rightarrow> string \<Rightarrow> bytes \<Rightarrow> bytes \<Rightarrow> bytes \<Rightarrow> bytes"
  cx_open :: "key \<Rightarrow> string \<Rightarrow> bytes \<Rightarrow> bytes \<Rightarrow> bytes \<Rightarrow> bytes option"
  cx_zstd :: "bytes \<Rightarrow> bytes"
  cx_unzstd :: "bytes \<Rightarrow> bytes option"
  cx_gunzip :: "bytes \<Rightarrow> bytes option"

text \<open>A chunk file is named by key version and address.\<close>

type_synonym chunk_path = "nat \<times> string"

record chunk_store =
  cs_chunk_size :: nat
  cs_files :: "chunk_path \<Rightarrow> bytes option"
  cs_km :: key_manager
  cs_keys :: key_disk

datatype chunk_error = AssetFields | ChunkKey key_error | ReadFailed | ChunkAddress | EncodingLimit | StatFailed
  | CollisionOrCorrupt | WriteFailed | PlainSizeRange | StoredSizeRange | NoChunkFile | EncodedSize | CipherDigest
  | ChunkMagic | ChunkFormat | ChunkTruncated | ChunkLengths | HeaderMismatch | OpenFailed | DecompressFailed
  | PlainDigest | AddressMismatch | SequenceGap | SizeMismatch | DigestMismatch | UploadSize | UploadDigest

definition max_encoded_chunk :: int where
  "max_encoded_chunk = 96 * 2 ^ 20"

definition max_plain_chunk :: int where
  "max_plain_chunk = 64 * 2 ^ 20"

definition size_of :: "bytes \<Rightarrow> int" where
  "size_of b = int (length b)"

section \<open>Framing\<close>

text \<open>Big-endian integers, as \<open>binary.Write\<close> and \<open>binary.Read\<close> lay them out.\<close>

fun be :: "nat \<Rightarrow> int \<Rightarrow> bytes" where
  "be 0 x = []"
| "be (Suc n) x = be n (x div 256) @ [char_of (x mod 256)]"

definition un_be :: "bytes \<Rightarrow> int" where
  "un_be bs = foldl (\<lambda>a c. a * 256 + of_char c) 0 bs"

definition chunk_magic :: bytes where
  "chunk_magic = ''SHFTCHK1''"

definition encode_chunk :: "nat \<Rightarrow> int \<Rightarrow> bytes \<Rightarrow> bytes \<Rightarrow> bytes option" where
  "encode_chunk kv plain_size nonce ciphertext =
     (if length nonce > 255 \<or> size_of ciphertext > max_encoded_chunk then None
      else Some (chunk_magic @ be 2 1 @ be 4 (int kv) @ be 8 plain_size @ be 2 (size_of nonce)
                 @ be 8 (size_of ciphertext) @ nonce @ ciphertext))"

definition read_n :: "nat \<Rightarrow> bytes \<Rightarrow> (bytes \<times> bytes) option" where
  "read_n n b = (if length b < n then None else Some (take n b, drop n b))"

definition decode_chunk :: "bytes \<Rightarrow> (chunk_error, nat \<times> int \<times> bytes \<times> bytes) outcome" where
  "decode_chunk encoded =
     (case read_n 8 encoded of None \<Rightarrow> Inl ChunkMagic | Some (m, b1) \<Rightarrow>
      if m \<noteq> chunk_magic then Inl ChunkMagic
      else case read_n 2 b1 of None \<Rightarrow> Inl ChunkFormat | Some (f, b2) \<Rightarrow>
      if un_be f \<noteq> 1 then Inl ChunkFormat
      else case read_n 4 b2 of None \<Rightarrow> Inl ChunkTruncated | Some (kv, b3) \<Rightarrow>
     (case read_n 8 b3 of None \<Rightarrow> Inl ChunkTruncated | Some (ps, b4) \<Rightarrow>
      let plain_size = i64 (un_be ps) in
      if plain_size < 1 \<or> plain_size > max_plain_chunk then Inl PlainSizeRange
      else case read_n 2 b4 of None \<Rightarrow> Inl ChunkTruncated | Some (nl, b5) \<Rightarrow>
     (case read_n 8 b5 of None \<Rightarrow> Inl ChunkTruncated | Some (cl, b6) \<Rightarrow>
      if un_be nl = 0 \<or> un_be cl > max_encoded_chunk \<or> size_of b6 \<noteq> un_be nl + un_be cl then Inl ChunkLengths
      else Inr (nat (un_be kv), plain_size, take (nat (un_be nl)) b6, drop (nat (un_be nl)) b6))))"

section \<open>Compression, addresses, encryption\<close>

definition zstd_frame_magic :: bytes where
  "zstd_frame_magic = [CHR 0x28, CHR 0xb5, CHR 0x2f, CHR 0xfd]"

definition gzip_frame_magic :: bytes where
  "gzip_frame_magic = [CHR 0x1f, CHR 0x8b]"

definition decompress :: "codec \<Rightarrow> bytes \<Rightarrow> int \<Rightarrow> (chunk_error, bytes \<times> string) outcome" where
  "decompress cx b expected =
     (if expected < 1 \<or> expected > max_plain_chunk then Inl PlainSizeRange
      else if prefix zstd_frame_magic b
      then (case cx_unzstd cx b of
              None \<Rightarrow> Inl DecompressFailed
            | Some p \<Rightarrow> if size_of p \<noteq> expected then Inl DecompressFailed else Inr (p, ''zstd''))
      else if prefix gzip_frame_magic b
      then (case cx_gunzip cx b of
              None \<Rightarrow> Inl DecompressFailed
            | Some s \<Rightarrow> let p = take (nat (expected + 1)) s in
                        if size_of p \<noteq> expected then Inl DecompressFailed else Inr (p, ''gzip''))
      else Inl DecompressFailed)"

fun show_nat :: "nat \<Rightarrow> string" where
  "show_nat n = (if n < 10 then [char_of (48 + n)] else show_nat (n div 10) @ [char_of (48 + n mod 10)])"

declare show_nat.simps [simp del]

definition show_int :: "int \<Rightarrow> string" where
  "show_int x = (if x < 0 then CHR ''-'' # show_nat (nat (- x)) else show_nat (nat x))"

definition newline :: char where
  "newline = CHR 0x0A"

definition chunk_aad :: "string \<Rightarrow> string \<Rightarrow> nat \<Rightarrow> int \<Rightarrow> bytes" where
  "chunk_aad w address kv plain_size =
     ''shift-checkpoint-chunk-v1'' @ [newline] @ w @ [newline] @ address @ [newline] @ show_nat kv @ [newline] @ show_int plain_size"

definition nonce_size :: nat where
  "nonce_size = 12"

definition address_of :: "codec \<Rightarrow> key \<Rightarrow> string \<Rightarrow> bytes \<Rightarrow> string option" where
  "address_of cx k w p = (if length k \<noteq> key_size then None else Some (cx_mac cx k w p))"

definition decrypt :: "codec \<Rightarrow> key \<Rightarrow> string \<Rightarrow> bytes \<Rightarrow> bytes \<Rightarrow> bytes \<Rightarrow> bytes option" where
  "decrypt cx k w nonce ct aad =
     (if length k \<noteq> key_size \<or> length nonce \<noteq> nonce_size then None else cx_open cx k w nonce ct aad)"

definition valid_address :: "string \<Rightarrow> bool" where
  "valid_address a \<longleftrightarrow> length a = 64 \<and> list_all (\<lambda>c. c \<in> set ''0123456789abcdef'') a"

definition chunk_path_of :: "chunk_ref \<Rightarrow> chunk_path option" where
  "chunk_path_of ref = (if valid_address (cr_address ref) then Some (cr_key_version ref, cr_address ref) else None)"

section \<open>Reading\<close>

text \<open>\<open>verifyChunk\<close>; \<open>readChunk\<close> is its first result.\<close>

definition verify_encoded :: "codec \<Rightarrow> chunk_store \<Rightarrow> string \<Rightarrow> chunk_ref \<Rightarrow> bytes \<Rightarrow> (chunk_error, bytes \<times> string) outcome" where
  "verify_encoded cx st w ref encoded =
     (if size_of encoded \<noteq> cr_stored_size ref \<or> size_of encoded > max_encoded_chunk then Inl EncodedSize
      else if cx_sha cx encoded \<noteq> cr_cipher_sha ref then Inl CipherDigest
      else case decode_chunk encoded of Inl e \<Rightarrow> Inl e | Inr (kv, plain_size, nonce, ct) \<Rightarrow>
      if kv \<noteq> cr_key_version ref \<or> plain_size \<noteq> cr_plain_size ref then Inl HeaderMismatch
      else case workload_key (cs_km st) (cs_keys st) w kv of Inl e \<Rightarrow> Inl (ChunkKey e) | Inr k \<Rightarrow>
     (case decrypt cx k w nonce ct (chunk_aad w (cr_address ref) kv plain_size) of None \<Rightarrow> Inl OpenFailed | Some z \<Rightarrow>
     (case decompress cx z plain_size of Inl e \<Rightarrow> Inl e | Inr (p, c) \<Rightarrow>
      if cx_sha cx p \<noteq> cr_plain_sha ref then Inl PlainDigest
      else if address_of cx k w p \<noteq> Some (cr_address ref) then Inl AddressMismatch
      else Inr (p, c))))"

definition verify_chunk :: "codec \<Rightarrow> chunk_store \<Rightarrow> string \<Rightarrow> chunk_ref \<Rightarrow> (chunk_error, bytes \<times> string) outcome" where
  "verify_chunk cx st w ref =
     (if cr_plain_size ref < 1 \<or> cr_plain_size ref > max_plain_chunk then Inl PlainSizeRange
      else if cr_stored_size ref < 1 \<or> cr_stored_size ref > max_encoded_chunk then Inl StoredSizeRange
      else case chunk_path_of ref of None \<Rightarrow> Inl ChunkAddress | Some path \<Rightarrow>
     (case cs_files st path of None \<Rightarrow> Inl NoChunkFile | Some encoded \<Rightarrow> verify_encoded cx st w ref encoded))"

section \<open>Writing\<close>

text \<open>
  What one \<open>putChunk\<close> meets: the random nonce, whether \<open>Stat\<close> fails, whether the existing file can be
  read for its digest, whether the temporary file is written, whether the link fails for another reason
  than an existing name, and a file that a concurrent writer linked there after the \<open>Stat\<close>.
\<close>

record put_io =
  pi_nonce :: bytes
  pi_stat :: bool
  pi_digest :: bool
  pi_write :: bool
  pi_link :: bool
  pi_late :: "bytes option"

definition existing_ref ::
  "codec \<Rightarrow> chunk_store \<Rightarrow> string \<Rightarrow> chunk_ref \<Rightarrow> bytes \<Rightarrow> bytes \<Rightarrow> (chunk_error, chunk_ref) outcome" where
  "existing_ref cx st w ref encoded expected =
     (let resolved = ref\<lparr>cr_stored_size := size_of encoded, cr_cipher_sha := cx_sha cx encoded\<rparr> in
      case verify_chunk cx st w resolved of
        Inl e \<Rightarrow> Inl e
      | Inr (p, c) \<Rightarrow> if p \<noteq> expected then Inl CollisionOrCorrupt else Inr (resolved\<lparr>cr_compression := c\<rparr>))"

definition add_file :: "chunk_path \<Rightarrow> bytes \<Rightarrow> chunk_store \<Rightarrow> chunk_store" where
  "add_file path b st = st\<lparr>cs_files := (cs_files st)(path := Some b)\<rparr>"

definition link_chunk ::
  "codec \<Rightarrow> put_io \<Rightarrow> string \<Rightarrow> chunk_ref \<Rightarrow> chunk_path \<Rightarrow> bytes \<Rightarrow> bytes \<Rightarrow> chunk_store
     \<Rightarrow> (chunk_error, chunk_ref \<times> bool) outcome \<times> chunk_store" where
  "link_chunk cx io w ref path encoded plain st =
     (let st1 = (case pi_late io of None \<Rightarrow> st | Some b \<Rightarrow> if cs_files st path = None then add_file path b st else st) in
      if \<not> pi_write io then (Inl WriteFailed, st1)
      else case cs_files st1 path of
        Some there \<Rightarrow>
          (case existing_ref cx st1 w ref there plain of
             Inl e \<Rightarrow> (Inl e, st1)
           | Inr ref' \<Rightarrow> (Inr (ref', True), st1))
      | None \<Rightarrow> if \<not> pi_link io then (Inl WriteFailed, st1) else (Inr (ref, False), add_file path encoded st1))"

definition put_chunk ::
  "codec \<Rightarrow> put_io \<Rightarrow> string \<Rightarrow> nat \<Rightarrow> key \<Rightarrow> int \<Rightarrow> bytes \<Rightarrow> chunk_store
     \<Rightarrow> (chunk_error, chunk_ref \<times> bool) outcome \<times> chunk_store" where
  "put_chunk cx io w kv dk seq plain st =
     (case address_of cx dk w plain of None \<Rightarrow> (Inl ChunkAddress, st) | Some address \<Rightarrow>
      let aad = chunk_aad w address kv (size_of plain) in
      case encode_chunk kv (size_of plain) (pi_nonce io) (cx_seal cx dk w (pi_nonce io) (cx_zstd cx plain) aad) of
        None \<Rightarrow> (Inl EncodingLimit, st)
      | Some encoded \<Rightarrow>
          let ref = \<lparr>cr_address = address, cr_key_version = kv, cr_plain_size = size_of plain,
                     cr_stored_size = size_of encoded, cr_cipher_sha = cx_sha cx encoded,
                     cr_plain_sha = cx_sha cx plain, cr_sequence = seq, cr_compression = ''zstd''\<rparr> in
          case chunk_path_of ref of None \<Rightarrow> (Inl ChunkAddress, st) | Some path \<Rightarrow>
          if \<not> pi_stat io then (Inl StatFailed, st)
          else case cs_files st path of
            None \<Rightarrow> link_chunk cx io w ref path encoded plain st
          | Some there \<Rightarrow>
              if size_of there \<noteq> size_of encoded then link_chunk cx io w ref path encoded plain st
              else if \<not> pi_digest io then (Inl CollisionOrCorrupt, st)
              else let seen = ref\<lparr>cr_stored_size := size_of there, cr_cipher_sha := cx_sha cx there\<rparr> in
              case verify_chunk cx st w seen of
                Inl e \<Rightarrow> (Inl CollisionOrCorrupt, st)
              | Inr (p, c) \<Rightarrow>
                  if p \<noteq> plain then (Inl CollisionOrCorrupt, st) else (Inr (seen\<lparr>cr_compression := c\<rparr>, True), st))"

text \<open>The blocks that \<open>io.ReadFull\<close> delivers, the last one short.\<close>

function blocks :: "nat \<Rightarrow> bytes \<Rightarrow> bytes list" where
  "blocks n xs = (if xs = [] \<or> n = 0 then [] else take n xs # blocks n (drop n xs))"
  by pat_completeness auto
termination by (relation "measure (\<lambda>(n, xs). length xs)") auto

declare blocks.simps [simp del]

record asset_io =
  ai_read :: "nat \<Rightarrow> bool"
  ai_put :: "nat \<Rightarrow> put_io"

fun put_blocks ::
  "codec \<Rightarrow> asset_io \<Rightarrow> string \<Rightarrow> nat \<Rightarrow> key \<Rightarrow> nat \<Rightarrow> nat \<Rightarrow> bytes list \<Rightarrow> chunk_store
     \<Rightarrow> (chunk_error, (chunk_ref \<times> bool) list) outcome \<times> chunk_store" where
  "put_blocks cx io w kv dk n i [] st = (if ai_read io i then (Inr [], st) else (Inl ReadFailed, st))"
| "put_blocks cx io w kv dk n i (b # bs) st =
     (if \<not> ai_read io i then (Inl ReadFailed, st)
      else case put_chunk cx (ai_put io i) w kv dk (int i) b st of
        (Inl e, st1) \<Rightarrow> (Inl e, st1)
      | (Inr rb, st1) \<Rightarrow>
          if length b < n then (Inr [rb], st1)
          else case put_blocks cx io w kv dk n (Suc i) bs st1 of
            (Inl e, st2) \<Rightarrow> (Inl e, st2)
          | (Inr rbs, st2) \<Rightarrow> (Inr (rb # rbs), st2))"

text \<open>\<open>PutAsset\<close>: the asset and the number of deduplicated bytes.\<close>

definition put_asset ::
  "codec \<Rightarrow> asset_io \<Rightarrow> bool \<Rightarrow> key \<Rightarrow> string \<Rightarrow> string \<Rightarrow> bytes \<Rightarrow> chunk_store
     \<Rightarrow> (chunk_error, asset_manifest \<times> int) outcome \<times> chunk_store" where
  "put_asset cx io key_ok fresh w name data st =
     (if w = [] \<or> name = [] then (Inl AssetFields, st)
      else case get_or_create_workload_key key_ok fresh (cs_km st) w (cs_keys st) of
        (Inl e, keys) \<Rightarrow> (Inl (ChunkKey e), st\<lparr>cs_keys := keys\<rparr>)
      | (Inr (kv, dk), keys) \<Rightarrow>
     (case put_blocks cx io w kv dk (cs_chunk_size st) 0 (blocks (cs_chunk_size st) data) (st\<lparr>cs_keys := keys\<rparr>) of
        (Inl e, st1) \<Rightarrow> (Inl e, st1)
      | (Inr rbs, st1) \<Rightarrow>
          (Inr (\<lparr>am_name = name, am_plain_size = i64 (sum_list (map (cr_plain_size \<circ> fst) rbs)),
                 am_stored_size = i64 (sum_list (map (cr_stored_size \<circ> fst) rbs)),
                 am_sha = cx_sha cx data, am_chunks = map fst rbs\<rparr>,
                i64 (sum_list (map (cr_plain_size \<circ> fst) (filter snd rbs)))), st1)))"

section \<open>Restoring, transferring\<close>

text \<open>\<open>RestoreAsset\<close>: the bytes handed to the writer when it succeeds.\<close>

fun restore_chunks :: "codec \<Rightarrow> chunk_store \<Rightarrow> string \<Rightarrow> int \<Rightarrow> chunk_ref list \<Rightarrow> (chunk_error, bytes) outcome" where
  "restore_chunks cx st w expected [] = Inr []"
| "restore_chunks cx st w expected (ref # refs) =
     (if cr_sequence ref \<noteq> expected then Inl SequenceGap
      else case verify_chunk cx st w ref of
        Inl e \<Rightarrow> Inl e
      | Inr (p, c) \<Rightarrow>
     (case restore_chunks cx st w (expected + 1) refs of Inl e \<Rightarrow> Inl e | Inr out \<Rightarrow> Inr (p @ out)))"

definition restore_asset :: "codec \<Rightarrow> chunk_store \<Rightarrow> string \<Rightarrow> asset_manifest \<Rightarrow> (chunk_error, bytes) outcome" where
  "restore_asset cx st w asset =
     (case restore_chunks cx st w 0 (sort_key cr_sequence (am_chunks asset)) of
        Inl e \<Rightarrow> Inl e
      | Inr out \<Rightarrow>
          if i64 (size_of out) \<noteq> am_plain_size asset then Inl SizeMismatch
          else if cx_sha cx out \<noteq> am_sha asset then Inl DigestMismatch
          else Inr out)"

definition validate_asset :: "codec \<Rightarrow> chunk_store \<Rightarrow> string \<Rightarrow> asset_manifest \<Rightarrow> bool" where
  "validate_asset cx st w asset \<longleftrightarrow> \<not> failed (restore_asset cx st w asset)"

definition chunk_missing :: "codec \<Rightarrow> chunk_store \<Rightarrow> chunk_ref \<Rightarrow> bool" where
  "chunk_missing cx st ref =
     (case cs_files st (cr_key_version ref, cr_address ref) of
        None \<Rightarrow> True
      | Some b \<Rightarrow> size_of b \<noteq> cr_stored_size ref \<or> cr_cipher_sha ref \<noteq> [] \<and> cx_sha cx b \<noteq> cr_cipher_sha ref)"

definition missing :: "codec \<Rightarrow> chunk_store \<Rightarrow> chunk_ref list \<Rightarrow> (chunk_error, chunk_ref list) outcome" where
  "missing cx st refs =
     (if list_all (\<lambda>ref. valid_address (cr_address ref)) refs then Inr (filter (chunk_missing cx st) refs)
      else Inl ChunkAddress)"

definition export_chunk :: "codec \<Rightarrow> chunk_store \<Rightarrow> chunk_ref \<Rightarrow> (chunk_error, bytes) outcome" where
  "export_chunk cx st ref =
     (case chunk_path_of ref of None \<Rightarrow> Inl ChunkAddress | Some path \<Rightarrow>
     (case cs_files st path of None \<Rightarrow> Inl NoChunkFile | Some b \<Rightarrow>
      let sent = take (nat (max_encoded_chunk + 1)) b in
      if size_of sent \<noteq> cr_stored_size ref then Inl EncodedSize
      else if cx_sha cx sent \<noteq> cr_cipher_sha ref then Inl CipherDigest
      else Inr sent))"

text \<open>
  \<open>ImportChunkResult\<close> of the uploaded \<open>body\<close>; the result says whether bytes were stored that were not
  there before.  \<open>io_ok\<close> is the success of staging, \<open>rename_ok\<close> of the link or the replacing rename.
\<close>

definition import_chunk ::
  "codec \<Rightarrow> bool \<Rightarrow> bool \<Rightarrow> string \<Rightarrow> chunk_ref \<Rightarrow> bytes \<Rightarrow> chunk_store \<Rightarrow> (chunk_error, bool) outcome \<times> chunk_store" where
  "import_chunk cx io_ok rename_ok w ref body st =
     (if cr_stored_size ref < 1 \<or> cr_stored_size ref > max_encoded_chunk then (Inl StoredSizeRange, st)
      else if cr_plain_size ref < 1 \<or> cr_plain_size ref > max_plain_chunk then (Inl PlainSizeRange, st)
      else case chunk_path_of ref of None \<Rightarrow> (Inl ChunkAddress, st) | Some path \<Rightarrow>
      let present = (cs_files st path \<noteq> None) in
      if present \<and> \<not> failed (verify_chunk cx st w ref) then (Inr False, st)
      else if \<not> io_ok then (Inl WriteFailed, st)
      else if size_of body \<noteq> cr_stored_size ref then (Inl UploadSize, st)
      else if cx_sha cx body \<noteq> cr_cipher_sha ref then (Inl UploadDigest, st)
      else if \<not> rename_ok then (Inl WriteFailed, st)
      else let st1 = add_file path body st in
      case verify_chunk cx st1 w ref of
        Inl e \<Rightarrow> (Inl e, st1\<lparr>cs_files := (cs_files st1)(path := None)\<rparr>)
      | Inr _ \<Rightarrow> (Inr (\<not> present), st1))"
section \<open>The framing is a bijection\<close>

lemma length_be [simp]: "length (be n x) = n"
  by (induction n arbitrary: x) auto

lemma un_be_Nil [simp]: "un_be [] = 0"
  by (simp add: un_be_def)

lemma un_be_snoc [simp]: "un_be (bs @ [c]) = un_be bs * 256 + of_char c"
  by (simp add: un_be_def)

lemma un_be_be: "un_be (be n x) = x mod 256 ^ n"
proof (induction n arbitrary: x)
  case (Suc n)
  have "(of_char (char_of (x mod 256)) :: int) = x mod 256" by simp
  moreover have "x mod (256 * 256 ^ n) = 256 * (x div 256 mod 256 ^ n) + x mod 256"
    by (rule zmod_zmult2_eq) simp
  ultimately show ?case using Suc [of "x div 256"] by (simp add: mult.commute)
qed simp

lemma of_char_bounds: "0 \<le> (of_char c :: int) \<and> (of_char c :: int) < 256"
  by (metis of_char_mod_256 pos_mod_bound pos_mod_sign zero_less_numeral)

lemma un_be_bounds: "0 \<le> un_be bs \<and> un_be bs < 256 ^ length bs"
proof (induction bs rule: rev_induct)
  case (snoc c bs)
  then show ?case using of_char_bounds [of c] by simp
qed simp

lemma be_un_be: "be (length bs) (un_be bs) = bs"
proof (induction bs rule: rev_induct)
  case (snoc c bs)
  have "(un_be bs * 256 + of_char c) div 256 = un_be bs" "(un_be bs * 256 + of_char c) mod 256 = of_char c"
    using of_char_bounds [of c] by (simp_all add: div_pos_pos_trivial)
  with snoc show ?case by (simp del: div_mult_self3 div_mult_self1 div_mult_self4 div_mult_self2)
qed simp

lemma read_n_append [simp]: "length a = n \<Longrightarrow> read_n n (a @ b) = Some (a, b)"
  by (auto simp: read_n_def)

lemma read_n_Some: "read_n n b = Some (x, y) \<longleftrightarrow> b = x @ y \<and> length x = n"
  by (auto simp: read_n_def)

lemma decode_encode:
  assumes "encode_chunk kv ps nonce ct = Some e" and "nonce \<noteq> []" and "1 \<le> ps" and "ps \<le> max_plain_chunk" and "kv < 2 ^ 32"
  shows "decode_chunk e = Inr (kv, ps, nonce, ct)"
proof -
  have b: "length nonce \<le> 255" "size_of ct \<le> max_encoded_chunk"
    and e: "e = chunk_magic @ be 2 1 @ be 4 (int kv) @ be 8 ps @ be 2 (size_of nonce) @ be 8 (size_of ct) @ nonce @ ct"
    using assms(1) by (auto simp: encode_chunk_def split: if_splits)
  have "length chunk_magic = 8" by (simp add: chunk_magic_def)
  moreover have "un_be (be 2 1) = 1" "un_be (be 4 (int kv)) = int kv" using assms(5) by (simp_all add: un_be_be)
  moreover have "i64 (un_be (be 8 ps)) = ps"
    using assms(3,4) by (simp add: un_be_be max_plain_chunk_def in_i64_def)
  moreover have "un_be (be 2 (size_of nonce)) = size_of nonce" using b(1) by (simp add: un_be_be size_of_def)
  moreover have "un_be (be 8 (size_of ct)) = size_of ct" using b(2) by (simp add: un_be_be size_of_def max_encoded_chunk_def)
  ultimately show ?thesis
    using assms(2-4) b by (simp add: decode_chunk_def e Let_def size_of_def)
qed

lemma encode_decode:
  assumes "decode_chunk e = Inr (kv, ps, nonce, ct)" and "length nonce \<le> 255"
  shows "encode_chunk kv ps nonce ct = Some e"
proof -
  obtain f vb pb nb cb b where b: "e = chunk_magic @ f @ vb @ pb @ nb @ cb @ b"
    and l: "length f = 2" "length vb = 4" "length pb = 8" "length nb = 2" "length cb = 8"
    and v: "un_be f = 1" "kv = nat (un_be vb)" "ps = i64 (un_be pb)"
    and s: "size_of b = un_be nb + un_be cb" "nonce = take (nat (un_be nb)) b" "ct = drop (nat (un_be nb)) b"
    and r: "un_be cb \<le> max_encoded_chunk"
    using assms(1)
    by (auto simp: decode_chunk_def Let_def read_n_Some split: option.splits if_splits)
  have e: "e = chunk_magic @ f @ vb @ pb @ nb @ cb @ nonce @ ct" by (simp add: b s)
  have "nat (un_be nb) \<le> length b" "0 \<le> un_be nb"
    using s(1) un_be_bounds [of nb] un_be_bounds [of cb] unfolding size_of_def by linarith+
  then have sz: "un_be nb = size_of nonce" "un_be cb = size_of ct"
    using s by (simp_all add: size_of_def of_nat_diff)
  have "be 2 1 = f" using be_un_be [of f] l v by simp
  moreover have "be 4 (int kv) = vb" using be_un_be [of vb] l v un_be_bounds [of vb] by simp
  moreover have "be 8 ps = pb"
  proof -
    have "be 8 x = be 8 (x mod 2 ^ 64)" for x
      using be_un_be [of "be 8 x"] by (simp add: un_be_be)
    moreover have "ps mod 2 ^ 64 = un_be pb mod 2 ^ 64"
      by (simp add: v i64_def mod_simps)
    ultimately show ?thesis using be_un_be [of pb] l by metis
  qed
  moreover have "be 2 (size_of nonce) = nb" "be 8 (size_of ct) = cb" using be_un_be [of nb] be_un_be [of cb] l sz by simp_all
  ultimately show ?thesis using assms(2) r sz by (simp add: encode_chunk_def e)
qed

section \<open>What was put can be read\<close>

text \<open>
  What the store relies on in its cipher and compressor: opening inverts sealing, decompression inverts
  compression and recognises its frame, addresses are 64 hexadecimal digits, and neither expands a chunk
  beyond the encoding limit.
\<close>

definition codec_laws :: "codec \<Rightarrow> bool" where
  "codec_laws cx \<longleftrightarrow>
     (\<forall>k w n p a. cx_open cx k w n (cx_seal cx k w n p a) a = Some p)
   \<and> (\<forall>p. cx_unzstd cx (cx_zstd cx p) = Some p \<and> prefix zstd_frame_magic (cx_zstd cx p))
   \<and> (\<forall>k w p. valid_address (cx_mac cx k w p))
   \<and> (\<forall>k w n p a. size_of p \<le> max_plain_chunk \<longrightarrow> size_of (cx_seal cx k w n (cx_zstd cx p) a) + 44 \<le> max_encoded_chunk)"

definition keeps_files :: "chunk_store \<Rightarrow> chunk_store \<Rightarrow> bool" where
  "keeps_files st st' \<longleftrightarrow> cs_km st' = cs_km st \<and> cs_keys st' = cs_keys st \<and> cs_chunk_size st' = cs_chunk_size st
     \<and> (\<forall>p b. cs_files st p = Some b \<longrightarrow> cs_files st' p = Some b)"

lemma keeps_files_refl [simp]: "keeps_files st st"
  by (simp add: keeps_files_def)

lemma keeps_files_trans: "keeps_files a b \<Longrightarrow> keeps_files b c \<Longrightarrow> keeps_files a c"
  by (simp add: keeps_files_def)

lemma keeps_files_add: "cs_files st p = None \<Longrightarrow> keeps_files st (add_file p b st)"
  by (simp add: keeps_files_def add_file_def)

lemma verify_encoded_cong:
  assumes "cs_km st' = cs_km st" and "cs_keys st' = cs_keys st"
  shows "verify_encoded cx st' w ref = verify_encoded cx st w ref"
  by (rule ext) (unfold verify_encoded_def assms, rule refl)

lemma verify_chunk_compression [simp]: "verify_chunk cx st w (ref\<lparr>cr_compression := c\<rparr>) = verify_chunk cx st w ref"
  by (cases ref, hypsubst) (unfold verify_chunk_def verify_encoded_def chunk_path_of_def chunk_ref.update_convs chunk_ref.select_convs, rule refl)

lemma verify_chunk_keeps:
  "verify_chunk cx st w ref = Inr r \<Longrightarrow> keeps_files st st' \<Longrightarrow> verify_chunk cx st' w ref = Inr r"
  using verify_encoded_cong [of st' st cx w ref]
  by (auto simp: verify_chunk_def keeps_files_def split: if_splits option.splits)

lemma verify_chunk_plain: "verify_chunk cx st w ref = Inr (p, c) \<Longrightarrow> size_of p = cr_plain_size ref"
  by (auto simp: verify_chunk_def verify_encoded_def decompress_def Let_def split: if_splits option.splits sum.splits)

text \<open>The reference that \<open>putChunk\<close> builds.\<close>

definition new_ref :: "codec \<Rightarrow> key \<Rightarrow> string \<Rightarrow> nat \<Rightarrow> int \<Rightarrow> bytes \<Rightarrow> bytes \<Rightarrow> chunk_ref" where
  "new_ref cx dk w kv seq plain encoded =
     \<lparr>cr_address = cx_mac cx dk w plain, cr_key_version = kv, cr_plain_size = size_of plain,
      cr_stored_size = size_of encoded, cr_cipher_sha = cx_sha cx encoded,
      cr_plain_sha = cx_sha cx plain, cr_sequence = seq, cr_compression = ''zstd''\<rparr>"

lemma new_ref_sequence [simp]: "cr_sequence (new_ref cx dk w kv seq plain encoded) = seq"
  by (simp add: new_ref_def)

definition sealed_chunk :: "codec \<Rightarrow> bytes \<Rightarrow> key \<Rightarrow> string \<Rightarrow> nat \<Rightarrow> bytes \<Rightarrow> bytes option" where
  "sealed_chunk cx nonce dk w kv plain =
     encode_chunk kv (size_of plain) nonce
       (cx_seal cx dk w nonce (cx_zstd cx plain) (chunk_aad w (cx_mac cx dk w plain) kv (size_of plain)))"

lemma sealed_chunk_verifies:
  assumes laws: "codec_laws cx" and "sealed_chunk cx nonce dk w kv plain = Some encoded"
    and "length nonce = nonce_size" and "length dk = key_size" and "kv < 2 ^ 32"
    and "plain \<noteq> []" and "size_of plain \<le> max_plain_chunk"
    and "workload_key (cs_km st) (cs_keys st) w kv = Inr dk"
  shows "verify_encoded cx st w (new_ref cx dk w kv seq plain encoded) encoded = Inr (plain, ''zstd'')
    \<and> 1 \<le> size_of encoded \<and> size_of encoded \<le> max_encoded_chunk"
proof -
  let ?ct = "cx_seal cx dk w nonce (cx_zstd cx plain) (chunk_aad w (cx_mac cx dk w plain) kv (size_of plain))"
  have one: "1 \<le> size_of plain" using assms(6) by (cases plain) (simp_all add: size_of_def)
  have dec: "decode_chunk encoded = Inr (kv, size_of plain, nonce, ?ct)"
    using assms(2,3) by (intro decode_encode one assms(5,7)) (auto simp: sealed_chunk_def nonce_size_def)
  have sz: "size_of encoded = size_of ?ct + 44"
    using assms(2,3) by (auto simp: sealed_chunk_def encode_chunk_def size_of_def chunk_magic_def nonce_size_def split: if_splits)
  then have max: "size_of encoded \<le> max_encoded_chunk" using laws assms(7) by (simp add: codec_laws_def)
  have "1 \<le> size_of encoded" using sz unfolding size_of_def by linarith
  moreover have "decompress cx (cx_zstd cx plain) (size_of plain) = Inr (plain, ''zstd'')"
    using laws one assms(7) by (simp add: decompress_def codec_laws_def)
  ultimately show ?thesis
    using laws dec max assms(3,4,8)
    by (simp add: verify_encoded_def new_ref_def decrypt_def codec_laws_def address_of_def)
qed

lemma put_chunk_verifies:
  assumes laws: "codec_laws cx" and "kv < 2 ^ 32" and "length (pi_nonce io) = nonce_size"
    and "plain \<noteq> []" and "size_of plain \<le> max_plain_chunk"
    and "workload_key (cs_km st) (cs_keys st) w kv = Inr dk"
    and "put_chunk cx io w kv dk seq plain st = (Inr (ref, dup), st')"
  shows "keeps_files st st' \<and> cr_sequence ref = seq \<and> (\<exists>c. verify_chunk cx st' w ref = Inr (plain, c))"
proof -
  have dk: "length dk = key_size" using assms(7) by (auto simp: put_chunk_def address_of_def split: if_splits)
  then have addr: "address_of cx dk w plain = Some (cx_mac cx dk w plain)" by (simp add: address_of_def)
  obtain encoded where enc: "sealed_chunk cx (pi_nonce io) dk w kv plain = Some encoded"
    using assms(7) addr by (auto simp: put_chunk_def sealed_chunk_def Let_def split: option.splits)
  let ?ref = "new_ref cx dk w kv seq plain encoded" and ?path = "(kv, cx_mac cx dk w plain)"
  have path: "chunk_path_of ?ref = Some ?path" using laws by (simp add: chunk_path_of_def new_ref_def codec_laws_def)
  have ver: "verify_encoded cx s w ?ref encoded = Inr (plain, ''zstd'')" "1 \<le> size_of encoded" "size_of encoded \<le> max_encoded_chunk"
    if "cs_km s = cs_km st" "cs_keys s = cs_keys st" for s
    using sealed_chunk_verifies [OF laws enc assms(3) dk assms(2,4,5), of s seq] assms(6) that by simp_all
  have one: "1 \<le> size_of plain" using assms(4) by (cases plain) (simp_all add: size_of_def)
  have link: "keeps_files st st' \<and> cr_sequence ref = seq \<and> (\<exists>c. verify_chunk cx st' w ref = Inr (plain, c))"
    if run: "link_chunk cx io w ?ref ?path encoded plain st = (Inr (ref, dup), st')"
  proof -
    let ?st = "case pi_late io of None \<Rightarrow> st | Some b \<Rightarrow> if cs_files st ?path = None then add_file ?path b st else st"
    have keep: "keeps_files st ?st" by (auto simp: keeps_files_add split: option.splits)
    show ?thesis
    proof (cases "cs_files ?st ?path")
      case None
      then have "st' = add_file ?path encoded ?st" "ref = ?ref"
        using run by (auto simp: link_chunk_def Let_def split: if_splits)
      moreover have "verify_chunk cx (add_file ?path encoded ?st) w ?ref = Inr (plain, ''zstd'')"
        using ver [of "add_file ?path encoded ?st"] keep one assms(5) path
        by (simp add: verify_chunk_def) (simp add: add_file_def new_ref_def keeps_files_def)
      ultimately show ?thesis
        using keep keeps_files_add [OF None, of encoded] keeps_files_trans by (auto simp: new_ref_def)
    next
      case (Some there)
      then have "st' = ?st" "existing_ref cx ?st w ?ref there plain = Inr ref"
        using run by (auto simp: link_chunk_def Let_def split: if_splits sum.splits)
      then show ?thesis
        using keep by (auto simp: existing_ref_def Let_def split: sum.splits if_splits)
    qed
  qed
  show ?thesis
    using assms(7) link addr enc path
    by (auto simp: put_chunk_def sealed_chunk_def Let_def simp flip: new_ref_def split: option.splits if_splits sum.splits)
qed

lemma restore_chunks_keeps:
  "restore_chunks cx st w i refs = Inr out \<Longrightarrow> keeps_files st st' \<Longrightarrow> restore_chunks cx st' w i refs = Inr out"
proof (induction refs arbitrary: i out)
  case (Cons ref refs)
  from Cons.prems(1) obtain p c o2 where "cr_sequence ref = i" and v: "verify_chunk cx st w ref = Inr (p, c)"
    and "restore_chunks cx st w (i + 1) refs = Inr o2" "out = p @ o2"
    by (auto split: if_splits sum.splits)
  with Cons.IH [of "i + 1" o2] Cons.prems(2) verify_chunk_keeps [OF v Cons.prems(2)] show ?case by simp
qed simp

lemma put_blocks_restores:
  assumes laws: "codec_laws cx" and kv: "kv < 2 ^ 32" and nonces: "\<And>i. length (pi_nonce (ai_put io i)) = nonce_size"
    and n: "0 < n" "int n \<le> max_plain_chunk"
    and "workload_key (cs_km st) (cs_keys st) w kv = Inr dk"
    and "put_blocks cx io w kv dk n i (blocks n data) st = (Inr rbs, st')"
  shows "keeps_files st st' \<and> restore_chunks cx st' w (int i) (map fst rbs) = Inr data
    \<and> sum_list (map (cr_plain_size \<circ> fst) rbs) = size_of data
    \<and> map (cr_sequence \<circ> fst) rbs = map int [i..<i + length rbs]"
  using n assms(6,7)
proof (induction n data arbitrary: i st rbs rule: blocks.induct)
  case (1 n data)
  show ?case
  proof (cases "data = []")
    case True
    with "1.prems" show ?thesis by (auto simp: blocks.simps size_of_def split: if_splits)
  next
    case False
    let ?b = "take n data" and ?rest = "drop n data"
    have bl: "blocks n data = ?b # blocks n ?rest" using False "1.prems"(1) by (simp add: blocks.simps [of n data])
    obtain ref dup st1 where pc: "put_chunk cx (ai_put io i) w kv dk (int i) ?b st = (Inr (ref, dup), st1)"
      using "1.prems"(4) bl by (auto split: if_splits sum.splits prod.splits)
    have b: "?b \<noteq> []" "size_of ?b \<le> max_plain_chunk" using False "1.prems"(1,2) by (auto simp: size_of_def)
    from put_chunk_verifies [OF laws kv nonces b "1.prems"(3) pc] obtain c where
      keep: "keeps_files st st1" and seq: "cr_sequence ref = int i" and ver: "verify_chunk cx st1 w ref = Inr (?b, c)" by blast
    note sz = verify_chunk_plain [OF ver]
    show ?thesis
    proof (cases "length ?b < n")
      case True
      then have d: "?b = data" by (simp add: min_def split: if_splits)
      then have "rbs = [(ref, dup)]" "st' = st1" using "1.prems"(4) bl pc True by (auto split: if_splits)
      with d keep seq ver sz show ?thesis by (simp add: upt_rec)
    next
      case full: False
      then obtain rbs2 where rest: "put_blocks cx io w kv dk n (Suc i) (blocks n ?rest) st1 = (Inr rbs2, st')"
        and rbs: "rbs = (ref, dup) # rbs2"
        using "1.prems"(4) bl pc by (auto split: if_splits sum.splits prod.splits)
      have key: "workload_key (cs_km st1) (cs_keys st1) w kv = Inr dk"
        using "1.prems"(3) keep by (simp add: keeps_files_def)
      have ih: "keeps_files st1 st' \<and> restore_chunks cx st' w (int (Suc i)) (map fst rbs2) = Inr ?rest
          \<and> sum_list (map (cr_plain_size \<circ> fst) rbs2) = size_of ?rest
          \<and> map (cr_sequence \<circ> fst) rbs2 = map int [Suc i..<Suc i + length rbs2]"
        by (rule "1.IH" [OF _ "1.prems"(1,2) key rest]) (use False "1.prems"(1) in simp)
      have v': "verify_chunk cx st' w ref = Inr (?b, c)" using verify_chunk_keeps [OF ver] ih by blast
      have "size_of ?b + size_of ?rest = size_of data" by (simp add: size_of_def)
      then have "sum_list (map (cr_plain_size \<circ> fst) rbs) = size_of data" using ih sz by (simp add: rbs del: upt_Suc)
      moreover have "map (cr_sequence \<circ> fst) rbs = map int [i..<i + length rbs]"
      proof -
        have up: "[i..<i + length rbs] = i # [Suc i..<Suc i + length rbs2]"
          using upt_conv_Cons [of i "i + length rbs"] by (simp add: rbs del: upt_Suc)
        show ?thesis unfolding up using ih seq by (simp add: rbs del: upt_Suc)
      qed
      moreover have "restore_chunks cx st' w (int i) (map fst rbs) = Inr data"
        using ih v' seq by (simp add: rbs add.commute del: upt_Suc)
      moreover have "keeps_files st st'" using ih keeps_files_trans [OF keep] by blast
      ultimately show ?thesis by blast
    qed
  qed
qed

lemma get_or_create_reads:
  assumes "keys_ok km disk" and "get_or_create_workload_key ok fresh km w disk = (Inr (v, k), disk')"
  shows "keys_ok km disk' \<and> workload_key km disk' w v = Inr k"
  using key_exec_keeps [OF assms(1), of "GetOrCreate ok fresh w" "Some (w, v, k)" km disk'] assms(2) by simp

text \<open>
  C14.  What is put can be restored: whatever chunks the store already holds and whatever concurrent
  writers link in between, when \<open>PutAsset\<close> succeeds \<open>RestoreAsset\<close> of the asset it returns writes exactly
  the bytes that were put.  Every chunk file that was there is still there unchanged.
\<close>

theorem put_restore_roundtrip:
  assumes "codec_laws cx" and "keys_ok (cs_km st) (cs_keys st)"
    and "\<forall>i. length (pi_nonce (ai_put io i)) = nonce_size"
    and "0 < cs_chunk_size st" and "int (cs_chunk_size st) \<le> max_plain_chunk"
    and "\<forall>v. fst (get_or_create_workload_key ok fresh (cs_km st) w (cs_keys st)) = Inr v \<longrightarrow> fst v < 2 ^ 32"
    and "put_asset cx io ok fresh w name data st = (Inr (asset, dedup), st')"
  shows "restore_asset cx st' w asset = Inr data \<and> am_plain_size asset = i64 (size_of data)
    \<and> (\<forall>p b. cs_files st p = Some b \<longrightarrow> cs_files st' p = Some b)"
proof -
  obtain kv dk keys where key: "get_or_create_workload_key ok fresh (cs_km st) w (cs_keys st) = (Inr (kv, dk), keys)"
    using assms(7) by (auto simp: put_asset_def split: if_splits sum.splits prod.splits)
  let ?st = "st\<lparr>cs_keys := keys\<rparr>"
  obtain rbs where rbs: "put_blocks cx io w kv dk (cs_chunk_size st) 0 (blocks (cs_chunk_size st) data) ?st = (Inr rbs, st')"
    and asset: "am_chunks asset = map fst rbs" "am_sha asset = cx_sha cx data"
      "am_plain_size asset = i64 (sum_list (map (cr_plain_size \<circ> fst) rbs))"
    using assms(7) key by (auto simp: put_asset_def split: if_splits sum.splits prod.splits)
  have kv: "kv < 2 ^ 32" using assms(6) key by simp
  have wk: "workload_key (cs_km ?st) (cs_keys ?st) w kv = Inr dk"
    using get_or_create_reads [OF assms(2) key] by simp
  have nonces: "\<And>i. length (pi_nonce (ai_put io i)) = nonce_size" using assms(3) by simp
  note run = put_blocks_restores [OF assms(1) kv nonces assms(4,5) wk rbs]
  have "sorted (map cr_sequence (am_chunks asset))"
    using run by (simp add: asset sorted_wrt_map flip: map_map)
  then have "restore_asset cx st' w asset = Inr data"
    using run by (simp add: restore_asset_def sort_key_id_if_sorted) (simp add: asset)
  with run show ?thesis by (simp add: asset keeps_files_def)
qed

section \<open>Framing and import\<close>

text \<open>
  The chunk framing is unambiguous: for a header in range, a byte string is the encoding of a key
  version, plain size, nonce and ciphertext exactly when decoding it yields them.
\<close>

theorem chunk_framing_bijective:
  assumes "nonce \<noteq> []" and "length nonce \<le> 255" and "kv < 2 ^ 32" and "1 \<le> ps" and "ps \<le> max_plain_chunk"
  shows "encode_chunk kv ps nonce ct = Some e \<longleftrightarrow> decode_chunk e = Inr (kv, ps, nonce, ct)"
  using decode_encode [OF _ assms(1,4,5,3), of ct e] encode_decode [of e kv ps nonce ct] assms(2) by blast

lemma path_of_ref: "chunk_path_of ref = Some p \<Longrightarrow> p = (cr_key_version ref, cr_address ref)"
  by (auto simp: chunk_path_of_def split: if_splits)

text \<open>
  An accepted upload is servable: after \<open>ImportChunkResult\<close> succeeds the chunk verifies in full
  against its reference, and it counts as new exactly when no file was there.  No import touches another
  chunk's file, and a refused one leaves no unverified bytes: the file is the old one or gone.
\<close>

theorem import_chunk_verified:
  assumes "import_chunk cx io_ok rename_ok w ref body st = (r, st')"
  shows "(\<forall>b. r = Inr b \<longrightarrow> \<not> failed (verify_chunk cx st' w ref)
            \<and> (b \<longleftrightarrow> cs_files st (cr_key_version ref, cr_address ref) = None))
    \<and> (\<forall>p. p \<noteq> (cr_key_version ref, cr_address ref) \<longrightarrow> cs_files st' p = cs_files st p)
    \<and> (failed r \<longrightarrow> cs_files st' (cr_key_version ref, cr_address ref) \<in> {None, cs_files st (cr_key_version ref, cr_address ref)})"
  using assms path_of_ref [of ref]
  by (auto simp: import_chunk_def Let_def add_file_def split: if_splits option.splits sum.splits)

lemma verify_chunk_cipher:
  assumes "verify_chunk cx st w ref = Inr v"
  obtains b where "cs_files st (cr_key_version ref, cr_address ref) = Some b" "cx_sha cx b = cr_cipher_sha ref"
    "chunk_path_of ref = Some (cr_key_version ref, cr_address ref)"
proof -
  obtain p b where p: "chunk_path_of ref = Some p" and b: "cs_files st p = Some b" and v: "verify_encoded cx st w ref b = Inr v"
    using assms by (auto simp: verify_chunk_def split: if_splits option.splits)
  have "cx_sha cx b = cr_cipher_sha ref" using v by (simp add: verify_encoded_def split: if_splits)
  with p b path_of_ref [OF p] that show thesis by simp
qed

lemma verify_chunk_other_cipher:
  assumes "cs_files st (cr_key_version ref, cr_address ref) = Some b" and "cx_sha cx b \<noteq> cr_cipher_sha ref"
  shows "failed (verify_chunk cx st w ref)"
  using assms verify_chunk_cipher [of cx st w ref] by (cases "verify_chunk cx st w ref") fastforce+

lemma restore_chunks_failed:
  "ref \<in> set refs \<Longrightarrow> failed (verify_chunk cx st w ref) \<Longrightarrow> failed (restore_chunks cx st w i refs)"
proof (induction refs arbitrary: i)
  case (Cons r refs)
  show ?case
  proof (cases "ref = r")
    case True
    with Cons.prems(2) show ?thesis by (cases "verify_chunk cx st w r") simp_all
  next
    case False
    then have "failed (restore_chunks cx st w (i + 1) refs)" using Cons by simp
    then obtain e where "restore_chunks cx st w (i + 1) refs = Inl e"
      by (cases "restore_chunks cx st w (i + 1) refs") simp_all
    then show ?thesis by (cases "verify_chunk cx st w r") auto
  qed
qed simp

lemma asset_needs_chunk:
  assumes "ref \<in> set (am_chunks asset)" and "failed (verify_chunk cx st w ref)"
  shows "\<not> validate_asset cx st w asset"
  using restore_chunks_failed [of ref "sort_key cr_sequence (am_chunks asset)" cx st w 0] assms
  by (auto simp: validate_asset_def restore_asset_def failed_def split: sum.splits)

text \<open>
  Sealing uses a fresh nonce, so two machines that hold the same plaintext hold different bytes
  under the same address.  Importing such a second copy takes the good chunk that is already there for a
  corrupt one and replaces it: every checkpoint that references the former bytes cannot be restored any
  more.
\<close>

theorem import_invalidates_other_checkpoints:
  assumes "verify_chunk cx st w old = Inr v" and "old \<in> set (am_chunks asset)"
    and "cr_address new = cr_address old" and "cr_key_version new = cr_key_version old"
    and "cr_cipher_sha new \<noteq> cr_cipher_sha old"
    and "import_chunk cx io_ok rename_ok w new body st = (Inr b, st')"
  shows "\<not> b \<and> \<not> validate_asset cx st' w asset"
proof -
  let ?p = "(cr_key_version old, cr_address old)"
  obtain x where x: "cs_files st ?p = Some x" "cx_sha cx x = cr_cipher_sha old" using verify_chunk_cipher [OF assms(1)] by metis
  have path: "chunk_path_of new = Some ?p" using verify_chunk_cipher [OF assms(1)] assms(3,4) by (metis chunk_path_of_def)
  have "failed (verify_chunk cx st w new)"
    using verify_chunk_other_cipher [of st new x cx w] x assms(3-5) by metis
  then have st': "cs_files st' ?p = Some body" "cx_sha cx body = cr_cipher_sha new" "\<not> b"
    using assms(6) path x by (auto simp: import_chunk_def Let_def add_file_def split: if_splits sum.splits)
  have "failed (verify_chunk cx st' w old)"
    using verify_chunk_other_cipher [OF st'(1), of cx w] st'(2) assms(5) by simp
  then show ?thesis using asset_needs_chunk [OF assms(2)] st'(3) by blast
qed

text \<open>
  A refused upload can destroy a good chunk: bytes that match the size and digest their own
  reference declares replace the file before they are verified, and when verification fails the file is
  removed.
\<close>

theorem refused_import_deletes_good_chunk:
  assumes "verify_chunk cx st w old = Inr v"
    and "cr_address new = cr_address old" and "cr_key_version new = cr_key_version old"
    and "1 \<le> cr_stored_size new" and "cr_stored_size new \<le> max_encoded_chunk"
    and "1 \<le> cr_plain_size new" and "cr_plain_size new \<le> max_plain_chunk"
    and "cr_cipher_sha new \<noteq> cr_cipher_sha old"
    and "size_of body = cr_stored_size new" and "cx_sha cx body = cr_cipher_sha new"
    and "verify_encoded cx st w new body = Inl e"
    and "import_chunk cx True True w new body st = (r, st')"
  shows "r = Inl e \<and> cs_files st' (cr_key_version old, cr_address old) = None"
proof -
  let ?p = "(cr_key_version old, cr_address old)"
  obtain x where x: "cs_files st ?p = Some x" "cx_sha cx x = cr_cipher_sha old" using verify_chunk_cipher [OF assms(1)] by metis
  have path: "chunk_path_of new = Some ?p" using verify_chunk_cipher [OF assms(1)] assms(2,3) by (metis chunk_path_of_def)
  have "failed (verify_chunk cx st w new)"
    using verify_chunk_other_cipher [of st new x cx w] x assms(2,3,8) by metis
  moreover have "verify_chunk cx (add_file ?p body st) w new = Inl e"
  proof -
    have "verify_encoded cx (add_file ?p body st) w new = verify_encoded cx st w new"
      by (rule verify_encoded_cong) (simp_all add: add_file_def)
    then show ?thesis using assms(4-7,11) path by (simp add: verify_chunk_def) (simp add: add_file_def)
  qed
  ultimately show ?thesis
    using assms(4-7,9,10,12) path x by (auto simp: import_chunk_def Let_def add_file_def)
qed


section \<open>A small store\<close>

definition sample_codec :: codec where
  "sample_codec = \<lparr>cx_mac = (\<lambda>k w p. replicate 64 CHR ''0''), cx_sha = (\<lambda>b. b),
     cx_seal = (\<lambda>k w n p a. p @ replicate 16 CHR ''t''), cx_open = (\<lambda>k w n c a. Some (take (length c - 16) c)),
     cx_zstd = (\<lambda>p. zstd_frame_magic @ p), cx_unzstd = (\<lambda>b. Some (drop 4 b)), cx_gunzip = (\<lambda>b. None)\<rparr>"

lemma sample_codec_laws: "codec_laws sample_codec"
proof -
  have "valid_address (replicate 64 CHR ''0'')" by code_simp
  then show ?thesis
    by (simp add: codec_laws_def sample_codec_def zstd_frame_magic_def size_of_def max_plain_chunk_def max_encoded_chunk_def)
qed

definition sample_store :: chunk_store where
  "sample_store = \<lparr>cs_chunk_size = 8, cs_files = (\<lambda>p. None), cs_km = sample_km, cs_keys = sample_key_disk\<rparr>"

definition sample_put_io :: "char \<Rightarrow> put_io" where
  "sample_put_io c = \<lparr>pi_nonce = replicate 12 c, pi_stat = True, pi_digest = True, pi_write = True, pi_link = True, pi_late = None\<rparr>"

definition sample_asset_io :: asset_io where
  "sample_asset_io = \<lparr>ai_read = (\<lambda>i. True), ai_put = (\<lambda>i. sample_put_io CHR ''n'')\<rparr>"

definition sample_put :: "(chunk_error, asset_manifest \<times> int) outcome \<times> chunk_store" where
  "sample_put = put_asset sample_codec sample_asset_io True sample_data_key ''w'' ''root'' ''hello'' sample_store"

definition sample_asset :: asset_manifest where
  "sample_asset = fst (projr (fst sample_put))"

lemma sample_put_ok: "sample_put = (Inr (sample_asset, snd (projr (fst sample_put))), snd sample_put)"
proof -
  have "\<not> isl (fst sample_put)" by code_simp
  then show ?thesis by (cases sample_put) (auto simp: sample_asset_def isl_def split: sum.splits)
qed

theorem put_restore_roundtrip_witness:
  "restore_asset sample_codec (snd sample_put) ''w'' sample_asset = Inr ''hello''"
proof -
  have "fst (get_or_create_workload_key True sample_data_key sample_km ''w'' sample_key_disk) = Inr (1, sample_data_key)" by code_simp
  then have version: "\<forall>v. fst (get_or_create_workload_key True sample_data_key (cs_km sample_store) ''w'' (cs_keys sample_store)) = Inr v \<longrightarrow> fst v < 2 ^ 32"
    by (simp add: sample_store_def)
  have keys: "keys_ok (cs_km sample_store) (cs_keys sample_store)" by (simp add: sample_store_def sample_keys_ok)
  have nonces: "\<forall>i. length (pi_nonce (ai_put sample_asset_io i)) = nonce_size"
    by (simp add: sample_asset_io_def sample_put_io_def nonce_size_def)
  have size: "0 < cs_chunk_size sample_store" "int (cs_chunk_size sample_store) \<le> max_plain_chunk"
    by (simp_all add: sample_store_def max_plain_chunk_def)
  from put_restore_roundtrip [OF sample_codec_laws keys nonces size version sample_put_ok [unfolded sample_put_def]]
  show ?thesis by (simp add: sample_put_def)
qed

theorem chunk_framing_bijective_witness:
  "decode_chunk (the (encode_chunk 1 5 ''nonce'' ''body'')) = Inr (1, 5, ''nonce'', ''body'')"
proof -
  have "encode_chunk 1 5 ''nonce'' ''body'' = Some (the (encode_chunk 1 5 ''nonce'' ''body''))" by code_simp
  then show ?thesis
    using chunk_framing_bijective [of "''nonce''" 1 5 "''body''" "the (encode_chunk 1 5 ''nonce'' ''body'')"]
    by (simp add: max_plain_chunk_def)
qed

text \<open>The same plaintext sealed with another nonce, and its reference.\<close>

definition sample_other :: bytes where
  "sample_other = the (sealed_chunk sample_codec (replicate 12 CHR ''x'') sample_data_key ''w'' 1 ''hello'')"

definition sample_other_ref :: chunk_ref where
  "sample_other_ref = new_ref sample_codec sample_data_key ''w'' 1 0 ''hello'' sample_other"

definition sample_import :: "(chunk_error, bool) outcome \<times> chunk_store" where
  "sample_import = import_chunk sample_codec True True ''w'' sample_other_ref sample_other (snd sample_put)"

lemma sample_import_ok:
  "import_chunk sample_codec True True ''w'' sample_other_ref sample_other (snd sample_put) = (Inr False, snd sample_import)"
proof -
  have "fst sample_import = Inr False" by code_simp
  then show ?thesis by (simp add: sample_import_def prod_eq_iff)
qed

theorem import_chunk_verified_witness:
  "\<not> failed (verify_chunk sample_codec (snd sample_import) ''w'' sample_other_ref)"
proof -
  from import_chunk_verified [OF sample_import_ok] show ?thesis by blast
qed

theorem import_invalidates_other_checkpoints_witness:
  "validate_asset sample_codec (snd sample_put) ''w'' sample_asset
   \<and> \<not> validate_asset sample_codec (snd sample_import) ''w'' sample_asset"
proof -
  let ?old = "hd (am_chunks sample_asset)"
  have "validate_asset sample_codec (snd sample_put) ''w'' sample_asset" by code_simp
  moreover have good: "verify_chunk sample_codec (snd sample_put) ''w'' ?old = Inr (''hello'', ''zstd'')" by code_simp
  have "am_chunks sample_asset = [?old]" by code_simp
  then have used: "?old \<in> set (am_chunks sample_asset)" by (metis list.set_intros(1))
  have same: "cr_address sample_other_ref = cr_address ?old" "cr_key_version sample_other_ref = cr_key_version ?old"
    "cr_cipher_sha sample_other_ref \<noteq> cr_cipher_sha ?old" by code_simp+
  from import_invalidates_other_checkpoints [OF good used same sample_import_ok]
  have "\<not> validate_asset sample_codec (snd sample_import) ''w'' sample_asset" by simp
  ultimately show ?thesis by simp
qed

definition sample_garbage_ref :: chunk_ref where
  "sample_garbage_ref = (hd (am_chunks sample_asset))\<lparr>cr_stored_size := 7, cr_cipher_sha := ''garbage''\<rparr>"

theorem refused_import_deletes_good_chunk_witness:
  "cs_files (snd sample_put) (1, replicate 64 CHR ''0'') \<noteq> None
   \<and> cs_files (snd (import_chunk sample_codec True True ''w'' sample_garbage_ref ''garbage'' (snd sample_put))) (1, replicate 64 CHR ''0'') = None"
proof -
  let ?old = "hd (am_chunks sample_asset)" and ?r = "import_chunk sample_codec True True ''w'' sample_garbage_ref ''garbage'' (snd sample_put)"
  have good: "verify_chunk sample_codec (snd sample_put) ''w'' ?old = Inr (''hello'', ''zstd'')" by code_simp
  have new: "cr_address sample_garbage_ref = cr_address ?old" "cr_key_version sample_garbage_ref = cr_key_version ?old"
    "1 \<le> cr_stored_size sample_garbage_ref" "cr_stored_size sample_garbage_ref \<le> max_encoded_chunk"
    "1 \<le> cr_plain_size sample_garbage_ref" "cr_plain_size sample_garbage_ref \<le> max_plain_chunk"
    "cr_cipher_sha sample_garbage_ref \<noteq> cr_cipher_sha ?old"
    "size_of ''garbage'' = cr_stored_size sample_garbage_ref" "cx_sha sample_codec ''garbage'' = cr_cipher_sha sample_garbage_ref"
    by code_simp+
  have bad: "verify_encoded sample_codec (snd sample_put) ''w'' sample_garbage_ref ''garbage'' = Inl ChunkMagic" by code_simp
  have "cr_key_version ?old = 1" "cr_address ?old = replicate 64 CHR ''0''" by code_simp+
  with refused_import_deletes_good_chunk [OF good new bad, of "fst ?r" "snd ?r"]
  have "cs_files (snd ?r) (1, replicate 64 CHR ''0'') = None" by simp
  moreover have "cs_files (snd sample_put) (1, replicate 64 CHR ''0'') \<noteq> None" by code_simp
  ultimately show ?thesis by blast
qed

end
