(* ===== verification/Transfer_Server.thy ===== *)
theory Transfer_Server
  imports Transfer_Session Restore_Transaction Chunk_Store "HOL-Library.Multiset"
begin

text \<open>
  \<^verbatim>\<open>src/internal/transfer/server.go\<close>: the peer server of a destination agent, over the session store, the
  workload keys, the chunk store, the checkpoint repository and the restorer.  A handler is one function
  from the environment, the authenticated source machine and the request to the response and the new
  state; the handlers whose critical sections can interleave with other requests are also given in two
  parts.  Decoding, signature verification, the inventory and the clock are answers of the environment.
\<close>

section \<open>State and requests\<close>

record checkpoint_manifest =
  mf_id :: string
  mf_source :: string
  mf_workload :: string
  mf_key_version :: nat
  mf_assets :: "asset_manifest list"
  mf_sha :: string

record server =
  sv_sessions :: sessions
  sv_chunks :: chunk_store
  sv_manifests :: "checkpoint_manifest store"
  sv_restorer :: restorer
  sv_organization :: string
  sv_has_meter :: bool
  sv_has_watcher :: bool
  sv_meter :: "(string \<times> string \<times> string \<times> int) list"
  sv_held :: "session list"
  sv_withdrawn :: "(string \<times> string) list"

record reserve_request =
  rq_id :: string
  rq_source :: string
  rq_workload :: string
  rq_estimated :: int
  rq_expires :: time
  rq_purpose :: string

record key_request =
  kq_workload :: string
  kq_version :: nat
  kq_key :: "string option"

record hold_request =
  hq_keep_last :: int
  hq_url :: string
  hq_parsed :: "parsed_url option"
  hq_fencing :: string

datatype response = Refused nat string | GotSession session | GotMissing "chunk_ref list" int
  | GotRestore restore_record | GotWithdrawn

text \<open>
  What a request meets: the clock at its first and its second critical section, whether the session
  writes of the two land, and the answers of everything else it calls.
\<close>

record sv_env =
  q_json :: bool
  q_now :: time
  q_now2 :: time
  q_put :: bool
  q_put2 :: bool
  q_reap :: "string \<Rightarrow> bool"
  q_storage :: "int list option"
  q_key_write :: bool
  q_fresh_key :: key
  q_verified :: bool
  q_saved :: bool
  q_codec :: codec
  q_free :: "int option"
  q_slot :: bool
  q_io :: bool
  q_rename :: bool
  q_meter :: bool
  q_prepare :: rs_env
  q_restore :: "string \<Rightarrow> rs_env"

section \<open>Helpers\<close>

text \<open>\<open>UniqueChunks\<close>: the first reference under each key version and address.\<close>

definition chunk_key :: "chunk_ref \<Rightarrow> nat \<times> string" where
  "chunk_key ref = (cr_key_version ref, cr_address ref)"

fun unique_from :: "(nat \<times> string) list \<Rightarrow> chunk_ref list \<Rightarrow> chunk_ref list" where
  "unique_from seen [] = []"
| "unique_from seen (ref # refs) =
     (if chunk_key ref \<in> set seen then unique_from seen refs
      else ref # unique_from (chunk_key ref # seen) refs)"

definition unique_chunks :: "asset_manifest list \<Rightarrow> chunk_ref list" where
  "unique_chunks assets = unique_from [] (concat (map am_chunks assets))"

definition flat_char :: "char \<Rightarrow> bool" where
  "flat_char c \<longleftrightarrow> c \<in> set (''abcdefghijklmnopqrstuvwxyz'' @ ''ABCDEFGHIJKLMNOPQRSTUVWXYZ'' @ ''0123456789-_'')"

definition valid_checkpoint_id :: "string \<Rightarrow> bool" where
  "valid_checkpoint_id i \<longleftrightarrow> i \<noteq> [] \<and> length i \<le> 64 \<and> list_all flat_char i"

definition load_session_manifest :: "server \<Rightarrow> session \<Rightarrow> checkpoint_manifest option" where
  "load_session_manifest sv s =
     (if \<not> valid_checkpoint_id (ss_checkpoint_id s) then None else st_get (sv_manifests sv) (ss_checkpoint_id s))"

definition manifest_contains_chunk :: "checkpoint_manifest \<Rightarrow> chunk_ref \<Rightarrow> bool" where
  "manifest_contains_chunk m c \<longleftrightarrow>
     list_ex (\<lambda>ref. cr_address ref = cr_address c \<and> cr_key_version ref = cr_key_version c
                 \<and> cr_stored_size ref = cr_stored_size c \<and> cr_cipher_sha ref = cr_cipher_sha c
                 \<and> cr_plain_sha ref = cr_plain_sha c)
       (unique_chunks (mf_assets m))"

definition free_space_floor :: int where
  "free_space_floor = 512 * 2 ^ 20"

definition egress :: string where
  "egress = ''egress''"

definition restore_channel :: string where
  "restore_channel = ''restore''"

definition meter_completion :: "sv_env \<Rightarrow> session \<Rightarrow> string \<Rightarrow> server \<Rightarrow> server" where
  "meter_completion env s channel sv =
     (if \<not> sv_has_meter sv \<or> ss_organization s = [] \<or> ss_received s \<le> 0 \<or> \<not> q_meter env then sv
      else sv\<lparr>sv_meter := sv_meter sv @ [(ss_id s, ss_organization s, channel, ss_received s)]\<rparr>)"

definition rollback_reaped_restore :: "sv_env \<Rightarrow> session \<Rightarrow> restorer \<Rightarrow> restorer" where
  "rollback_reaped_restore env s r =
     (if ss_restore_id s = [] then r else snd (rollback_restore (q_restore env (ss_restore_id s)) (ss_restore_id s) r))"

text \<open>\<open>ReapExpired\<close> with its handler: the restores of the marked sessions are rolled back.\<close>

definition reap :: "sv_env \<Rightarrow> server \<Rightarrow> server" where
  "reap env sv =
     (case reap_expired (q_now env) (q_reap env) (sv_sessions sv) of
        (n, restored, st) \<Rightarrow>
          sv\<lparr>sv_sessions := st, sv_restorer := fold (rollback_reaped_restore env) restored (sv_restorer sv)\<rparr>)"

definition set_sessions :: "sessions \<Rightarrow> server \<Rightarrow> server" where
  "set_sessions st sv = sv\<lparr>sv_sessions := st\<rparr>"

section \<open>Reserving, keys, manifests\<close>

definition h_reserve :: "sv_env \<Rightarrow> string \<Rightarrow> reserve_request \<Rightarrow> server \<Rightarrow> response \<times> server" where
  "h_reserve env source rq sv =
     (if \<not> q_json env then (Refused 400 ''INVALID_JSON'', sv)
      else if rq_source rq \<noteq> source then (Refused 403 ''SOURCE_IDENTITY_MISMATCH'', sv)
      else if \<not> valid_purpose (rq_purpose rq) then (Refused 400 ''PURPOSE_INVALID'', sv)
      else if rq_estimated rq < 0 then (Refused 400 ''ESTIMATE_INVALID'', sv)
      else let sv1 = reap env sv in
      case q_storage env of
        None \<Rightarrow> (Refused 500 ''INVENTORY_FAILED'', sv1)
      | Some free \<Rightarrow>
          if rq_estimated rq > 0 \<and> rq_estimated rq > foldl max 0 free then (Refused 507 ''STORAGE_INSUFFICIENT'', sv1)
          else
            let s = \<lparr>ss_id = rq_id rq, ss_source = source, ss_workload = rq_workload rq, ss_organization = sv_organization sv,
                     ss_checkpoint_id = [], ss_key_version = 0, ss_state = SessionReserved, ss_estimated = rq_estimated rq,
                     ss_received = 0, ss_attempted = 0, ss_restore_id = [], ss_purpose = rq_purpose rq, ss_source_url = [],
                     ss_keep_last = 0, ss_fencing = [], ss_created = 0, ss_updated = 0, ss_expires = rq_expires rq,
                     ss_failure = NoSessionFailure\<rparr>
            in case sessions_reserve (q_now2 env) (q_put env) s (sv_sessions sv1) of
                 (Inl e, st) \<Rightarrow> (Refused 409 ''RESERVATION_REJECTED'', set_sessions st sv1)
               | (Inr s', st) \<Rightarrow> (GotSession s', set_sessions st sv1))"

definition set_key_ready :: "nat \<Rightarrow> session \<Rightarrow> (session_error, session) outcome" where
  "set_key_ready v s =
     (case require_state s [SessionReserved, SessionKeyReady] of
        Inl e \<Rightarrow> Inl e
      | Inr _ \<Rightarrow> Inr (s\<lparr>ss_key_version := v, ss_state := SessionKeyReady\<rparr>))"

definition h_import_key :: "sv_env \<Rightarrow> string \<Rightarrow> string \<Rightarrow> key_request \<Rightarrow> server \<Rightarrow> response \<times> server" where
  "h_import_key env source k rq sv =
     (if \<not> q_json env then (Refused 400 ''INVALID_JSON'', sv)
      else case sessions_get (q_now env) k source (sv_sessions sv) of
        Inl e \<Rightarrow> (Refused 404 ''TRANSFER_NOT_FOUND'', sv)
      | Inr s \<Rightarrow>
          if ss_workload s \<noteq> kq_workload rq then (Refused 409 ''WORKLOAD_MISMATCH'', sv)
          else case kq_key rq of
            None \<Rightarrow> (Refused 400 ''INVALID_KEY'', sv)
          | Some key \<Rightarrow>
              if length key \<noteq> 32 then (Refused 400 ''INVALID_KEY'', sv)
              else case import_workload_key (q_key_write env) (cs_km (sv_chunks sv)) (kq_workload rq) (kq_version rq) key (cs_keys (sv_chunks sv)) of
                (Inl e, keys) \<Rightarrow> (Refused 409 ''KEY_IMPORT_FAILED'', sv\<lparr>sv_chunks := (sv_chunks sv)\<lparr>cs_keys := keys\<rparr>\<rparr>)
              | (Inr _, keys) \<Rightarrow>
                  let sv1 = sv\<lparr>sv_chunks := (sv_chunks sv)\<lparr>cs_keys := keys\<rparr>\<rparr> in
                  case sessions_update (q_now2 env) (q_put env) (ss_id s) source (set_key_ready (kq_version rq)) (sv_sessions sv1) of
                    (Inl e, st) \<Rightarrow> (Refused 409 ''TRANSFER_STATE_INVALID'', set_sessions st sv1)
                  | (Inr s', st) \<Rightarrow> (GotSession s', set_sessions st sv1))"

text \<open>
  \<open>Repository.Save\<close>: the ids are path-safe components, the workload's key is created when there is none,
  the same contents again are accepted and other contents under the id are refused.  A manifest that was
  saved is taken to be readable.
\<close>

definition id_alnum :: "char \<Rightarrow> bool" where
  "id_alnum c \<longleftrightarrow> c \<in> set (''ABCDEFGHIJKLMNOPQRSTUVWXYZ'' @ ''abcdefghijklmnopqrstuvwxyz'' @ ''0123456789'')"

definition validate_id :: "string \<Rightarrow> bool" where
  "validate_id i \<longleftrightarrow> i \<noteq> [] \<and> id_alnum (hd i) \<and> list_all (\<lambda>c. id_alnum c \<or> c \<in> set ''._-'') (tl i) \<and> length i \<le> 128
     \<and> i \<noteq> ''index.enc.json'' \<and> i \<noteq> ''trusted-sources.json''"

definition repository_save :: "sv_env \<Rightarrow> checkpoint_manifest \<Rightarrow> server \<Rightarrow> bool \<times> server" where
  "repository_save env m sv =
     (if \<not> validate_id (mf_id m) \<or> \<not> validate_id (mf_workload m) \<or> \<not> q_verified env then (False, sv)
      else case get_or_create_workload_key (q_key_write env) (q_fresh_key env) (cs_km (sv_chunks sv)) (mf_workload m) (cs_keys (sv_chunks sv)) of
        (res, keys) \<Rightarrow>
          let sv1 = sv\<lparr>sv_chunks := (sv_chunks sv)\<lparr>cs_keys := keys\<rparr>\<rparr> in
          if failed res then (False, sv1)
          else case st_get (sv_manifests sv1) (mf_id m) of
            Some old \<Rightarrow> (mf_sha old = mf_sha m, sv1)
          | None \<Rightarrow> if q_saved env then (True, sv1\<lparr>sv_manifests := st_put (mf_id m) m (sv_manifests sv1)\<rparr>) else (False, sv1))"

lemma repository_save_frame:
  "sv_sessions (snd (repository_save env m sv)) = sv_sessions sv \<and> sv_restorer (snd (repository_save env m sv)) = sv_restorer sv"
  by (simp add: repository_save_def Let_def split: option.split prod.split)

definition h_import_manifest :: "sv_env \<Rightarrow> string \<Rightarrow> string \<Rightarrow> checkpoint_manifest \<Rightarrow> server \<Rightarrow> response \<times> server" where
  "h_import_manifest env source k m sv =
     (if \<not> q_json env then (Refused 400 ''INVALID_JSON'', sv)
      else case sessions_get (q_now env) k source (sv_sessions sv) of
        Inl e \<Rightarrow> (Refused 404 ''TRANSFER_NOT_FOUND'', sv)
      | Inr s \<Rightarrow>
          if failed (require_state s [SessionKeyReady, SessionManifestReady]) then (Refused 409 ''TRANSFER_STATE_INVALID'', sv)
          else if mf_source m \<noteq> source \<or> mf_workload m \<noteq> ss_workload s \<or> mf_key_version m \<noteq> ss_key_version s
          then (Refused 403 ''MANIFEST_IDENTITY_MISMATCH'', sv)
          else if \<not> valid_checkpoint_id (mf_id m) then (Refused 400 ''MANIFEST_INVALID'', sv)
          else if ss_checkpoint_id s \<noteq> [] \<and> ss_checkpoint_id s \<noteq> mf_id m then (Refused 409 ''MANIFEST_REPLACED'', sv)
          else if \<not> q_verified env then (Refused 400 ''MANIFEST_INVALID'', sv)
          else case repository_save env m sv of
            (False, sv1) \<Rightarrow> (Refused 409 ''MANIFEST_IMPORT_FAILED'', sv1)
          | (True, sv1) \<Rightarrow>
              let refs = unique_chunks (mf_assets m) in
              case missing (q_codec env) (sv_chunks sv1) refs of
                Inl e \<Rightarrow> (Refused 500 ''CHUNK_INVENTORY_FAILED'', sv1)
              | Inr absent \<Rightarrow>
                  let known = filter (\<lambda>ref. cr_address ref \<notin> cr_address ` set absent) refs in
                  case sessions_update (q_now2 env) (q_put env) (ss_id s) source
                         (\<lambda>v. Inr (v\<lparr>ss_checkpoint_id := mf_id m, ss_state := SessionManifestReady\<rparr>)) (sv_sessions sv1) of
                    (Inl e, st) \<Rightarrow> (Refused 500 ''TRANSFER_PERSIST_FAILED'', set_sessions st sv1)
                  | (Inr _, st) \<Rightarrow> (GotMissing absent (i64 (sum_list (map cr_plain_size known))), set_sessions st sv1))"

section \<open>Chunks\<close>

text \<open>
  The gate of \<open>importChunk\<close> reserves the declared size in one critical section; all arithmetic is on
  \<open>int64\<close>.  The second part stores the chunk and gives the reservation back when nothing new was stored.
\<close>

definition chunk_gate :: "int \<Rightarrow> session \<Rightarrow> (session_error, session) outcome" where
  "chunk_gate n s =
     (if i64 (ss_received s + n) > quota_limit (ss_estimated s) then Inl TransferQuota
      else if i64 (ss_attempted s + n) > attempt_limit (ss_estimated s) then Inl TransferQuota
      else Inr (s\<lparr>ss_attempted := i64 (ss_attempted s + n), ss_received := i64 (ss_received s + n)\<rparr>))"

definition chunk_release :: "int \<Rightarrow> session \<Rightarrow> (session_error, session) outcome" where
  "chunk_release n s = Inr (s\<lparr>ss_received := i64 (ss_received s - n)\<rparr>)"

definition chunk_admit :: "sv_env \<Rightarrow> session \<Rightarrow> nat option \<Rightarrow> chunk_ref option \<Rightarrow> string \<Rightarrow> server \<Rightarrow> response option" where
  "chunk_admit env s version ref address sv =
     (if failed (require_state s [SessionKeyReady, SessionManifestReady]) then Some (Refused 409 ''TRANSFER_STATE_INVALID'')
      else if version \<noteq> Some (ss_key_version s) then Some (Refused 400 ''KEY_VERSION_INVALID'')
      else case ref of
        None \<Rightarrow> Some (Refused 400 ''CHUNK_REF_INVALID'')
      | Some c \<Rightarrow>
          if cr_address c \<noteq> address \<or> Some (cr_key_version c) \<noteq> version then Some (Refused 400 ''CHUNK_REF_INVALID'')
          else if ss_checkpoint_id s \<noteq> [] \<and> load_session_manifest sv s = None then Some (Refused 500 ''MANIFEST_LOAD_FAILED'')
          else if ss_checkpoint_id s \<noteq> [] \<and> \<not> manifest_contains_chunk (the (load_session_manifest sv s)) c
          then Some (Refused 403 ''CHUNK_NOT_AUTHORIZED'')
          else if (case q_free env of None \<Rightarrow> False | Some free \<Rightarrow> free < free_space_floor) then Some (Refused 507 ''STORAGE_INSUFFICIENT'')
          else if \<not> q_slot env then Some (Refused 503 ''CHUNK_IMPORT_BUSY'')
          else None)"

definition import_chunk_begin ::
  "sv_env \<Rightarrow> string \<Rightarrow> string \<Rightarrow> nat option \<Rightarrow> chunk_ref option \<Rightarrow> string \<Rightarrow> server \<Rightarrow> (response, session) outcome \<times> server" where
  "import_chunk_begin env source k version ref address sv =
     (case sessions_get (q_now env) k source (sv_sessions sv) of
        Inl e \<Rightarrow> (Inl (Refused 404 ''TRANSFER_NOT_FOUND''), sv)
      | Inr s \<Rightarrow>
     (case chunk_admit env s version ref address sv of
        Some r \<Rightarrow> (Inl r, sv)
      | None \<Rightarrow>
     (case sessions_update (q_now env) (q_put env) (ss_id s) source (chunk_gate (cr_stored_size (the ref))) (sv_sessions sv) of
        (Inl e, st) \<Rightarrow>
          (Inl (if e = TransferQuota then Refused 507 ''TRANSFER_QUOTA_EXCEEDED'' else Refused 500 ''TRANSFER_PERSIST_FAILED''), set_sessions st sv)
      | (Inr s', st) \<Rightarrow> (Inr s', set_sessions st sv))))"

definition import_chunk_finish :: "sv_env \<Rightarrow> string \<Rightarrow> session \<Rightarrow> chunk_ref \<Rightarrow> bytes \<Rightarrow> server \<Rightarrow> response \<times> server" where
  "import_chunk_finish env source s ref body sv =
     (case import_chunk (q_codec env) (q_io env) (q_rename env) (ss_workload s) ref body (sv_chunks sv) of
        (res, chunks) \<Rightarrow>
          let sv1 = sv\<lparr>sv_chunks := chunks\<rparr>;
              released = (case res of Inl e \<Rightarrow> True | Inr inserted \<Rightarrow> \<not> inserted);
              upd = sessions_update (q_now2 env) (q_put2 env) (ss_id s) source (chunk_release (cr_stored_size ref)) (sv_sessions sv1);
              sv2 = (if released then set_sessions (snd upd) sv1 else sv1);
              s' = (if released then (case fst upd of Inl e \<Rightarrow> s | Inr u \<Rightarrow> u) else s)
          in case res of Inl e \<Rightarrow> (Refused 400 ''CHUNK_IMPORT_FAILED'', sv2) | Inr inserted \<Rightarrow> (GotSession s', sv2))"

definition h_import_chunk ::
  "sv_env \<Rightarrow> string \<Rightarrow> string \<Rightarrow> nat option \<Rightarrow> chunk_ref option \<Rightarrow> string \<Rightarrow> bytes \<Rightarrow> server \<Rightarrow> response \<times> server" where
  "h_import_chunk env source k version ref address body sv =
     (case import_chunk_begin env source k version ref address sv of
        (Inl r, sv1) \<Rightarrow> (r, sv1)
      | (Inr s, sv1) \<Rightarrow> import_chunk_finish env source s (the ref) body sv1)"

section \<open>Verify, restore, commit, roll back\<close>

definition h_verify :: "sv_env \<Rightarrow> string \<Rightarrow> string \<Rightarrow> server \<Rightarrow> response \<times> server" where
  "h_verify env source k sv =
     (case sessions_get (q_now env) k source (sv_sessions sv) of
        Inl e \<Rightarrow> (Refused 404 ''TRANSFER_NOT_FOUND'', sv)
      | Inr s \<Rightarrow>
          if failed (require_state s [SessionManifestReady, SessionVerified]) then (Refused 409 ''TRANSFER_STATE_INVALID'', sv)
          else case load_session_manifest sv s of
            None \<Rightarrow> (Refused 500 ''MANIFEST_LOAD_FAILED'', sv)
          | Some m \<Rightarrow>
              if \<not> list_all (validate_asset (q_codec env) (sv_chunks sv) (ss_workload s)) (mf_assets m)
              then (Refused 422 ''CHECKPOINT_CORRUPT'', sv)
              else case sessions_update (q_now2 env) (q_put env) (ss_id s) source (\<lambda>v. Inr (v\<lparr>ss_state := SessionVerified\<rparr>)) (sv_sessions sv) of
                (Inl e, st) \<Rightarrow> (Refused 500 ''TRANSFER_PERSIST_FAILED'', set_sessions st sv)
              | (Inr s', st) \<Rightarrow> (GotSession s', set_sessions st sv))"

text \<open>\<open>restore\<close> up to the call of \<open>Prepare\<close>, and from there on.\<close>

definition restore_admit :: "sv_env \<Rightarrow> string \<Rightarrow> string \<Rightarrow> server \<Rightarrow> (response, session) outcome" where
  "restore_admit env source k sv =
     (if \<not> q_json env then Inl (Refused 400 ''INVALID_JSON'')
      else case sessions_get (q_now env) k source (sv_sessions sv) of
        Inl e \<Rightarrow> Inl (Refused 404 ''TRANSFER_NOT_FOUND'')
      | Inr s \<Rightarrow>
          if ss_state s = SessionRestored \<and> ss_restore_id s \<noteq> []
          then Inl (case st_get (rs_records (sv_restorer sv)) (ss_restore_id s) of
                      None \<Rightarrow> Refused 500 ''RESTORE_STATE_MISSING''
                    | Some r \<Rightarrow> GotRestore r)
          else if failed (require_state s [SessionVerified]) then Inl (Refused 409 ''TRANSFER_STATE_INVALID'')
          else if \<not> valid_checkpoint_id (ss_checkpoint_id s) then Inl (Refused 409 ''TRANSFER_STATE_INVALID'')
          else Inr s)"

definition restore_finish :: "sv_env \<Rightarrow> string \<Rightarrow> session \<Rightarrow> server \<Rightarrow> response \<times> server" where
  "restore_finish env source s sv =
     (case prepare (q_prepare env) (sv_restorer sv) of
        (None, r) \<Rightarrow>
          (let st = snd (sessions_update_cleanup (q_now2 env) (q_put env) (ss_id s) source
                           (\<lambda>v. Inr (v\<lparr>ss_state := SessionFailed, ss_failure := RestoreErrorReason\<rparr>)) (sv_sessions sv))
           in (Refused 422 ''RESTORE_FAILED'', sv\<lparr>sv_restorer := r, sv_sessions := st\<rparr>))
      | (Some rec, r) \<Rightarrow>
     (case sessions_update (q_now2 env) (q_put2 env) (ss_id s) source
             (\<lambda>v. Inr (v\<lparr>ss_state := SessionRestored, ss_restore_id := rr_id rec\<rparr>)) (sv_sessions sv) of
        (Inl e, st) \<Rightarrow>
          (Refused 500 ''TRANSFER_PERSIST_FAILED'',
           sv\<lparr>sv_sessions := st, sv_restorer := snd (rollback_restore (q_restore env (rr_id rec)) (rr_id rec) r)\<rparr>)
      | (Inr _, st) \<Rightarrow> (GotRestore rec, sv\<lparr>sv_sessions := st, sv_restorer := r\<rparr>)))"

definition h_restore :: "sv_env \<Rightarrow> string \<Rightarrow> string \<Rightarrow> server \<Rightarrow> response \<times> server" where
  "h_restore env source k sv =
     (case restore_admit env source k sv of Inl r \<Rightarrow> (r, sv) | Inr s \<Rightarrow> restore_finish env source s sv)"

definition set_committed :: "session \<Rightarrow> (session_error, session) outcome" where
  "set_committed s =
     (if ss_state s = SessionCommitted then Inl AlreadyCommitted
      else case require_state s [SessionRestored] of
        Inl e \<Rightarrow> Inl e
      | Inr _ \<Rightarrow> Inr (s\<lparr>ss_state := SessionCommitted\<rparr>))"

text \<open>\<open>commit\<close>: the check and the restorer's commit, then the serialised transition with its metering.\<close>

definition commit_begin :: "sv_env \<Rightarrow> string \<Rightarrow> string \<Rightarrow> server \<Rightarrow> (response, session) outcome \<times> server" where
  "commit_begin env source k sv =
     (case sessions_get (q_now env) k source (sv_sessions sv) of
        Inl e \<Rightarrow> (Inl (Refused 404 ''TRANSFER_NOT_FOUND''), sv)
      | Inr s \<Rightarrow>
          if ss_state s = SessionCommitted then (Inl (GotSession s), sv)
          else if failed (require_state s [SessionRestored]) then (Inl (Refused 409 ''TRANSFER_STATE_INVALID''), sv)
          else case commit (q_restore env (ss_restore_id s)) (ss_restore_id s) (sv_restorer sv) of
            (Inl e, r) \<Rightarrow> (Inl (Refused 500 ''RESTORE_COMMIT_FAILED''), sv\<lparr>sv_restorer := r\<rparr>)
          | (Inr _, r) \<Rightarrow> (Inr s, sv\<lparr>sv_restorer := r\<rparr>))"

definition commit_finish :: "sv_env \<Rightarrow> string \<Rightarrow> session \<Rightarrow> server \<Rightarrow> response \<times> server" where
  "commit_finish env source s sv =
     (case sessions_update (q_now2 env) (q_put env) (ss_id s) source set_committed (sv_sessions sv) of
        (Inl e, st) \<Rightarrow>
          (let sv1 = set_sessions st sv in
           if e = AlreadyCommitted
           then (GotSession (case sessions_get (q_now2 env) (ss_id s) source st of Inl _ \<Rightarrow> s | Inr c \<Rightarrow> c), sv1)
           else if e = WrongState then (Refused 409 ''TRANSFER_STATE_INVALID'', sv1)
           else (Refused 500 ''TRANSFER_PERSIST_FAILED'', sv1))
      | (Inr s', st) \<Rightarrow> (GotSession s', meter_completion env s' egress (set_sessions st sv)))"

definition h_commit :: "sv_env \<Rightarrow> string \<Rightarrow> string \<Rightarrow> server \<Rightarrow> response \<times> server" where
  "h_commit env source k sv =
     (case commit_begin env source k sv of (Inl r, sv1) \<Rightarrow> (r, sv1) | (Inr s, sv1) \<Rightarrow> commit_finish env source s sv1)"

definition h_rollback :: "sv_env \<Rightarrow> string \<Rightarrow> string \<Rightarrow> server \<Rightarrow> response \<times> server" where
  "h_rollback env source k sv =
     (case sessions_get_for_cleanup k source (sv_sessions sv) of
        Inl e \<Rightarrow> (Refused 404 ''TRANSFER_NOT_FOUND'', sv)
      | Inr s \<Rightarrow>
          if ss_state s = SessionCommitted then (Refused 409 ''TRANSFER_ALREADY_COMMITTED'', sv)
          else let rb = (if ss_restore_id s = [] then (True, sv_restorer sv)
                         else case rollback_restore (q_restore env (ss_restore_id s)) (ss_restore_id s) (sv_restorer sv) of
                                (res, r) \<Rightarrow> (\<not> failed res, r));
                   sv1 = sv\<lparr>sv_restorer := snd rb\<rparr> in
          if \<not> fst rb then (Refused 500 ''RESTORE_ROLLBACK_FAILED'', sv1)
          else case sessions_update_cleanup (q_now2 env) (q_put env) (ss_id s) source
                      (\<lambda>v. Inr (v\<lparr>ss_state := SessionRolledBack\<rparr>)) (sv_sessions sv1) of
            (Inl e, st) \<Rightarrow> (Refused 500 ''TRANSFER_PERSIST_FAILED'', set_sessions st sv1)
          | (Inr s', st) \<Rightarrow> (GotSession s', set_sessions st sv1))"

section \<open>Standby replication, reading\<close>

definition set_held :: "hold_request \<Rightarrow> session \<Rightarrow> (session_error, session) outcome" where
  "set_held rq s =
     (if ss_state s = SessionHeld then Inl AlreadyHeld
      else case require_state s [SessionVerified] of
        Inl e \<Rightarrow> Inl e
      | Inr _ \<Rightarrow> Inr (s\<lparr>ss_state := SessionHeld, ss_keep_last := hq_keep_last rq, ss_source_url := hq_url rq, ss_fencing := hq_fencing rq\<rparr>))"

definition watch_held :: "session \<Rightarrow> server \<Rightarrow> server" where
  "watch_held s sv = sv\<lparr>sv_held := sv_held sv @ [s]\<rparr>"

definition plain_https :: "parsed_url option \<Rightarrow> bool" where
  "plain_https u = (case u of None \<Rightarrow> False | Some p \<Rightarrow> u_scheme p = ''https'' \<and> u_host p \<noteq> [] \<and> u_raw_query p = [] \<and> u_fragment p = [])"

definition h_hold :: "sv_env \<Rightarrow> string \<Rightarrow> string \<Rightarrow> hold_request \<Rightarrow> server \<Rightarrow> response \<times> server" where
  "h_hold env source k rq sv =
     (if \<not> sv_has_watcher sv then (Refused 503 ''STANDBY_NOT_AVAILABLE'', sv)
      else if \<not> q_json env then (Refused 400 ''INVALID_JSON'', sv)
      else if hq_keep_last rq < 0 then (Refused 400 ''HOLD_INVALID'', sv)
      else if hq_url rq \<noteq> [] \<and> \<not> plain_https (hq_parsed rq) then (Refused 400 ''HOLD_INVALID'', sv)
      else case sessions_get (q_now env) k source (sv_sessions sv) of
        Inl e \<Rightarrow> (Refused 404 ''TRANSFER_NOT_FOUND'', sv)
      | Inr s \<Rightarrow>
          if ss_state s = SessionHeld then (GotSession s, watch_held s sv)
          else if ss_purpose s \<noteq> purpose_replication then (Refused 409 ''TRANSFER_STATE_INVALID'', sv)
          else if failed (require_state s [SessionVerified]) then (Refused 409 ''TRANSFER_STATE_INVALID'', sv)
          else case sessions_update (q_now2 env) (q_put env) (ss_id s) source (set_held rq) (sv_sessions sv) of
            (Inl e, st) \<Rightarrow>
              (let sv1 = set_sessions st sv in
               if e = AlreadyHeld
               then (let c = (case sessions_get (q_now2 env) (ss_id s) source st of Inl _ \<Rightarrow> s | Inr c \<Rightarrow> c) in (GotSession c, watch_held c sv1))
               else if e = WrongState then (Refused 409 ''TRANSFER_STATE_INVALID'', sv1)
               else (Refused 500 ''TRANSFER_PERSIST_FAILED'', sv1))
          | (Inr s', st) \<Rightarrow> (GotSession s', watch_held s' (meter_completion env s' restore_channel (set_sessions st sv))))"

definition h_withdraw :: "sv_env \<Rightarrow> string \<Rightarrow> string \<Rightarrow> server \<Rightarrow> response \<times> server" where
  "h_withdraw env source w sv =
     (if \<not> sv_has_watcher sv then (Refused 503 ''STANDBY_NOT_AVAILABLE'', sv)
      else if \<not> q_json env then (Refused 400 ''INVALID_JSON'', sv)
      else if trim_space w = [] then (Refused 400 ''WITHDRAW_INVALID'', sv)
      else (GotWithdrawn, sv\<lparr>sv_withdrawn := sv_withdrawn sv @ [(source, w)]\<rparr>))"

definition h_get :: "sv_env \<Rightarrow> string \<Rightarrow> string \<Rightarrow> server \<Rightarrow> response \<times> server" where
  "h_get env source k sv =
     (case sessions_get (q_now env) k source (sv_sessions sv) of
        Inl e \<Rightarrow> (Refused 404 ''TRANSFER_NOT_FOUND'', sv)
      | Inr s \<Rightarrow> (GotSession s, sv))"

definition h_get_cleanup :: "sv_env \<Rightarrow> string \<Rightarrow> string \<Rightarrow> server \<Rightarrow> response \<times> server" where
  "h_get_cleanup env source k sv =
     (case sessions_get_for_cleanup k source (sv_sessions sv) of
        Inl e \<Rightarrow> (Refused 404 ''TRANSFER_NOT_FOUND'', sv)
      | Inr s \<Rightarrow> (GotSession s, sv))"

section \<open>Sessions and restores stay linked\<close>

text \<open>
  What the server keeps between a session and the restore it started: a committed session has a
  committed restore, a rolled back one with a restore has a rolled back restore, and only a session that was
  restored names a restore.  The laws of the restorer make this stable under everything the restorer does.
\<close>

context restore_service
begin

definition evolves :: "'r \<Rightarrow> 'r \<Rightarrow> bool" where
  "evolves r r' \<longleftrightarrow> (\<forall>k. (state_of r k \<in> {Some RestoreCommitted, Some RestoreRolledBack} \<longrightarrow> state_of r' k = state_of r k)
     \<and> (state_of r k \<noteq> None \<longrightarrow> state_of r' k \<noteq> None))"

definition linked :: "'r \<Rightarrow> session \<Rightarrow> bool" where
  "linked r s \<longleftrightarrow>
     (ss_state s = SessionCommitted \<longrightarrow> state_of r (ss_restore_id s) = Some RestoreCommitted)
   \<and> (ss_state s = SessionRolledBack \<longrightarrow> ss_restore_id s \<noteq> [] \<longrightarrow> state_of r (ss_restore_id s) = Some RestoreRolledBack)
   \<and> (ss_restore_id s \<noteq> [] \<longrightarrow> state_of r (ss_restore_id s) \<noteq> None
        \<and> ss_state s \<in> {SessionRestored, SessionCommitted, SessionRolledBack, SessionFailed})"

lemma evolves_refl: "evolves r r"
  by (simp add: evolves_def)

lemma evolves_trans: "evolves a b \<Longrightarrow> evolves b c \<Longrightarrow> evolves a c"
  by (simp add: evolves_def)

lemma linked_evolves: "linked r s \<Longrightarrow> evolves r r' \<Longrightarrow> linked r' s"
  by (auto simp: linked_def evolves_def)

lemma prepare_evolves:
  assumes "service_ok s" and "unused e s" and "prepare_op e s = (out, s')"
  shows "evolves s s' \<and> service_ok s'"
proof -
  note law = prepare_law [OF assms]
  have "(state_of s k \<in> {Some RestoreCommitted, Some RestoreRolledBack} \<longrightarrow> state_of s' k = state_of s k)
     \<and> (state_of s k \<noteq> None \<longrightarrow> state_of s' k \<noteq> None)" for k
    using law by (cases "k = ident e") simp_all
  with law show ?thesis by (simp add: evolves_def)
qed

lemma commit_evolves:
  assumes "service_ok s" and "commit_op e k s = (res, s')"
  shows "evolves s s' \<and> service_ok s'"
proof -
  note law = commit_law [OF assms]
  have "(state_of s j \<in> {Some RestoreCommitted, Some RestoreRolledBack} \<longrightarrow> state_of s' j = state_of s j)
     \<and> (state_of s j \<noteq> None \<longrightarrow> state_of s' j \<noteq> None)" for j
    using law by (cases "j = k"; cases "failed res") auto
  with law show ?thesis by (simp add: evolves_def)
qed

lemma rollback_evolves:
  assumes "service_ok s" and "rollback_op e k s = (res, s')"
  shows "evolves s s' \<and> service_ok s'"
proof -
  note law = rollback_law [OF assms]
  have "(state_of s j \<in> {Some RestoreCommitted, Some RestoreRolledBack} \<longrightarrow> state_of s' j = state_of s j)
     \<and> (state_of s j \<noteq> None \<longrightarrow> state_of s' j \<noteq> None)" for j
    using law by (cases "j = k") auto
  with law show ?thesis by (simp add: evolves_def)
qed

end

section \<open>Requests\<close>

datatype request = RqReserve reserve_request | RqKey string key_request | RqManifest string checkpoint_manifest
  | RqChunk string "nat option" "chunk_ref option" string bytes | RqVerify string | RqRestore string | RqCommit string
  | RqRollback string | RqHold string hold_request | RqWithdraw string | RqGet string | RqGetCleanup string

fun serve :: "sv_env \<Rightarrow> string \<Rightarrow> request \<Rightarrow> server \<Rightarrow> response \<times> server" where
  "serve env source (RqReserve rq) sv = h_reserve env source rq sv"
| "serve env source (RqKey k rq) sv = h_import_key env source k rq sv"
| "serve env source (RqManifest k m) sv = h_import_manifest env source k m sv"
| "serve env source (RqChunk k v ref a body) sv = h_import_chunk env source k v ref a body sv"
| "serve env source (RqVerify k) sv = h_verify env source k sv"
| "serve env source (RqRestore k) sv = h_restore env source k sv"
| "serve env source (RqCommit k) sv = h_commit env source k sv"
| "serve env source (RqRollback k) sv = h_rollback env source k sv"
| "serve env source (RqHold k rq) sv = h_hold env source k rq sv"
| "serve env source (RqWithdraw w) sv = h_withdraw env source w sv"
| "serve env source (RqGet k) sv = h_get env source k sv"
| "serve env source (RqGetCleanup k) sv = h_get_cleanup env source k sv"

text \<open>Requests served one after the other; every restore transaction gets an unused id.\<close>

fun serve_run :: "(sv_env \<times> string \<times> request) list \<Rightarrow> server \<Rightarrow> (response list \<times> server) option" where
  "serve_run [] sv = Some ([], sv)"
| "serve_run ((env, source, rq) # rqs) sv =
     (if \<not> fresh_id (q_prepare env) (sv_restorer sv) then None
      else case serve env source rq sv of
        (resp, sv1) \<Rightarrow> map_option (\<lambda>(resps, sv2). (resp # resps, sv2)) (serve_run rqs sv1))"

definition settled_session :: "session \<Rightarrow> bool" where
  "settled_session s \<longleftrightarrow> ss_state s = SessionCommitted \<or> ss_state s = SessionRolledBack"

definition keeps_settled :: "sessions \<Rightarrow> sessions \<Rightarrow> bool" where
  "keeps_settled st st' \<longleftrightarrow> (\<forall>k s. st_get st k = Some s \<longrightarrow>
     (\<exists>s'. st_get st' k = Some s' \<and> (settled_session s \<longrightarrow> ss_state s' = ss_state s \<and> ss_restore_id s' = ss_restore_id s)))"

definition link_ok :: "sessions \<Rightarrow> restorer \<Rightarrow> bool" where
  "link_ok st r \<longleftrightarrow> sessions_ok st \<and> rs_ok r \<and> (\<forall>k s. st_get st k = Some s \<longrightarrow> rsv.linked r s)"

definition server_ok :: "server \<Rightarrow> bool" where
  "server_ok sv \<longleftrightarrow> link_ok (sv_sessions sv) (sv_restorer sv)"

lemma keeps_settled_refl [simp]: "keeps_settled st st"
  by (simp add: keeps_settled_def)

lemma keeps_settled_trans: "keeps_settled a b \<Longrightarrow> keeps_settled b c \<Longrightarrow> keeps_settled a c"
  unfolding keeps_settled_def settled_session_def by metis

lemma link_ok_restorer: "link_ok st r \<Longrightarrow> rsv.evolves r r' \<Longrightarrow> rs_ok r' \<Longrightarrow> link_ok st r'"
  unfolding link_ok_def by (meson rsv.linked_evolves)

lemma link_ok_put:
  assumes "link_ok st r" and "st_get st k = Some s" and "ss_id s' = k" and "rsv.linked r s'"
    and "settled_session s \<longrightarrow> ss_state s' = ss_state s \<and> ss_restore_id s' = ss_restore_id s"
  shows "link_ok (st_put k s' st) r \<and> keeps_settled st (st_put k s' st)"
  using assms by (auto simp: link_ok_def sessions_ok_def keeps_settled_def)

lemma linked_updated [simp]: "rsv.linked r (s\<lparr>ss_updated := t\<rparr>) = rsv.linked r s"
  by (simp add: rsv.linked_def)

text \<open>What an update callback must do for the invariant: keep the id, the link, and a settled state.\<close>

definition safe_update :: "restorer \<Rightarrow> sessions \<Rightarrow> string \<Rightarrow> (session \<Rightarrow> (session_error, session) outcome) \<Rightarrow> bool" where
  "safe_update r st k f \<longleftrightarrow> (\<forall>s s'. st_get st k = Some s \<longrightarrow> f s = Inr s' \<longrightarrow> ss_id s' = ss_id s \<and> rsv.linked r s'
     \<and> (settled_session s \<longrightarrow> ss_state s' = ss_state s \<and> ss_restore_id s' = ss_restore_id s))"

lemma sessions_update_safe:
  assumes "link_ok st r" and "safe_update r st k f" and "sessions_update now ok k source f st = (res, st')"
  shows "link_ok st' r \<and> keeps_settled st st'"
  using sessions_update_shape [OF assms(3)]
proof
  assume "(\<exists>e. res = Inl e) \<and> st' = st"
  with assms(1) show ?thesis by simp
next
  assume "\<exists>s s'. st_get st k = Some s \<and> ss_source s = source \<and> \<not> session_expired s now \<and> f s = Inr s'
      \<and> res = Inr (s'\<lparr>ss_updated := now\<rparr>) \<and> st' = st_put k (s'\<lparr>ss_updated := now\<rparr>) st"
  then obtain s s' where *: "st_get st k = Some s" "f s = Inr s'" "st' = st_put k (s'\<lparr>ss_updated := now\<rparr>) st" by blast
  then have "ss_id s = k" using assms(1) by (simp add: link_ok_def sessions_ok_def)
  with * assms(2) show ?thesis
    using link_ok_put [OF assms(1) *(1), of "s'\<lparr>ss_updated := now\<rparr>"] by (simp add: safe_update_def)
qed

lemma sessions_update_cleanup_safe:
  assumes "link_ok st r" and "safe_update r st k f" and "sessions_update_cleanup now ok k source f st = (res, st')"
  shows "link_ok st' r \<and> keeps_settled st st'"
  using sessions_update_cleanup_shape [OF assms(3)]
proof
  assume "(\<exists>e. res = Inl e) \<and> st' = st"
  with assms(1) show ?thesis by simp
next
  assume "\<exists>s s'. st_get st k = Some s \<and> ss_source s = source \<and> f s = Inr s'
      \<and> res = Inr (s'\<lparr>ss_updated := now\<rparr>) \<and> st' = st_put k (s'\<lparr>ss_updated := now\<rparr>) st"
  then obtain s s' where *: "st_get st k = Some s" "f s = Inr s'" "st' = st_put k (s'\<lparr>ss_updated := now\<rparr>) st" by blast
  then have "ss_id s = k" using assms(1) by (simp add: link_ok_def sessions_ok_def)
  with * assms(2) show ?thesis
    using link_ok_put [OF assms(1) *(1), of "s'\<lparr>ss_updated := now\<rparr>"] by (simp add: safe_update_def)
qed
text \<open>A handler keeps the link invariant and every settled session.\<close>

definition safe_step :: "server \<Rightarrow> server \<Rightarrow> bool" where
  "safe_step sv sv' \<longleftrightarrow> server_ok sv' \<and> keeps_settled (sv_sessions sv) (sv_sessions sv')"

lemma safe_step_refl: "server_ok sv \<Longrightarrow> safe_step sv sv"
  by (simp add: safe_step_def)

lemma safe_step_trans: "safe_step a b \<Longrightarrow> safe_step b c \<Longrightarrow> safe_step a c"
  unfolding safe_step_def using keeps_settled_trans by blast

lemma safe_step_same:
  "server_ok sv \<Longrightarrow> sv_sessions sv' = sv_sessions sv \<Longrightarrow> sv_restorer sv' = sv_restorer sv \<Longrightarrow> safe_step sv sv'"
  by (simp add: safe_step_def server_ok_def)

lemma safe_step_update:
  assumes "server_ok sv" and "safe_update (sv_restorer sv) (sv_sessions sv) k f"
    and "sv_restorer sv' = sv_restorer sv"
    and "sv_sessions sv' = snd (sessions_update now ok k source f (sv_sessions sv))"
  shows "safe_step sv sv'"
  using sessions_update_safe [of "sv_sessions sv" "sv_restorer sv" k f now ok source] assms
  by (cases "sessions_update now ok k source f (sv_sessions sv)") (simp add: safe_step_def server_ok_def)

lemma safe_step_update_cleanup:
  assumes "server_ok sv" and "safe_update (sv_restorer sv) (sv_sessions sv) k f"
    and "sv_restorer sv' = sv_restorer sv"
    and "sv_sessions sv' = snd (sessions_update_cleanup now ok k source f (sv_sessions sv))"
  shows "safe_step sv sv'"
  using sessions_update_cleanup_safe [of "sv_sessions sv" "sv_restorer sv" k f now ok source] assms
  by (cases "sessions_update_cleanup now ok k source f (sv_sessions sv)") (simp add: safe_step_def server_ok_def)

lemma safe_step_restorer:
  assumes "server_ok sv" and "rsv.evolves (sv_restorer sv) r \<and> rs_ok r"
  shows "safe_step sv (sv\<lparr>sv_restorer := r\<rparr>)"
  using assms link_ok_restorer [of "sv_sessions sv" "sv_restorer sv" r] by (simp add: safe_step_def server_ok_def)

lemma reaped_evolves:
  "rs_ok r \<Longrightarrow> rsv.evolves r (fold (rollback_reaped_restore env) ss r) \<and> rs_ok (fold (rollback_reaped_restore env) ss r)"
proof (induction ss arbitrary: r)
  case Nil
  then show ?case by (simp add: rsv.evolves_refl)
next
  case (Cons s ss)
  let ?r = "rollback_reaped_restore env s r"
  have "rsv.evolves r ?r \<and> rs_ok ?r"
    using Cons.prems rsv.rollback_evolves [OF Cons.prems surjective_pairing]
    by (simp add: rollback_reaped_restore_def rsv.evolves_refl)
  with Cons.IH [of ?r] rsv.evolves_trans show ?case by auto
qed

lemma linked_reap: "rsv.linked r s \<Longrightarrow> rsv.linked r (reap_session now s)"
  by (simp add: rsv.linked_def reap_session_def)

lemma reap_safe:
  assumes "server_ok sv"
  shows "safe_step sv (reap env sv)"
proof -
  let ?st = "sv_sessions sv" and ?now = "q_now env" and ?ok = "q_reap env"
  have ok: "sessions_ok ?st" and rs: "rs_ok (sv_restorer sv)" using assms by (simp_all add: server_ok_def link_ok_def)
  obtain n restored st where run: "reap_expired ?now ?ok ?st = (n, restored, st)" by (metis prod_cases3)
  then have st: "st = map (\<lambda>(k, s). (k, if reapable ?now ?ok s then reap_session ?now s else s)) ?st"
    unfolding reap_expired_eq [OF ok] by simp
  have get: "st_get st k = map_option (\<lambda>s. if reapable ?now ?ok s then reap_session ?now s else s) (st_get ?st k)" for k
    using st_get_map [of "\<lambda>s. if reapable ?now ?ok s then reap_session ?now s else s" ?st k] by (simp add: st)
  have ok': "sessions_ok st"
    using ok get by (auto simp: sessions_ok_def st st_ok_map reap_session_def)
  have "link_ok st (sv_restorer sv)"
    using assms ok' get linked_reap by (auto simp: server_ok_def link_ok_def)
  moreover have "keeps_settled ?st st"
    by (auto simp: keeps_settled_def get reapable_def session_expired_def settled_session_def)
  ultimately show ?thesis
    using link_ok_restorer [of st "sv_restorer sv"] reaped_evolves [OF rs, of env restored] run
    by (simp add: safe_step_def server_ok_def reap_def)
qed
lemma sessions_reserve_safe:
  assumes "link_ok st r" and "ss_restore_id s = []" and "sessions_reserve now ok s st = (res, st')"
  shows "link_ok st' r \<and> keeps_settled st st'"
proof -
  consider "st' = st" | s' where "st_get st (ss_id s) = None" "st' = st_put (ss_id s) s' st"
      "ss_state s' = SessionReserved" "ss_restore_id s' = []" "ss_id s' = ss_id s"
    using sessions_reserve_shape [OF assms(3)] assms(2) by auto
  then show ?thesis
  proof cases
    case 1
    with assms(1) show ?thesis by simp
  next
    case 2
    with assms(1) show ?thesis
      by (auto simp: link_ok_def sessions_ok_def keeps_settled_def rsv.linked_def)
  qed
qed

lemma reserve_safe: "server_ok sv \<Longrightarrow> h_reserve env source rq sv = (resp, sv') \<Longrightarrow> safe_step sv sv'"
proof -
  assume ok: "server_ok sv" and run: "h_reserve env source rq sv = (resp, sv')"
  note reaped = reap_safe [OF ok, of env]
  have "safe_step (reap env sv) (set_sessions st (reap env sv))"
    if "sessions_reserve now b s (sv_sessions (reap env sv)) = (res, st)" "ss_restore_id s = []" for now b s res st
    using sessions_reserve_safe [where r = "sv_restorer (reap env sv)", OF _ that(2,1)] reaped by (simp add: safe_step_def server_ok_def set_sessions_def)
  with reaped have step: "safe_step sv (set_sessions st (reap env sv))"
    if "sessions_reserve now b s (sv_sessions (reap env sv)) = (res, st)" "ss_restore_id s = []" for now b s res st
    using that safe_step_trans by blast
  show ?thesis
    using run reaped step safe_step_refl [OF ok]
    by (auto simp: h_reserve_def Let_def split: if_splits option.splits sum.splits prod.splits)
qed

lemma session_of:
  "sessions_get now k source st = Inr s \<Longrightarrow> sessions_ok st \<Longrightarrow> st_get st (ss_id s) = Some s \<and> st_get st k = Some s"
  by (auto simp: sessions_get_Inr sessions_ok_def)

lemma server_sessions_ok: "server_ok sv \<Longrightarrow> sessions_ok (sv_sessions sv)"
  by (simp add: server_ok_def link_ok_def)

lemma server_linked: "server_ok sv \<Longrightarrow> st_get (sv_sessions sv) k = Some s \<Longrightarrow> rsv.linked (sv_restorer sv) s"
  by (simp add: server_ok_def link_ok_def)

text \<open>Updates of a session that is neither committed nor rolled back and that keep its restore.\<close>

lemma safe_update_open:
  assumes "server_ok sv" and "\<And>s s'. st_get (sv_sessions sv) k = Some s \<Longrightarrow> f s = Inr s' \<Longrightarrow>
      ss_id s' = ss_id s \<and> ss_restore_id s' = ss_restore_id s \<and> \<not> settled_session s'
      \<and> (settled_session s \<longrightarrow> ss_state s' = ss_state s)
      \<and> (ss_state s' = SessionFailed \<or> ss_state s \<notin> {SessionRestored, SessionCommitted, SessionRolledBack, SessionFailed})"
  shows "safe_update (sv_restorer sv) (sv_sessions sv) k f"
  unfolding safe_update_def
proof (intro allI impI)
  fix s s' assume s: "st_get (sv_sessions sv) k = Some s" and f: "f s = Inr s'"
  have "rsv.linked (sv_restorer sv) s" by (rule server_linked [OF assms(1) s])
  with assms(2) [OF s f] show "ss_id s' = ss_id s \<and> rsv.linked (sv_restorer sv) s'
      \<and> (settled_session s \<longrightarrow> ss_state s' = ss_state s \<and> ss_restore_id s' = ss_restore_id s)"
    by (auto simp: rsv.linked_def settled_session_def)
qed

lemma require_state_ok: "\<not> failed (require_state s allowed) \<longleftrightarrow> ss_state s \<in> set allowed"
  by (simp add: require_state_def)

lemma import_key_safe:
  assumes "server_ok sv" and "h_import_key env source k rq sv = (resp, sv')"
  shows "safe_step sv sv'"
proof -
  have "safe_update (sv_restorer sv) (sv_sessions sv) j (set_key_ready v)" for j v
    using assms(1) by (rule safe_update_open)
      (auto simp: set_key_ready_def require_state_def settled_session_def split: if_splits)
  then have upd: "safe_step sv (set_sessions (snd (sessions_update now b j source (set_key_ready v) (sv_sessions sv))) (sv\<lparr>sv_chunks := cs\<rparr>))" for now b j v cs
    by (intro safe_step_update [OF assms(1), where now = now and ok = b and source = source]) (simp_all add: set_sessions_def)
  have same: "safe_step sv (sv\<lparr>sv_chunks := cs\<rparr>)" for cs by (rule safe_step_same [OF assms(1)]) simp_all
  show ?thesis
    using assms(2) same upd safe_step_refl [OF assms(1)]
    by (auto simp: h_import_key_def Let_def split: if_splits option.splits sum.splits prod.splits) (metis snd_conv)+
qed
text \<open>The shape shared by the handlers: an update of the session that was just read.\<close>

lemma safe_step_set:
  assumes "server_ok sv" and "safe_update (sv_restorer sv) (sv_sessions sv) j f"
    and "sessions_update now b j source f (sv_sessions sv) = (res, st)"
    and "sv_sessions sv' = st" and "sv_restorer sv' = sv_restorer sv"
  shows "safe_step sv sv'"
  by (rule safe_step_update [OF assms(1,2), where now = now and ok = b and source = source]) (simp_all add: assms)

lemma import_manifest_safe:
  assumes "server_ok sv" and "h_import_manifest env source k m sv = (resp, sv')"
  shows "safe_step sv sv'"
proof (cases "sessions_get (q_now env) k source (sv_sessions sv)")
  case (Inl e)
  with assms safe_step_refl show ?thesis by (auto simp: h_import_manifest_def split: if_splits)
next
  case (Inr s)
  note s = session_of [OF Inr server_sessions_ok [OF assms(1)]]
  note frame = repository_save_frame [of env m sv]
  have same: "safe_step sv sv1" if "repository_save env m sv = (b, sv1)" for b sv1
    by (rule safe_step_same [OF assms(1)]) (use frame that in simp_all)
  show ?thesis
  proof (cases "ss_state s \<in> {SessionKeyReady, SessionManifestReady}")
    case True
    let ?f = "\<lambda>v. Inr (v\<lparr>ss_checkpoint_id := mf_id m, ss_state := SessionManifestReady\<rparr>)"
    have "safe_update (sv_restorer sv) (sv_sessions sv) (ss_id s) ?f"
      using assms(1) by (rule safe_update_open) (use s True in \<open>auto simp: settled_session_def\<close>)
    from safe_step_set [OF assms(1) this] have upd: "safe_step sv (set_sessions st sv1)"
      if "sessions_update now b (ss_id s) source ?f (sv_sessions sv1) = (res, st)" and "repository_save env m sv = (b', sv1)"
      for now b b' res st sv1
      using that frame by (simp add: set_sessions_def)
    show ?thesis
      using assms(2) Inr same upd safe_step_refl [OF assms(1)]
      by (auto simp: h_import_manifest_def Let_def split: if_splits sum.splits prod.splits bool.splits)
  next
    case False
    then have "failed (require_state s [SessionKeyReady, SessionManifestReady])" by (simp add: require_state_def)
    with assms Inr safe_step_refl show ?thesis by (auto simp: h_import_manifest_def split: if_splits)
  qed
qed

lemma chunk_gate_Inr: "chunk_gate n s = Inr s' \<Longrightarrow>
    ss_id s' = ss_id s \<and> ss_restore_id s' = ss_restore_id s \<and> ss_state s' = ss_state s"
  by (auto simp: chunk_gate_def split: if_splits)

lemma safe_update_chunk:
  assumes "server_ok sv" and "\<And>s s'. f s = Inr s' \<Longrightarrow> ss_id s' = ss_id s \<and> ss_restore_id s' = ss_restore_id s \<and> ss_state s' = ss_state s"
  shows "safe_update (sv_restorer sv) (sv_sessions sv) k f"
  using assms(2) server_linked [OF assms(1), of k] unfolding safe_update_def rsv.linked_def by fastforce

lemma import_chunk_begin_safe:
  assumes "server_ok sv" and "import_chunk_begin env source k v ref a sv = (res, sv')"
  shows "safe_step sv sv'"
proof -
  have "safe_update (sv_restorer sv) (sv_sessions sv) j (chunk_gate n)" for j n
    using assms(1) by (rule safe_update_chunk) (rule chunk_gate_Inr)
  from safe_step_set [OF assms(1) this] have upd: "safe_step sv (set_sessions st sv)"
    if "sessions_update now b j source (chunk_gate n) (sv_sessions sv) = (res, st)" for now b j n res st
    using that by (simp add: set_sessions_def)
  show ?thesis
    using assms(2) upd safe_step_refl [OF assms(1)]
    by (auto simp: import_chunk_begin_def split: sum.splits option.splits prod.splits)
qed

lemma import_chunk_finish_safe:
  assumes "server_ok sv" and "import_chunk_finish env source s ref body sv = (resp, sv')"
  shows "safe_step sv sv'"
proof -
  have "safe_update (sv_restorer sv) (sv_sessions sv) j (chunk_release n)" for j n
    using assms(1) by (rule safe_update_chunk) (auto simp: chunk_release_def)
  from safe_step_update [OF assms(1) this] have upd:
    "safe_step sv (set_sessions (snd (sessions_update now b j source (chunk_release n) (sv_sessions sv))) (sv\<lparr>sv_chunks := cs\<rparr>))" for now b j n cs
    by (simp add: set_sessions_def)
  have same: "safe_step sv (sv\<lparr>sv_chunks := cs\<rparr>)" for cs by (rule safe_step_same [OF assms(1)]) simp_all
  show ?thesis
    using assms(2) upd same
    by (auto simp: import_chunk_finish_def Let_def split: sum.splits prod.splits if_splits)
qed

lemma import_chunk_safe:
  assumes "server_ok sv" and "h_import_chunk env source k v ref a body sv = (resp, sv')"
  shows "safe_step sv sv'"
proof -
  obtain res sv1 where b: "import_chunk_begin env source k v ref a sv = (res, sv1)" by fastforce
  note one = import_chunk_begin_safe [OF assms(1) b]
  then have "server_ok sv1" by (simp add: safe_step_def)
  with assms(2) b one import_chunk_finish_safe safe_step_trans show ?thesis
    by (auto simp: h_import_chunk_def split: sum.splits)
qed

lemma verify_safe:
  assumes "server_ok sv" and "h_verify env source k sv = (resp, sv')"
  shows "safe_step sv sv'"
proof (cases "sessions_get (q_now env) k source (sv_sessions sv)")
  case (Inl e)
  with assms safe_step_refl show ?thesis by (auto simp: h_verify_def)
next
  case (Inr s)
  note s = session_of [OF Inr server_sessions_ok [OF assms(1)]]
  show ?thesis
  proof (cases "ss_state s \<in> {SessionManifestReady, SessionVerified}")
    case True
    let ?f = "\<lambda>v. Inr (v\<lparr>ss_state := SessionVerified\<rparr>)"
    have "safe_update (sv_restorer sv) (sv_sessions sv) (ss_id s) ?f"
      using assms(1) by (rule safe_update_open) (use s True in \<open>auto simp: settled_session_def\<close>)
    from safe_step_set [OF assms(1) this] have upd: "safe_step sv (set_sessions st sv)"
      if "sessions_update now b (ss_id s) source ?f (sv_sessions sv) = (res, st)" for now b res st
      using that by (simp add: set_sessions_def)
    show ?thesis
      using assms(2) Inr upd safe_step_refl [OF assms(1)]
      by (auto simp: h_verify_def split: if_splits sum.splits prod.splits option.splits)
  next
    case False
    then have "failed (require_state s [SessionManifestReady, SessionVerified])" by (simp add: require_state_def)
    with assms Inr safe_step_refl show ?thesis by (auto simp: h_verify_def)
  qed
qed
lemma restore_finish_safe:
  assumes "server_ok sv" and "fresh_id (q_prepare env) (sv_restorer sv)"
    and "st_get (sv_sessions sv) (ss_id s) = Some s" and "ss_state s = SessionVerified"
    and "restore_finish env source s sv = (resp, sv')"
  shows "safe_step sv sv'"
proof -
  have rs: "rs_ok (sv_restorer sv)" using assms(1) by (simp add: server_ok_def link_ok_def)
  obtain out r where prep: "prepare (q_prepare env) (sv_restorer sv) = (out, r)" by fastforce
  note law = rsv.prepare_law [OF rs assms(2) prep]
  let ?sv = "sv\<lparr>sv_restorer := r\<rparr>"
  have one: "safe_step sv ?sv" using safe_step_restorer [OF assms(1)] rsv.prepare_evolves [OF rs assms(2) prep] by simp
  then have ok: "server_ok ?sv" by (simp add: safe_step_def)
  have open_s: "\<not> settled_session s" using assms(4) by (simp add: settled_session_def)
  show ?thesis
  proof (cases out)
    case None
    let ?f = "\<lambda>v. Inr (v\<lparr>ss_state := SessionFailed, ss_failure := RestoreErrorReason\<rparr>)"
    have "safe_update (sv_restorer ?sv) (sv_sessions ?sv) (ss_id s) ?f"
      using ok by (rule safe_update_open) (use assms(3) open_s in \<open>auto simp: settled_session_def\<close>)
    from safe_step_update_cleanup [OF ok this, of "sv'" "q_now2 env" "q_put env" source] assms(5) prep None
    have "safe_step ?sv sv'" by (auto simp: restore_finish_def Let_def)
    with one show ?thesis by (rule safe_step_trans)
  next
    case (Some rec)
    let ?f = "\<lambda>v. Inr (v\<lparr>ss_state := SessionRestored, ss_restore_id := rr_id rec\<rparr>)"
    have "safe_update (sv_restorer ?sv) (sv_sessions ?sv) (ss_id s) ?f"
      using assms(3) open_s law Some by (auto simp: safe_update_def rsv.linked_def)
    note upd = safe_step_set [OF ok this]
    obtain res st where u: "sessions_update (q_now2 env) (q_put2 env) (ss_id s) source ?f (sv_sessions sv) = (res, st)" by fastforce
    from upd [of "q_now2 env" "q_put2 env" source res st "?sv\<lparr>sv_sessions := st\<rparr>"] u
    have two: "safe_step ?sv (?sv\<lparr>sv_sessions := st\<rparr>)" by simp
    show ?thesis
    proof (cases res)
      case (Inr x)
      then have "sv' = ?sv\<lparr>sv_sessions := st\<rparr>" using assms(5) prep Some u by (auto simp: restore_finish_def)
      with one two safe_step_trans show ?thesis by blast
    next
      case (Inl e)
      let ?r = "snd (rollback_restore (q_restore env (rr_id rec)) (rr_id rec) r)"
      have ok2: "server_ok (?sv\<lparr>sv_sessions := st\<rparr>)" using two by (simp add: safe_step_def)
      have "rs_ok r" using law by simp
      from rsv.rollback_evolves [OF this surjective_pairing]
      have "safe_step (?sv\<lparr>sv_sessions := st\<rparr>) (?sv\<lparr>sv_sessions := st, sv_restorer := ?r\<rparr>)"
        using safe_step_restorer [OF ok2] by simp
      moreover have "sv' = ?sv\<lparr>sv_sessions := st, sv_restorer := ?r\<rparr>" using assms(5) prep Some u Inl by (auto simp: restore_finish_def)
      ultimately show ?thesis using one two safe_step_trans by metis
    qed
  qed
qed

lemma restore_safe:
  assumes "server_ok sv" and "fresh_id (q_prepare env) (sv_restorer sv)" and "h_restore env source k sv = (resp, sv')"
  shows "safe_step sv sv'"
proof (cases "restore_admit env source k sv")
  case (Inl r)
  with assms safe_step_refl show ?thesis by (simp add: h_restore_def)
next
  case (Inr s)
  then have "sessions_get (q_now env) k source (sv_sessions sv) = Inr s" "ss_state s = SessionVerified"
    by (auto simp: restore_admit_def require_state_def split: if_splits sum.splits)
  with session_of [OF _ server_sessions_ok [OF assms(1)]]
  have "st_get (sv_sessions sv) (ss_id s) = Some s" by blast
  from restore_finish_safe [OF assms(1,2) this \<open>ss_state s = SessionVerified\<close>] Inr assms(3) show ?thesis by (simp add: h_restore_def)
qed

lemma meter_frame [simp]:
  "sv_sessions (meter_completion env s c sv) = sv_sessions sv" "sv_restorer (meter_completion env s c sv) = sv_restorer sv"
  by (simp_all add: meter_completion_def)

lemma commit_begin_safe:
  assumes "server_ok sv" and "commit_begin env source k sv = (res, sv')"
  shows "safe_step sv sv' \<and> sv_sessions sv' = sv_sessions sv
    \<and> (\<forall>s. res = Inr s \<longrightarrow> st_get (sv_sessions sv) (ss_id s) = Some s \<and> rs_state (sv_restorer sv') (ss_restore_id s) = Some RestoreCommitted)"
proof (cases "sessions_get (q_now env) k source (sv_sessions sv)")
  case (Inl e)
  with assms safe_step_refl show ?thesis by (auto simp: commit_begin_def)
next
  case (Inr s)
  note s = session_of [OF Inr server_sessions_ok [OF assms(1)]]
  have rs: "rs_ok (sv_restorer sv)" using assms(1) by (simp add: server_ok_def link_ok_def)
  obtain out r where c: "commit (q_restore env (ss_restore_id s)) (ss_restore_id s) (sv_restorer sv) = (out, r)" by fastforce
  have "safe_step sv (sv\<lparr>sv_restorer := r\<rparr>)"
    using safe_step_restorer [OF assms(1)] rsv.commit_evolves [OF rs c] by simp
  with rsv.commit_law [OF rs c] assms(2) Inr s c safe_step_refl [OF assms(1)] show ?thesis
    by (auto simp: commit_begin_def split: if_splits sum.splits)
qed

lemma commit_finish_safe:
  assumes "server_ok sv" and "st_get (sv_sessions sv) (ss_id s) = Some s"
    and "rs_state (sv_restorer sv) (ss_restore_id s) = Some RestoreCommitted"
    and "commit_finish env source s sv = (resp, sv')"
  shows "safe_step sv sv'"
proof -
  have "safe_update (sv_restorer sv) (sv_sessions sv) (ss_id s) set_committed"
    using assms(2,3) by (auto simp: safe_update_def set_committed_def require_state_def rsv.linked_def settled_session_def split: if_splits)
  note upd = safe_step_set [OF assms(1) this]
  obtain res st where u: "sessions_update (q_now2 env) (q_put env) (ss_id s) source set_committed (sv_sessions sv) = (res, st)" by fastforce
  have "sv_sessions sv' = st" "sv_restorer sv' = sv_restorer sv"
    using assms(4) u by (auto simp: commit_finish_def set_sessions_def Let_def split: sum.splits if_splits)
  with upd [OF u] show ?thesis by simp
qed

lemma commit_safe:
  assumes "server_ok sv" and "h_commit env source k sv = (resp, sv')"
  shows "safe_step sv sv'"
proof -
  obtain res sv1 where b: "commit_begin env source k sv = (res, sv1)" by fastforce
  note one = commit_begin_safe [OF assms(1) b]
  show ?thesis
  proof (cases res)
    case (Inl r)
    with one assms(2) b show ?thesis by (simp add: h_commit_def)
  next
    case (Inr s)
    have "server_ok sv1" using one by (simp add: safe_step_def)
    with commit_finish_safe [of sv1 s env source resp sv'] one Inr assms(2) b have "safe_step sv1 sv'" by (simp add: h_commit_def)
    with one safe_step_trans show ?thesis by blast
  qed
qed

lemma rollback_safe:
  assumes "server_ok sv" and "h_rollback env source k sv = (resp, sv')"
  shows "safe_step sv sv'"
proof (cases "sessions_get_for_cleanup k source (sv_sessions sv)")
  case (Inl e)
  with assms safe_step_refl show ?thesis by (auto simp: h_rollback_def)
next
  case (Inr s)
  then have s: "st_get (sv_sessions sv) (ss_id s) = Some s"
    using server_sessions_ok [OF assms(1)] by (auto simp: sessions_get_for_cleanup_Inr sessions_ok_def)
  show ?thesis
  proof (cases "ss_state s = SessionCommitted")
    case True
    with assms Inr safe_step_refl show ?thesis by (simp add: h_rollback_def)
  next
    case False
    have rs: "rs_ok (sv_restorer sv)" using assms(1) by (simp add: server_ok_def link_ok_def)
    define rb where "rb = (if ss_restore_id s = [] then (True, sv_restorer sv)
        else case rollback_restore (q_restore env (ss_restore_id s)) (ss_restore_id s) (sv_restorer sv) of (res, r) \<Rightarrow> (\<not> failed res, r))"
    have rb: "rsv.evolves (sv_restorer sv) (snd rb) \<and> rs_ok (snd rb)
        \<and> (fst rb \<longrightarrow> ss_restore_id s \<noteq> [] \<longrightarrow> rs_state (snd rb) (ss_restore_id s) = Some RestoreRolledBack)"
    proof (cases "ss_restore_id s = []")
      case True
      then show ?thesis using rs by (simp add: rb_def rsv.evolves_refl)
    next
      case False
      obtain res r where q: "rollback_restore (q_restore env (ss_restore_id s)) (ss_restore_id s) (sv_restorer sv) = (res, r)" by fastforce
      with rsv.rollback_evolves [OF rs q] rsv.rollback_law [OF rs q] False show ?thesis by (simp add: rb_def)
    qed
    let ?sv = "sv\<lparr>sv_restorer := snd rb\<rparr>" and ?f = "\<lambda>v. Inr (v\<lparr>ss_state := SessionRolledBack\<rparr>)"
    have one: "safe_step sv ?sv" using safe_step_restorer [OF assms(1)] rb by simp
    then have ok: "server_ok ?sv" by (simp add: safe_step_def)
    show ?thesis
    proof (cases "fst rb")
      case True
      have "safe_update (sv_restorer ?sv) (sv_sessions ?sv) (ss_id s) ?f"
        using s rb True False server_linked [OF ok, of "ss_id s" s]
        by (auto simp: safe_update_def rsv.linked_def settled_session_def)
      from safe_step_update_cleanup [OF ok this, of sv' "q_now2 env" "q_put env" source]
      have "safe_step ?sv sv'"
        using assms(2) Inr False True
        by (auto simp: h_rollback_def Let_def set_sessions_def simp flip: rb_def split: sum.splits prod.splits)
      with one show ?thesis by (rule safe_step_trans)
    next
      case bad: False
      then have "sv' = ?sv" using assms(2) Inr False by (simp add: h_rollback_def Let_def flip: rb_def)
      with one show ?thesis by simp
    qed
  qed
qed

lemma hold_safe:
  assumes "server_ok sv" and "h_hold env source k rq sv = (resp, sv')"
  shows "safe_step sv sv'"
proof -
  have "safe_update (sv_restorer sv) (sv_sessions sv) j (set_held rq)" for j
    using assms(1) by (rule safe_update_open)
      (auto simp: set_held_def require_state_def settled_session_def split: if_splits)
  note upd = safe_step_set [OF assms(1) this]
  have "sv_restorer sv' = sv_restorer sv \<and> (sv_sessions sv' = sv_sessions sv
      \<or> (\<exists>now b j res. sessions_update now b j source (set_held rq) (sv_sessions sv) = (res, sv_sessions sv')))"
    using assms(2) by (auto simp: h_hold_def watch_held_def set_sessions_def Let_def split: if_splits sum.splits prod.splits)
  with upd safe_step_same [OF assms(1)] show ?thesis by metis
qed

lemma serve_safe:
  assumes "server_ok sv" and "fresh_id (q_prepare env) (sv_restorer sv)" and "serve env source rq sv = (resp, sv')"
  shows "safe_step sv sv'"
proof (cases rq)
  case (RqWithdraw w)
  with assms show ?thesis
    by (intro safe_step_same [OF assms(1)]) (auto simp: h_withdraw_def split: if_splits)
next
  case (RqGet k)
  with assms show ?thesis by (intro safe_step_same [OF assms(1)]) (auto simp: h_get_def split: sum.splits)
next
  case (RqGetCleanup k)
  with assms show ?thesis by (intro safe_step_same [OF assms(1)]) (auto simp: h_get_cleanup_def split: sum.splits)
qed (use assms reserve_safe import_key_safe import_manifest_safe import_chunk_safe verify_safe restore_safe commit_safe rollback_safe
    hold_safe in \<open>auto\<close>)

section \<open>Properties\<close>

text \<open>
  C12.  A session that was committed or rolled back stays so, whatever requests any peers send
  afterwards one at a time and whichever of their writes fail; and throughout, a committed session has
  its restore committed on this machine, and a rolled back session that had restored a copy has that
  restore rolled back.
\<close>

theorem settled_sessions_stay:
  assumes "server_ok sv" and "serve_run rqs sv = Some (resps, sv')"
    and "st_get (sv_sessions sv) k = Some s" and "ss_state s = SessionCommitted \<or> ss_state s = SessionRolledBack"
  shows "\<exists>s'. st_get (sv_sessions sv') k = Some s' \<and> ss_state s' = ss_state s \<and> ss_restore_id s' = ss_restore_id s
    \<and> (ss_state s = SessionCommitted \<longrightarrow> rs_state (sv_restorer sv') (ss_restore_id s) = Some RestoreCommitted)
    \<and> (ss_state s = SessionRolledBack \<longrightarrow> ss_restore_id s \<noteq> [] \<longrightarrow>
          rs_state (sv_restorer sv') (ss_restore_id s) = Some RestoreRolledBack)"
proof -
  have "safe_step sv sv'"
    using assms(1,2)
  proof (induction rqs arbitrary: sv resps)
    case Nil
    then show ?case using safe_step_refl by auto
  next
    case (Cons x rqs)
    obtain env source rq where x: "x = (env, source, rq)" by (metis prod_cases3)
    obtain resp sv1 where one: "serve env source rq sv = (resp, sv1)" by fastforce
    from Cons.prems(2) x one obtain resps1 where fresh: "fresh_id (q_prepare env) (sv_restorer sv)"
      and rest: "serve_run rqs sv1 = Some (resps1, sv')" by (auto split: if_splits)
    have step: "safe_step sv sv1" by (rule serve_safe [OF Cons.prems(1) fresh one])
    with Cons.IH [OF _ rest] safe_step_trans show ?case by (auto simp: safe_step_def)
  qed
  then obtain s' where s': "st_get (sv_sessions sv') k = Some s'" "ss_state s' = ss_state s" "ss_restore_id s' = ss_restore_id s"
      and "server_ok sv'"
    using assms(3,4) unfolding safe_step_def keeps_settled_def settled_session_def by metis
  then have "rsv.linked (sv_restorer sv') s'" using server_linked by blast
  with s' show ?thesis by (auto simp: rsv.linked_def)
qed

text \<open>
  C40.  Restoring and rolling back do not exclude each other.  While the restore of a verified session is
  running the session names no restore yet, so a rollback has nothing to undo and answers that the session
  is rolled back; the restore then finishes, the session reads RESTORED again and the restored copy is
  live on this machine, although the source was told that the destination is clean.
\<close>

theorem rollback_during_restore_leaves_copy:
  assumes "server_ok sv" and "restore_admit env source k sv = Inr s" and "ss_restore_id s = []"
    and "h_rollback env2 source k sv = (GotSession s1, sv1)"
    and "fresh_id (q_prepare env) (sv_restorer sv1)"
    and "prepare (q_prepare env) (sv_restorer sv1) = (Some rec, r)" and "q_put2 env"
    and "restore_finish env source s sv1 = (resp, sv2)"
  shows "ss_state s1 = SessionRolledBack \<and> resp = GotRestore rec
    \<and> (\<exists>s2. st_get (sv_sessions sv2) k = Some s2 \<and> ss_state s2 = SessionRestored \<and> ss_restore_id s2 = rr_id rec)
    \<and> rs_state (sv_restorer sv2) (rr_id rec) = Some RestoreValidated"
proof -
  have get: "sessions_get (q_now env) k source (sv_sessions sv) = Inr s" "ss_state s = SessionVerified"
    using assms(2) by (auto simp: restore_admit_def require_state_def split: if_splits sum.splits)
  then have s: "st_get (sv_sessions sv) k = Some s" "ss_source s = source" "ss_id s = k"
    using server_sessions_ok [OF assms(1)] by (auto simp: sessions_get_Inr sessions_ok_def)
  have sv1: "sv1 = sv\<lparr>sv_sessions := st_put k s1 (sv_sessions sv)\<rparr>" "s1 = s\<lparr>ss_state := SessionRolledBack, ss_updated := q_now2 env2\<rparr>"
    using assms(3,4) s get(2)
    by (auto simp: h_rollback_def sessions_get_for_cleanup_def sessions_update_cleanup_def set_sessions_def Let_def split: if_splits)
  have rs: "rs_ok (sv_restorer sv1)" using assms(1) by (simp add: sv1(1) server_ok_def link_ok_def)
  note law = rsv.prepare_law [OF rs assms(5,6)]
  let ?s2 = "s1\<lparr>ss_state := SessionRestored, ss_restore_id := rr_id rec, ss_updated := q_now2 env\<rparr>"
  have "\<not> session_expired s1 (q_now2 env)" "ss_source s1 = source" using s by (simp_all add: session_expired_def sv1(2))
  then have "sessions_update (q_now2 env) (q_put2 env) k source
      (\<lambda>v. Inr (v\<lparr>ss_state := SessionRestored, ss_restore_id := rr_id rec\<rparr>)) (sv_sessions sv1)
      = (Inr ?s2, st_put k ?s2 (sv_sessions sv1))"
    using assms(7) by (simp add: sessions_update_def Let_def sv1(1))
  then have "resp = GotRestore rec" "sv_restorer sv2 = r" "st_get (sv_sessions sv2) k = Some ?s2"
    using assms(6,8) s(3) by (auto simp: restore_finish_def)
  with law show ?thesis by (auto simp: sv1(2))
qed
section \<open>The ingest quota\<close>

text \<open>
  Any number of uploads of one session, each between its gate and its end: the session, the sizes in
  flight, and the bytes stored so far.  An upload ends by storing new bytes, or it gives its reservation
  back, or the write that gives it back fails.
\<close>

type_synonym ingest = "session \<times> int multiset \<times> int"

inductive ingest_step :: "ingest \<Rightarrow> ingest \<Rightarrow> bool" where
  passed: "chunk_gate n s = Inr s' \<Longrightarrow> 1 \<le> n \<Longrightarrow> n \<le> max_encoded_chunk \<Longrightarrow> ingest_step (s, fl, l) (s', add_mset n fl, l)"
| stored: "n \<in># fl \<Longrightarrow> ingest_step (s, fl, l) (s, fl - {#n#}, l + n)"
| released: "n \<in># fl \<Longrightarrow> chunk_release n s = Inr s' \<Longrightarrow> ingest_step (s, fl, l) (s', fl - {#n#}, l)"
| unreleased: "n \<in># fl \<Longrightarrow> ingest_step (s, fl, l) (s, fl - {#n#}, l)"

inductive_cases ingest_stepE: "ingest_step (s, fl, l) y"

definition ingest_ok :: "int \<Rightarrow> ingest \<Rightarrow> bool" where
  "ingest_ok e x = (case x of (s, fl, l) \<Rightarrow>
     ss_estimated s = e \<and> 0 \<le> l \<and> (\<forall>n \<in># fl. 1 \<le> n) \<and> l + sum_mset fl \<le> ss_received s
     \<and> ss_received s \<le> e + e div 20 \<and> ss_received s \<le> ss_attempted s \<and> ss_attempted s \<le> 3 * e + 96 * 2 ^ 20)"

lemma limits_exact:
  assumes "0 < e" and "e \<le> 2 ^ 60"
  shows "quota_limit e = e + e div 20 \<and> attempt_limit e = 3 * e + 96 * 2 ^ 20"
proof -
  have "in_i64 (e + e div 20)" "in_i64 (3 * e)" "in_i64 (3 * e + 96 * 2 ^ 20)" using assms by (auto simp: in_i64_def)
  then show ?thesis using assms by (simp add: quota_limit_def attempt_limit_def)
qed

lemma sum_mset_remove: "n \<in># fl \<Longrightarrow> sum_mset (fl - {#n#}) = sum_mset fl - (n :: int)"
  by (metis add_diff_cancel_left' insert_DiffM sum_mset.add_mset)

lemma sum_mset_nonneg: "(\<forall>n \<in># fl. (1 :: int) \<le> n) \<Longrightarrow> 0 \<le> sum_mset fl"
  by (induction fl) auto

lemma sum_mset_member: "(\<forall>n \<in># fl. (1 :: int) \<le> n) \<Longrightarrow> n \<in># fl \<Longrightarrow> n \<le> sum_mset fl"
  using sum_mset_nonneg [of "fl - {#n#}"] sum_mset_remove [of n fl] by (auto dest: in_diffD)

lemma ingest_step_ok:
  assumes "0 < e" and "e \<le> 2 ^ 60" and "ingest_step x y" and "ingest_ok e x"
  shows "ingest_ok e y"
  using assms(3,4)
proof cases
  case (passed n s s' fl l)
  have lim: "quota_limit e = e + e div 20" "attempt_limit e = 3 * e + 96 * 2 ^ 20" using limits_exact assms(1,2) by simp_all
  have ok: "ss_estimated s = e" "0 \<le> l" "\<forall>n \<in># fl. 1 \<le> n" "l + sum_mset fl \<le> ss_received s" "ss_received s \<le> e + e div 20"
    "ss_received s \<le> ss_attempted s" "ss_attempted s \<le> 3 * e + 96 * 2 ^ 20" using assms(4) passed by (simp_all add: ingest_ok_def)
  have pos: "0 \<le> ss_received s" using ok sum_mset_nonneg [of fl] by linarith
  have "in_i64 (ss_received s + n)" "in_i64 (ss_attempted s + n)"
    using ok pos passed assms(2) by (auto simp: in_i64_def max_encoded_chunk_def)
  then have "ss_received s' = ss_received s + n" "ss_attempted s' = ss_attempted s + n" "ss_estimated s' = e"
    "ss_received s + n \<le> e + e div 20" "ss_attempted s + n \<le> 3 * e + 96 * 2 ^ 20"
    using passed(3) ok(1) lim by (auto simp: chunk_gate_def split: if_splits)
  with ok passed show ?thesis by (simp add: ingest_ok_def)
next
  case (stored n fl s l)
  then show ?thesis
    using assms(4) by (auto simp: ingest_ok_def sum_mset_remove dest: in_diffD)
next
  case (released n fl s s' l)
  have ok: "0 \<le> l" "\<forall>n \<in># fl. 1 \<le> n" "l + sum_mset fl \<le> ss_received s" "ss_received s \<le> e + e div 20"
    using assms(4) released by (simp_all add: ingest_ok_def)
  have n: "1 \<le> n" "n \<le> sum_mset fl" using ok(2) released sum_mset_member by blast+
  have "in_i64 (ss_received s - n)" using ok n assms(1,2) by (auto simp: in_i64_def)
  then have "s' = s\<lparr>ss_received := ss_received s - n\<rparr>" using released by (simp add: chunk_release_def)
  with released n assms(4) show ?thesis by (auto simp: ingest_ok_def sum_mset_remove dest: in_diffD)
next
  case (unreleased n fl s l)
  then have "1 \<le> n" using assms(4) by (simp add: ingest_ok_def)
  with unreleased assms(4) show ?thesis by (auto simp: ingest_ok_def sum_mset_remove dest: in_diffD)
qed

text \<open>
  C13.  However many uploads of a session run at once, as long as every declared size is between one
  byte and the chunk limit, the bytes stored and the bytes still in flight together never exceed the
  reservation plus five per cent, and the bytes attempted, retries included, never exceed three times
  the reservation plus one chunk.
\<close>

theorem ingest_within_reservation:
  assumes "ingest_step\<^sup>*\<^sup>* (s0, {#}, 0) (s, fl, l)"
    and "0 < ss_estimated s0" and "ss_estimated s0 \<le> 2 ^ 60" and "ss_received s0 = 0" and "ss_attempted s0 = 0"
  shows "0 \<le> l \<and> l + sum_mset fl \<le> ss_estimated s0 + ss_estimated s0 div 20
    \<and> ss_received s \<le> ss_estimated s0 + ss_estimated s0 div 20
    \<and> ss_attempted s \<le> 3 * ss_estimated s0 + 96 * 2 ^ 20"
proof -
  have "ingest_ok (ss_estimated s0) (s0, {#}, 0)" using assms by (simp add: ingest_ok_def)
  with assms(1) have "ingest_ok (ss_estimated s0) (s, fl, l)"
    by (induction rule: rtranclp_induct) (auto intro: ingest_step_ok [OF assms(2,3)])
  then show ?thesis by (simp add: ingest_ok_def)
qed

text \<open>
  The gate takes the size a peer declares before anything checks it.  A request that declares a
  negative size is refused, but it has passed the gate: its release restores the received bytes, while
  the attempted bytes stay lowered by the declared amount, so that the ceiling on attempts never binds
  for a peer that sends such a request now and then.
\<close>

theorem negative_size_lowers_attempts:
  assumes "sessions_ok (sv_sessions sv)" and "sessions_get (q_now env) k source (sv_sessions sv) = Inr s"
    and "chunk_admit env s version (Some ref) address sv = None" and "cr_stored_size ref < 0"
    and "in_i64 (ss_received s)" and "in_i64 (ss_received s + cr_stored_size ref)" and "in_i64 (ss_attempted s + cr_stored_size ref)"
    and "ss_received s \<le> quota_limit (ss_estimated s)" and "ss_attempted s \<le> attempt_limit (ss_estimated s)"
    and "q_put env" and "q_put2 env" and "q_now2 env \<le> ss_expires s"
    and "h_import_chunk env source k version (Some ref) address body sv = (resp, sv')"
  shows "resp = Refused 400 ''CHUNK_IMPORT_FAILED''
    \<and> st_get (sv_sessions sv') k = Some (s\<lparr>ss_attempted := ss_attempted s + cr_stored_size ref, ss_updated := q_now2 env\<rparr>)"
proof -
  let ?n = "cr_stored_size ref"
  have s: "st_get (sv_sessions sv) k = Some s" "ss_id s = k" "ss_source s = source" "\<not> session_expired s (q_now env)"
    using assms(1,2) by (auto simp: sessions_get_Inr sessions_ok_def)
  let ?s1 = "s\<lparr>ss_attempted := ss_attempted s + ?n, ss_received := ss_received s + ?n, ss_updated := q_now env\<rparr>"
  have gate: "chunk_gate ?n s = Inr (s\<lparr>ss_attempted := ss_attempted s + ?n, ss_received := ss_received s + ?n\<rparr>)"
    using assms(4-9) by (simp add: chunk_gate_def)
  then have "sessions_update (q_now env) (q_put env) k source (chunk_gate ?n) (sv_sessions sv) = (Inr ?s1, st_put k ?s1 (sv_sessions sv))"
    using s assms(10) by (simp add: sessions_update_def Let_def)
  then have begun: "import_chunk_begin env source k version (Some ref) address sv = (Inr ?s1, set_sessions (st_put k ?s1 (sv_sessions sv)) sv)"
    using assms(2,3) s by (simp add: import_chunk_begin_def)
  let ?s2 = "s\<lparr>ss_attempted := ss_attempted s + ?n, ss_updated := q_now2 env\<rparr>"
  have "\<not> session_expired ?s1 (q_now2 env)" using assms(12) by (simp add: session_expired_def)
  then have "sessions_update (q_now2 env) (q_put2 env) k source (chunk_release ?n) (st_put k ?s1 (sv_sessions sv))
      = (Inr ?s2, st_put k ?s2 (st_put k ?s1 (sv_sessions sv)))"
    using s assms(5,11) by (simp add: sessions_update_def chunk_release_def Let_def)
  moreover have "import_chunk (q_codec env) (q_io env) (q_rename env) w ref body cs = (Inl StoredSizeRange, cs)" for w cs
    using assms(4) by (simp add: import_chunk_def)
  ultimately show ?thesis
    using assms(13) begun s by (auto simp: h_import_chunk_def import_chunk_finish_def set_sessions_def Let_def)
qed

section \<open>Metering\<close>

text \<open>The parts of commit requests for one session, interleaved in any order.\<close>

datatype commit_part = CommitBegin sv_env string | CommitFinish sv_env string session

fun exec_part :: "string \<Rightarrow> commit_part \<Rightarrow> server \<Rightarrow> server" where
  "exec_part k (CommitBegin env source) sv = snd (commit_begin env source k sv)"
| "exec_part k (CommitFinish env source s) sv = snd (commit_finish env source (s\<lparr>ss_id := k\<rparr>) sv)"

definition metered :: "string \<Rightarrow> server \<Rightarrow> nat" where
  "metered k sv = length (filter (\<lambda>(i, org, c, n). i = k \<and> c = egress) (sv_meter sv))"

definition committed_session :: "string \<Rightarrow> server \<Rightarrow> bool" where
  "committed_session k sv \<longleftrightarrow> (\<exists>s. st_get (sv_sessions sv) k = Some s \<and> ss_id s = k \<and> ss_state s = SessionCommitted)"

lemma exec_part_meter:
  assumes "sessions_ok (sv_sessions sv)" and "metered k sv \<le> (if committed_session k sv then 1 else 0)"
  shows "sessions_ok (sv_sessions (exec_part k p sv))
    \<and> metered k (exec_part k p sv) \<le> (if committed_session k (exec_part k p sv) then 1 else 0)"
proof (cases p)
  case (CommitBegin env source)
  have "sv_sessions (snd (commit_begin env source k sv)) = sv_sessions sv" "sv_meter (snd (commit_begin env source k sv)) = sv_meter sv"
    by (auto simp: commit_begin_def split: sum.splits prod.splits)
  with CommitBegin assms show ?thesis by (simp add: metered_def committed_session_def)
next
  case (CommitFinish env source s)
  obtain res st where u: "sessions_update (q_now2 env) (q_put env) k source set_committed (sv_sessions sv) = (res, st)" by fastforce
  show ?thesis
  proof (cases res)
    case (Inl e)
    then have "st = sv_sessions sv" using sessions_update_shape [OF u] by auto
    with u Inl CommitFinish have same: "sv_sessions (exec_part k p sv) = sv_sessions sv" "sv_meter (exec_part k p sv) = sv_meter sv"
      by (simp_all add: commit_finish_def set_sessions_def Let_def)
    then have "metered k (exec_part k p sv) = metered k sv" "committed_session k (exec_part k p sv) = committed_session k sv"
      by (simp_all add: metered_def committed_session_def)
    with assms same(1) show ?thesis by simp
  next
    case (Inr s')
    with sessions_update_shape [OF u] obtain v where v: "st_get (sv_sessions sv) k = Some v" "set_committed v = Inr (v\<lparr>ss_state := SessionCommitted\<rparr>)"
      "s' = v\<lparr>ss_state := SessionCommitted, ss_updated := q_now2 env\<rparr>" "st = st_put k s' (sv_sessions sv)" "ss_state v \<noteq> SessionCommitted"
      by (auto simp: set_committed_def require_state_def split: if_splits)
    have id: "ss_id v = k" using assms(1) v(1) by (simp add: sessions_ok_def)
    have "metered k sv = 0" using assms(2) v by (auto simp: committed_session_def split: if_splits)
    moreover have "metered k (meter_completion env s' egress sv) \<le> metered k sv + 1"
      by (simp add: meter_completion_def metered_def)
    moreover have "exec_part k p sv = meter_completion env s' egress (set_sessions st sv)"
      using u Inr CommitFinish by (simp add: commit_finish_def)
    moreover have "sv_meter (meter_completion env s' egress (set_sessions st sv)) = sv_meter (meter_completion env s' egress sv)"
      by (simp add: meter_completion_def set_sessions_def)
    ultimately show ?thesis
      using assms(1) id v by (simp add: metered_def committed_session_def set_sessions_def sessions_ok_def)
  qed
qed

text \<open>
  However many commit requests for one session race, and however their parts interleave, the
  delivered bytes of the session are metered at most once.
\<close>

theorem racing_commits_meter_once:
  assumes "sessions_ok (sv_sessions sv)" and "metered k sv = 0"
  shows "metered k (fold (exec_part k) parts sv) \<le> 1"
proof -
  have "sessions_ok (sv_sessions (fold (exec_part k) parts sv))
      \<and> metered k (fold (exec_part k) parts sv) \<le> (if committed_session k (fold (exec_part k) parts sv) then 1 else 0)"
    using assms
  proof (induction parts rule: rev_induct)
    case (snoc p parts)
    then show ?case using exec_part_meter [of "fold (exec_part k) parts sv" k p] by simp
  qed simp
  then show ?thesis by (auto split: if_splits)
qed

section \<open>A small server\<close>

definition sample_sv :: "session \<Rightarrow> server" where
  "sample_sv s = \<lparr>sv_sessions = [(''t1'', s)], sv_chunks = sample_store, sv_manifests = [], sv_restorer = rs_idle rt_empty,
     sv_organization = ''org'', sv_has_meter = True, sv_has_watcher = False, sv_meter = [], sv_held = [], sv_withdrawn = []\<rparr>"

definition sample_q :: sv_env where
  "sample_q = \<lparr>q_json = True, q_now = 2, q_now2 = 3, q_put = True, q_put2 = True, q_reap = (\<lambda>_. True), q_storage = Some [5000],
     q_key_write = True, q_fresh_key = replicate 32 CHR ''z'', q_verified = True, q_saved = True, q_codec = sample_codec,
     q_free = None, q_slot = True, q_io = True, q_rename = True, q_meter = True, q_prepare = rs_good, q_restore = (\<lambda>_. rs_good)\<rparr>"

definition sample_verified :: session where
  "sample_verified = sample_session\<lparr>ss_state := SessionVerified, ss_restore_id := []\<rparr>"

definition sample_rolled_back :: session where
  "sample_rolled_back = sample_session\<lparr>ss_state := SessionRolledBack, ss_restore_id := []\<rparr>"

lemma sample_server_ok:
  assumes "ss_id s = ''t1''" and "ss_restore_id s = []" and "ss_state s \<noteq> SessionCommitted"
  shows "server_ok (sample_sv s)"
  using assms rs_idle_fresh(2) [of rt_empty]
  by (auto simp: server_ok_def link_ok_def sample_sv_def sessions_ok_def st_ok_def st_get_def rs_ok_def rsv.linked_def)

definition sample_requests :: "(sv_env \<times> string \<times> request) list" where
  "sample_requests = [(sample_q, ''m1'', RqRestore ''t1''), (sample_q, ''m1'', RqCommit ''t1''), (sample_q, ''m2'', RqRollback ''t1'')]"

theorem settled_sessions_stay_witness:
  "\<exists>s'. st_get (sv_sessions (snd (the (serve_run sample_requests (sample_sv sample_rolled_back))))) ''t1'' = Some s'
     \<and> ss_state s' = SessionRolledBack"
proof -
  have "serve_run sample_requests (sample_sv sample_rolled_back) \<noteq> None" by code_simp
  then have run: "serve_run sample_requests (sample_sv sample_rolled_back)
      = Some (fst (the (serve_run sample_requests (sample_sv sample_rolled_back))),
              snd (the (serve_run sample_requests (sample_sv sample_rolled_back))))" by auto
  have ok: "server_ok (sample_sv sample_rolled_back)"
    by (rule sample_server_ok) (simp_all add: sample_rolled_back_def sample_session_def)
  have s: "st_get (sv_sessions (sample_sv sample_rolled_back)) ''t1'' = Some sample_rolled_back" by (simp add: sample_sv_def st_get_def)
  from settled_sessions_stay [OF ok run s] show ?thesis by (auto simp: sample_rolled_back_def)
qed

definition sample_race :: server where
  "sample_race = snd (h_rollback sample_q ''m1'' ''t1'' (sample_sv sample_verified))"

theorem rollback_during_restore_leaves_copy_witness:
  "rs_state (sv_restorer (snd (restore_finish sample_q ''m1'' sample_verified sample_race))) ''r1'' = Some RestoreValidated"
proof -
  have ok: "server_ok (sample_sv sample_verified)"
    by (rule sample_server_ok) (simp_all add: sample_verified_def sample_session_def)
  have admit: "restore_admit sample_q ''m1'' ''t1'' (sample_sv sample_verified) = Inr sample_verified" by code_simp
  let ?s1 = "sample_verified\<lparr>ss_state := SessionRolledBack, ss_updated := 3\<rparr>"
  have "fst (h_rollback sample_q ''m1'' ''t1'' (sample_sv sample_verified)) = GotSession ?s1" by code_simp
  then have rb: "h_rollback sample_q ''m1'' ''t1'' (sample_sv sample_verified) = (GotSession ?s1, sample_race)"
    by (simp add: sample_race_def prod_eq_iff)
  have restorer: "sv_restorer sample_race = rs_idle rt_empty"
    by (simp add: sample_race_def h_rollback_def sample_sv_def sample_verified_def sample_session_def sessions_get_for_cleanup_def st_get_def
        sessions_update_cleanup_def set_sessions_def sample_q_def Let_def)
  have "fst (prepare rs_good (rs_idle rt_empty)) \<noteq> None" by code_simp
  then obtain r where prep: "prepare (q_prepare sample_q) (sv_restorer sample_race) = (Some r, snd (prepare rs_good (rs_idle rt_empty)))"
    by (cases "prepare rs_good (rs_idle rt_empty)") (auto simp: restorer sample_q_def)
  have fresh: "fresh_id (q_prepare sample_q) (sv_restorer sample_race)" using rs_idle_fresh(1) [of rt_empty] by (simp add: restorer sample_q_def)
  have put: "q_put2 sample_q" by (simp add: sample_q_def)
  have empty: "ss_restore_id sample_verified = []" by (simp add: sample_verified_def)
  have "rr_id r = ''r1''"
    using rsv.prepare_law [OF _ fresh prep] rs_idle_fresh(2) [of rt_empty] by (simp add: rs_ok_def restorer sample_q_def)
  with rollback_during_restore_leaves_copy [OF ok admit empty rb fresh prep put surjective_pairing] show ?thesis by simp
qed

theorem ingest_within_reservation_witness:
  "ss_received (sample_session\<lparr>ss_attempted := 5, ss_received := 5\<rparr>) \<le> 1000 + 1000 div 20"
proof -
  let ?s = "sample_session\<lparr>ss_attempted := 5, ss_received := 5\<rparr>"
  have "chunk_gate 5 sample_session = Inr ?s" by code_simp
  then have "ingest_step (sample_session, {#}, 0) (?s, {#5#}, 0)" by (rule ingest_step.passed) (simp_all add: max_encoded_chunk_def)
  moreover have "ingest_step (?s, {#5#}, 0) (?s, {#}, 5)" using ingest_step.stored [of 5 "{#5#}" ?s 0] by simp
  ultimately have "ingest_step\<^sup>*\<^sup>* (sample_session, {#}, 0) (?s, {#}, 5)" by auto
  from ingest_within_reservation [OF this] show ?thesis by (simp add: sample_session_def)
qed

definition sample_key_ready :: session where
  "sample_key_ready = sample_session\<lparr>ss_state := SessionKeyReady, ss_restore_id := [], ss_checkpoint_id := [], ss_attempted := 90\<rparr>"

definition sample_negative_ref :: chunk_ref where
  "sample_negative_ref = sample_other_ref\<lparr>cr_stored_size := - 1000000\<rparr>"

theorem negative_size_lowers_attempts_witness:
  "\<exists>s. st_get (sv_sessions (snd (h_import_chunk sample_q ''m1'' ''t1'' (Some 1) (Some sample_negative_ref) (replicate 64 CHR ''0'') []
          (sample_sv sample_key_ready)))) ''t1'' = Some s \<and> ss_attempted s = - 999910"
proof -
  let ?sv = "sample_sv sample_key_ready"
  have ok: "sessions_ok (sv_sessions ?sv)"
    by (auto simp: sessions_ok_def st_ok_def st_get_def sample_sv_def sample_key_ready_def sample_session_def)
  have get: "sessions_get (q_now sample_q) ''t1'' ''m1'' (sv_sessions ?sv) = Inr sample_key_ready" by code_simp
  have admit: "chunk_admit sample_q sample_key_ready (Some 1) (Some sample_negative_ref) (replicate 64 CHR ''0'') ?sv = None" by code_simp
  have rest: "cr_stored_size sample_negative_ref < 0" "in_i64 (ss_received sample_key_ready)"
    "in_i64 (ss_received sample_key_ready + cr_stored_size sample_negative_ref)"
    "in_i64 (ss_attempted sample_key_ready + cr_stored_size sample_negative_ref)"
    "ss_received sample_key_ready \<le> quota_limit (ss_estimated sample_key_ready)"
    "ss_attempted sample_key_ready \<le> attempt_limit (ss_estimated sample_key_ready)"
    "q_put sample_q" "q_put2 sample_q" "q_now2 sample_q \<le> ss_expires sample_key_ready" by code_simp+
  from negative_size_lowers_attempts [OF ok get admit rest surjective_pairing] show ?thesis
    by (simp add: sample_key_ready_def sample_negative_ref_def)
qed

theorem racing_commits_meter_once_witness:
  "metered ''t1'' (fold (exec_part ''t1'') [CommitBegin sample_q ''m1'', CommitFinish sample_q ''m1'' sample_session,
     CommitFinish sample_q ''m1'' sample_session] (sample_sv sample_session)) \<le> 1"
  by (rule racing_commits_meter_once)
    (simp_all add: metered_def sample_sv_def sample_sessions_ok)

section \<open>Sessions that hold a copy\<close>

text \<open>
  A session that is restored or committed is one whose workload runs on this machine.  Only the restore
  handler adds one, and what the other handlers answer says which sessions there are.
\<close>

definition holds_copy :: "session \<Rightarrow> bool" where
  "holds_copy s \<longleftrightarrow> ss_state s = SessionRestored \<or> ss_state s = SessionCommitted"

definition copy_held :: "string \<Rightarrow> string \<Rightarrow> server \<Rightarrow> bool" where
  "copy_held m k sv \<longleftrightarrow>
     (case st_get (sv_sessions sv) k of None \<Rightarrow> False | Some s \<Rightarrow> ss_source s = m \<and> holds_copy s)"

definition no_new_copy :: "sessions \<Rightarrow> sessions \<Rightarrow> bool" where
  "no_new_copy st st' \<longleftrightarrow> (\<forall>k s'. st_get st' k = Some s' \<longrightarrow> holds_copy s' \<longrightarrow>
     (\<exists>s. st_get st k = Some s \<and> holds_copy s \<and> ss_source s = ss_source s'))"

lemma no_new_copy_refl [simp]: "no_new_copy st st"
  by (auto simp: no_new_copy_def)

lemma no_new_copy_trans: "no_new_copy a b \<Longrightarrow> no_new_copy b c \<Longrightarrow> no_new_copy a c"
  unfolding no_new_copy_def by metis

lemma no_new_copy_held: "no_new_copy (sv_sessions sv) (sv_sessions sv') \<Longrightarrow> copy_held m k sv' \<Longrightarrow> copy_held m k sv"
  by (fastforce simp: no_new_copy_def copy_held_def split: option.splits)

definition plain_update :: "sessions \<Rightarrow> string \<Rightarrow> (session \<Rightarrow> (session_error, session) outcome) \<Rightarrow> bool" where
  "plain_update st k f \<longleftrightarrow> (\<forall>s s'. st_get st k = Some s \<longrightarrow> f s = Inr s' \<longrightarrow>
     ss_source s' = ss_source s \<and> (holds_copy s' \<longrightarrow> holds_copy s))"

lemma plain_put:
  assumes "st_get st k = Some s" and "ss_source s' = ss_source s" and "holds_copy s' \<longrightarrow> holds_copy s"
  shows "no_new_copy st (st_put k s' st)"
  using assms by (auto simp: no_new_copy_def)

lemma holds_copy_updated [simp]: "holds_copy (s\<lparr>ss_updated := t\<rparr>) = holds_copy s"
  by (simp add: holds_copy_def)

lemma plain_sessions_update:
  assumes "plain_update st k f" and "sessions_update now ok k source f st = (res, st')"
  shows "no_new_copy st st'"
  using sessions_update_shape [OF assms(2)] assms(1) plain_put by (fastforce simp: plain_update_def)

lemma plain_sessions_update_cleanup:
  assumes "plain_update st k f" and "sessions_update_cleanup now ok k source f st = (res, st')"
  shows "no_new_copy st st'"
  using sessions_update_cleanup_shape [OF assms(2)] assms(1) plain_put by (fastforce simp: plain_update_def)

lemma plain_reap:
  assumes "sessions_ok (sv_sessions sv)"
  shows "no_new_copy (sv_sessions sv) (sv_sessions (reap env sv))"
proof -
  let ?st = "sv_sessions sv" and ?now = "q_now env" and ?ok = "q_reap env"
  obtain n restored st where run: "reap_expired ?now ?ok ?st = (n, restored, st)" by (metis prod_cases3)
  then have "st_get st k = map_option (\<lambda>s. if reapable ?now ?ok s then reap_session ?now s else s) (st_get ?st k)" for k
    using st_get_map [of "\<lambda>s. if reapable ?now ?ok s then reap_session ?now s else s" ?st k]
    unfolding reap_expired_eq [OF assms] by auto
  then have "no_new_copy ?st st" by (auto simp: no_new_copy_def holds_copy_def reap_session_def split: if_splits)
  with run show ?thesis by (simp add: reap_def)
qed

lemma plain_reserve:
  assumes "sessions_reserve now ok s st = (res, st')" and "ss_restore_id s = []"
  shows "no_new_copy st st'"
  using sessions_reserve_shape [OF assms(1)] by (auto simp: no_new_copy_def holds_copy_def split: if_splits)

lemma plain_handlers:
  assumes "server_ok sv"
  shows "h_reserve env source rq sv = (resp, sv') \<Longrightarrow> no_new_copy (sv_sessions sv) (sv_sessions sv')"
    and "h_import_key env source k kq sv = (resp, sv') \<Longrightarrow> no_new_copy (sv_sessions sv) (sv_sessions sv')"
    and "h_import_manifest env source k m sv = (resp, sv') \<Longrightarrow> no_new_copy (sv_sessions sv) (sv_sessions sv')"
    and "import_chunk_begin env source k v ref a sv = (out, sv') \<Longrightarrow> no_new_copy (sv_sessions sv) (sv_sessions sv')"
    and "import_chunk_finish env source s c body sv = (resp, sv') \<Longrightarrow> no_new_copy (sv_sessions sv) (sv_sessions sv')"
    and "h_verify env source k sv = (resp, sv') \<Longrightarrow> no_new_copy (sv_sessions sv) (sv_sessions sv')"
    and "h_hold env source k hq sv = (resp, sv') \<Longrightarrow> no_new_copy (sv_sessions sv) (sv_sessions sv')"
    and "h_rollback env source k sv = (resp, sv') \<Longrightarrow> no_new_copy (sv_sessions sv) (sv_sessions sv')"
proof -
  note reaped = plain_reap [OF server_sessions_ok [OF assms], of env]
  note upd = plain_sessions_update and upc = plain_sessions_update_cleanup
  show "no_new_copy (sv_sessions sv) (sv_sessions sv')" if "h_reserve env source rq sv = (resp, sv')"
    using that reaped plain_reserve no_new_copy_trans
    by (fastforce simp: h_reserve_def Let_def set_sessions_def split: if_splits option.splits sum.splits prod.splits)
  have key: "plain_update st j (set_key_ready v)" for st j v
    by (auto simp: plain_update_def set_key_ready_def require_state_def holds_copy_def split: if_splits)
  show "no_new_copy (sv_sessions sv) (sv_sessions sv')" if "h_import_key env source k kq sv = (resp, sv')"
    using that upd [OF key]
    by (auto simp: h_import_key_def Let_def set_sessions_def split: if_splits option.splits sum.splits prod.splits)
  have manifest: "plain_update st j (\<lambda>v. Inr (v\<lparr>ss_checkpoint_id := i, ss_state := SessionManifestReady\<rparr>))" for st j i
    by (auto simp: plain_update_def holds_copy_def)
  show "no_new_copy (sv_sessions sv) (sv_sessions sv')" if "h_import_manifest env source k m sv = (resp, sv')"
    using that upd [OF manifest] repository_save_frame [of env m sv]
    by (auto simp: h_import_manifest_def Let_def set_sessions_def split: if_splits sum.splits prod.splits bool.splits)
  have gate: "plain_update st j (chunk_gate n)" for st j n
    by (auto simp: plain_update_def chunk_gate_def holds_copy_def split: if_splits)
  show "no_new_copy (sv_sessions sv) (sv_sessions sv')" if "import_chunk_begin env source k v ref a sv = (out, sv')"
    using that upd [OF gate]
    by (auto simp: import_chunk_begin_def set_sessions_def split: sum.splits option.splits prod.splits)
  have release: "plain_update st j (chunk_release n)" for st j n
    by (auto simp: plain_update_def chunk_release_def holds_copy_def)
  have "no_new_copy st (snd (sessions_update now b j source (chunk_release n) st))" for now b j n st
    by (rule upd [OF release surjective_pairing])
  then show "no_new_copy (sv_sessions sv) (sv_sessions sv')" if "import_chunk_finish env source s c body sv = (resp, sv')"
    using that by (auto simp: import_chunk_finish_def Let_def set_sessions_def split: sum.splits prod.splits if_splits)
  have verified: "plain_update st j (\<lambda>v. Inr (v\<lparr>ss_state := SessionVerified\<rparr>))" for st j
    by (auto simp: plain_update_def holds_copy_def)
  show "no_new_copy (sv_sessions sv) (sv_sessions sv')" if "h_verify env source k sv = (resp, sv')"
    using that upd [OF verified]
    by (auto simp: h_verify_def set_sessions_def split: if_splits sum.splits prod.splits option.splits)
  have held: "plain_update st j (set_held rq')" for st j rq'
    by (auto simp: plain_update_def set_held_def require_state_def holds_copy_def split: if_splits)
  show "no_new_copy (sv_sessions sv) (sv_sessions sv')" if "h_hold env source k hq sv = (resp, sv')"
    using that upd [OF held]
    by (auto simp: h_hold_def watch_held_def set_sessions_def Let_def split: if_splits sum.splits prod.splits)
  have rolled: "plain_update st j (\<lambda>v. Inr (v\<lparr>ss_state := SessionRolledBack\<rparr>))" for st j
    by (auto simp: plain_update_def holds_copy_def)
  show "no_new_copy (sv_sessions sv) (sv_sessions sv')" if "h_rollback env source k sv = (resp, sv')"
    using that upc [OF rolled]
    by (auto simp: h_rollback_def set_sessions_def Let_def split: if_splits sum.splits prod.splits)
qed

lemma commit_plain:
  assumes "server_ok sv" and "h_commit env source k sv = (resp, sv')"
  shows "no_new_copy (sv_sessions sv) (sv_sessions sv')"
proof -
  obtain res sv1 where b: "commit_begin env source k sv = (res, sv1)" by fastforce
  note one = commit_begin_safe [OF assms(1) b]
  have "plain_update st j set_committed" for st j
    by (auto simp: plain_update_def set_committed_def require_state_def holds_copy_def split: if_splits)
  from plain_sessions_update [OF this] show ?thesis
    using one assms(2) b
    by (auto simp: h_commit_def commit_finish_def set_sessions_def Let_def split: sum.splits prod.splits if_splits)
qed

lemma import_chunk_plain:
  assumes "server_ok sv" and "h_import_chunk env source k v ref a body sv = (resp, sv')"
  shows "no_new_copy (sv_sessions sv) (sv_sessions sv')"
proof -
  obtain res sv1 where b: "import_chunk_begin env source k v ref a sv = (res, sv1)" by fastforce
  have "server_ok sv1" using import_chunk_begin_safe [OF assms(1) b] by (simp add: safe_step_def)
  from plain_handlers(4) [OF assms(1) b] plain_handlers(5) [OF this] no_new_copy_trans assms(2) b show ?thesis
    by (auto simp: h_import_chunk_def split: sum.splits)
qed

fun is_restore :: "request \<Rightarrow> bool" where
  "is_restore (RqRestore k) = True"
| "is_restore rq = False"

lemma serve_plain:
  assumes "server_ok sv" and "\<not> is_restore rq" and "serve env source rq sv = (resp, sv')"
  shows "no_new_copy (sv_sessions sv) (sv_sessions sv')"
  using assms plain_handlers [OF assms(1)] commit_plain [OF assms(1)] import_chunk_plain [OF assms(1)]
  by (cases rq) (auto simp: h_withdraw_def h_get_def h_get_cleanup_def split: if_splits sum.splits)

lemma sessions_ok_get: "sessions_ok st \<Longrightarrow> st_get st k = Some s \<Longrightarrow> ss_id s = k"
  by (simp add: sessions_ok_def)

text \<open>What an answer says about the session.\<close>

lemma rollback_answer:
  assumes "server_ok sv" and "serve env m (RqRollback k) sv = (resp, sv')"
  shows "resp = GotSession s \<Longrightarrow> \<not> copy_held m k sv'" and "resp = Refused 404 c \<Longrightarrow> \<not> copy_held m k sv'"
proof -
  note run = assms(2) [unfolded serve.simps]
  note id = sessions_ok_get [OF server_sessions_ok [OF assms(1)]]
  show "\<not> copy_held m k sv'" if "resp = GotSession s"
  proof -
    from run that obtain v t b now r where v: "st_get (sv_sessions sv) k = Some v"
        "sessions_update_cleanup now b (ss_id v) m (\<lambda>v. Inr (v\<lparr>ss_state := SessionRolledBack\<rparr>)) (sv_sessions sv) = (Inr r, sv_sessions sv')"
      by (auto simp: h_rollback_def sessions_get_for_cleanup_Inr Let_def set_sessions_def split: sum.splits if_splits prod.splits)
    with sessions_update_cleanup_shape [OF v(2)] id [OF v(1)] show ?thesis
      by (auto simp: copy_held_def holds_copy_def)
  qed
  show "\<not> copy_held m k sv'" if "resp = Refused 404 c"
    using run that
    by (auto simp: h_rollback_def sessions_get_for_cleanup_def copy_held_def Let_def split: sum.splits if_splits prod.splits option.splits)
qed

lemma cleanup_answer:
  assumes "serve env m (RqGetCleanup k) sv = (resp, sv')"
  shows "sv' = sv" and "resp = GotSession s \<Longrightarrow> st_get (sv_sessions sv) k = Some s \<and> ss_source s = m"
    and "resp = Refused n c \<Longrightarrow> \<not> copy_held m k sv"
  using assms
  by (auto simp: h_get_cleanup_def sessions_get_for_cleanup_def copy_held_def split: sum.splits if_splits option.splits)

lemma commit_answer:
  assumes "server_ok sv" and "serve env m (RqCommit k) sv = (resp, sv')" and "resp = GotSession s"
  shows "\<exists>s'. st_get (sv_sessions sv') k = Some s' \<and> ss_source s' = m \<and> ss_state s' = SessionCommitted"
proof -
  note run = assms(2) [unfolded serve.simps]
  obtain res sv1 where b: "commit_begin env m k sv = (res, sv1)" by fastforce
  note one = commit_begin_safe [OF assms(1) b]
  show ?thesis
  proof (cases res)
    case (Inl r)
    with b run assms(3) show ?thesis
      by (auto simp: h_commit_def commit_begin_def sessions_get_Inr split: sum.splits if_splits prod.splits)
  next
    case (Inr v)
    have v: "st_get (sv_sessions sv) k = Some v" "ss_source v = m" "ss_id v = k"
      using b Inr sessions_ok_get [OF server_sessions_ok [OF assms(1)]]
      by (auto simp: commit_begin_def sessions_get_Inr split: sum.splits if_splits prod.splits)
    obtain out st where u: "sessions_update (q_now2 env) (q_put env) k m set_committed (sv_sessions sv) = (out, st)" by fastforce
    have sv': "sv_sessions sv' = st" and out: "out = Inl AlreadyCommitted \<or> (\<exists>s'. out = Inr s')"
      using run b Inr u one v assms(3)
      by (auto simp: h_commit_def commit_finish_def set_sessions_def Let_def split: sum.splits if_splits)
    from sessions_update_shape [OF u] out show ?thesis
    proof (elim disjE)
      assume "out = Inl AlreadyCommitted"
      with u v have "ss_state v = SessionCommitted \<and> st = sv_sessions sv"
        by (auto simp: sessions_update_def set_committed_def require_state_def Let_def split: if_splits option.splits sum.splits)
      with v sv' show ?thesis by simp
    qed (use v sv' in \<open>auto simp: set_committed_def require_state_def split: if_splits\<close>)
  qed
qed

end
