(* ===== verification/Checkpoint_Service.thy ===== *)
theory Checkpoint_Service
  imports Transfer_Server
begin

text \<open>
  \<^verbatim>\<open>src/internal/checkpoint/service.go\<close> and \<^verbatim>\<open>live.go\<close>: taking a checkpoint, as far as the workload
  can tell.  What a checkpoint does to the runtime (freeze, thaw, mark) is modelled call by call; what CRIU,
  the archiver and the repository answer is the environment.  The live session runs pre-copy passes while
  the workload runs and freezes it only for the last dump.
\<close>

section \<open>Captures\<close>

record captured =
  ca_manifest :: checkpoint_manifest
  ca_freeze :: time
  ca_plain :: int
  ca_stored :: int
  ca_duration :: duration

datatype checkpoint_kind = CheckpointDefault | CheckpointFull | CheckpointIncremental | CheckpointOther

record create_options =
  co_kind :: checkpoint_kind
  co_parent :: string
  co_leave_running :: bool

text \<open>
  The answers met by one capture.  \<open>ce_busy\<close>: another capture of the workload holds the guard.
  \<open>ce_ready\<close>: CRIU is there and the staging tree is made.  \<open>ce_images\<close>: file system probe and file index.
  \<open>ce_snapshot\<close>: a snapshot was taken.  \<open>ce_stored\<close>: archives, inventory, key, signature and repository.
  \<open>ce_index\<close>: the changed-file index.  \<open>ce_mirror\<close>: the object-store mirror, or that there is none.
\<close>

record ck_env =
  ce_busy :: bool
  ce_ready :: bool
  ce_parent :: bool
  ce_dump :: bool
  ce_images :: bool
  ce_snapshot :: bool
  ce_stored :: bool
  ce_index :: bool
  ce_mirror :: bool
  ce_pause :: rt_env
  ce_resume :: rt_env
  ce_undo :: rt_env
  ce_mark :: rt_env
  ce_captured :: captured

datatype create_result = CreateFailed | Bookkeeping captured | Created captured

fun resolve_kind :: "checkpoint_kind \<Rightarrow> string \<Rightarrow> checkpoint_kind option" where
  "resolve_kind kind parent =
     (let k1 = (if kind = CheckpointDefault then CheckpointFull else kind);
          k2 = (if parent \<noteq> [] \<and> k1 = CheckpointFull then CheckpointIncremental else k1) in
      if k2 \<noteq> CheckpointFull \<and> k2 \<noteq> CheckpointIncremental then None
      else if k2 = CheckpointIncremental \<and> parent = [] then None
      else if k2 = CheckpointFull \<and> parent \<noteq> [] then None
      else Some k2)"

definition freeze_stamp :: "bool \<Rightarrow> captured \<Rightarrow> captured" where
  "freeze_stamp running c = (if running then c else c\<lparr>ca_freeze := 0\<rparr>)"

definition undo_freeze :: "bool \<Rightarrow> ck_env \<Rightarrow> string \<Rightarrow> runtime \<Rightarrow> runtime" where
  "undo_freeze resume env i rt = (if resume then snd (rt_resume (ce_undo env) i rt) else rt)"

definition when_op :: "bool \<Rightarrow> (runtime \<Rightarrow> (rt_error, workload) outcome \<times> runtime) \<Rightarrow> runtime \<Rightarrow> bool \<times> runtime" where
  "when_op b f rt = (if b then (case f rt of (res, rt') \<Rightarrow> (\<not> failed res, rt')) else (True, rt))"

text \<open>\<open>Service.Create\<close> after the checks: freeze, dump, store, mark.\<close>

definition create_finish :: "ck_env \<Rightarrow> create_options \<Rightarrow> workload \<Rightarrow> runtime \<Rightarrow> create_result \<times> runtime" where
  "create_finish env opt w rt =
     (let running = (wl_status w = WorkloadRunning); i = wsp_id (wl_spec w);
          leave = (running \<and> co_leave_running opt); early = (ce_snapshot env \<and> leave);
          late = (leave \<and> \<not> early); c = freeze_stamp running (ce_captured env) in
      case when_op running (rt_pause (ce_pause env) i) rt of
        (False, rt1) \<Rightarrow> (CreateFailed, undo_freeze running env i rt1)
      | (True, rt1) \<Rightarrow>
      if \<not> ce_dump env \<or> \<not> ce_images env then (CreateFailed, undo_freeze running env i rt1)
      else case when_op early (rt_resume (ce_resume env) i) rt1 of
        (False, rt2) \<Rightarrow> (CreateFailed, undo_freeze running env i rt2)
      | (True, rt2) \<Rightarrow>
      if \<not> ce_stored env then (CreateFailed, undo_freeze (running \<and> \<not> early) env i rt2)
      else if \<not> ce_index env \<or> \<not> ce_mirror env then (Bookkeeping c, undo_freeze late env i rt2)
      else case when_op late (rt_resume (ce_resume env) i) rt2 of
        (False, rt3) \<Rightarrow> (Bookkeeping c, undo_freeze late env i rt3)
      | (True, rt3) \<Rightarrow>
      case rt_mark_checkpoint (ce_mark env) i (mf_id (ca_manifest c)) leave rt3 of
        (Inl e, rt4) \<Rightarrow> (Bookkeeping c, rt4)
      | (Inr w', rt4) \<Rightarrow> (Created c, rt4))"

definition service_create :: "ck_env \<Rightarrow> create_options \<Rightarrow> string \<Rightarrow> runtime \<Rightarrow> create_result \<times> runtime" where
  "service_create env opt wid rt =
     (if ce_busy env then (CreateFailed, rt)
      else case rt_get rt wid of
        None \<Rightarrow> (CreateFailed, rt)
      | Some w \<Rightarrow>
          if \<not> proc_alive (rt_kernel rt) (wl_process w) then (CreateFailed, rt)
          else if resolve_kind (co_kind opt) (co_parent opt) = None then (CreateFailed, rt)
          else if \<not> ce_ready env then (CreateFailed, rt)
          else if co_parent opt \<noteq> [] \<and> \<not> ce_parent env
          then (CreateFailed, undo_freeze (wl_status w = WorkloadRunning) env (wsp_id (wl_spec w)) rt)
          else create_finish env opt w rt)"

section \<open>Live sessions\<close>

record live_session =
  ls_workload :: workload
  ls_running :: bool
  ls_limit :: int
  ls_key_version :: nat
  ls_passes :: nat
  ls_baseline :: int
  ls_frozen :: bool
  ls_freeze :: time
  ls_closed :: bool
  ls_failed :: bool

definition clamp_passes :: "int \<Rightarrow> int" where
  "clamp_passes n = (if n < 1 then 1 else if n > 16 then 16 else n)"

definition begin_live :: "ck_env \<Rightarrow> int \<Rightarrow> string \<Rightarrow> nat option \<Rightarrow> runtime \<Rightarrow> live_session option" where
  "begin_live env passes wid key_version rt =
     (if ce_busy env then None
      else case rt_get rt wid of
        None \<Rightarrow> None
      | Some w \<Rightarrow>
          if \<not> proc_alive (rt_kernel rt) (wl_process w) then None
          else if \<not> ce_ready env then None
          else map_option (\<lambda>v. \<lparr>ls_workload = w, ls_running = (wl_status w = WorkloadRunning), ls_limit = clamp_passes passes,
                 ls_key_version = v, ls_passes = 0, ls_baseline = 0, ls_frozen = False, ls_freeze = 0, ls_closed = False,
                 ls_failed = False\<rparr>) key_version)"

definition can_pass :: "live_session \<Rightarrow> bool" where
  "can_pass l \<longleftrightarrow> ls_running l \<and> \<not> ls_closed l \<and> \<not> ls_failed l"

text \<open>
  One pass: what CRIU and the archiver give, \<open>None\<close> when one of them fails, and the measured delta.  A
  quarter of the first pass ends the loop.
\<close>

record pass_env =
  pe_asset :: "asset_manifest option"
  pe_delta :: "int option"

record pass_report =
  pr_index :: nat
  pr_asset :: asset_manifest
  pr_more :: bool

definition require_key_version :: "nat \<Rightarrow> asset_manifest \<Rightarrow> bool" where
  "require_key_version v a \<longleftrightarrow> list_all (\<lambda>ref. cr_key_version ref = v) (am_chunks a)"

definition more_passes :: "live_session \<Rightarrow> int option \<Rightarrow> bool" where
  "more_passes l delta =
     (let n = ls_passes l + 1; more = (int n < ls_limit l) in
      case delta of
        None \<Rightarrow> more
      | Some d \<Rightarrow> if n = 1 then more else if ls_baseline l > 0 \<and> d \<le> ls_baseline l div 4 then False else more)"

definition live_pass :: "pass_env \<Rightarrow> live_session \<Rightarrow> pass_report option \<times> live_session" where
  "live_pass env l =
     (if ls_closed l \<or> ls_failed l \<or> \<not> ls_running l \<or> int (ls_passes l) \<ge> ls_limit l then (None, l)
      else case pe_asset env of
        None \<Rightarrow> (None, l\<lparr>ls_failed := True\<rparr>)
      | Some a \<Rightarrow>
          if \<not> require_key_version (ls_key_version l) a then (None, l\<lparr>ls_failed := True\<rparr>)
          else (Some \<lparr>pr_index = ls_passes l + 1, pr_asset = a, pr_more = more_passes l (pe_delta env)\<rparr>,
                l\<lparr>ls_passes := ls_passes l + 1,
                  ls_baseline := (case pe_delta env of Some d \<Rightarrow> if ls_passes l = 0 then d else ls_baseline l | None \<Rightarrow> ls_baseline l)\<rparr>))"

text \<open>
  \<open>Finalize\<close>: the frozen window.  Any failure after the freeze thaws the workload again, also one after
  the checkpoint was saved.
\<close>

definition live_thaw :: "ck_env \<Rightarrow> live_session \<Rightarrow> runtime \<Rightarrow> runtime" where
  "live_thaw env l rt = undo_freeze (ls_frozen l \<and> ls_running l) env (wsp_id (wl_spec (ls_workload l))) rt"

definition finalize_frozen ::
  "ck_env \<Rightarrow> bool \<Rightarrow> live_session \<Rightarrow> runtime \<Rightarrow> captured option \<times> live_session \<times> runtime" where
  "finalize_frozen env leave_running l rt =
     (let i = wsp_id (wl_spec (ls_workload l)); c = freeze_stamp (ls_running l) (ce_captured env);
          leave = (ls_running l \<and> leave_running) in
      if \<not> ce_dump env \<or> \<not> ce_images env then (None, l, live_thaw env l rt)
      else case when_op (ce_snapshot env \<and> leave) (rt_resume (ce_resume env) i) rt of
        (False, rt1) \<Rightarrow> (None, l, live_thaw env l rt1)
      | (True, rt1) \<Rightarrow>
      let l1 = l\<lparr>ls_frozen := (if ce_snapshot env \<and> leave then False else ls_frozen l)\<rparr> in
      if \<not> ce_stored env \<or> \<not> list_all (require_key_version (ls_key_version l)) (mf_assets (ca_manifest c))
      then (None, l1, live_thaw env l1 rt1)
      else if \<not> ce_index env \<or> \<not> ce_mirror env then (None, l1, live_thaw env l1 rt1)
      else case when_op (leave \<and> ls_frozen l1) (rt_resume (ce_resume env) i) rt1 of
        (False, rt2) \<Rightarrow> (None, l1, live_thaw env l1 rt2)
      | (True, rt2) \<Rightarrow>
      let l2 = l1\<lparr>ls_frozen := (if leave then False else ls_frozen l1)\<rparr> in
      case rt_mark_checkpoint (ce_mark env) i (mf_id (ca_manifest c)) leave rt2 of
        (Inl e, rt3) \<Rightarrow> (None, l2, live_thaw env l2 rt3)
      | (Inr w, rt3) \<Rightarrow> (Some c, l2, rt3))"

definition live_finalize ::
  "ck_env \<Rightarrow> bool \<Rightarrow> live_session \<Rightarrow> runtime \<Rightarrow> captured option \<times> live_session \<times> runtime" where
  "live_finalize env leave_running l rt =
     (if ls_closed l \<or> ls_failed l then (None, l, rt)
      else let l1 = l\<lparr>ls_closed := True\<rparr> in
      case when_op (ls_running l) (rt_pause (ce_pause env) (wsp_id (wl_spec (ls_workload l)))) rt of
        (False, rt1) \<Rightarrow> (None, l1, rt1)
      | (True, rt1) \<Rightarrow>
          finalize_frozen env leave_running
            (if ls_running l then l1\<lparr>ls_frozen := True, ls_freeze := ca_freeze (ce_captured env)\<rparr> else l1) rt1)"

definition live_abort :: "ck_env \<Rightarrow> live_session \<Rightarrow> runtime \<Rightarrow> live_session \<times> runtime" where
  "live_abort env l rt = (if ls_closed l then (l, rt) else (l\<lparr>ls_closed := True\<rparr>, live_thaw env l rt))"

end
