(* ===== verification/Peer_Client.thy ===== *)
theory Peer_Client
  imports Transfer_Server
begin

text \<open>
  \<^verbatim>\<open>src/internal/transfer/client.go\<close>: the source agent's client of a peer server, over a network that
  loses requests and answers.  A call is a list of attempts; each attempt has a fate, the environment in
  which the server runs it, and whether the destination reaped expired sessions just before.  The interface
  the orchestrator relies on is the locale \<open>peer_client\<close>, interpreted on this client over the server.
\<close>

section \<open>Requests over the network\<close>

datatype fate = Lost | ReplyLost | Garbled | Answered

record net_attempt =
  na_fate :: fate
  na_reap :: bool
  na_server :: sv_env

datatype peer_error = PeerNotFound | PeerRefused nat | PeerTransport

text \<open>
  One attempt.  An id drawn by \<open>NewID\<close> never repeats, so an attempt in whose environment the restore id is
  not fresh is one that never arrives.
\<close>

definition deliver :: "net_attempt \<Rightarrow> string \<Rightarrow> request \<Rightarrow> server \<Rightarrow> response option \<times> server" where
  "deliver a m rq sv =
     (let sv0 = (if na_reap a then reap (na_server a) sv else sv) in
      if na_fate a = Lost \<or> \<not> fresh_id (q_prepare (na_server a)) (sv_restorer sv0) then (None, sv0)
      else case serve (na_server a) m rq sv0 of
        (resp, sv1) \<Rightarrow> (if na_fate a = ReplyLost then None else Some resp, sv1))"

definition retryable_status :: "nat \<Rightarrow> bool" where
  "retryable_status st \<longleftrightarrow> st \<in> {500, 502, 503, 504, 429}"

definition remote_error :: "nat \<Rightarrow> peer_error" where
  "remote_error st = (if st = 404 then PeerNotFound else PeerRefused st)"

text \<open>\<open>doJSON\<close>: at most \<open>n\<close> attempts; an exhausted list is a context that ended.\<close>

fun do_json :: "nat \<Rightarrow> peer_error \<Rightarrow> net_attempt list \<Rightarrow> string \<Rightarrow> request \<Rightarrow> server \<Rightarrow> (peer_error, response) outcome \<times> server" where
  "do_json 0 err as m rq sv = (Inl err, sv)"
| "do_json (Suc n) err [] m rq sv = (Inl PeerTransport, sv)"
| "do_json (Suc n) err (a # as) m rq sv =
     (case deliver a m rq sv of
        (None, sv1) \<Rightarrow> do_json n PeerTransport as m rq sv1
      | (Some (Refused st c), sv1) \<Rightarrow>
          if retryable_status st then do_json n (remote_error st) as m rq sv1 else (Inl (remote_error st), sv1)
      | (Some resp, sv1) \<Rightarrow> if na_fate a = Garbled then (Inl PeerTransport, sv1) else (Inr resp, sv1))"

definition request_attempts :: nat where
  "request_attempts = 4"

section \<open>Calls\<close>

datatype peer_op = PeerRequest request | PeerUpload string chunk_ref chunk_store

record net_env =
  ne_attempts :: "net_attempt list"
  ne_codec :: codec
  ne_partial :: bytes

text \<open>
  \<open>UploadChunk\<close> makes one attempt; when the export fails half way the peer sees the bytes sent so far.
\<close>

definition upload_chunk :: "net_env \<Rightarrow> string \<Rightarrow> string \<Rightarrow> chunk_ref \<Rightarrow> chunk_store \<Rightarrow> server \<Rightarrow> (peer_error, response) outcome \<times> server" where
  "upload_chunk net m k ref st sv =
     (let exported = export_chunk (ne_codec net) st ref;
          body = (case exported of Inl e \<Rightarrow> ne_partial net | Inr b \<Rightarrow> b) in
      case ne_attempts net of
        [] \<Rightarrow> (Inl PeerTransport, sv)
      | a # as \<Rightarrow>
     (case deliver a m (RqChunk k (Some (cr_key_version ref)) (Some ref) (cr_address ref) body) sv of
        (None, sv1) \<Rightarrow> (Inl PeerTransport, sv1)
      | (Some (Refused s c), sv1) \<Rightarrow> (Inl (remote_error s), sv1)
      | (Some resp, sv1) \<Rightarrow> if failed exported then (Inl PeerTransport, sv1) else (Inr resp, sv1)))"

fun client_call :: "string \<Rightarrow> net_env \<Rightarrow> peer_op \<Rightarrow> server \<Rightarrow> (peer_error, response) outcome \<times> server" where
  "client_call m net (PeerRequest rq) sv = do_json request_attempts PeerTransport (ne_attempts net) m rq sv"
| "client_call m net (PeerUpload k ref st) sv = upload_chunk net m k ref st sv"

section \<open>The interface\<close>

text \<open>
  What the orchestrator relies on.  \<open>held k\<close>: the peer runs a copy of the workload of transfer \<open>k\<close>;
  \<open>settled_at k\<close>: the peer's copy is committed.  Only a restore can add a copy, an acknowledged rollback and
  a probe that shows an unrestored transfer mean that there is none, and an acknowledged commit is final.
\<close>

fun restores :: "peer_op \<Rightarrow> bool" where
  "restores (PeerRequest rq) = is_restore rq"
| "restores (PeerUpload k ref st) = False"

definition copy_free :: "session \<Rightarrow> bool" where
  "copy_free s \<longleftrightarrow> ss_state s \<in> {SessionReserved, SessionKeyReady, SessionManifestReady, SessionRolledBack, SessionFailed}"

locale peer_client =
  fixes peer_ok :: "'s \<Rightarrow> bool"
    and held :: "string \<Rightarrow> 's \<Rightarrow> bool"
    and committed_at :: "string \<Rightarrow> 's \<Rightarrow> bool"
    and call :: "'e \<Rightarrow> peer_op \<Rightarrow> 's \<Rightarrow> (peer_error, response) outcome \<times> 's"
  assumes call_ok: "peer_ok s \<Longrightarrow> call e op s = (out, s') \<Longrightarrow> peer_ok s'"
    and call_no_copy: "peer_ok s \<Longrightarrow> \<not> restores op \<Longrightarrow> call e op s = (out, s') \<Longrightarrow> held k s' \<Longrightarrow> held k s"
    and call_committed: "peer_ok s \<Longrightarrow> call e op s = (out, s') \<Longrightarrow> committed_at k s \<Longrightarrow> committed_at k s'"
    and rollback_free: "peer_ok s \<Longrightarrow> call e (PeerRequest (RqRollback k)) s = (out, s') \<Longrightarrow>
          \<not> failed out \<or> out = Inl PeerNotFound \<Longrightarrow> \<not> held k s'"
    and probe_free: "peer_ok s \<Longrightarrow> call e (PeerRequest (RqGetCleanup k)) s = (out, s') \<Longrightarrow>
          out = Inl PeerNotFound \<or> (\<exists>x. out = Inr (GotSession x) \<and> copy_free x) \<Longrightarrow> \<not> held k s'"
    and probe_committed: "peer_ok s \<Longrightarrow> call e (PeerRequest (RqGetCleanup k)) s = (Inr (GotSession x), s') \<Longrightarrow>
          ss_state x = SessionCommitted \<Longrightarrow> committed_at k s'"
    and commit_final: "peer_ok s \<Longrightarrow> call e (PeerRequest (RqCommit k)) s = (out, s') \<Longrightarrow> \<not> failed out \<Longrightarrow> committed_at k s'"

section \<open>The client over the server\<close>

definition committed_transfer :: "string \<Rightarrow> server \<Rightarrow> bool" where
  "committed_transfer k sv =
     (case st_get (sv_sessions sv) k of None \<Rightarrow> False | Some s \<Rightarrow> ss_state s = SessionCommitted)"

lemma safe_step_committed: "safe_step sv sv' \<Longrightarrow> committed_transfer k sv \<Longrightarrow> committed_transfer k sv'"
  by (fastforce simp: safe_step_def keeps_settled_def committed_transfer_def settled_session_def split: option.splits)

definition before_serve :: "net_attempt \<Rightarrow> server \<Rightarrow> server" where
  "before_serve a sv = (if na_reap a then reap (na_server a) sv else sv)"

lemma before_serve_safe:
  assumes "server_ok sv"
  shows "safe_step sv (before_serve a sv)" and "no_new_copy (sv_sessions sv) (sv_sessions (before_serve a sv))"
  using reap_safe [OF assms] safe_step_refl [OF assms] plain_reap [OF server_sessions_ok [OF assms]]
  by (auto simp: before_serve_def)

lemma deliver_served:
  assumes "deliver a m rq sv = (out, sv')"
  shows "out = None \<and> sv' = before_serve a sv
    \<or> (\<exists>resp. serve (na_server a) m rq (before_serve a sv) = (resp, sv')
         \<and> fresh_id (q_prepare (na_server a)) (sv_restorer (before_serve a sv)) \<and> (out = None \<or> out = Some resp))"
  using assms by (auto simp: deliver_def before_serve_def Let_def split: if_splits prod.splits)

lemma deliver_safe:
  assumes "server_ok sv" and "deliver a m rq sv = (out, sv')"
  shows "safe_step sv sv'" and "\<not> is_restore rq \<Longrightarrow> no_new_copy (sv_sessions sv) (sv_sessions sv')"
proof -
  note one = before_serve_safe [OF assms(1), of a]
  then have ok: "server_ok (before_serve a sv)" by (simp add: safe_step_def)
  from deliver_served [OF assms(2)] serve_safe [OF ok] serve_plain [OF ok] one
  show "safe_step sv sv'" and "\<not> is_restore rq \<Longrightarrow> no_new_copy (sv_sessions sv) (sv_sessions sv')"
    using safe_step_trans no_new_copy_trans by blast+
qed

text \<open>Every answer of a call was given by the server in some attempt, and the call ends with it.\<close>

lemma do_json_safe:
  assumes "server_ok sv" and "do_json n err as m rq sv = (out, sv')"
  shows "safe_step sv sv' \<and> (\<not> is_restore rq \<longrightarrow> no_new_copy (sv_sessions sv) (sv_sessions sv'))"
  using assms
proof (induction n err as m rq sv rule: do_json.induct)
  case (3 n err a as m rq sv)
  obtain resp sv1 where d: "deliver a m rq sv = (resp, sv1)" by fastforce
  note one = deliver_safe [OF "3.prems"(1) d]
  then have ok: "server_ok sv1" by (simp add: safe_step_def)
  show ?case
  proof (cases resp)
    case None
    with "3.IH"(1) [OF d [symmetric] None ok] "3.prems"(2) d one show ?thesis
      using safe_step_trans no_new_copy_trans by auto
  next
    case (Some r)
    show ?thesis
    proof (cases "\<exists>st c. r = Refused st c \<and> retryable_status st")
      case True
      then obtain st c where r: "r = Refused st c" "retryable_status st" by blast
      with "3.IH"(2) [OF d [symmetric] Some r(1) r(2) ok] "3.prems"(2) d one Some show ?thesis
        using safe_step_trans no_new_copy_trans by auto
    next
      case False
      with "3.prems"(2) d one Some show ?thesis by (auto split: response.splits if_splits)
    qed
  qed
qed (auto intro: safe_step_refl)

definition answered :: "(peer_error, response) outcome \<Rightarrow> response \<Rightarrow> bool" where
  "answered out resp \<longleftrightarrow>
     (case resp of Refused st c \<Rightarrow> out = Inl (remote_error st) | _ \<Rightarrow> out = Inr resp)"

definition conclusive :: "(peer_error, response) outcome \<Rightarrow> bool" where
  "conclusive out \<longleftrightarrow> \<not> failed out \<or> out = Inl PeerNotFound"

lemma retryable_not_found: "retryable_status st \<Longrightarrow> remote_error st \<noteq> PeerNotFound"
  by (auto simp: retryable_status_def remote_error_def)

lemma do_json_answer:
  assumes "server_ok sv" and "do_json n err as m rq sv = (out, sv')" and "conclusive out" and "err \<noteq> PeerNotFound"
  shows "\<exists>env sv1 resp. server_ok sv1 \<and> fresh_id (q_prepare env) (sv_restorer sv1)
    \<and> serve env m rq sv1 = (resp, sv') \<and> answered out resp"
  using assms
proof (induction n err as m rq sv rule: do_json.induct)
  case (3 n err a as m rq sv)
  obtain resp sv1 where d: "deliver a m rq sv = (resp, sv1)" by fastforce
  have ok: "server_ok sv1" using deliver_safe [OF "3.prems"(1) d] by (simp add: safe_step_def)
  show ?case
  proof (cases resp)
    case None
    with "3.IH"(1) [OF d [symmetric] None ok] "3.prems" d show ?thesis by simp
  next
    case (Some r)
    show ?thesis
    proof (cases "\<exists>st c. r = Refused st c \<and> retryable_status st")
      case True
      then obtain st c where r: "r = Refused st c" "retryable_status st" by blast
      with "3.IH"(2) [OF d [symmetric] Some r(1) r(2) ok] "3.prems" d Some retryable_not_found show ?thesis by simp
    next
      case False
      with "3.prems"(2,3) d Some have "answered out r \<and> sv' = sv1"
        by (auto simp: answered_def conclusive_def split: response.splits if_splits)
      moreover have "server_ok (before_serve a sv)" using before_serve_safe [OF "3.prems"(1)] by (simp add: safe_step_def)
      ultimately show ?thesis using deliver_served [OF d] Some by auto
    qed
  qed
qed (auto simp: conclusive_def)

lemma client_call_safe:
  assumes "server_ok sv" and "client_call m net op sv = (out, sv')"
  shows "safe_step sv sv' \<and> (\<not> restores op \<longrightarrow> no_new_copy (sv_sessions sv) (sv_sessions sv'))"
proof (cases op)
  case (PeerRequest rq)
  with assms do_json_safe show ?thesis by simp
next
  case (PeerUpload k ref st)
  from assms(2) PeerUpload have "sv' = sv \<or> (\<exists>a body r. deliver a m (RqChunk k (Some (cr_key_version ref)) (Some ref) (cr_address ref) body) sv = (r, sv'))"
    by (fastforce simp: upload_chunk_def Let_def split: list.splits prod.splits option.splits response.splits if_splits)
  with deliver_safe [OF assms(1)] safe_step_refl [OF assms(1)] PeerUpload show ?thesis by auto
qed

lemma client_answer:
  assumes "server_ok sv" and "client_call m net (PeerRequest rq) sv = (out, sv')" and "conclusive out"
  shows "\<exists>env sv1 resp. server_ok sv1 \<and> fresh_id (q_prepare env) (sv_restorer sv1)
    \<and> serve env m rq sv1 = (resp, sv') \<and> answered out resp"
  using do_json_answer [of sv request_attempts PeerTransport "ne_attempts net" m rq out sv'] assms by simp

lemma rollback_responses: "serve env m (RqRollback k) sv = (resp, sv') \<Longrightarrow> (\<exists>s. resp = GotSession s) \<or> (\<exists>st c. resp = Refused st c)"
  by (auto simp: h_rollback_def Let_def split: sum.splits if_splits prod.splits)

lemma commit_responses: "serve env m (RqCommit k) sv = (resp, sv') \<Longrightarrow> (\<exists>s. resp = GotSession s) \<or> (\<exists>st c. resp = Refused st c)"
  by (auto simp: h_commit_def commit_begin_def commit_finish_def Let_def split: sum.splits if_splits prod.splits)

lemma cleanup_responses: "serve env m (RqGetCleanup k) sv = (resp, sv') \<Longrightarrow> (\<exists>s. resp = GotSession s) \<or> (\<exists>st c. resp = Refused st c)"
  by (auto simp: h_get_cleanup_def split: sum.splits)

lemma answered_simps:
  "answered out (GotSession s) \<longleftrightarrow> out = Inr (GotSession s)"
  "answered out (Refused st c) \<longleftrightarrow> out = Inl (remote_error st)"
  "remote_error st = PeerNotFound \<longleftrightarrow> st = 404" "PeerNotFound = remote_error st \<longleftrightarrow> st = 404"
  by (auto simp: answered_def remote_error_def)

interpretation pc: peer_client server_ok "copy_held m" committed_transfer "client_call m" for m
proof (unfold_locales, goal_cases)
  case (1 s e op out s')
  then show ?case using client_call_safe safe_step_def by blast
next
  case (2 s op e out s' k)
  then show ?case using client_call_safe no_new_copy_held by blast
next
  case (3 s e op out s' k)
  then show ?case using client_call_safe safe_step_committed by blast
next
  case (4 s e k out s')
  then obtain env sv1 resp where a: "server_ok sv1" "serve env m (RqRollback k) sv1 = (resp, s')" "answered out resp"
    using client_answer [OF 4(1,2)] by (auto simp: conclusive_def)
  from rollback_responses [OF a(2)] show ?case
  proof (elim disjE exE)
    fix st c assume "resp = Refused st c"
    moreover from this a(3) 4(3) have "st = 404" by (simp add: answered_simps)
    ultimately show ?thesis using rollback_answer(2) [OF a(1,2)] by simp
  qed (rule rollback_answer(1) [OF a(1,2)])
next
  case (5 s e k out s')
  then have "conclusive out" by (auto simp: conclusive_def)
  then obtain env sv1 resp where a: "server_ok sv1" "serve env m (RqGetCleanup k) sv1 = (resp, s')" "answered out resp"
    using client_answer [OF 5(1,2)] by blast
  note same = cleanup_answer(1) [OF a(2)]
  from cleanup_responses [OF a(2)] show ?case
  proof (elim disjE exE)
    fix st c assume "resp = Refused st c"
    with cleanup_answer(3) [OF a(2)] same show ?thesis by simp
  next
    fix x assume x: "resp = GotSession x"
    with a(3) 5(3) have "copy_free x" by (auto simp: answered_simps)
    moreover have "st_get (sv_sessions s') k = Some x" using cleanup_answer(2) [OF a(2) x] same by simp
    ultimately show ?thesis by (auto simp: copy_held_def holds_copy_def copy_free_def)
  qed
next
  case (6 s e k x s')
  then have "conclusive (Inr (GotSession x) :: (peer_error, response) outcome)" by (simp add: conclusive_def)
  then obtain env sv1 resp where a: "serve env m (RqGetCleanup k) sv1 = (resp, s')" "answered (Inr (GotSession x)) resp"
    using client_answer [OF 6(1,2)] by blast
  then have "resp = GotSession x" using cleanup_responses [OF a(1)] by (auto simp: answered_simps)
  with cleanup_answer(1,2) [OF a(1)] 6(3) show ?case by (simp add: committed_transfer_def)
next
  case (7 s e k out s')
  then obtain env sv1 resp where a: "server_ok sv1" "serve env m (RqCommit k) sv1 = (resp, s')" "answered out resp"
    using client_answer [OF 7(1,2)] by (auto simp: conclusive_def)
  then obtain x where "resp = GotSession x" using commit_responses [OF a(2)] 7(3) by (auto simp: answered_simps)
  with commit_answer [OF a(1,2)] show ?case by (auto simp: committed_transfer_def)
qed

end
