(* ===== verification/Migration_Orchestrator.thy ===== *)
theory Migration_Orchestrator
  imports Migration_Model Checkpoint_Service Peer_Client
begin

text \<open>
  \<^verbatim>\<open>src/internal/migration/orchestrator.go\<close>, \<^verbatim>\<open>freezestate.go\<close> and \<^verbatim>\<open>sourcenetwork.go\<close>: the source side
  of a migration.  The destination is reached through the operations of the \<open>PeerClient\<close> interface, here
  the argument \<open>call\<close> over a peer state of any type.  A run is the list of its steps, each with at most one
  critical section or one peer call, so that a crash is a prefix of the list.  Every write, runtime
  operation and peer call consumes one tick, and the environment answers per tick.
\<close>

section \<open>State\<close>

record migration_freeze =
  fz_migration :: string
  fz_workload :: string
  fz_owns :: bool
  fz_downtime :: time
  fz_recorded :: time

text \<open>
  \<open>og_drained\<close>: workloads whose forwarders were stopped; \<open>og_status\<close>: the status documents written into
  workload roots, with the migration and whether it says completed.
\<close>

record 's orchestrator =
  og_records :: "migration store"
  og_freezes :: "migration_freeze store"
  og_runtime :: runtime
  og_chunks :: chunk_store
  og_peer :: 's
  og_machine :: string
  og_drained :: "string set"
  og_status :: "(string \<times> string \<times> bool) list"
  og_tick :: nat

record 'e og_env =
  oe_now :: "nat \<Rightarrow> time"
  oe_write :: "nat \<Rightarrow> bool"
  oe_runtime :: "nat \<Rightarrow> rt_env"
  oe_peer :: "nat \<Rightarrow> 'e"
  oe_stopped :: "nat \<Rightarrow> bool"
  oe_cancelled :: "nat \<Rightarrow> bool"
  oe_client :: bool
  oe_machine :: "string option"
  oe_inventory :: bool
  oe_report :: compatibility_report
  oe_plan :: "network_plan option"
  oe_network :: bool
  oe_activate :: bool
  oe_capture :: ck_env
  oe_pass :: "nat \<Rightarrow> pass_env"
  oe_fresh_key :: key
  oe_root_bound :: int

text \<open>
  \<open>oe_stopped\<close>: the context in force has ended; \<open>oe_cancelled\<close>: it was cancelled.  The handlers of a failed
  run work on a context that never ends.
\<close>

definition background :: "'e og_env \<Rightarrow> 'e og_env" where
  "background env = env\<lparr>oe_stopped := (\<lambda>n. False)\<rparr>"

type_synonym ('e, 's) peer_call = "'e \<Rightarrow> peer_op \<Rightarrow> 's \<Rightarrow> (peer_error, response) outcome \<times> 's"

definition tick :: "'s orchestrator \<Rightarrow> 's orchestrator" where
  "tick og = og\<lparr>og_tick := og_tick og + 1\<rparr>"

section \<open>Records\<close>

definition og_update ::
  "'e og_env \<Rightarrow> string \<Rightarrow> (time \<Rightarrow> migration \<Rightarrow> migration option) \<Rightarrow> 's orchestrator \<Rightarrow> bool \<times> 's orchestrator" where
  "og_update env i f og =
     (let now = oe_now env (og_tick og); og1 = tick og in
      case st_get (og_records og) i of
        None \<Rightarrow> (False, og1)
      | Some m \<Rightarrow>
     (case f now m of
        None \<Rightarrow> (False, og1)
      | Some m' \<Rightarrow>
          if \<not> oe_write env (og_tick og) then (False, og1)
          else (True, og1\<lparr>og_records := st_put i (m'\<lparr>m_updated_at := now, m_revision := m_revision m' + 1\<rparr>) (og_records og)\<rparr>)))"

definition og_transition ::
  "'e og_env \<Rightarrow> string \<Rightarrow> migration_stage \<Rightarrow> msg \<Rightarrow> rat \<Rightarrow> 's orchestrator \<Rightarrow> bool \<times> 's orchestrator" where
  "og_transition env i stage message progress = og_update env i (\<lambda>now. transition now stage message progress)"

definition og_progress ::
  "'e og_env \<Rightarrow> string \<Rightarrow> msg \<Rightarrow> rat \<Rightarrow> int \<Rightarrow> int \<Rightarrow> 's orchestrator \<Rightarrow> bool \<times> 's orchestrator" where
  "og_progress env i message progress sent whole =
     og_update env i (\<lambda>now m. Some (append_event now message progress sent whole m))"

definition note_stage_event :: "'e og_env \<Rightarrow> string \<Rightarrow> msg \<Rightarrow> 's orchestrator \<Rightarrow> 's orchestrator" where
  "note_stage_event env i message og =
     snd (og_update env i (\<lambda>now m. Some (append_event now message (migration_progress (m_stage m)) 0 0 m)) og)"

definition force_settle :: "'e og_env \<Rightarrow> string \<Rightarrow> migration_stage \<Rightarrow> msg \<Rightarrow> 's orchestrator \<Rightarrow> bool \<times> 's orchestrator" where
  "force_settle env i stage message =
     og_update env i (\<lambda>now m. Some (append_event now message 1 0 0
       (m\<lparr>m_stage := stage, m_updated_at := now, m_completed_at := Some now\<rparr>)))"

definition force_complete_recovered :: "'e og_env \<Rightarrow> string \<Rightarrow> msg \<Rightarrow> bool \<Rightarrow> 's orchestrator \<Rightarrow> bool \<times> 's orchestrator" where
  "force_complete_recovered env i message stop_failed =
     og_update env i (\<lambda>now m. Some (append_event now message 1 0 0
       ((if stop_failed then m\<lparr>m_failure_code := SOURCE_CLEANUP_FAILED, m_failure_reason := [StopFailedNote]\<rparr> else m)
          \<lparr>m_stage := MigrationCompleted, m_source_preserved := stop_failed, m_updated_at := now, m_completed_at := Some now\<rparr>)))"

section \<open>Freeze ownership and downtime\<close>

definition put_freeze :: "'e og_env \<Rightarrow> string \<Rightarrow> migration_freeze \<Rightarrow> 's orchestrator \<Rightarrow> 's orchestrator" where
  "put_freeze env i fz og =
     (if oe_write env (og_tick og) then (tick og)\<lparr>og_freezes := st_put i fz (og_freezes og)\<rparr> else tick og)"

definition note_freeze_ownership :: "'e og_env \<Rightarrow> string \<Rightarrow> string \<Rightarrow> bool \<Rightarrow> 's orchestrator \<Rightarrow> 's orchestrator" where
  "note_freeze_ownership env i wid owns og =
     (let now = oe_now env (og_tick og);
          fz = \<lparr>fz_migration = i, fz_workload = wid, fz_owns = owns, fz_downtime = 0, fz_recorded = now\<rparr>;
          fz' = (case st_get (og_freezes og) i of
                     None \<Rightarrow> fz
                   | Some old \<Rightarrow> fz\<lparr>fz_downtime := fz_downtime old,
                                     fz_recorded := (if IsZero (fz_recorded old) then now else fz_recorded old)\<rparr>)
      in put_freeze env i fz' og)"

definition note_downtime_start :: "'e og_env \<Rightarrow> string \<Rightarrow> time \<Rightarrow> 's orchestrator \<Rightarrow> 's orchestrator" where
  "note_downtime_start env i t og =
     (if IsZero t then og
      else put_freeze env i
        (case st_get (og_freezes og) i of
           None \<Rightarrow> \<lparr>fz_migration = i, fz_workload = [], fz_owns = False, fz_downtime = t, fz_recorded = t\<rparr>
         | Some old \<Rightarrow> old\<lparr>fz_downtime := t\<rparr>) og)"

definition frozen_stage_rank :: "migration_stage \<Rightarrow> nat option" where
  "frozen_stage_rank s = (case s of
      MigrationSnapshot \<Rightarrow> Some 1 | MigrationPrepare \<Rightarrow> Some 2 | MigrationTransfer \<Rightarrow> Some 3 | MigrationVerify \<Rightarrow> Some 4
    | MigrationRestore \<Rightarrow> Some 5 | MigrationPostValidate \<Rightarrow> Some 6 | MigrationSwitch \<Rightarrow> Some 7 | MigrationCommit \<Rightarrow> Some 8
    | MigrationCleanup \<Rightarrow> Some 9 | MigrationRollingBack \<Rightarrow> Some 10 | _ \<Rightarrow> None)"

definition recovery_owns_freeze :: "migration \<Rightarrow> migration_freeze option \<Rightarrow> bool" where
  "recovery_owns_freeze m fz =
     (case fz of
        Some f \<Rightarrow> fz_owns f
      | None \<Rightarrow>
     (case frozen_stage_rank (m_stage m) of
        None \<Rightarrow> False
      | Some r \<Rightarrow> if m_mode m = MigrationLive then r \<ge> 3 else True))"

section \<open>The source's network\<close>

definition drains :: "'e og_env \<Rightarrow> network_plan \<Rightarrow> bool" where
  "drains env plan \<longleftrightarrow> oe_network env \<and> np_drain_before_checkpoint plan \<and> np_ports plan \<noteq> []"

definition drain_source_forwarders :: "'e og_env \<Rightarrow> string \<Rightarrow> string \<Rightarrow> network_plan \<Rightarrow> 's orchestrator \<Rightarrow> time \<times> 's orchestrator" where
  "drain_source_forwarders env i wid plan og =
     (if \<not> drains env plan then (0, og)
      else (oe_now env (og_tick og),
            snd (og_progress env i DrainedNote (12/100) 0 0 (og\<lparr>og_drained := insert wid (og_drained og)\<rparr>))))"

definition restore_source_network :: "'e og_env \<Rightarrow> migration \<Rightarrow> 's orchestrator \<Rightarrow> 's orchestrator" where
  "restore_source_network env m og =
     (if \<not> drains env (m_network m) \<or> \<not> oe_activate env then og
      else og\<lparr>og_drained := og_drained og - {m_workload_id m}\<rparr>)"

definition record_source_outcome :: "'e og_env \<Rightarrow> string \<Rightarrow> string \<Rightarrow> network_plan \<Rightarrow> bool \<Rightarrow> 's orchestrator \<Rightarrow> 's orchestrator" where
  "record_source_outcome env i wid plan completed og =
     (case rt_get (og_runtime og) wid of
        None \<Rightarrow> og
      | Some w \<Rightarrow>
          if np_identity_ip plan = [] \<and> oe_plan env = None then og
          else if \<not> oe_write env (og_tick og) then tick og
          else (tick og)\<lparr>og_status := og_status og @ [(wsp_id (wl_spec w), i, completed)]\<rparr>)"

section \<open>Rolling back\<close>

definition peer_do :: "('e, 's) peer_call \<Rightarrow> 'e og_env \<Rightarrow> peer_op \<Rightarrow> 's orchestrator \<Rightarrow> (peer_error, response) outcome \<times> 's orchestrator" where
  "peer_do call env op og =
     (case call (oe_peer env (og_tick og)) op (og_peer og) of (out, p) \<Rightarrow> (out, (tick og)\<lparr>og_peer := p\<rparr>))"

definition rollback_attempts :: nat where
  "rollback_attempts = 4"

definition state_persist_attempts :: nat where
  "state_persist_attempts = 3"

definition source_stop_attempts :: nat where
  "source_stop_attempts = 3"

fun rollback_loop :: "('e, 's) peer_call \<Rightarrow> 'e og_env \<Rightarrow> string \<Rightarrow> nat \<Rightarrow> 's orchestrator \<Rightarrow> bool \<times> 's orchestrator" where
  "rollback_loop call env i 0 og = (False, og)"
| "rollback_loop call env i (Suc n) og =
     (case peer_do call env (PeerRequest (RqRollback i)) og of
        (out, og1) \<Rightarrow>
          if \<not> failed out \<or> out = Inl PeerNotFound then (True, og1)
          else if oe_stopped env (og_tick og1) then (False, og1)
          else rollback_loop call env i n og1)"

text \<open>Whether the destination is known to hold nothing, and the errors to record.\<close>

definition rollback_destination ::
  "('e, 's) peer_call \<Rightarrow> 'e og_env \<Rightarrow> string \<Rightarrow> bool \<Rightarrow> bool \<Rightarrow> 's orchestrator \<Rightarrow> bool \<times> msg list \<times> 's orchestrator" where
  "rollback_destination call env i peer reserved og =
     (if \<not> reserved then (True, [], og)
      else if \<not> peer then (False, [NoClientNote], og)
      else case rollback_loop call env i rollback_attempts og of
        (ok, og1) \<Rightarrow> (ok, if ok then [] else [RollbackFailedNote], og1))"

definition destination_holds_live_copy ::
  "('e, 's) peer_call \<Rightarrow> 'e og_env \<Rightarrow> string \<Rightarrow> bool \<Rightarrow> 's orchestrator \<Rightarrow> bool \<times> 's orchestrator" where
  "destination_holds_live_copy call env i peer og =
     (if \<not> peer then (True, og)
      else case peer_do call env (PeerRequest (RqGetCleanup i)) og of
        (Inl e, og1) \<Rightarrow> (e \<noteq> PeerNotFound, og1)
      | (Inr (GotSession s), og1) \<Rightarrow> (\<not> copy_free s, og1)
      | (Inr r, og1) \<Rightarrow> (True, og1))"

definition rt_do :: "'e og_env \<Rightarrow> (rt_env \<Rightarrow> runtime \<Rightarrow> (rt_error, workload) outcome \<times> runtime) \<Rightarrow> 's orchestrator \<Rightarrow> bool \<times> 's orchestrator" where
  "rt_do env f og = (case f (oe_runtime env (og_tick og)) (og_runtime og) of (res, rt) \<Rightarrow> (\<not> failed res, (tick og)\<lparr>og_runtime := rt\<rparr>))"

definition source_workload_running :: "string \<Rightarrow> 's orchestrator \<Rightarrow> bool" where
  "source_workload_running wid og =
     (case rt_get (og_runtime og) wid of None \<Rightarrow> False | Some w \<Rightarrow> wl_status w = WorkloadRunning)"

text \<open>The thaw: whether the source runs again, whether the resume failed.\<close>

definition thaw_source :: "'e og_env \<Rightarrow> string \<Rightarrow> 's orchestrator \<Rightarrow> bool \<times> bool \<times> 's orchestrator" where
  "thaw_source env wid og =
     (case rt_get (og_runtime og) wid of
        None \<Rightarrow> (False, False, og)
      | Some w \<Rightarrow>
          if wl_status w = WorkloadRunning then (True, False, og)
          else if wl_process w = None then (False, False, og)
          else case rt_do env (\<lambda>e. rt_resume e wid) og of (ok, og1) \<Rightarrow> (ok, \<not> ok, og1))"

fun stop_source_with_retry :: "'e og_env \<Rightarrow> string \<Rightarrow> nat \<Rightarrow> 's orchestrator \<Rightarrow> bool \<times> 's orchestrator" where
  "stop_source_with_retry env wid 0 og = (False, og)"
| "stop_source_with_retry env wid (Suc n) og =
     (case rt_do env (\<lambda>e. rt_stop e wid) og of
        (True, og1) \<Rightarrow> (True, og1)
      | (False, og1) \<Rightarrow> stop_source_with_retry env wid n og1)"

definition settle_committed :: "'e og_env \<Rightarrow> string \<Rightarrow> string \<Rightarrow> 's orchestrator \<Rightarrow> 's orchestrator" where
  "settle_committed env i wid og =
     (case stop_source_with_retry env wid source_stop_attempts og of
        (ok, og1) \<Rightarrow> snd (force_complete_recovered env i SettledNote (\<not> ok) og1))"

fun retry_transition :: "'e og_env \<Rightarrow> string \<Rightarrow> migration_stage \<Rightarrow> rat \<Rightarrow> nat \<Rightarrow> 's orchestrator \<Rightarrow> 's orchestrator" where
  "retry_transition env i stage progress 0 og = og"
| "retry_transition env i stage progress (Suc n) og =
     (case og_transition env i stage RollingBackNote progress og of
        (True, og1) \<Rightarrow> og1
      | (False, og1) \<Rightarrow> retry_transition env i stage progress n og1)"

text \<open>
  The part \<open>handleFailure\<close> and \<open>handleCancellation\<close> share: roll the destination back, thaw the source when
  that is safe, and settle the record in \<open>stage\<close>, or keep it for recovery.
\<close>

definition close_rollback ::
  "'e og_env \<Rightarrow> string \<Rightarrow> bool \<Rightarrow> migration_stage \<Rightarrow> migration \<Rightarrow> bool \<Rightarrow> bool \<Rightarrow> msg list \<Rightarrow> msg list \<Rightarrow> 's orchestrator \<Rightarrow> 's orchestrator" where
  "close_rollback env i pre_failed stage m safe resume_failed rb_errors notes og =
     (let og1 = snd (og_update env i (\<lambda>now v. Some (v\<lparr>m_source_preserved := True, m_failure_reason := m_failure_reason v @ notes\<rparr>)) og);
          og2 = record_source_outcome env i (m_workload_id m) (m_network m) False og1;
          now_stage = (case st_get (og_records og2) i of None \<Rightarrow> MigrationCreated | Some v \<Rightarrow> m_stage v) in
      if pre_failed then og2
      else if safe \<and> \<not> resume_failed \<and> rb_errors = []
      then (if can_transition now_stage stage then snd (og_transition env i stage RolledBackNote 1 og2)
            else snd (force_settle env i stage RolledBackNote og2))
      else if safe \<and> \<not> resume_failed then snd (force_settle env i stage UnconfirmedNote og2)
      else note_stage_event env i IncompleteNote og2)"

definition roll_back_and_settle ::
  "('e, 's) peer_call \<Rightarrow> 'e og_env \<Rightarrow> string \<Rightarrow> bool \<Rightarrow> bool \<Rightarrow> bool \<Rightarrow> bool \<Rightarrow> migration_stage \<Rightarrow> migration \<Rightarrow> 's orchestrator \<Rightarrow> 's orchestrator" where
  "roll_back_and_settle call env i peer reserved frozen pre_failed stage m og =
     (case rollback_destination call env i peer reserved og of (confirmed, rb_errors, og1) \<Rightarrow>
      case (if \<not> confirmed \<and> frozen then destination_holds_live_copy call env i peer og1 else (True, og1)) of (holds, og2) \<Rightarrow>
      let safe = (confirmed \<or> \<not> holds) in
      case (if frozen \<and> safe then thaw_source env (m_workload_id m) og2 else (False, False, og2)) of (resumed, resume_failed, og3) \<Rightarrow>
      let runs = (resumed \<or> source_workload_running (m_workload_id m) og3);
          og4 = (if runs then restore_source_network env m og3 else og3);
          notes = rb_errors @ (if resume_failed then [ResumeFailedNote] else [])
                  @ (if \<not> confirmed \<and> safe then [ThawedUnconfirmedNote] else []) @ (if runs then [] else [LeftDrainedNote])
      in close_rollback env i pre_failed stage m safe resume_failed rb_errors notes og4)"

definition current_migration :: "string \<Rightarrow> migration \<Rightarrow> 's orchestrator \<Rightarrow> migration" where
  "current_migration i m og = (case st_get (og_records og) i of None \<Rightarrow> m | Some v \<Rightarrow> v)"

definition handle_failure ::
  "('e, 's) peer_call \<Rightarrow> 'e og_env \<Rightarrow> string \<Rightarrow> bool \<Rightarrow> bool \<Rightarrow> bool \<Rightarrow> bool \<Rightarrow> failure_code \<Rightarrow> duration \<Rightarrow> 's orchestrator \<Rightarrow> 's orchestrator" where
  "handle_failure call env i peer reserved committed frozen code downtime og =
     (case st_get (og_records og) i of
        None \<Rightarrow> og
      | Some m \<Rightarrow>
          if terminal (m_stage m) then og
          else let og1 = snd (og_update env i (\<lambda>now v. Some
                 ((if m_failure_code v = NoFailure then v\<lparr>m_failure_code := code, m_failure_reason := [CauseNote code]\<rparr>
                   else v\<lparr>m_failure_reason := m_failure_reason v @ [CauseNote code]\<rparr>)
                    \<lparr>m_metrics := (m_metrics v)\<lparr>mm_downtime := downtime\<rparr>\<rparr>)) og) in
          if committed then settle_committed env i (m_workload_id m) og1
          else let pre_failed = (m_stage m \<noteq> MigrationRollingBack \<and> \<not> can_transition (m_stage m) MigrationRollingBack
                                 \<and> can_transition (m_stage m) MigrationFailed);
                   og2 = (if m_stage m = MigrationRollingBack then note_stage_event env i ResumeRollbackNote og1
                          else if can_transition (m_stage m) MigrationRollingBack
                          then retry_transition env i MigrationRollingBack (migration_progress (m_stage m)) state_persist_attempts og1
                          else if pre_failed
                          then snd (og_transition env i MigrationFailed (CauseNote code) (migration_progress (m_stage m)) og1)
                          else og1)
               in roll_back_and_settle call env i peer reserved frozen pre_failed MigrationRolledBack (current_migration i m og2) og2)"

definition handle_cancellation ::
  "('e, 's) peer_call \<Rightarrow> 'e og_env \<Rightarrow> string \<Rightarrow> bool \<Rightarrow> bool \<Rightarrow> bool \<Rightarrow> bool \<Rightarrow> failure_code \<Rightarrow> duration \<Rightarrow> 's orchestrator \<Rightarrow> 's orchestrator" where
  "handle_cancellation call env i peer reserved committed frozen cause downtime og =
     (case st_get (og_records og) i of
        None \<Rightarrow> og
      | Some m \<Rightarrow>
          if terminal (m_stage m) then og
          else if committed
          then settle_committed env i (m_workload_id m)
                 (snd (og_update env i (\<lambda>now v. Some (v\<lparr>m_source_preserved := True, m_metrics := (m_metrics v)\<lparr>mm_downtime := downtime\<rparr>\<rparr>)) og))
          else let og1 = snd (og_update env i (\<lambda>now v. Some (v\<lparr>m_failure_code := MIGRATION_CANCELLED, m_failure_reason := [CauseNote cause],
                         m_source_preserved := True, m_metrics := (m_metrics v)\<lparr>mm_downtime := downtime\<rparr>\<rparr>)) og);
                   og2 = (if m_stage m = MigrationRollingBack then note_stage_event env i ResumeRollbackNote og1
                          else if can_transition (m_stage m) MigrationRollingBack
                          then retry_transition env i MigrationRollingBack (migration_progress (m_stage m)) state_persist_attempts og1
                          else og1)
               in roll_back_and_settle call env i peer reserved frozen False MigrationCancelled (current_migration i m og2) og2)"

section \<open>Recovery after a restart\<close>

definition recover_migration :: "('e, 's) peer_call \<Rightarrow> 'e og_env \<Rightarrow> string \<Rightarrow> 's orchestrator \<Rightarrow> 's orchestrator" where
  "recover_migration call env i og =
     (case st_get (og_records og) i of
        None \<Rightarrow> og
      | Some m \<Rightarrow>
          if terminal (m_stage m) then og
          else let fz = st_get (og_freezes og) i;
                   frozen = recovery_owns_freeze m fz;
                   downtime = (case fz of None \<Rightarrow> 0 | Some f \<Rightarrow> if IsZero (fz_downtime f) then 0 else oe_now env (og_tick og) - fz_downtime f);
                   resume = (\<lambda>reserved og'. handle_failure call env i (oe_client env) reserved False frozen AGENT_RESTARTED downtime og')
          in if \<not> oe_client env then resume True (note_stage_event env i ProbeFailedNote og)
          else case peer_do call env (PeerRequest (RqGetCleanup i)) og of
            (Inr (GotSession s), og1) \<Rightarrow>
              if ss_state s = SessionCommitted
              then (case stop_source_with_retry env (m_workload_id m) source_stop_attempts og1 of
                      (ok, og2) \<Rightarrow> snd (force_complete_recovered env i SettledNote (\<not> ok) og2))
              else if ss_state s \<noteq> SessionRolledBack \<and> ss_state s \<noteq> SessionFailed then resume True og1
              else resume False (note_stage_event env i NoReservationNote og1)
          | (Inl PeerNotFound, og1) \<Rightarrow> resume False (note_stage_event env i NoReservationNote og1)
          | (_, og1) \<Rightarrow> resume True (note_stage_event env i ProbeFailedNote og1))"

end
