(* ===== verification/Migration_Run.thy ===== *)
theory Migration_Run
  imports Migration_Orchestrator
begin

text \<open>
  \<^verbatim>\<open>src/internal/migration/orchestrator.go\<close>, \<open>run\<close> and \<open>uploadChunks\<close>: one migration from its first stage to
  its last, as the list of its steps.
\<close>

definition zero_plan :: network_plan where
  "zero_plan = \<lparr>np_policy = NetworkReconnect, np_identity_ip = [], np_ports = [], np_sockets_carried = False, np_drain_before_checkpoint = False\<rparr>"

section \<open>Uploading chunks\<close>

definition upload_attempts :: nat where
  "upload_attempts = 5"

definition transfer_round_limit :: nat where
  "transfer_round_limit = 3"

fun upload_one :: "('e, 's) peer_call \<Rightarrow> 'e og_env \<Rightarrow> string \<Rightarrow> chunk_ref \<Rightarrow> nat \<Rightarrow> 's orchestrator \<Rightarrow> bool \<times> 's orchestrator" where
  "upload_one call env i ref 0 og = (False, og)"
| "upload_one call env i ref (Suc n) og =
     (case peer_do call env (PeerUpload i ref (og_chunks og)) og of
        (out, og1) \<Rightarrow>
          if \<not> failed out then (True, og1)
          else if oe_stopped env (og_tick og1) then (False, og1)
          else upload_one call env i ref n og1)"

text \<open>
  \<open>uploadChunks\<close>, with its four workers serialised: the references in order up to the first failure, a
  progress event after every eighth and after the last one.
\<close>

fun upload_refs ::
  "('e, 's) peer_call \<Rightarrow> 'e og_env \<Rightarrow> string \<Rightarrow> rat \<Rightarrow> rat \<Rightarrow> nat \<Rightarrow> int \<Rightarrow> nat \<Rightarrow> int \<Rightarrow> chunk_ref list \<Rightarrow> 's orchestrator \<Rightarrow> bool \<times> int \<times> 's orchestrator" where
  "upload_refs call env i base share n whole completed sent [] og = (True, sent, og)"
| "upload_refs call env i base share n whole completed sent (ref # refs) og =
     (case upload_one call env i ref upload_attempts og of
        (False, og1) \<Rightarrow> (False, sent, og1)
      | (True, og1) \<Rightarrow>
          let sent1 = i64 (sent + cr_stored_size ref);
              og2 = (if completed + 1 = n \<or> (completed + 1) mod 8 = 0
                     then snd (og_progress env i ProgressNote (base + share * of_int sent1 / of_int (max whole 1)) sent1 whole og1)
                     else og1)
          in upload_refs call env i base share n whole (completed + 1) sent1 refs og2)"

definition upload_chunks ::
  "('e, 's) peer_call \<Rightarrow> 'e og_env \<Rightarrow> string \<Rightarrow> rat \<Rightarrow> rat \<Rightarrow> chunk_ref list \<Rightarrow> 's orchestrator \<Rightarrow> bool \<times> int \<times> 's orchestrator" where
  "upload_chunks call env i base share refs og =
     (case upload_refs call env i base share (length refs) (i64 (sum_list (map cr_stored_size refs))) 0 0 refs og of
        (ok, sent, og1) \<Rightarrow> (ok \<and> (refs = [] \<or> \<not> oe_stopped env (og_tick og1)), sent, og1))"

section \<open>The run\<close>

record 's run =
  rx_og :: "'s orchestrator"
  rx_migration :: "migration option"
  rx_workload :: "workload option"
  rx_peer :: bool
  rx_reserved :: bool
  rx_early :: bool
  rx_committed :: bool
  rx_frozen :: bool
  rx_down :: time
  rx_resumed :: time
  rx_drained :: time
  rx_plan :: network_plan
  rx_live :: "live_session option"
  rx_report :: "pass_report option"
  rx_capture :: "captured option"
  rx_precopy :: int
  rx_sent :: int
  rx_deduplicated :: int
  rx_clock :: time
  rx_stop_failed :: bool

datatype verdict = Proceed | FailWith failure_code | Finished

type_synonym 's run_step = "'s run \<Rightarrow> verdict \<times> 's run"

definition new_run :: "'s orchestrator \<Rightarrow> 's run" where
  "new_run og = \<lparr>rx_og = og, rx_migration = None, rx_workload = None, rx_peer = False, rx_reserved = False, rx_early = False,
     rx_committed = False, rx_frozen = False, rx_down = 0, rx_resumed = 0, rx_drained = 0, rx_plan = zero_plan, rx_live = None,
     rx_report = None, rx_capture = None, rx_precopy = 0, rx_sent = 0, rx_deduplicated = 0, rx_clock = 0, rx_stop_failed = False\<rparr>"

definition rx_wid :: "'s run \<Rightarrow> string" where
  "rx_wid x = (case rx_workload x of None \<Rightarrow> [] | Some w \<Rightarrow> wsp_id (wl_spec w))"

definition rx_was_running :: "'s run \<Rightarrow> bool" where
  "rx_was_running x = (case rx_workload x of None \<Rightarrow> False | Some w \<Rightarrow> wl_status w = WorkloadRunning)"

definition rx_mode_live :: "'s run \<Rightarrow> bool" where
  "rx_mode_live x = (case rx_migration x of None \<Rightarrow> False | Some m \<Rightarrow> m_mode m = MigrationLive)"

definition precopies :: "'s run \<Rightarrow> bool" where
  "precopies x = (case rx_live x of None \<Rightarrow> False | Some l \<Rightarrow> can_pass l)"

text \<open>A step that is skipped, a critical section whose failure ends the run, one whose failure is ignored.\<close>

definition only_if :: "('s run \<Rightarrow> bool) \<Rightarrow> 's run_step \<Rightarrow> 's run_step" where
  "only_if b f x = (if b x then f x else (Proceed, x))"

definition must :: "failure_code \<Rightarrow> ('s run \<Rightarrow> 's orchestrator \<Rightarrow> bool \<times> 's orchestrator) \<Rightarrow> 's run_step" where
  "must code f x = (case f x (rx_og x) of (ok, og) \<Rightarrow> (if ok then Proceed else FailWith code, x\<lparr>rx_og := og\<rparr>))"

definition may :: "('s run \<Rightarrow> 's orchestrator \<Rightarrow> 's orchestrator) \<Rightarrow> 's run_step" where
  "may f x = (Proceed, x\<lparr>rx_og := f x (rx_og x)\<rparr>)"

definition enter :: "'e og_env \<Rightarrow> string \<Rightarrow> migration_stage \<Rightarrow> rat \<Rightarrow> 's run_step" where
  "enter env i stage progress = must STATE_PERSIST_FAILED (\<lambda>x. og_transition env i stage (StageNote stage) progress)"

definition bound_downtime :: "'e og_env \<Rightarrow> string \<Rightarrow> time \<Rightarrow> 's run \<Rightarrow> 's run" where
  "bound_downtime env i t x = x\<lparr>rx_down := t, rx_og := note_downtime_start env i t (rx_og x)\<rparr>"

definition rx_now :: "'e og_env \<Rightarrow> 's run \<Rightarrow> time" where
  "rx_now env x = oe_now env (og_tick (rx_og x))"

subsection \<open>Discovery and validation\<close>

definition st_workload :: "'e og_env \<Rightarrow> string \<Rightarrow> 's run_step" where
  "st_workload env i x =
     (case st_get (og_records (rx_og x)) i of
        None \<Rightarrow> (FailWith WORKLOAD_NOT_FOUND, x)
      | Some m \<Rightarrow>
     (case rt_get (og_runtime (rx_og x)) (m_workload_id m) of
        None \<Rightarrow> (FailWith WORKLOAD_NOT_FOUND, x\<lparr>rx_migration := Some m\<rparr>)
      | Some w \<Rightarrow> (Proceed, x\<lparr>rx_migration := Some m, rx_workload := Some w\<rparr>)))"

definition st_own :: "'e og_env \<Rightarrow> string \<Rightarrow> 's run_step" where
  "st_own env i = may (\<lambda>x. note_freeze_ownership env i (rx_wid x) (rx_was_running x))"

definition st_client :: "'e og_env \<Rightarrow> 's run_step" where
  "st_client env x = (if oe_client env then (Proceed, x\<lparr>rx_peer := True\<rparr>) else (FailWith DESTINATION_CLIENT_FAILED, x))"

definition st_machine :: "'e og_env \<Rightarrow> 's run_step" where
  "st_machine env x =
     (case oe_machine env of
        None \<Rightarrow> (FailWith DESTINATION_UNREACHABLE, x)
      | Some d \<Rightarrow>
          if d = og_machine (rx_og x) then (FailWith DESTINATION_IS_SOURCE, x)
          else if (case rx_migration x of None \<Rightarrow> False
                   | Some m \<Rightarrow> ds_machine_id (m_destination m) \<noteq> [] \<and> ds_machine_id (m_destination m) \<noteq> d)
          then (FailWith DESTINATION_IDENTITY_MISMATCH, x)
          else (Proceed, x))"

definition st_bind :: "'e og_env \<Rightarrow> string \<Rightarrow> 's run_step" where
  "st_bind env i = may (\<lambda>x og. snd (og_update env i (\<lambda>now m. map_option (\<lambda>d. m\<lparr>m_destination := (m_destination m)\<lparr>ds_machine_id := d\<rparr>\<rparr>) (oe_machine env)) og))"

definition st_inspect :: "'e og_env \<Rightarrow> string \<Rightarrow> 's run_step" where
  "st_inspect env i x =
     (if \<not> oe_inventory env then (FailWith SOURCE_INVENTORY_FAILED, x)
      else case og_update env i (\<lambda>now m. Some (m\<lparr>m_compatibility := oe_report env\<rparr>)) (rx_og x) of
        (ok, og) \<Rightarrow>
          (if \<not> ok then FailWith STATE_PERSIST_FAILED
           else if \<not> cr_compatible (oe_report env) then FailWith DESTINATION_INCOMPATIBLE else Proceed, x\<lparr>rx_og := og\<rparr>))"

definition st_plan :: "'e og_env \<Rightarrow> string \<Rightarrow> 's run_step" where
  "st_plan env i x =
     (case oe_plan env of
        None \<Rightarrow> (FailWith NETWORK_PLAN_INVALID, x)
      | Some p \<Rightarrow>
          must STATE_PERSIST_FAILED (\<lambda>x. og_update env i (\<lambda>now m. Some (append_event now NetworkPlanNote (1/10) 0 0 (m\<lparr>m_network := p\<rparr>))))
            (x\<lparr>rx_plan := p\<rparr>))"

definition st_drain :: "'e og_env \<Rightarrow> string \<Rightarrow> 's run_step" where
  "st_drain env i x =
     (case drain_source_forwarders env i (rx_wid x) (rx_plan x) (rx_og x) of
        (t, og) \<Rightarrow>
          let x1 = x\<lparr>rx_og := og, rx_drained := t\<rparr> in
          (Proceed, if IsZero t then x1 else bound_downtime env i t x1))"

subsection \<open>Snapshot and pre-copy\<close>

definition max_reservation_window :: duration where
  "max_reservation_window = hours 24"

definition run_budget :: "duration \<Rightarrow> duration" where
  "run_budget timeout = (let t = (if timeout \<le> 0 then hours 2 else timeout) in if t > max_reservation_window then max_reservation_window else t)"

definition reservation_expiry :: "time \<Rightarrow> duration \<Rightarrow> time" where
  "reservation_expiry now timeout = now + (if timeout \<le> 0 \<or> timeout > max_reservation_window then max_reservation_window else timeout)"

definition estimate_live_transfer_bytes :: "int \<Rightarrow> int \<Rightarrow> int \<Rightarrow> int" where
  "estimate_live_transfer_bytes tree_bound first_pass_stored pass_limit =
     (let n = (if pass_limit < 1 then 1 else pass_limit) in i64 (tree_bound + i64 (first_pass_stored * (n + 1))))"

definition st_begin_live :: "'e og_env \<Rightarrow> 's run_step" where
  "st_begin_live env = only_if rx_mode_live (\<lambda>x.
     (let og = rx_og x; ch = og_chunks og; wid = rx_wid x;
          passes = (case rx_migration x of None \<Rightarrow> 0 | Some m \<Rightarrow> m_pre_copy_passes m);
          begin = (\<lambda>v. begin_live (oe_capture env) passes wid v (og_runtime og)) in
      if begin (Some 0) = None then (FailWith CHECKPOINT_FAILED, x)
      else case get_or_create_workload_key (oe_write env (og_tick og)) (oe_fresh_key env) (cs_km ch) wid (cs_keys ch) of
        (res, keys) \<Rightarrow>
          let x1 = x\<lparr>rx_og := (tick og)\<lparr>og_chunks := ch\<lparr>cs_keys := keys\<rparr>\<rparr>\<rparr> in
          case res of
            Inl e \<Rightarrow> (FailWith CHECKPOINT_FAILED, x1)
          | Inr (v, k) \<Rightarrow> (Proceed, x1\<lparr>rx_live := begin (Some v)\<rparr>)))"

definition st_open_downtime :: "'e og_env \<Rightarrow> string \<Rightarrow> 's run_step" where
  "st_open_downtime env i x = (Proceed, if IsZero (rx_down x) \<and> \<not> precopies x then bound_downtime env i (rx_now env x) x else x)"

definition st_first_pass :: "'e og_env \<Rightarrow> 's run_step" where
  "st_first_pass env = only_if precopies (\<lambda>x.
     case rx_live x of
       None \<Rightarrow> (Proceed, x)
     | Some l \<Rightarrow>
     (case live_pass (oe_pass env (ls_passes l)) l of
        (None, l1) \<Rightarrow> (FailWith CHECKPOINT_FAILED, x\<lparr>rx_live := Some l1\<rparr>)
      | (Some r, l1) \<Rightarrow> (Proceed, x\<lparr>rx_live := Some l1, rx_report := Some r\<rparr>)))"

definition reserve_transfer :: "('e, 's) peer_call \<Rightarrow> 'e og_env \<Rightarrow> string \<Rightarrow> duration \<Rightarrow> int \<Rightarrow> 's run_step" where
  "reserve_transfer call env i timeout estimated x =
     (let og = rx_og x;
          rq = \<lparr>rq_id = i, rq_source = og_machine og, rq_workload = rx_wid x, rq_estimated = estimated,
                rq_expires = reservation_expiry (rx_now env x) timeout, rq_purpose = []\<rparr> in
      case peer_do call env (PeerRequest (RqReserve rq)) og of
        (out, og1) \<Rightarrow> if failed out then (FailWith DESTINATION_RESERVATION_FAILED, x\<lparr>rx_og := og1\<rparr>)
                      else (Proceed, x\<lparr>rx_og := og1, rx_reserved := True\<rparr>))"

definition send_key :: "('e, 's) peer_call \<Rightarrow> 'e og_env \<Rightarrow> string \<Rightarrow> nat \<Rightarrow> 's run_step" where
  "send_key call env i version x =
     (let og = rx_og x; ch = og_chunks og in
      case workload_key (cs_km ch) (cs_keys ch) (rx_wid x) version of
        Inl e \<Rightarrow> (FailWith KEY_EXPORT_FAILED, x)
      | Inr k \<Rightarrow>
          must KEY_TRANSFER_FAILED (\<lambda>x og. case peer_do call env (PeerRequest (RqKey i
            \<lparr>kq_workload = rx_wid x, kq_version = version, kq_key = Some k\<rparr>)) og of (out, og1) \<Rightarrow> (\<not> failed out, og1)) x)"

definition note_reservation :: "'e og_env \<Rightarrow> string \<Rightarrow> 's run_step" where
  "note_reservation env i = may (\<lambda>x og. snd (og_update env i (\<lambda>now m. Some (append_event now ReservedNote (28/100) 0 0 m)) og))"

definition st_reserve_live :: "('e, 's) peer_call \<Rightarrow> 'e og_env \<Rightarrow> string \<Rightarrow> duration \<Rightarrow> 's run_step" where
  "st_reserve_live call env i timeout = only_if precopies (\<lambda>x.
     case (rx_live x, rx_report x) of
       (Some l, Some r) \<Rightarrow>
         reserve_transfer call env i timeout
           (estimate_live_transfer_bytes (oe_root_bound env) (am_stored_size (pr_asset r)) (ls_limit l)) x
     | _ \<Rightarrow> (Proceed, x))"

definition st_key_live :: "('e, 's) peer_call \<Rightarrow> 'e og_env \<Rightarrow> string \<Rightarrow> 's run_step" where
  "st_key_live call env i = only_if precopies (\<lambda>x.
     case rx_live x of None \<Rightarrow> (Proceed, x) | Some l \<Rightarrow> send_key call env i (ls_key_version l) x)"

definition record_sent :: "'e og_env \<Rightarrow> string \<Rightarrow> 's run \<Rightarrow> 's run" where
  "record_sent env i x =
     x\<lparr>rx_og := snd (og_update env i (\<lambda>now m. Some (m\<lparr>m_metrics := (m_metrics m)
         \<lparr>mm_pre_copy_bytes := rx_precopy x, mm_transferred_bytes := i64 (rx_precopy x + rx_sent x)\<rparr>\<rparr>)) (rx_og x))\<rparr>"

text \<open>The pre-copy loop: send a pass, then run the next one while the session asks for more.\<close>

function precopy :: "('e, 's) peer_call \<Rightarrow> 'e og_env \<Rightarrow> string \<Rightarrow> pass_report \<Rightarrow> live_session \<Rightarrow> 's run_step" where
  "precopy call env i cur l x =
     (case upload_chunks call env i (12/100 + 16/100 * of_int (int (pr_index cur) - 1) / of_int (ls_limit l)) (16/100 / of_int (ls_limit l))
             (am_chunks (pr_asset cur)) (rx_og x) of
        (ok, sent, og1) \<Rightarrow>
          if \<not> ok then (FailWith CHUNK_TRANSFER_FAILED, x\<lparr>rx_og := og1\<rparr>)
          else let x1 = record_sent env i (x\<lparr>rx_og := og1, rx_precopy := i64 (rx_precopy x + sent)\<rparr>) in
          if \<not> pr_more cur then (Proceed, x1)
          else case live_pass (oe_pass env (ls_passes l)) l of
            (None, l1) \<Rightarrow> (FailWith CHECKPOINT_FAILED, x1\<lparr>rx_live := Some l1\<rparr>)
          | (Some r, l1) \<Rightarrow> precopy call env i r l1 (x1\<lparr>rx_live := Some l1\<rparr>))"
  by pat_completeness auto

lemma live_pass_counts:
  assumes "live_pass pe l = (Some r, l1)"
  shows "ls_limit l1 = ls_limit l" and "ls_passes l1 = ls_passes l + 1" and "int (ls_passes l) < ls_limit l"
    and "ls_running l1 = ls_running l" and "ls_workload l1 = ls_workload l" and "ls_closed l1 = ls_closed l" and "ls_failed l1 = ls_failed l"
    and "ls_frozen l1 = ls_frozen l"
  using assms by (auto simp: live_pass_def split: if_splits option.splits)

lemma live_pass_decreases:
  "(Some r, l1) = live_pass pe l \<Longrightarrow> nat (ls_limit l1) - ls_passes l1 < nat (ls_limit l) - ls_passes l"
  using live_pass_counts(1-3) [of pe l r l1] by auto

termination precopy
  by (relation "measure (\<lambda>(call, env, i, cur, l, x). nat (ls_limit l) - ls_passes l)")
     (auto dest!: live_pass_decreases)

declare precopy.simps [simp del]

definition st_precopy :: "('e, 's) peer_call \<Rightarrow> 'e og_env \<Rightarrow> string \<Rightarrow> 's run_step" where
  "st_precopy call env i = only_if precopies (\<lambda>x.
     case (rx_live x, rx_report x) of
       (Some l, Some r) \<Rightarrow>
         (case precopy call env i r l x of
            (Proceed, x1) \<Rightarrow> may (\<lambda>x og. snd (og_progress env i ProgressNote (28/100) 0 0 og)) x1
          | (v, x1) \<Rightarrow> (v, x1))
     | _ \<Rightarrow> (Proceed, x))"

definition st_close_downtime :: "'e og_env \<Rightarrow> string \<Rightarrow> 's run_step" where
  "st_close_downtime env i x =
     (Proceed, if rx_live x \<noteq> None \<and> IsZero (rx_down x) then bound_downtime env i (rx_now env x) x else x)"

subsection \<open>The capture\<close>

definition migration_capture_options :: create_options where
  "migration_capture_options = \<lparr>co_kind = CheckpointFull, co_parent = [], co_leave_running = False\<rparr>"

definition own_freeze :: "'e og_env \<Rightarrow> string \<Rightarrow> time \<Rightarrow> 's run \<Rightarrow> 's run" where
  "own_freeze env i t x =
     (if IsZero t then x
      else (if IsZero (rx_drained x) then bound_downtime env i t x else x)\<lparr>rx_frozen := rx_was_running x\<rparr>)"

definition st_capture_live :: "'e og_env \<Rightarrow> string \<Rightarrow> live_session \<Rightarrow> 's run_step" where
  "st_capture_live env i l x =
     (case live_finalize (oe_capture env) False l (og_runtime (rx_og x)) of
        (res, l1, rt) \<Rightarrow>
          let x1 = x\<lparr>rx_og := (tick (rx_og x))\<lparr>og_runtime := rt\<rparr>, rx_live := Some l1\<rparr> in
          case res of
            None \<Rightarrow> (FailWith CHECKPOINT_FAILED, own_freeze env i (ls_freeze l1) x1)
          | Some c \<Rightarrow> (Proceed, x1\<lparr>rx_capture := Some c\<rparr>))"

definition st_capture_cold :: "'e og_env \<Rightarrow> string \<Rightarrow> 's run_step" where
  "st_capture_cold env i x =
     (case service_create (oe_capture env) migration_capture_options (rx_wid x) (og_runtime (rx_og x)) of
        (res, rt) \<Rightarrow>
          let x1 = x\<lparr>rx_og := (tick (rx_og x))\<lparr>og_runtime := rt\<rparr>, rx_frozen := rx_was_running x\<rparr> in
          case res of
            Created c \<Rightarrow> (Proceed, x1\<lparr>rx_capture := Some c\<rparr>)
          | _ \<Rightarrow> (FailWith CHECKPOINT_FAILED, x1))"

definition st_capture :: "'e og_env \<Rightarrow> string \<Rightarrow> 's run_step" where
  "st_capture env i x = (case rx_live x of None \<Rightarrow> st_capture_cold env i x | Some l \<Rightarrow> st_capture_live env i l x)"

definition with_capture :: "(captured \<Rightarrow> 's run_step) \<Rightarrow> 's run_step" where
  "with_capture f x = (case rx_capture x of None \<Rightarrow> (Proceed, x) | Some c \<Rightarrow> f c x)"

definition st_freeze_bound :: "'e og_env \<Rightarrow> string \<Rightarrow> 's run_step" where
  "st_freeze_bound env i = with_capture (\<lambda>c x. (Proceed, own_freeze env i (ca_freeze c) x))"

definition st_record_checkpoint :: "'e og_env \<Rightarrow> string \<Rightarrow> 's run_step" where
  "st_record_checkpoint env i = with_capture (\<lambda>c. must STATE_PERSIST_FAILED (\<lambda>x. og_update env i (\<lambda>now m.
     Some (m\<lparr>m_checkpoint_id := mf_id (ca_manifest c), m_metrics := (m_metrics m)
        \<lparr>mm_total_state_bytes := ca_plain c, mm_checkpoint_duration := ca_duration c\<rparr>\<rparr>))))"

subsection \<open>Transfer\<close>

definition st_prepare :: "'e og_env \<Rightarrow> string \<Rightarrow> 's run_step" where
  "st_prepare env i = only_if (\<lambda>x. \<not> rx_reserved x) (\<lambda>x. enter env i MigrationPrepare (28/100) (x\<lparr>rx_early := True\<rparr>))"

definition st_reserve_cold :: "('e, 's) peer_call \<Rightarrow> 'e og_env \<Rightarrow> string \<Rightarrow> duration \<Rightarrow> 's run_step" where
  "st_reserve_cold call env i timeout = only_if rx_early (with_capture (\<lambda>c. reserve_transfer call env i timeout (ca_stored c)))"

definition st_note_cold :: "'e og_env \<Rightarrow> string \<Rightarrow> 's run_step" where
  "st_note_cold env i = only_if rx_early (note_reservation env i)"

definition st_key_cold :: "('e, 's) peer_call \<Rightarrow> 'e og_env \<Rightarrow> string \<Rightarrow> 's run_step" where
  "st_key_cold call env i = only_if rx_early (with_capture (\<lambda>c. send_key call env i (mf_key_version (ca_manifest c))))"

text \<open>
  The frozen window's transfer: a round imports the manifest and sends what is missing.  \<open>code\<close> tells what
  failed last.
\<close>

fun transfer_rounds :: "('e, 's) peer_call \<Rightarrow> 'e og_env \<Rightarrow> string \<Rightarrow> checkpoint_manifest \<Rightarrow> failure_code option \<Rightarrow> nat \<Rightarrow> 's run_step" where
  "transfer_rounds call env i mf code 0 x = (FailWith (case code of None \<Rightarrow> CHUNK_TRANSFER_FAILED | Some c \<Rightarrow> c), x)"
| "transfer_rounds call env i mf code (Suc n) x =
     (if code \<noteq> None \<and> oe_stopped env (og_tick (rx_og x)) then (FailWith (the code), x)
      else case peer_do call env (PeerRequest (RqManifest i mf)) (rx_og x) of
        (Inr (GotMissing refs dedup), og1) \<Rightarrow>
          (case upload_chunks call env i (32/100) (38/100) refs og1 of
             (ok, sent, og2) \<Rightarrow>
               let x1 = record_sent env i (x\<lparr>rx_og := og2, rx_sent := i64 (rx_sent x + sent), rx_deduplicated := dedup\<rparr>) in
               if ok then (Proceed, x1) else transfer_rounds call env i mf (Some CHUNK_TRANSFER_FAILED) n x1)
      | (_, og1) \<Rightarrow> transfer_rounds call env i mf (Some MANIFEST_TRANSFER_FAILED) n (x\<lparr>rx_og := og1\<rparr>))"

definition st_transfer :: "('e, 's) peer_call \<Rightarrow> 'e og_env \<Rightarrow> string \<Rightarrow> 's run_step" where
  "st_transfer call env i = with_capture (\<lambda>c x. transfer_rounds call env i (ca_manifest c) None transfer_round_limit (x\<lparr>rx_clock := rx_now env x\<rparr>))"

definition st_metrics :: "'e og_env \<Rightarrow> string \<Rightarrow> 's run_step" where
  "st_metrics env i x = must STATE_PERSIST_FAILED (\<lambda>x. og_update env i (\<lambda>now m. Some (m\<lparr>m_metrics := (m_metrics m)
     \<lparr>mm_transferred_bytes := i64 (rx_precopy x + rx_sent x), mm_pre_copy_bytes := rx_precopy x,
      mm_deduplicated_bytes := rx_deduplicated x, mm_transfer_duration := rx_now env x - rx_clock x\<rparr>\<rparr>))) x"

subsection \<open>Restore and commit\<close>

definition ask :: "('e, 's) peer_call \<Rightarrow> 'e og_env \<Rightarrow> request \<Rightarrow> failure_code \<Rightarrow> 's run_step" where
  "ask call env rq code = must code (\<lambda>x og. case peer_do call env (PeerRequest rq) og of (out, og1) \<Rightarrow> (\<not> failed out, og1))"

definition st_restore :: "('e, 's) peer_call \<Rightarrow> 'e og_env \<Rightarrow> string \<Rightarrow> 's run_step" where
  "st_restore call env i x = ask call env (RqRestore i) DESTINATION_RESTORE_FAILED (x\<lparr>rx_clock := rx_now env x\<rparr>)"

definition st_restored :: "'e og_env \<Rightarrow> string \<Rightarrow> 's run_step" where
  "st_restored env i x =
     (let t = rx_now env x in
      may (\<lambda>x og. snd (og_update env i (\<lambda>now m. Some (m\<lparr>m_metrics := (m_metrics m)
            \<lparr>mm_restore_duration := t - rx_clock x, mm_downtime := t - rx_down x\<rparr>\<rparr>)) og)) (x\<lparr>rx_resumed := t\<rparr>))"

definition st_get_restored :: "('e, 's) peer_call \<Rightarrow> 'e og_env \<Rightarrow> string \<Rightarrow> 's run_step" where
  "st_get_restored call env i = must DESTINATION_VALIDATION_FAILED (\<lambda>x og.
     case peer_do call env (PeerRequest (RqGet i)) og of
       (Inr (GotSession s), og1) \<Rightarrow> (ss_state s = SessionRestored, og1)
     | (_, og1) \<Rightarrow> (False, og1))"

definition st_commit :: "('e, 's) peer_call \<Rightarrow> 'e og_env \<Rightarrow> string \<Rightarrow> 's run_step" where
  "st_commit call env i x =
     (case ask call env (RqCommit i) DESTINATION_COMMIT_FAILED x of
        (Proceed, x1) \<Rightarrow> (Proceed, x1\<lparr>rx_committed := True\<rparr>)
      | (v, x1) \<Rightarrow> (v, x1))"

definition st_cleanup :: "'e og_env \<Rightarrow> string \<Rightarrow> 's run_step" where
  "st_cleanup env i = may (\<lambda>x og. snd (og_transition env i MigrationCleanup (StageNote MigrationCleanup) (99/100) og))"

definition st_status :: "'e og_env \<Rightarrow> string \<Rightarrow> 's run_step" where
  "st_status env i = may (\<lambda>x. record_source_outcome env i (rx_wid x) (rx_plan x) True)"

definition st_stop :: "'e og_env \<Rightarrow> 's run_step" where
  "st_stop env x =
     (case stop_source_with_retry env (rx_wid x) source_stop_attempts (rx_og x) of
        (ok, og) \<Rightarrow> (Proceed, x\<lparr>rx_og := og, rx_stop_failed := \<not> ok\<rparr>))"

text \<open>After the commit a write that fails is replaced by the completion recovery uses.\<close>

definition or_force :: "'e og_env \<Rightarrow> string \<Rightarrow> ('s run \<Rightarrow> 's orchestrator \<Rightarrow> bool \<times> 's orchestrator) \<Rightarrow> 's run_step" where
  "or_force env i f x =
     (case f x (rx_og x) of
        (True, og) \<Rightarrow> (Proceed, x\<lparr>rx_og := og\<rparr>)
      | (False, og) \<Rightarrow> (Finished, x\<lparr>rx_og := snd (force_complete_recovered env i SettledNote (rx_stop_failed x) og)\<rparr>))"

definition st_record_outcome :: "'e og_env \<Rightarrow> string \<Rightarrow> 's run_step" where
  "st_record_outcome env i = or_force env i (\<lambda>x. og_update env i (\<lambda>now m. Some
     (if rx_stop_failed x
      then append_event now CleanupAttentionNote 1 0 0 (m\<lparr>m_source_preserved := True, m_failure_code := SOURCE_CLEANUP_FAILED,
             m_failure_reason := [StopFailedNote]\<rparr>)
      else m\<lparr>m_source_preserved := False\<rparr>)))"

definition st_complete :: "'e og_env \<Rightarrow> string \<Rightarrow> 's run_step" where
  "st_complete env i = or_force env i (\<lambda>x. og_transition env i MigrationCompleted
     (if rx_stop_failed x then CompletedPreservedNote else CompletedNote) 1)"

subsection \<open>The whole run\<close>

definition steps_before :: "('e, 's) peer_call \<Rightarrow> 'e og_env \<Rightarrow> string \<Rightarrow> duration \<Rightarrow> 's run_step list" where
  "steps_before call env i timeout =
     [enter env i MigrationDiscover (3/100), st_workload env i, st_own env i, st_client env, st_machine env, st_bind env i,
      enter env i MigrationValidate (8/100), st_inspect env i, st_plan env i, st_drain env i,
      enter env i MigrationSnapshot (12/100), st_begin_live env, st_open_downtime env i, st_first_pass env,
      st_reserve_live call env i timeout, st_key_live call env i, only_if precopies (note_reservation env i),
      st_precopy call env i, st_close_downtime env i]"

definition steps_after :: "('e, 's) peer_call \<Rightarrow> 'e og_env \<Rightarrow> string \<Rightarrow> duration \<Rightarrow> 's run_step list" where
  "steps_after call env i timeout =
     [st_freeze_bound env i, st_record_checkpoint env i, st_prepare env i, st_reserve_cold call env i timeout,
      st_note_cold env i, st_key_cold call env i, enter env i MigrationTransfer (32/100), st_transfer call env i, st_metrics env i,
      enter env i MigrationVerify (72/100), ask call env (RqVerify i) DESTINATION_VERIFY_FAILED,
      enter env i MigrationRestore (80/100), st_restore call env i, st_restored env i, enter env i MigrationPostValidate (90/100),
      st_get_restored call env i, enter env i MigrationSwitch (94/100), enter env i MigrationCommit (97/100), st_commit call env i]"

definition steps_committed :: "'e og_env \<Rightarrow> string \<Rightarrow> 's run_step list" where
  "steps_committed env i = [st_cleanup env i, st_status env i, st_stop env, st_record_outcome env i, st_complete env i]"

definition run_steps :: "('e, 's) peer_call \<Rightarrow> 'e og_env \<Rightarrow> string \<Rightarrow> duration \<Rightarrow> 's run_step list" where
  "run_steps call env i timeout =
     steps_before call env i timeout @ st_capture env i # steps_after call env i timeout @ steps_committed env i"

fun exec_steps :: "'s run_step list \<Rightarrow> 's run_step" where
  "exec_steps [] x = (Proceed, x)"
| "exec_steps (f # fs) x = (case f x of (Proceed, x1) \<Rightarrow> exec_steps fs x1 | (v, x1) \<Rightarrow> (v, x1))"

definition run_downtime :: "'e og_env \<Rightarrow> 's run \<Rightarrow> duration" where
  "run_downtime env x = (if IsZero (rx_down x) then 0 else (if IsZero (rx_resumed x) then rx_now env x else rx_resumed x) - rx_down x)"

text \<open>The deferred \<open>Abort\<close> of a live session.\<close>

definition abort_live :: "'e og_env \<Rightarrow> 's run \<Rightarrow> 's orchestrator \<Rightarrow> 's orchestrator" where
  "abort_live env x og =
     (case rx_live x of None \<Rightarrow> og | Some l \<Rightarrow> og\<lparr>og_runtime := snd (live_abort (oe_capture env) l (og_runtime og))\<rparr>)"

definition run_fail :: "('e, 's) peer_call \<Rightarrow> 'e og_env \<Rightarrow> string \<Rightarrow> failure_code \<Rightarrow> 's run \<Rightarrow> 's orchestrator" where
  "run_fail call env i code x =
     (if oe_cancelled env (og_tick (rx_og x))
      then handle_cancellation call (background env) i (rx_peer x) (rx_reserved x) (rx_committed x) (rx_frozen x) code (run_downtime env x) (rx_og x)
      else handle_failure call (background env) i (rx_peer x) (rx_reserved x) (rx_committed x) (rx_frozen x) code (run_downtime env x) (rx_og x))"

definition run :: "('e, 's) peer_call \<Rightarrow> 'e og_env \<Rightarrow> string \<Rightarrow> duration \<Rightarrow> 's orchestrator \<Rightarrow> 's orchestrator" where
  "run call env i timeout og =
     (case exec_steps (run_steps call env i (run_budget timeout)) (new_run og) of
        (FailWith code, x) \<Rightarrow> abort_live env x (run_fail call env i code x)
      | (_, x) \<Rightarrow> abort_live env x (rx_og x))"

text \<open>The agent dies after \<open>n\<close> steps: what was written and done stays, nothing else happens.\<close>

definition run_crash :: "('e, 's) peer_call \<Rightarrow> 'e og_env \<Rightarrow> string \<Rightarrow> duration \<Rightarrow> nat \<Rightarrow> 's orchestrator \<Rightarrow> 's orchestrator" where
  "run_crash call env i timeout n og = rx_og (snd (exec_steps (take n (run_steps call env i (run_budget timeout))) (new_run og)))"

definition agent_lives ::
  "('e, 's) peer_call \<Rightarrow> 'e og_env \<Rightarrow> string \<Rightarrow> duration \<Rightarrow> nat option \<Rightarrow> 'e og_env list \<Rightarrow> 's orchestrator \<Rightarrow> 's orchestrator" where
  "agent_lives call env i timeout crash restarts og =
     fold (\<lambda>e. recover_migration call e i) restarts
       (case crash of None \<Rightarrow> run call env i timeout og | Some n \<Rightarrow> run_crash call env i timeout n og)"

end
