(* ===== verification/Migration_Safety.thy ===== *)
theory Migration_Safety
  imports Migration_Run
begin

text \<open>
  What a migration guarantees, over any client that keeps the contract \<open>peer_client\<close>: the source and the
  destination never run a copy at the same time, a record says completed only when the destination is
  committed, and a record keeps its identity.  The invariant is carried through every step of a run, through
  its handlers, and through recovery; the properties are its instances on the client over the server.
\<close>

section \<open>The source's processes\<close>

definition group_live :: "int \<Rightarrow> kproc list \<Rightarrow> bool" where
  "group_live g ks \<longleftrightarrow> list_ex (\<lambda>p. in_group g p \<and> \<not> kp_stopped p) ks"

definition source_live :: "int \<Rightarrow> 's orchestrator \<Rightarrow> bool" where
  "source_live g og \<longleftrightarrow> group_live g (rt_kernel (og_runtime og))"

lemma group_live_stopped [simp]: "\<not> group_live g (set_stopped True g ks)"
  by (auto simp: group_live_def set_stopped_def list_ex_iff)

lemma group_live_killed: "group_live g (kill_group h ks) \<Longrightarrow> g \<noteq> h \<and> group_live g ks"
  by (auto simp: group_live_def kill_group_def list_ex_iff in_group_def)

lemma group_live_other: "g \<noteq> h \<Longrightarrow> group_live g (set_stopped b h ks) = group_live g ks"
  by (force simp: group_live_def set_stopped_def list_ex_iff in_group_def)

lemma process_alive_stopped: "process_alive (set_stopped b h ks) pid t = process_alive ks pid t"
proof -
  have "list_ex (\<lambda>p. kp_pid p = pid \<and> kp_ticks p = t) (set_stopped b h ks) = list_ex (\<lambda>p. kp_pid p = pid \<and> kp_ticks p = t) ks"
    by (induction ks) (auto simp: set_stopped_def)
  then show ?thesis by (simp add: process_alive_def)
qed

lemma stop_signal_quiet:
  assumes "stop_signal env w p rt = (ok, rt')" and "process_alive (rt_kernel rt) (ps_pid p) (ps_start_ticks p)"
    and "group_live g (rt_kernel rt')"
  shows "group_live g (rt_kernel rt)"
proof (cases "g = ps_pgid p")
  case True
  have alive: "process_alive (set_stopped b h (rt_kernel rt)) (ps_pid p) (ps_start_ticks p)" for b h
    using assms(2) by (simp add: process_alive_stopped)
  from assms(1,3) alive True assms(2) show ?thesis
    by (auto simp: stop_signal_def Let_def dest: group_live_killed split: if_splits)
next
  case False
  with assms(1,3) show ?thesis
    by (auto simp: stop_signal_def Let_def group_live_other dest!: group_live_killed split: if_splits)
qed

lemma rt_put_kernel: "rt_put env k w rt = (res, rt') \<Longrightarrow> rt_kernel rt' = rt_kernel rt"
  by (auto simp: rt_put_def split: if_splits)

lemma stop_record_kernel: "stop_record env k rt = (res, rt') \<Longrightarrow> rt_kernel rt' = rt_kernel rt"
  by (auto simp: stop_record_def Let_def split: option.splits if_splits)

lemma record_exit_kernel: "rt_kernel (rt_record_exit ok k t err rt) = rt_kernel rt"
  by (auto simp: rt_record_exit_def Let_def split: option.splits)

text \<open>Stopping continues a paused group only to kill it: it never leaves one running that was not.\<close>

lemma rt_stop_quiet:
  assumes "rt_stop env k rt = (res, rt')" and "group_live g (rt_kernel rt')"
  shows "group_live g (rt_kernel rt)"
proof -
  from assms(1) consider "rt_kernel rt' = rt_kernel rt"
    | w p ok rt1 where "proc_alive (rt_kernel rt) (Some p)"
        "stop_signal env w p (rt\<lparr>rt_stopping := insert (wsp_id (wl_spec w)) (rt_stopping rt)\<rparr>) = (ok, rt1)" "rt_kernel rt' = rt_kernel rt1"
    by (fastforce simp: rt_stop_def Let_def record_exit_kernel dest!: rt_put_kernel stop_record_kernel
          split: option.splits if_splits prod.splits bool.splits)
  then show ?thesis
  proof cases
    case (2 w p ok rt1)
    with stop_signal_quiet [OF 2(2)] assms(2) show ?thesis by (simp add: proc_alive_def)
  qed (use assms(2) in simp)
qed

section \<open>What the operations leave alone\<close>

lemma tick_sel [simp]:
  "og_peer (tick og) = og_peer og" "og_runtime (tick og) = og_runtime og" "og_chunks (tick og) = og_chunks og"
  "og_records (tick og) = og_records og" "og_freezes (tick og) = og_freezes og" "og_machine (tick og) = og_machine og"
  by (simp_all add: tick_def)

text \<open>What a record keeps through every operation: who moves where from, and that it is closed exactly when it is settled.\<close>

definition evolves :: "migration \<Rightarrow> migration \<Rightarrow> bool" where
  "evolves m m' \<longleftrightarrow> m_id m' = m_id m \<and> m_idempotency_key m' = m_idempotency_key m \<and> m_workload_id m' = m_workload_id m
     \<and> m_source_machine_id m' = m_source_machine_id m \<and> m_mode m' = m_mode m \<and> m_pre_copy_passes m' = m_pre_copy_passes m
     \<and> m_created_at m' = m_created_at m \<and> (completion_recorded m \<longrightarrow> completion_recorded m')"

definition record_step :: "string \<Rightarrow> 's orchestrator \<Rightarrow> 's orchestrator \<Rightarrow> bool" where
  "record_step i og og' \<longleftrightarrow> (\<forall>k. k \<noteq> i \<longrightarrow> st_get (og_records og') k = st_get (og_records og) k)
     \<and> (case st_get (og_records og) i of
           None \<Rightarrow> st_get (og_records og') i = None
         | Some m \<Rightarrow> \<exists>m'. st_get (og_records og') i = Some m' \<and> evolves m m')"

definition completed :: "string \<Rightarrow> 's orchestrator \<Rightarrow> bool" where
  "completed i og \<longleftrightarrow> (\<exists>m. st_get (og_records og) i = Some m \<and> m_stage m = MigrationCompleted)"

definition local_step :: "string \<Rightarrow> 's orchestrator \<Rightarrow> 's orchestrator \<Rightarrow> bool" where
  "local_step i og og' \<longleftrightarrow> og_peer og' = og_peer og \<and> og_runtime og' = og_runtime og \<and> record_step i og og'
     \<and> (completed i og' \<longrightarrow> completed i og)"

named_theorems locals

lemma evolves_same [simp]: "evolves m m"
  by (simp add: evolves_def)

lemma evolves_join: "evolves a b \<Longrightarrow> evolves b c \<Longrightarrow> evolves a c"
  by (simp add: evolves_def)

lemma record_refl [simp]: "record_step i og og"
  by (simp add: record_step_def split: option.splits)

lemma record_same: "og_records og' = og_records og \<Longrightarrow> record_step i og og'"
  by (simp add: record_step_def split: option.splits)

lemma record_trans: "record_step i a b \<Longrightarrow> record_step i b c \<Longrightarrow> record_step i a c"
  by (fastforce simp: record_step_def split: option.splits intro: evolves_join)

lemma local_refl [simp]: "local_step i og og"
  by (simp add: local_step_def)

lemma local_trans: "local_step i a b \<Longrightarrow> local_step i b c \<Longrightarrow> local_step i a c"
  unfolding local_step_def using record_trans by metis

lemma local_same: "og_records og' = og_records og \<Longrightarrow> og_peer og' = og_peer og \<Longrightarrow> og_runtime og' = og_runtime og \<Longrightarrow> local_step i og og'"
  by (simp add: local_step_def record_same completed_def)

lemma local_live: "local_step i og og' \<Longrightarrow> source_live g og' = source_live g og"
  by (simp add: local_step_def source_live_def)

definition benign :: "(time \<Rightarrow> migration \<Rightarrow> migration option) \<Rightarrow> bool" where
  "benign f \<longleftrightarrow> (\<forall>now m m'. f now m = Some m' \<longrightarrow> evolves m m' \<and> (m_stage m' = MigrationCompleted \<longrightarrow> m_stage m = MigrationCompleted))"

lemma record_og_update:
  assumes "\<And>now m m'. f now m = Some m' \<Longrightarrow> evolves m m'"
  shows "record_step i og (snd (og_update env i f og))"
  using assms by (fastforce simp: record_step_def og_update_def Let_def evolves_def completion_recorded_def split: option.splits)

lemma local_og_update [locals]:
  assumes "benign f"
  shows "local_step i og (snd (og_update env i f og))"
proof -
  have "record_step i og (snd (og_update env i f og))" using assms by (auto simp: benign_def intro: record_og_update)
  moreover have "completed i (snd (og_update env i f og)) \<longrightarrow> completed i og"
    using assms by (fastforce simp: benign_def completed_def og_update_def Let_def split: option.splits if_splits)
  ultimately show ?thesis by (auto simp: local_step_def og_update_def Let_def split: option.splits)
qed

lemma append_event_sel [simp]:
  "m_id (append_event now msg p a b m) = m_id m" "m_idempotency_key (append_event now msg p a b m) = m_idempotency_key m"
  "m_workload_id (append_event now msg p a b m) = m_workload_id m" "m_source_machine_id (append_event now msg p a b m) = m_source_machine_id m"
  "m_mode (append_event now msg p a b m) = m_mode m" "m_pre_copy_passes (append_event now msg p a b m) = m_pre_copy_passes m"
  "m_created_at (append_event now msg p a b m) = m_created_at m" "m_completed_at (append_event now msg p a b m) = m_completed_at m"
  "m_stage (append_event now msg p a b m) = m_stage m"
  by (simp_all add: append_event_def Let_def)

lemma transition_evolves: "transition now st msg p m = Some m' \<Longrightarrow> evolves m m'"
proof -
  assume t: "transition now st msg p m = Some m'"
  then have "can_transition (m_stage m) st" by (simp add: transition_Some)
  then have "\<not> terminal (m_stage m)" using terminal_iff_stuck by (force simp: can_transition_def)
  with t show ?thesis by (auto simp: transition_def evolves_def completion_recorded_def split: if_splits)
qed

lemma transition_stage: "transition now st msg p m = Some m' \<Longrightarrow> m_stage m' = st"
  by (auto simp: transition_def split: if_splits)

lemmas benign_simps = benign_def evolves_def completion_recorded_def terminal_def

lemma local_og_transition [locals]: "st \<noteq> MigrationCompleted \<Longrightarrow> local_step i og (snd (og_transition env i st m p og))"
  unfolding og_transition_def
  by (rule local_og_update) (auto simp: benign_def dest: transition_evolves transition_stage)

lemma local_og_progress [locals]: "local_step i og (snd (og_progress env i m p a b og))"
  unfolding og_progress_def by (rule local_og_update) (simp add: benign_simps)

lemma local_note_stage_event [locals]: "local_step i og (note_stage_event env i m og)"
  unfolding note_stage_event_def by (rule local_og_update) (simp add: benign_simps)

lemma local_force_settle [locals]: "st \<noteq> MigrationCompleted \<Longrightarrow> terminal st \<Longrightarrow> local_step i og (snd (force_settle env i st m og))"
  unfolding force_settle_def by (rule local_og_update) (simp add: benign_simps)

lemma force_complete_step:
  "og_peer (snd (force_complete_recovered env i m b og)) = og_peer og" "og_runtime (snd (force_complete_recovered env i m b og)) = og_runtime og"
  "record_step i og (snd (force_complete_recovered env i m b og))"
proof -
  show "record_step i og (snd (force_complete_recovered env i m b og))"
    unfolding force_complete_recovered_def by (rule record_og_update) (auto simp: benign_simps)
qed (auto simp: force_complete_recovered_def og_update_def Let_def split: option.splits)

lemma local_put_freeze [locals]: "local_step i og (put_freeze env i fz og)"
  by (simp add: local_same put_freeze_def)

lemma local_note_freeze [locals]: "local_step i og (note_freeze_ownership env i w b og)"
  by (simp add: note_freeze_ownership_def Let_def locals)

lemma local_note_downtime [locals]: "local_step i og (note_downtime_start env i t og)"
  by (simp add: note_downtime_start_def locals)

lemma local_drain [locals]: "local_step i og (snd (drain_source_forwarders env i w p og))"
  by (auto simp: drain_source_forwarders_def intro!: local_trans [OF _ local_og_progress] local_same)

lemma local_restore_network [locals]: "local_step i og (restore_source_network env m og)"
  by (auto simp: restore_source_network_def intro: local_same)

lemma local_outcome [locals]: "local_step i og (record_source_outcome env i w p b og)"
  by (auto simp: record_source_outcome_def intro: local_same split: option.splits)

lemma local_retry [locals]: "st \<noteq> MigrationCompleted \<Longrightarrow> local_step i og (retry_transition env i st p n og)"
proof (induction env i st p n og rule: retry_transition.induct)
  case (2 env i st p n og)
  obtain ok og1 where t: "og_transition env i st RollingBackNote p og = (ok, og1)" by fastforce
  with local_og_transition [of st i og env RollingBackNote p] 2(2) have "local_step i og og1" by simp
  with 2 t show ?case by (auto split: bool.splits intro: local_trans)
qed simp

lemma thaw_peer:
  assumes "thaw_source env w og = (a, b, og')"
  shows "og_peer og' = og_peer og" and "og_records og' = og_records og"
  using assms by (auto simp: thaw_source_def rt_do_def split: option.splits if_splits prod.splits)

lemma stop_source_quiet:
  "stop_source_with_retry env w n og = (ok, og') \<Longrightarrow>
     og_peer og' = og_peer og \<and> og_records og' = og_records og \<and> (source_live g og' \<longrightarrow> source_live g og)"
proof (induction env w n og rule: stop_source_with_retry.induct)
  case (2 env w n og)
  obtain r og1 where d: "rt_do env (\<lambda>e. rt_stop e w) og = (r, og1)" by fastforce
  then have "og_peer og1 = og_peer og \<and> og_records og1 = og_records og \<and> (source_live g og1 \<longrightarrow> source_live g og)"
    using rt_stop_quiet by (auto simp: rt_do_def source_live_def split: prod.splits)
  with 2 d show ?case by (auto split: bool.splits)
qed simp

lemma local_close [locals]:
  assumes "stage \<noteq> MigrationCompleted" and "terminal stage"
  shows "local_step i og (close_rollback env i pre stage m safe rf errs notes og)"
proof -
  let ?u = "snd (og_update env i (\<lambda>now v. Some (v\<lparr>m_source_preserved := True, m_failure_reason := m_failure_reason v @ notes\<rparr>)) og)"
  have "local_step i og ?u" by (rule local_og_update) (simp add: benign_simps)
  then have base: "local_step i og (record_source_outcome env i (m_workload_id m) (m_network m) False ?u)" (is "local_step i og ?o")
    by (rule local_trans [OF _ local_outcome])
  note ends = local_trans [OF base local_og_transition [OF assms(1)]] local_trans [OF base local_force_settle [OF assms]]
    local_trans [OF base local_note_stage_event]
  show ?thesis by (simp add: close_rollback_def Let_def base ends)
qed

section \<open>The orchestrator over its client\<close>

context peer_client
begin

definition quiet :: "string \<Rightarrow> 's orchestrator \<Rightarrow> 's orchestrator \<Rightarrow> bool" where
  "quiet i og og' \<longleftrightarrow> (peer_ok (og_peer og) \<longrightarrow> peer_ok (og_peer og')
     \<and> (\<forall>k. held k (og_peer og') \<longrightarrow> held k (og_peer og)) \<and> (\<forall>k. committed_at k (og_peer og) \<longrightarrow> committed_at k (og_peer og')))
     \<and> og_runtime og' = og_runtime og \<and> record_step i og og' \<and> (completed i og' \<longrightarrow> completed i og)"

text \<open>
  The safety invariant of migration \<open>i\<close> of the process group \<open>g\<close>: while the source runs the destination holds
  no copy, and a record that says completed is backed by a committed copy.
\<close>

definition guarded :: "string \<Rightarrow> int \<Rightarrow> 's orchestrator \<Rightarrow> bool" where
  "guarded i g og \<longleftrightarrow> peer_ok (og_peer og) \<and> (source_live g og \<longrightarrow> \<not> held i (og_peer og))
     \<and> (completed i og \<longrightarrow> committed_at i (og_peer og))"

lemma quiet_refl [simp]: "quiet i og og"
  by (simp add: quiet_def)

lemma quiet_trans: "quiet i a b \<Longrightarrow> quiet i b c \<Longrightarrow> quiet i a c"
  unfolding quiet_def by (metis record_trans)

lemma quiet_local: "local_step i og og' \<Longrightarrow> quiet i og og'"
  by (simp add: quiet_def local_step_def)

lemma quiet_record: "quiet i og og' \<Longrightarrow> record_step i og og'"
  by (simp add: quiet_def)

lemma quiet_guarded: "quiet i og og' \<Longrightarrow> guarded i g og \<Longrightarrow> guarded i g og'"
  by (auto simp: quiet_def guarded_def source_live_def)

lemma quiet_peer_do:
  assumes "peer_do call env op og = (out, og')" and "\<not> restores op"
  shows "quiet i og og'"
  using assms call_ok call_no_copy call_committed
  by (fastforce simp: peer_do_def quiet_def completed_def split: prod.splits intro: record_same)

lemma rollback_loop_quiet:
  "rollback_loop call env i n og = (ok, og') \<Longrightarrow> quiet i og og' \<and> (ok \<longrightarrow> peer_ok (og_peer og) \<longrightarrow> \<not> held i (og_peer og'))"
proof (induction n arbitrary: og)
  case (Suc n)
  obtain out og1 where d: "peer_do call env (PeerRequest (RqRollback i)) og = (out, og1)" by fastforce
  note q = quiet_peer_do [OF d, of i]
  have free: "\<not> failed out \<or> out = Inl PeerNotFound \<Longrightarrow> peer_ok (og_peer og) \<Longrightarrow> \<not> held i (og_peer og1)"
    using d rollback_free by (fastforce simp: peer_do_def split: prod.splits)
  have ok1: "peer_ok (og_peer og) \<Longrightarrow> peer_ok (og_peer og1)" using q by (simp add: quiet_def)
  from Suc d q free ok1 show ?case by (auto split: if_splits intro: quiet_trans)
qed simp

lemma rollback_destination_quiet:
  assumes "rollback_destination call env i peer reserved og = (confirmed, errs, og')"
  shows "quiet i og og'" and "confirmed \<Longrightarrow> peer_ok (og_peer og) \<Longrightarrow> (\<not> reserved \<longrightarrow> \<not> held i (og_peer og)) \<Longrightarrow> \<not> held i (og_peer og')"
  using assms rollback_loop_quiet by (fastforce simp: rollback_destination_def split: if_splits prod.splits)+

lemma live_copy_probe_quiet:
  assumes "destination_holds_live_copy call env i peer og = (holds, og')"
  shows "quiet i og og'" and "\<not> holds \<Longrightarrow> peer_ok (og_peer og) \<Longrightarrow> \<not> held i (og_peer og')"
proof -
  obtain out og1 where d: "peer_do call env (PeerRequest (RqGetCleanup i)) og = (out, og1)" by fastforce
  note q = quiet_peer_do [OF d, of i]
  have free: "out = Inl PeerNotFound \<or> (\<exists>x. out = Inr (GotSession x) \<and> copy_free x) \<Longrightarrow> peer_ok (og_peer og) \<Longrightarrow> \<not> held i (og_peer og1)"
    using d probe_free by (fastforce simp: peer_do_def split: prod.splits)
  from assms d q show "quiet i og og'"
    by (auto simp: destination_holds_live_copy_def split: if_splits sum.splits response.splits)
  from assms d free show "\<not> holds \<Longrightarrow> peer_ok (og_peer og) \<Longrightarrow> \<not> held i (og_peer og')"
    by (auto simp: destination_holds_live_copy_def split: if_splits sum.splits response.splits)
qed

lemma thaw_guarded:
  assumes "thaw_source env w og = (a, b, og')" and "guarded i g og" and "\<not> held i (og_peer og)"
  shows "guarded i g og'" and "record_step i og og'"
  using assms thaw_peer [OF assms(1)] by (auto simp: guarded_def completed_def intro: record_same)

text \<open>The source is thawed only once the destination is known to hold no copy.\<close>

lemma roll_back_guarded:
  assumes "guarded i g og" and "\<not> reserved \<longrightarrow> \<not> held i (og_peer og)" and stage: "stage \<noteq> MigrationCompleted" "terminal stage"
    and "og' = roll_back_and_settle call env i peer reserved frozen pre stage m og"
  shows "guarded i g og' \<and> record_step i og og'"
proof -
  obtain confirmed errs og1 where 1: "rollback_destination call env i peer reserved og = (confirmed, errs, og1)" by (metis prod_cases3)
  obtain holds og2 where 2: "(if \<not> confirmed \<and> frozen then destination_holds_live_copy call env i peer og1 else (True, og1)) = (holds, og2)" by fastforce
  let ?safe = "confirmed \<or> \<not> holds"
  obtain resumed rf og3 where 3: "(if frozen \<and> ?safe then thaw_source env (m_workload_id m) og2 else (False, False, og2)) = (resumed, rf, og3)"
    by (metis prod_cases3)
  note q1 = rollback_destination_quiet [OF 1]
  have q2: "quiet i og1 og2" using 2 live_copy_probe_quiet by (auto split: if_splits)
  note q12 = quiet_trans [OF q1(1) q2]
  have ok: "peer_ok (og_peer og)" "peer_ok (og_peer og1)" using assms(1) q1(1) by (auto simp: guarded_def quiet_def)
  have free: "\<not> held i (og_peer og2)" if "?safe"
  proof (cases confirmed)
    case True
    with q1(2) ok assms(2) have "\<not> held i (og_peer og1)" by blast
    with q2 ok show ?thesis by (auto simp: quiet_def)
  next
    case False
    with that 2 live_copy_probe_quiet(2) [of env i peer og1 holds og2] ok show ?thesis by (auto split: if_splits)
  qed
  have g2: "guarded i g og2" using quiet_guarded [OF q12 assms(1)] .
  have g3: "guarded i g og3 \<and> record_step i og2 og3"
    using 3 thaw_guarded [OF _ g2 free] g2 by (auto split: if_splits)
  have "\<exists>og4. local_step i og3 og4 \<and> local_step i og4 og'"
    unfolding assms(5) roll_back_and_settle_def 1 prod.case 2 3 Let_def
    by (rule exI, rule conjI [OF _ local_close [OF stage]]) (simp add: local_restore_network)
  then show ?thesis
    using g3 quiet_record [OF q12] by (meson quiet_guarded quiet_local quiet_record record_trans)
qed

end

context peer_client
begin

lemma settle_committed_guarded:
  assumes "guarded i g og" and "committed_at i (og_peer og)"
  shows "guarded i g (settle_committed env i w og) \<and> record_step i og (settle_committed env i w og)"
proof -
  obtain ok og1 where s: "stop_source_with_retry env w source_stop_attempts og = (ok, og1)" by fastforce
  have "guarded i g og1" "committed_at i (og_peer og1)" "record_step i og og1"
    using stop_source_quiet [OF s, of g] assms by (auto simp: guarded_def completed_def intro: record_same)
  then show ?thesis
    using force_complete_step [where env = env and i = i and m = SettledNote and b = "\<not> ok" and og = og1]
    by (auto simp: settle_committed_def s guarded_def source_live_def intro: record_trans)
qed

text \<open>What a failed run must know before its handler acts.\<close>

definition may_settle :: "string \<Rightarrow> int \<Rightarrow> bool \<Rightarrow> bool \<Rightarrow> 's orchestrator \<Rightarrow> bool" where
  "may_settle i g reserved committed og \<longleftrightarrow> guarded i g og \<and> (\<not> reserved \<longrightarrow> \<not> held i (og_peer og)) \<and> (committed \<longrightarrow> committed_at i (og_peer og))"

lemma may_settle_local: "may_settle i g reserved committed og \<Longrightarrow> local_step i og og' \<Longrightarrow> may_settle i g reserved committed og'"
  using quiet_guarded [OF quiet_local] by (auto simp: may_settle_def local_step_def)

lemma handler_guarded:
  assumes "may_settle i g reserved committed og" and "local_step i og og1" and "local_step i og1 og2" and "stage \<noteq> MigrationCompleted" "terminal stage"
  shows "committed \<Longrightarrow> guarded i g (settle_committed env i w og1) \<and> record_step i og (settle_committed env i w og1)"
    and "guarded i g (roll_back_and_settle call env i peer reserved frozen pre stage m og2)
      \<and> record_step i og (roll_back_and_settle call env i peer reserved frozen pre stage m og2)"
proof -
  have 1: "may_settle i g reserved committed og1" and r1: "record_step i og og1"
    using may_settle_local [OF assms(1,2)] assms(2) by (simp_all add: local_step_def)
  show "guarded i g (settle_committed env i w og1) \<and> record_step i og (settle_committed env i w og1)" if committed
    using settle_committed_guarded [where i = i and g = g and og = og1 and env = env and w = w] 1 r1 that by (auto simp: may_settle_def intro: record_trans)
  have 2: "may_settle i g reserved committed og2" and r2: "record_step i og og2"
    using may_settle_local [OF 1 assms(3)] assms(3) r1 by (auto simp: local_step_def intro: record_trans)
  show "guarded i g (roll_back_and_settle call env i peer reserved frozen pre stage m og2)
      \<and> record_step i og (roll_back_and_settle call env i peer reserved frozen pre stage m og2)"
    using roll_back_guarded [OF _ _ assms(4,5) refl, of i g og2] 2 r2 by (auto simp: may_settle_def intro: record_trans)
qed

lemma handle_failure_guarded:
  assumes "may_settle i g reserved committed og"
  shows "guarded i g (handle_failure call env i peer reserved committed frozen code downtime og)
    \<and> record_step i og (handle_failure call env i peer reserved committed frozen code downtime og)"
proof (cases "st_get (og_records og) i")
  case None
  with assms show ?thesis by (simp add: handle_failure_def may_settle_def)
next
  case (Some m)
  define og1 where "og1 = snd (og_update env i (\<lambda>now v. Some
     ((if m_failure_code v = NoFailure then v\<lparr>m_failure_code := code, m_failure_reason := [CauseNote code]\<rparr>
       else v\<lparr>m_failure_reason := m_failure_reason v @ [CauseNote code]\<rparr>)
        \<lparr>m_metrics := (m_metrics v)\<lparr>mm_downtime := downtime\<rparr>\<rparr>)) og)"
  define pre where "pre = (m_stage m \<noteq> MigrationRollingBack \<and> \<not> can_transition (m_stage m) MigrationRollingBack
                                 \<and> can_transition (m_stage m) MigrationFailed)"
  define og2 where "og2 = (if m_stage m = MigrationRollingBack then note_stage_event env i ResumeRollbackNote og1
      else if can_transition (m_stage m) MigrationRollingBack
      then retry_transition env i MigrationRollingBack (migration_progress (m_stage m)) state_persist_attempts og1
      else if pre then snd (og_transition env i MigrationFailed (CauseNote code) (migration_progress (m_stage m)) og1)
      else og1)"
  have 1: "local_step i og og1" unfolding og1_def by (rule local_og_update) (auto simp: benign_simps)
  have 2: "local_step i og1 og2" by (simp add: og2_def locals)
  have eq: "handle_failure call env i peer reserved committed frozen code downtime og =
      (if terminal (m_stage m) then og
       else if committed then settle_committed env i (m_workload_id m) og1
       else roll_back_and_settle call env i peer reserved frozen pre MigrationRolledBack (current_migration i m og2) og2)"
    by (simp add: handle_failure_def Some og1_def [symmetric] pre_def [symmetric] og2_def [symmetric] Let_def)
  show ?thesis
    unfolding eq using handler_guarded [OF assms 1 2, of MigrationRolledBack] assms
    by (simp add: terminal_def may_settle_def)
qed

lemma handle_cancellation_guarded:
  assumes "may_settle i g reserved committed og"
  shows "guarded i g (handle_cancellation call env i peer reserved committed frozen code downtime og)
    \<and> record_step i og (handle_cancellation call env i peer reserved committed frozen code downtime og)"
proof (cases "st_get (og_records og) i")
  case None
  with assms show ?thesis by (simp add: handle_cancellation_def may_settle_def)
next
  case (Some m)
  define oga where "oga = snd (og_update env i (\<lambda>now v. Some (v\<lparr>m_source_preserved := True, m_metrics := (m_metrics v)\<lparr>mm_downtime := downtime\<rparr>\<rparr>)) og)"
  define og1 where "og1 = snd (og_update env i (\<lambda>now v. Some (v\<lparr>m_failure_code := MIGRATION_CANCELLED, m_failure_reason := [CauseNote code],
     m_source_preserved := True, m_metrics := (m_metrics v)\<lparr>mm_downtime := downtime\<rparr>\<rparr>)) og)"
  define og2 where "og2 = (if m_stage m = MigrationRollingBack then note_stage_event env i ResumeRollbackNote og1
      else if can_transition (m_stage m) MigrationRollingBack
      then retry_transition env i MigrationRollingBack (migration_progress (m_stage m)) state_persist_attempts og1
      else og1)"
  have a: "local_step i og oga" unfolding oga_def by (rule local_og_update) (auto simp: benign_simps)
  have 1: "local_step i og og1" unfolding og1_def by (rule local_og_update) (auto simp: benign_simps)
  have 2: "local_step i og1 og2" by (simp add: og2_def locals)
  have eq: "handle_cancellation call env i peer reserved committed frozen code downtime og =
      (if terminal (m_stage m) then og
       else if committed then settle_committed env i (m_workload_id m) oga
       else roll_back_and_settle call env i peer reserved frozen False MigrationCancelled (current_migration i m og2) og2)"
    by (simp add: handle_cancellation_def Some oga_def [symmetric] og1_def [symmetric] og2_def [symmetric] Let_def)
  show ?thesis
    unfolding eq using handler_guarded(2) [OF assms 1 2, of MigrationCancelled] handler_guarded(1) [OF assms a local_refl, of MigrationCancelled] assms
    by (simp add: terminal_def may_settle_def)
qed

text \<open>Recovery asks the destination first, and takes its word for what it holds.\<close>

lemma recover_guarded:
  assumes "guarded i g og"
  shows "guarded i g (recover_migration call env i og) \<and> record_step i og (recover_migration call env i og)"
proof (cases "\<exists>m. st_get (og_records og) i = Some m \<and> \<not> terminal (m_stage m)")
  case False
  with assms show ?thesis by (auto simp: recover_migration_def split: option.splits)
next
  case True
  then obtain m where m: "st_get (og_records og) i = Some m" "\<not> terminal (m_stage m)" by blast
  obtain out og1 where d: "peer_do call env (PeerRequest (RqGetCleanup i)) og = (out, og1)" by fastforce
  note q = quiet_peer_do [OF d, of i, simplified]
  have ok: "peer_ok (og_peer og)" using assms by (simp add: guarded_def)
  have g1: "guarded i g og1" using quiet_guarded [OF _ assms] q by simp
  have free: "\<not> held i (og_peer og1)" if "out = Inl PeerNotFound \<or> (\<exists>x. out = Inr (GotSession x) \<and> copy_free x)"
    using that d probe_free [OF ok] by (fastforce simp: peer_do_def split: prod.splits)
  have com: "committed_at i (og_peer og1)" if "out = Inr (GotSession x)" "ss_state x = SessionCommitted" for x
    using that d probe_committed [OF ok] by (fastforce simp: peer_do_def split: prod.splits)
  have resume: "guarded i g (handle_failure call env i peer reserved False frozen code dt og2)
      \<and> record_step i og (handle_failure call env i peer reserved False frozen code dt og2)"
    if "local_step i ogx og2" "guarded i g ogx" "record_step i og ogx" "\<not> reserved \<longrightarrow> \<not> held i (og_peer ogx)" for peer reserved frozen code dt og2 ogx
    using handle_failure_guarded [of i g reserved False og2] may_settle_local [OF _ that(1), of g reserved False] that
    by (auto simp: may_settle_def local_step_def intro: record_trans)
  have g: "record_step i og og1" using quiet_record q by simp
  have sc: "guarded i g (settle_committed env i (m_workload_id m) og1) \<and> record_step i og (settle_committed env i (m_workload_id m) og1)"
    if "committed_at i (og_peer og1)"
    using settle_committed_guarded [OF g1 that, where env = env and w = "m_workload_id m"] g by (auto intro: record_trans)
  define frozen dt where "frozen = recovery_owns_freeze m (st_get (og_freezes og) i)"
    and "dt = (case st_get (og_freezes og) i of None \<Rightarrow> 0 | Some f \<Rightarrow> if IsZero (fz_downtime f) then 0 else oe_now env (og_tick og) - fz_downtime f)"
  let ?resume = "\<lambda>reserved og'. handle_failure call env i (oe_client env) reserved False frozen AGENT_RESTARTED dt og'"
  have eq: "recover_migration call env i og =
    (if \<not> oe_client env then ?resume True (note_stage_event env i ProbeFailedNote og)
     else if \<exists>x. out = Inr (GotSession x) \<and> ss_state x = SessionCommitted then settle_committed env i (m_workload_id m) og1
     else if \<exists>x. out = Inr (GotSession x) \<and> ss_state x \<noteq> SessionRolledBack \<and> ss_state x \<noteq> SessionFailed then ?resume True og1
     else if out = Inl PeerNotFound \<or> (\<exists>x. out = Inr (GotSession x)) then ?resume False (note_stage_event env i NoReservationNote og1)
     else ?resume True (note_stage_event env i ProbeFailedNote og1))"
    using m d unfolding recover_migration_def settle_committed_def Let_def frozen_def dt_def
    by (auto split: sum.splits response.splits peer_error.splits)
  have free': "\<not> held i (og_peer og1)" if "out = Inl PeerNotFound \<or> (\<exists>x. out = Inr (GotSession x))"
    "\<not> (\<exists>x. out = Inr (GotSession x) \<and> ss_state x \<noteq> SessionRolledBack \<and> ss_state x \<noteq> SessionFailed)"
    using that free by (auto simp: copy_free_def)
  show ?thesis
    unfolding eq
    using sc com free' resume [OF local_note_stage_event [where env = env] g1 g] resume [OF local_refl g1 g] resume [OF local_note_stage_event [where env = env] assms record_refl]
    by simp blast
qed

end

section \<open>The steps of a run\<close>

text \<open>
  A run is reasoned about with pre- and postconditions.  \<open>R\<close> holds at every point where the run can stop:
  after every prefix of the steps, whether the next step comes or not.
\<close>

definition steps_meet :: "('s run \<Rightarrow> bool) \<Rightarrow> ('s run \<Rightarrow> bool) \<Rightarrow> 's run_step list \<Rightarrow> ('s run \<Rightarrow> bool) \<Rightarrow> bool" where
  "steps_meet R P fs Q \<longleftrightarrow> (\<forall>x. P x \<longrightarrow> (\<forall>n. R (snd (exec_steps (take n fs) x))) \<and> (\<forall>x'. exec_steps fs x = (Proceed, x') \<longrightarrow> Q x'))"

lemma exec_append: "exec_steps (fs @ gs) x = (case exec_steps fs x of (Proceed, x1) \<Rightarrow> exec_steps gs x1 | (v, x1) \<Rightarrow> (v, x1))"
  by (induction fs arbitrary: x) (auto split: prod.splits verdict.splits)

lemma meet_append:
  assumes "steps_meet R P fs Q" and "steps_meet R Q gs S"
  shows "steps_meet R P (fs @ gs) S"
  unfolding steps_meet_def
proof (intro allI impI conjI)
  fix x n assume p: "P x"
  obtain v x1 where e: "exec_steps fs x = (v, x1)" by fastforce
  have all: "R x1" using assms(1) p e unfolding steps_meet_def by (metis snd_conv take_all_iff order_refl)
  show "R (snd (exec_steps (take n (fs @ gs)) x))"
  proof (cases "n \<le> length fs")
    case True
    with assms(1) p show ?thesis by (simp add: steps_meet_def)
  next
    case False
    with all e assms p show ?thesis
      by (cases v) (auto simp: exec_append steps_meet_def)
  qed
next
  fix x x' assume "P x" "exec_steps (fs @ gs) x = (Proceed, x')"
  with assms show "S x'" by (auto simp: exec_append steps_meet_def split: prod.splits verdict.splits)
qed

lemma meet_one:
  assumes "\<And>x. P x \<Longrightarrow> R x" and "\<And>x v x'. P x \<Longrightarrow> f x = (v, x') \<Longrightarrow> R x'" and "\<And>x x'. P x \<Longrightarrow> f x = (Proceed, x') \<Longrightarrow> Q x'"
  shows "steps_meet R P [f] Q"
  unfolding steps_meet_def
proof (intro allI impI conjI)
  fix x n assume p: "P x"
  show "R (snd (exec_steps (take n [f]) x))"
    using assms(1,2) p by (cases n) (auto split: prod.splits verdict.splits)
qed (use assms(3) in \<open>auto split: prod.splits verdict.splits\<close>)

lemma meet_cons: "steps_meet R P [f] Q \<Longrightarrow> steps_meet R Q fs S \<Longrightarrow> steps_meet R P (f # fs) S"
  using meet_append [of R P "[f]" Q fs S] by simp

lemma meet_nil: "(\<And>x. P x \<Longrightarrow> R x) \<Longrightarrow> steps_meet R P [] P"
  by (simp add: steps_meet_def)

lemma meet_invariant:
  assumes "\<And>x. I x \<Longrightarrow> R x" and "\<And>f x v x'. f \<in> set fs \<Longrightarrow> I x \<Longrightarrow> f x = (v, x') \<Longrightarrow> I x'"
  shows "steps_meet R I fs I"
  using assms(2)
proof (induction fs)
  case (Cons f fs)
  have step: "I x'" if "I x" "f x = (v, x')" for x v x' using Cons.prems [of f x v x'] that by simp
  have "steps_meet R I [f] I" by (rule meet_one) (auto intro: step assms(1))
  moreover have "steps_meet R I fs I" by (rule Cons.IH) (use Cons.prems in auto)
  ultimately show ?case by (rule meet_cons)
qed (use assms(1) in \<open>auto intro: meet_nil\<close>)

text \<open>What almost every step leaves of the run's own state.\<close>

definition same_session :: "live_session \<Rightarrow> live_session \<Rightarrow> bool" where
  "same_session l l' \<longleftrightarrow> ls_workload l' = ls_workload l \<and> ls_running l' = ls_running l \<and> ls_frozen l' = ls_frozen l \<and> ls_closed l' = ls_closed l"

definition run_frame :: "'s run \<Rightarrow> 's run \<Rightarrow> bool" where
  "run_frame x x' \<longleftrightarrow> rx_committed x' = rx_committed x \<and> rx_workload x' = rx_workload x \<and> (rx_reserved x \<longrightarrow> rx_reserved x')
     \<and> (rx_capture x \<noteq> None \<longrightarrow> rx_capture x' \<noteq> None)
     \<and> (\<forall>l'. rx_live x' = Some l' \<longrightarrow> (\<exists>l. rx_live x = Some l \<and> same_session l l'))"

lemma same_session_refl [simp]: "same_session l l"
  by (simp add: same_session_def)

lemma frame_refl [simp]: "run_frame x x"
  by (auto simp: run_frame_def same_session_def)

lemma frame_trans: "run_frame a b \<Longrightarrow> run_frame b c \<Longrightarrow> run_frame a c"
  by (fastforce simp: run_frame_def same_session_def)

lemma live_pass_same: "live_pass pe l = (r, l1) \<Longrightarrow> same_session l l1"
  by (auto simp: live_pass_def same_session_def split: if_splits option.splits)

context peer_client
begin

definition calm :: "string \<Rightarrow> 's run_step \<Rightarrow> bool" where
  "calm i f \<longleftrightarrow> (\<forall>x v x'. f x = (v, x') \<longrightarrow> quiet i (rx_og x) (rx_og x') \<and> run_frame x x')"

lemma calm_must:
  assumes "\<And>x og. quiet i og (snd (f x og))"
  shows "calm i (must code f)"
  unfolding calm_def
proof (intro allI impI)
  fix x v x' assume "must code f x = (v, x')"
  with assms [of "rx_og x" x] show "quiet i (rx_og x) (rx_og x') \<and> run_frame x x'"
    by (auto simp: must_def run_frame_def same_session_def split: prod.splits if_splits)
qed

lemma calm_may: "(\<And>x og. quiet i og (f x og)) \<Longrightarrow> calm i (may f)"
  by (auto simp: calm_def may_def run_frame_def same_session_def)

lemma calm_only_if: "calm i f \<Longrightarrow> calm i (only_if b f)"
  by (auto simp: calm_def only_if_def split: if_splits)

lemma calm_with_capture: "(\<And>c. calm i (f c)) \<Longrightarrow> calm i (with_capture f)"
  by (fastforce simp: calm_def with_capture_def split: option.splits)

lemma calm_enter: "st \<noteq> MigrationCompleted \<Longrightarrow> calm i (enter env i st p)"
  unfolding enter_def by (rule calm_must) (simp add: quiet_local locals)

lemma calm_ask: "\<not> is_restore rq \<Longrightarrow> calm i (ask call env rq code)"
  unfolding ask_def by (rule calm_must) (auto intro: quiet_peer_do split: prod.splits)

lemma calm_own: "calm i (st_own env i)"
  unfolding st_own_def by (rule calm_may) (simp add: quiet_local locals)

lemma calm_client: "calm i (st_client env)"
  by (auto simp: calm_def st_client_def run_frame_def same_session_def)

lemma calm_machine: "calm i (st_machine env)"
  by (auto simp: calm_def st_machine_def split: option.splits if_splits)

lemma calm_bind: "calm i (st_bind env i)"
  unfolding st_bind_def by (rule calm_may) (rule quiet_local [OF local_og_update], auto simp: benign_simps)

lemma calm_after:
  assumes "calm i f" and "f y = (v, x')" and "quiet i (rx_og x) (rx_og y)" and "run_frame x y"
  shows "quiet i (rx_og x) (rx_og x') \<and> run_frame x x'"
  using assms unfolding calm_def by (meson frame_trans quiet_trans)

lemma frame_og [simp]: "run_frame x (x\<lparr>rx_og := og\<rparr>)"
  by (simp add: run_frame_def)

lemma calm_inspect: "calm i (st_inspect env i)"
  unfolding calm_def
proof (intro allI impI)
  fix x :: "'s run" and v x' assume s: "st_inspect env i x = (v, x')"
  have "quiet i (rx_og x) (snd (og_update env i (\<lambda>now m. Some (m\<lparr>m_compatibility := oe_report env\<rparr>)) (rx_og x)))"
    by (rule quiet_local [OF local_og_update]) (simp add: benign_simps)
  moreover have "x' = x \<or> x' = x\<lparr>rx_og := snd (og_update env i (\<lambda>now m. Some (m\<lparr>m_compatibility := oe_report env\<rparr>)) (rx_og x))\<rparr>"
    using s by (auto simp: st_inspect_def split: prod.splits if_splits)
  ultimately show "quiet i (rx_og x) (rx_og x') \<and> run_frame x x'" by auto
qed

lemma calm_plan: "calm i (st_plan env i)"
  unfolding calm_def
proof (intro allI impI)
  fix x :: "'s run" and v x' assume s: "st_plan env i x = (v, x')"
  have m: "calm i (must STATE_PERSIST_FAILED (\<lambda>x. og_update env i (\<lambda>now m. Some (append_event now NetworkPlanNote (1/10) 0 0 (m\<lparr>m_network := p\<rparr>)))))" for p
    by (rule calm_must) (rule quiet_local [OF local_og_update], simp add: benign_simps)
  show "quiet i (rx_og x) (rx_og x') \<and> run_frame x x'"
  proof (cases "oe_plan env")
    case (Some p)
    with s show ?thesis by (intro calm_after [OF m [of p], of "x\<lparr>rx_plan := p\<rparr>" v]) (simp_all add: st_plan_def run_frame_def)
  qed (use s in \<open>simp add: st_plan_def\<close>)
qed

lemma bound_downtime_calm: "quiet i (rx_og x) (rx_og (bound_downtime env i t x)) \<and> run_frame x (bound_downtime env i t x)"
  by (auto simp: bound_downtime_def run_frame_def same_session_def intro: quiet_local locals)

lemma calm_drain: "calm i (st_drain env i)"
  unfolding calm_def
proof (intro allI impI)
  fix x :: "'s run" and v x' assume s: "st_drain env i x = (v, x')"
  obtain t og where d: "drain_source_forwarders env i (rx_wid x) (rx_plan x) (rx_og x) = (t, og)" by fastforce
  with local_drain [of i "rx_og x" env "rx_wid x" "rx_plan x"] have "quiet i (rx_og x) og" by (simp add: quiet_local)
  with s d bound_downtime_calm [of i "x\<lparr>rx_og := og, rx_drained := t\<rparr>" env t]
  show "quiet i (rx_og x) (rx_og x') \<and> run_frame x x'"
    by (auto simp: st_drain_def Let_def run_frame_def same_session_def split: if_splits intro: quiet_trans)
qed

lemma calm_open_downtime: "calm i (st_open_downtime env i)"
  using bound_downtime_calm by (auto simp: calm_def st_open_downtime_def split: if_splits)

lemma calm_close_downtime: "calm i (st_close_downtime env i)"
  using bound_downtime_calm by (auto simp: calm_def st_close_downtime_def split: if_splits)

lemma calm_first_pass: "calm i (st_first_pass env)"
proof -
  have "calm i (\<lambda>x. case rx_live x of None \<Rightarrow> (Proceed, x)
     | Some l \<Rightarrow> (case live_pass (oe_pass env (ls_passes l)) l of
        (None, l1) \<Rightarrow> (FailWith CHECKPOINT_FAILED, x\<lparr>rx_live := Some l1\<rparr>)
      | (Some r, l1) \<Rightarrow> (Proceed, x\<lparr>rx_live := Some l1, rx_report := Some r\<rparr>)))"
    unfolding calm_def
  proof (intro allI impI)
    fix x :: "'s run" and v x'
    assume s: "(case rx_live x of None \<Rightarrow> (Proceed, x)
     | Some l \<Rightarrow> (case live_pass (oe_pass env (ls_passes l)) l of
        (None, l1) \<Rightarrow> (FailWith CHECKPOINT_FAILED, x\<lparr>rx_live := Some l1\<rparr>)
      | (Some r, l1) \<Rightarrow> (Proceed, x\<lparr>rx_live := Some l1, rx_report := Some r\<rparr>))) = (v, x')"
    then have "x' = x \<or> (\<exists>l r l1. rx_live x = Some l \<and> live_pass (oe_pass env (ls_passes l)) l = (r, l1)
        \<and> rx_live x' = Some l1 \<and> run_frame (x\<lparr>rx_live := None\<rparr>) (x'\<lparr>rx_live := None\<rparr>) \<and> rx_og x' = rx_og x)"
      by (auto simp: run_frame_def split: option.splits prod.splits)
    then show "quiet i (rx_og x) (rx_og x') \<and> run_frame x x'"
      using live_pass_same by (auto simp: run_frame_def)
  qed
  then show ?thesis unfolding st_first_pass_def by (rule calm_only_if)
qed

end

context peer_client
begin

lemma upload_one_quiet: "quiet i og (snd (upload_one call env i ref n og))"
proof (induction n arbitrary: og)
  case (Suc n)
  obtain out og1 where d: "peer_do call env (PeerUpload i ref (og_chunks og)) og = (out, og1)" by fastforce
  then have "quiet i og og1" by (rule quiet_peer_do) simp
  with d Suc.IH [of og1] show ?case by (auto intro: quiet_trans)
qed simp

lemma upload_refs_quiet: "upload_refs call env i base share n whole cnt sent refs og = (ok, sent', og') \<Longrightarrow> quiet i og og'"
proof (induction refs arbitrary: cnt sent og)
  case (Cons ref refs)
  obtain up og1 where u: "upload_one call env i ref upload_attempts og = (up, og1)" by fastforce
  with upload_one_quiet [of i og env ref upload_attempts] have q1: "quiet i og og1" by simp
  define og2 where "og2 = (if cnt + 1 = n \<or> (cnt + 1) mod 8 = 0
     then snd (og_progress env i ProgressNote (base + share * of_int (i64 (sent + cr_stored_size ref)) / of_int (max whole 1))
       (i64 (sent + cr_stored_size ref)) whole og1) else og1)"
  have q2: "quiet i og1 og2" by (simp add: og2_def quiet_local locals)
  show ?case
  proof (cases up)
    case True
    with Cons.prems u have "upload_refs call env i base share n whole (cnt + 1) (i64 (sent + cr_stored_size ref)) refs og2 = (ok, sent', og')"
      by (simp add: Let_def og2_def)
    from Cons.IH [OF this] q1 q2 show ?thesis by (blast intro: quiet_trans)
  qed (use Cons.prems u q1 in simp)
qed simp

lemma upload_chunks_quiet: "upload_chunks call env i base share refs og = (ok, sent, og') \<Longrightarrow> quiet i og og'"
  by (auto simp: upload_chunks_def split: prod.splits dest: upload_refs_quiet)

lemma record_sent_calm: "quiet i (rx_og x) (rx_og (record_sent env i x)) \<and> run_frame x (record_sent env i x)"
proof -
  have "quiet i og (snd (og_update env i (\<lambda>now m. Some (m\<lparr>m_metrics := (m_metrics m)\<lparr>mm_pre_copy_bytes := a, mm_transferred_bytes := b\<rparr>\<rparr>)) og))" for og a b
    by (rule quiet_local [OF local_og_update]) (simp add: benign_simps)
  then show ?thesis by (simp add: record_sent_def)
qed

lemma frame_fields [simp]:
  "run_frame x (x\<lparr>rx_og := og, rx_precopy := n\<rparr>)" "run_frame x (x\<lparr>rx_og := og, rx_sent := n, rx_deduplicated := d\<rparr>)"
  "run_frame x (x\<lparr>rx_clock := t\<rparr>)" "run_frame x (x\<lparr>rx_early := b\<rparr>)" "run_frame x (x\<lparr>rx_resumed := t\<rparr>)" "run_frame x (x\<lparr>rx_frozen := b\<rparr>)"
  "run_frame x (x\<lparr>rx_og := og, rx_reserved := True\<rparr>)"
  by (simp_all add: run_frame_def)

lemma frame_live: "rx_live x = Some l \<Longrightarrow> same_session l l' \<Longrightarrow> run_frame x (x\<lparr>rx_live := Some l'\<rparr>)"
  by (simp add: run_frame_def)

lemma precopy_calm:
  "precopy call env i cur l x = (v, x') \<Longrightarrow> rx_live x = Some l \<Longrightarrow> quiet i (rx_og x) (rx_og x') \<and> run_frame x x'"
proof (induction "nat (ls_limit l) - ls_passes l" arbitrary: cur l x rule: less_induct)
  case less
  obtain ok sent og1 where u: "upload_chunks call env i (12/100 + 16/100 * of_int (int (pr_index cur) - 1) / of_int (ls_limit l)) (16/100 / of_int (ls_limit l))
             (am_chunks (pr_asset cur)) (rx_og x) = (ok, sent, og1)" by (metis prod_cases3)
  have q1: "quiet i (rx_og x) og1" by (rule upload_chunks_quiet [OF u])
  define x1 where "x1 = record_sent env i (x\<lparr>rx_og := og1, rx_precopy := i64 (rx_precopy x + sent)\<rparr>)"
  have c1: "quiet i (rx_og x) (rx_og x1) \<and> run_frame x x1"
    using record_sent_calm [of i "x\<lparr>rx_og := og1, rx_precopy := i64 (rx_precopy x + sent)\<rparr>" env] q1
    by (auto simp: x1_def intro: quiet_trans frame_trans [OF frame_fields(1)])
  have l1: "rx_live x1 = Some l" using less.prems(2) by (simp add: x1_def record_sent_def)
  obtain r l' where p: "live_pass (oe_pass env (ls_passes l)) l = (r, l')" by fastforce
  note c2 = frame_live [OF l1 live_pass_same [OF p]]
  have eq: "precopy call env i cur l x = (if \<not> ok then (FailWith CHUNK_TRANSFER_FAILED, x\<lparr>rx_og := og1\<rparr>)
      else if \<not> pr_more cur then (Proceed, x1)
      else case r of None \<Rightarrow> (FailWith CHECKPOINT_FAILED, x1\<lparr>rx_live := Some l'\<rparr>) | Some r \<Rightarrow> precopy call env i r l' (x1\<lparr>rx_live := Some l'\<rparr>))"
    by (subst precopy.simps) (simp only: u prod.case p Let_def x1_def split: option.splits)
  show ?case
  proof (cases "ok \<and> pr_more cur \<and> r \<noteq> None")
    case True
    then obtain r' where r: "r = Some r'" by blast
    with less.prems(1) eq True have "precopy call env i r' l' (x1\<lparr>rx_live := Some l'\<rparr>) = (v, x')" by simp
    from less.hyps [OF _ this] live_pass_decreases [OF p [symmetric, unfolded r]] c1 c2 show ?thesis
      by (auto intro: quiet_trans frame_trans)
  next
    case False
    with less.prems(1) eq c1 c2 q1 show ?thesis by (auto split: if_splits option.splits intro: frame_trans)
  qed
qed

lemma calm_reserve: "calm i (reserve_transfer call env i timeout n)"
  unfolding calm_def reserve_transfer_def Let_def
  by (auto split: prod.splits if_splits intro: quiet_peer_do)

lemma calm_send_key: "calm i (send_key call env i version)"
proof -
  have m: "calm i (must KEY_TRANSFER_FAILED (\<lambda>x og. case peer_do call env (PeerRequest (RqKey i
            \<lparr>kq_workload = rx_wid x, kq_version = version, kq_key = Some k\<rparr>)) og of (out, og1) \<Rightarrow> (\<not> failed out, og1)))" for k
    by (rule calm_must) (auto intro: quiet_peer_do split: prod.splits)
  show ?thesis
    unfolding calm_def send_key_def Let_def
    using m [unfolded calm_def] by (auto split: sum.splits)
qed

lemma calm_note: "calm i (note_reservation env i)"
  unfolding note_reservation_def by (rule calm_may) (rule quiet_local [OF local_og_update], simp add: benign_simps)

lemma calm_reserve_live: "calm i (st_reserve_live call env i timeout)"
  unfolding st_reserve_live_def
  by (rule calm_only_if) (use calm_reserve [unfolded calm_def] in \<open>auto simp: calm_def split: option.splits\<close>)

lemma calm_key_live: "calm i (st_key_live call env i)"
  unfolding st_key_live_def
  by (rule calm_only_if) (use calm_send_key [unfolded calm_def] in \<open>auto simp: calm_def split: option.splits\<close>)

lemma calm_progress: "calm i (may (\<lambda>x og. snd (og_progress env i msg p a b og)))"
  by (rule calm_may) (simp add: quiet_local locals)

lemma calm_precopy: "calm i (st_precopy call env i)"
  unfolding st_precopy_def
proof (rule calm_only_if, unfold calm_def, intro allI impI)
  fix x :: "'s run" and v x'
  assume s: "(case (rx_live x, rx_report x) of
       (Some l, Some r) \<Rightarrow>
         (case precopy call env i r l x of
            (Proceed, x1) \<Rightarrow> may (\<lambda>x og. snd (og_progress env i ProgressNote (28/100) 0 0 og)) x1
          | (v, x1) \<Rightarrow> (v, x1))
     | _ \<Rightarrow> (Proceed, x)) = (v, x')"
  show "quiet i (rx_og x) (rx_og x') \<and> run_frame x x'"
  proof (cases "\<exists>l r. rx_live x = Some l \<and> rx_report x = Some r")
    case True
    then obtain l r where lr: "rx_live x = Some l" "rx_report x = Some r" by blast
    obtain w x1 where p: "precopy call env i r l x = (w, x1)" by fastforce
    note c = precopy_calm [OF p lr(1)]
    show ?thesis
    proof (cases w)
      case Proceed
      with s lr p have "may (\<lambda>x og. snd (og_progress env i ProgressNote (28/100) 0 0 og)) x1 = (v, x')" by simp
      from calm_after [OF calm_progress this] c show ?thesis by blast
    qed (use s lr p c in simp_all)
  qed (use s in \<open>auto split: option.splits\<close>)
qed

end

context peer_client
begin

lemma own_freeze_calm: "quiet i (rx_og x) (rx_og (own_freeze env i t x)) \<and> run_frame x (own_freeze env i t x)"
  using bound_downtime_calm [of i x env t]
  by (auto simp: own_freeze_def intro: frame_trans [OF _ frame_fields(6)])

lemma calm_freeze_bound: "calm i (st_freeze_bound env i)"
  unfolding st_freeze_bound_def by (rule calm_with_capture) (use own_freeze_calm in \<open>auto simp: calm_def\<close>)

lemma calm_record_checkpoint: "calm i (st_record_checkpoint env i)"
  unfolding st_record_checkpoint_def
  by (rule calm_with_capture, rule calm_must, rule quiet_local [OF local_og_update]) (simp add: benign_simps)

lemma calm_prepare: "calm i (st_prepare env i)"
proof -
  have "calm i (\<lambda>x. enter env i MigrationPrepare (28/100) (x\<lparr>rx_early := True\<rparr>))"
    unfolding calm_def using calm_after [OF calm_enter [of MigrationPrepare i env "28/100"], of "_\<lparr>rx_early := True\<rparr>"] by fastforce
  then show ?thesis unfolding st_prepare_def by (rule calm_only_if)
qed

lemma calm_reserve_cold: "calm i (st_reserve_cold call env i timeout)"
  unfolding st_reserve_cold_def by (rule calm_only_if, rule calm_with_capture) (rule calm_reserve)

lemma calm_note_cold: "calm i (st_note_cold env i)"
  unfolding st_note_cold_def by (rule calm_only_if) (rule calm_note)

lemma calm_key_cold: "calm i (st_key_cold call env i)"
  unfolding st_key_cold_def by (rule calm_only_if, rule calm_with_capture) (rule calm_send_key)

lemma transfer_rounds_calm:
  "transfer_rounds call env i mf code n x = (v, x') \<Longrightarrow> quiet i (rx_og x) (rx_og x') \<and> run_frame x x'"
proof (induction n arbitrary: code x)
  case (Suc n)
  obtain out og1 where d: "peer_do call env (PeerRequest (RqManifest i mf)) (rx_og x) = (out, og1)" by fastforce
  then have q1: "quiet i (rx_og x) og1" by (rule quiet_peer_do) simp
  show ?case
  proof (cases "code \<noteq> None \<and> oe_stopped env (og_tick (rx_og x))")
    case False
    show ?thesis
    proof (cases "\<exists>refs dd. out = Inr (GotMissing refs dd)")
      case True
      then obtain refs dd where o: "out = Inr (GotMissing refs dd)" by blast
      obtain ok sent og2 where u: "upload_chunks call env i (32/100) (38/100) refs og1 = (ok, sent, og2)" by (metis prod_cases3)
      define x1 where "x1 = record_sent env i (x\<lparr>rx_og := og2, rx_sent := i64 (rx_sent x + sent), rx_deduplicated := dd\<rparr>)"
      have c1: "quiet i (rx_og x) (rx_og x1) \<and> run_frame x x1"
        using record_sent_calm [of i "x\<lparr>rx_og := og2, rx_sent := i64 (rx_sent x + sent), rx_deduplicated := dd\<rparr>" env]
          upload_chunks_quiet [OF u] q1
        by (auto simp: x1_def intro: quiet_trans frame_trans [OF frame_fields(2)])
      have "(if ok then (Proceed, x1) else transfer_rounds call env i mf (Some CHUNK_TRANSFER_FAILED) n x1) = (v, x')"
        using Suc.prems by (simp only: transfer_rounds.simps False d o prod.case sum.case response.case u Let_def x1_def if_False)
      with Suc.IH c1 show ?thesis by (auto split: if_splits intro: quiet_trans frame_trans)
    next
      case ne: False
      with Suc.prems False d have "transfer_rounds call env i mf (Some MANIFEST_TRANSFER_FAILED) n (x\<lparr>rx_og := og1\<rparr>) = (v, x')"
        by (auto split: sum.splits response.splits)
      from Suc.IH [OF this] q1 show ?thesis by (auto intro: quiet_trans frame_trans [OF frame_og])
    qed
  qed (use Suc.prems in auto)
qed simp

lemma calm_transfer: "calm i (st_transfer call env i)"
  unfolding st_transfer_def
proof (rule calm_with_capture, unfold calm_def, intro allI impI)
  fix c and x :: "'s run" and v x'
  assume "transfer_rounds call env i (ca_manifest c) None transfer_round_limit (x\<lparr>rx_clock := rx_now env x\<rparr>) = (v, x')"
  from transfer_rounds_calm [OF this] show "quiet i (rx_og x) (rx_og x') \<and> run_frame x x'"
    using frame_trans [OF frame_fields(3)] by auto
qed

lemma calm_metrics: "calm i (st_metrics env i)"
  unfolding st_metrics_def
  by (rule calm_must, rule quiet_local [OF local_og_update]) (simp add: benign_simps)

lemma calm_restored: "calm i (st_restored env i)"
  unfolding calm_def
proof (intro allI impI)
  fix x :: "'s run" and v x' assume s: "st_restored env i x = (v, x')"
  have m: "calm i (may (\<lambda>x og. snd (og_update env i (\<lambda>now m. Some (m\<lparr>m_metrics := (m_metrics m)
            \<lparr>mm_restore_duration := t - rx_clock x, mm_downtime := t - rx_down x\<rparr>\<rparr>)) og)))" for t
    by (rule calm_may, rule quiet_local [OF local_og_update]) (simp add: benign_simps)
  show "quiet i (rx_og x) (rx_og x') \<and> run_frame x x'"
    by (rule calm_after [OF m [of "rx_now env x"], of "x\<lparr>rx_resumed := rx_now env x\<rparr>"]) (use s in \<open>simp_all add: st_restored_def Let_def\<close>)
qed

lemma calm_get_restored: "calm i (st_get_restored call env i)"
  unfolding st_get_restored_def
proof (rule calm_must)
  fix og :: "'s orchestrator"
  obtain out og1 where d: "peer_do call env (PeerRequest (RqGet i)) og = (out, og1)" by fastforce
  then have "quiet i og og1" by (rule quiet_peer_do) simp
  with d show "quiet i og (snd (case peer_do call env (PeerRequest (RqGet i)) og of
       (Inr (GotSession s), og1) \<Rightarrow> (ss_state s = SessionRestored, og1) | (_, og1) \<Rightarrow> (False, og1)))"
    by (auto split: sum.splits response.splits)
qed

lemma calm_cleanup: "calm i (st_cleanup env i)"
  unfolding st_cleanup_def by (rule calm_may) (simp add: quiet_local locals)

lemma calm_status: "calm i (st_status env i)"
  unfolding st_status_def by (rule calm_may) (simp add: quiet_local locals)

end

section \<open>The capture\<close>

lemma pause_stops:
  assumes "signal_and_update True st env k rt = (Inr w', rt')" and "rt_get rt k = Some w" and "wl_process w = Some p"
  shows "\<not> group_live (ps_pgid p) (rt_kernel rt')"
  using assms rt_put_kernel by (fastforce simp: signal_and_update_def split: if_splits)

lemma mark_kernel: "rt_mark_checkpoint env k c b rt = (res, rt') \<Longrightarrow> rt_kernel rt' = rt_kernel rt"
  by (auto simp: rt_mark_checkpoint_def Let_def dest!: rt_put_kernel split: option.splits if_splits)

text \<open>
  The workload a run takes down: its record is under its id, and unless the record says running its process
  group is stopped.
\<close>

definition capturable :: "int \<Rightarrow> workload \<Rightarrow> runtime \<Rightarrow> bool" where
  "capturable g w rt \<longleftrightarrow> rt_get rt (wsp_id (wl_spec w)) = Some w
     \<and> (\<exists>p. wl_process w = Some p \<and> ps_pgid p = g) \<and> (wl_status w \<noteq> WorkloadRunning \<longrightarrow> \<not> group_live g (rt_kernel rt))"

lemma when_pause_stops:
  assumes "capturable g w rt" and "when_op (wl_status w = WorkloadRunning) (rt_pause env (wsp_id (wl_spec w))) rt = (True, rt')"
  shows "\<not> group_live g (rt_kernel rt')"
  using assms pause_stops [of WorkloadPaused env "wsp_id (wl_spec w)" rt]
  by (fastforce simp: capturable_def when_op_def rt_pause_def failed_def split: if_splits prod.splits sum.splits)

text \<open>A capture that succeeds without leaving the workload running leaves its group stopped.\<close>

lemma create_stops:
  assumes "capturable g w rt" and "service_create env migration_capture_options (wsp_id (wl_spec w)) rt = (Created c, rt')"
  shows "\<not> group_live g (rt_kernel rt')"
proof -
  have get: "rt_get rt (wsp_id (wl_spec w)) = Some w" using assms(1) by (simp add: capturable_def)
  from assms(2) get have "create_finish env migration_capture_options w rt = (Created c, rt')"
    by (auto simp: service_create_def Let_def migration_capture_options_def split: if_splits)
  then obtain rt1 where p: "when_op (wl_status w = WorkloadRunning) (rt_pause (ce_pause env) (wsp_id (wl_spec w))) rt = (True, rt1)"
    and k: "rt_kernel rt' = rt_kernel rt1"
    by (auto simp: create_finish_def Let_def migration_capture_options_def when_op_def [of False] dest!: mark_kernel
          split: prod.splits bool.splits if_splits sum.splits)
  from when_pause_stops [OF assms(1) p] k show ?thesis by simp
qed

lemma finalize_stops:
  assumes "capturable g w rt" and "ls_workload l = w" and "ls_running l = (wl_status w = WorkloadRunning)"
    and "live_finalize env False l rt = (Some c, l', rt')"
  shows "\<not> group_live g (rt_kernel rt')"
proof -
  obtain ok rt1 where p: "when_op (wl_status w = WorkloadRunning) (rt_pause (ce_pause env) (wsp_id (wl_spec w))) rt = (ok, rt1)" by fastforce
  from assms p have "ok" and k: "rt_kernel rt' = rt_kernel rt1"
    by (auto simp: live_finalize_def finalize_frozen_def Let_def when_op_def [of False] dest!: mark_kernel
          split: prod.splits bool.splits if_splits sum.splits)
  with when_pause_stops [OF assms(1)] p k show ?thesis by simp
qed

lemma finalize_closes: "live_finalize env b l rt = (c, l', rt') \<Longrightarrow> ls_closed l' \<or> l' = l"
  by (auto simp: live_finalize_def finalize_frozen_def Let_def split: prod.splits bool.splits if_splits sum.splits)

section \<open>The whole run\<close>

lemma records_unchanged [simp]:
  "record_step i a (og\<lparr>og_runtime := r\<rparr>) = record_step i a og" "record_step i a (tick og) = record_step i a og"
  "record_step i a (og\<lparr>og_chunks := ch\<rparr>) = record_step i a og"
  "completed i (og\<lparr>og_runtime := r\<rparr>) = completed i og" "completed i (tick og) = completed i og" "completed i (og\<lparr>og_chunks := ch\<rparr>) = completed i og"
  by (simp_all add: record_step_def completed_def split: option.splits)

definition idle_session :: "'s run \<Rightarrow> bool" where
  "idle_session x \<longleftrightarrow> (\<forall>l. rx_live x = Some l \<longrightarrow> ls_closed l \<or> \<not> ls_frozen l)"

lemma frame_idle: "run_frame x x' \<Longrightarrow> idle_session x \<Longrightarrow> idle_session x'"
  by (fastforce simp: run_frame_def idle_session_def same_session_def)

lemma abort_idle: "idle_session x \<Longrightarrow> abort_live env x og = og"
  by (auto simp: abort_live_def idle_session_def live_abort_def live_thaw_def undo_freeze_def split: option.splits)

definition session_of :: "workload \<Rightarrow> live_session \<Rightarrow> bool" where
  "session_of w l \<longleftrightarrow> ls_workload l = w \<and> ls_running l = (wl_status w = WorkloadRunning) \<and> \<not> ls_frozen l"

text \<open>The workload the record names, if there is one, can be captured by stopping group \<open>g\<close>.\<close>

definition migratable :: "string \<Rightarrow> int \<Rightarrow> 's orchestrator \<Rightarrow> bool" where
  "migratable i g og \<longleftrightarrow> (\<forall>m w. st_get (og_records og) i = Some m \<longrightarrow> rt_get (og_runtime og) (m_workload_id m) = Some w
     \<longrightarrow> capturable g w (og_runtime og))"

context peer_client
begin

definition stoppable :: "string \<Rightarrow> int \<Rightarrow> 's orchestrator \<Rightarrow> 's run \<Rightarrow> bool" where
  "stoppable i g og0 x \<longleftrightarrow> may_settle i g (rx_reserved x) (rx_committed x) (rx_og x) \<and> record_step i og0 (rx_og x) \<and> idle_session x"

definition before_capture :: "string \<Rightarrow> workload option \<Rightarrow> 's orchestrator \<Rightarrow> 's run \<Rightarrow> bool" where
  "before_capture i wo og0 x \<longleftrightarrow> peer_ok (og_peer (rx_og x)) \<and> \<not> held i (og_peer (rx_og x)) \<and> \<not> completed i (rx_og x) \<and> \<not> rx_committed x
     \<and> og_runtime (rx_og x) = og_runtime og0 \<and> record_step i og0 (rx_og x) \<and> rx_workload x = wo
     \<and> (\<forall>l. rx_live x = Some l \<longrightarrow> (\<exists>w. wo = Some w \<and> session_of w l))"

definition captured_run :: "string \<Rightarrow> int \<Rightarrow> 's orchestrator \<Rightarrow> 's run \<Rightarrow> bool" where
  "captured_run i g og0 x \<longleftrightarrow> peer_ok (og_peer (rx_og x)) \<and> \<not> source_live g (rx_og x) \<and> \<not> completed i (rx_og x) \<and> \<not> rx_committed x
     \<and> record_step i og0 (rx_og x) \<and> rx_capture x \<noteq> None \<and> idle_session x"

lemma before_stoppable: "before_capture i wo og0 x \<Longrightarrow> stoppable i g og0 x"
  by (auto simp: before_capture_def stoppable_def may_settle_def guarded_def session_of_def idle_session_def)

lemma calm_before:
  assumes "calm i f" and "before_capture i wo og0 x" and "f x = (v, x')"
  shows "before_capture i wo og0 x'"
proof -
  have "quiet i (rx_og x) (rx_og x')" and f: "run_frame x x'" using assms(1,3) by (auto simp: calm_def)
  moreover from f assms(2) have "\<exists>w. wo = Some w \<and> session_of w l" if "rx_live x' = Some l" for l
    using that by (fastforce simp: run_frame_def before_capture_def session_of_def same_session_def)
  ultimately show ?thesis
    using assms(2) by (auto simp: before_capture_def quiet_def run_frame_def intro: record_trans)
qed

lemma calm_captured:
  assumes "calm i f" and "captured_run i g og0 x" and "f x = (v, x')"
  shows "captured_run i g og0 x'" and "rx_reserved x \<Longrightarrow> rx_reserved x'"
    and "\<not> held i (og_peer (rx_og x)) \<Longrightarrow> \<not> held i (og_peer (rx_og x'))"
proof -
  have q: "quiet i (rx_og x) (rx_og x')" and f: "run_frame x x'" using assms(1,3) by (auto simp: calm_def)
  show "captured_run i g og0 x'"
    using q f assms(2) frame_idle [OF f] by (auto simp: captured_run_def quiet_def run_frame_def source_live_def intro: record_trans)
  show "rx_reserved x \<Longrightarrow> rx_reserved x'" using f by (simp add: run_frame_def)
  show "\<not> held i (og_peer (rx_og x)) \<Longrightarrow> \<not> held i (og_peer (rx_og x'))" using q assms(2) by (auto simp: quiet_def captured_run_def)
qed

lemma st_workload_before:
  assumes "before_capture i None og0 x" and "st_workload env i x = (v, x')"
  shows "stoppable i g og0 x'"
    and "v = Proceed \<Longrightarrow> migratable i g og0 \<Longrightarrow> \<exists>w. capturable g w (og_runtime og0) \<and> before_capture i (Some w) og0 x'"
proof -
  show "stoppable i g og0 x'"
    using assms by (auto simp: before_capture_def stoppable_def may_settle_def guarded_def st_workload_def idle_session_def split: option.splits)
  show "\<exists>w. capturable g w (og_runtime og0) \<and> before_capture i (Some w) og0 x'" if v: "v = Proceed" and "migratable i g og0"
  proof -
    from assms v obtain m w where m: "st_get (og_records (rx_og x)) i = Some m" "rt_get (og_runtime (rx_og x)) (m_workload_id m) = Some w"
      and x': "x' = x\<lparr>rx_migration := Some m, rx_workload := Some w\<rparr>"
      by (auto simp: st_workload_def split: option.splits)
    have "record_step i og0 (rx_og x)" using assms(1) by (simp add: before_capture_def)
    with m(1) obtain m0 where "st_get (og_records og0) i = Some m0" "m_workload_id m0 = m_workload_id m"
      by (auto simp: record_step_def evolves_def split: option.splits)
    with m(2) \<open>migratable i g og0\<close> assms(1) have "capturable g w (og_runtime og0)" by (auto simp: migratable_def before_capture_def)
    with assms(1) x' show ?thesis by (auto simp: before_capture_def)
  qed
qed

lemma st_begin_live_before:
  assumes "before_capture i (Some w) og0 x" and "capturable g w (og_runtime og0)" and "st_begin_live env x = (v, x')"
  shows "before_capture i (Some w) og0 x'"
proof -
  have rt: "og_runtime (rx_og x) = og_runtime og0" and wl: "rx_workload x = Some w" using assms(1) by (simp_all add: before_capture_def)
  have get: "rt_get (og_runtime og0) (wsp_id (wl_spec w)) = Some w" using assms(2) by (simp add: capturable_def)
  have live: "begin_live c n (wsp_id (wl_spec w)) k (og_runtime og0) = Some l \<Longrightarrow> session_of w l" for c n k l
    using get by (auto simp: begin_live_def session_of_def split: if_splits)
  have "x' = x \<or> (\<exists>keys. let og = (tick (rx_og x))\<lparr>og_chunks := (og_chunks (rx_og x))\<lparr>cs_keys := keys\<rparr>\<rparr> in
      x' = x\<lparr>rx_og := og\<rparr> \<or> (\<exists>n k. x' = x\<lparr>rx_og := og, rx_live := begin_live (oe_capture env) n (wsp_id (wl_spec w)) k (og_runtime og0)\<rparr>))"
    using assms(3) rt wl unfolding st_begin_live_def only_if_def Let_def rx_wid_def
    by (auto split: if_splits prod.splits sum.splits)
  then show ?thesis
    using assms(1) live by (auto simp: before_capture_def Let_def record_same completed_def intro: record_trans)
qed

end

context peer_client
begin

lemma st_capture_meets:
  assumes "before_capture i (Some w) og0 x" and "capturable g w (og_runtime og0)" and "st_capture env i x = (v, x')"
  shows "stoppable i g og0 x'" and "v = Proceed \<Longrightarrow> captured_run i g og0 x' \<and> \<not> held i (og_peer (rx_og x'))"
proof -
  note b = assms(1)[unfolded before_capture_def]
  have wid: "rx_wid x = wsp_id (wl_spec w)" using b by (simp add: rx_wid_def)
  have "stoppable i g og0 x' \<and> (v = Proceed \<longrightarrow> captured_run i g og0 x' \<and> \<not> held i (og_peer (rx_og x')))"
  proof (cases "rx_live x")
    case None
    obtain res rt where s: "service_create (oe_capture env) migration_capture_options (wsp_id (wl_spec w)) (og_runtime og0) = (res, rt)" by fastforce
    define y where "y = x\<lparr>rx_og := (tick (rx_og x))\<lparr>og_runtime := rt\<rparr>, rx_frozen := rx_was_running x\<rparr>"
    have eq: "(v, x') = (case res of Created c \<Rightarrow> (Proceed, y\<lparr>rx_capture := Some c\<rparr>) | _ \<Rightarrow> (FailWith CHECKPOINT_FAILED, y))"
      unfolding y_def using assms(3) None s b wid by (simp add: st_capture_def st_capture_cold_def Let_def)
    have rec: "record_step i og0 (rx_og y)" "\<not> completed i (rx_og y)" "og_peer (rx_og y) = og_peer (rx_og x)" "rx_live y = None" "\<not> rx_committed y"
      "og_runtime (rx_og y) = rt"
      using b None by (auto simp: y_def)
    with eq b create_stops [OF assms(2)] s show ?thesis
      by (auto simp: stoppable_def may_settle_def guarded_def captured_run_def idle_session_def source_live_def split: create_result.splits)
  next
    case (Some l)
    then have l: "session_of w l" using b by auto
    obtain res l1 rt where s: "live_finalize (oe_capture env) False l (og_runtime og0) = (res, l1, rt)" by (metis prod_cases3)
    define y where "y = x\<lparr>rx_og := (tick (rx_og x))\<lparr>og_runtime := rt\<rparr>, rx_live := Some l1\<rparr>"
    have eq: "(v, x') = (case res of None \<Rightarrow> (FailWith CHECKPOINT_FAILED, own_freeze env i (ls_freeze l1) y) | Some c \<Rightarrow> (Proceed, y\<lparr>rx_capture := Some c\<rparr>))"
      unfolding y_def using assms(3) Some s b by (simp add: st_capture_def st_capture_live_def Let_def)
    have idle: "idle_session y" using finalize_closes [OF s] l by (auto simp: idle_session_def y_def session_of_def)
    have rec: "record_step i og0 (rx_og y)" "\<not> completed i (rx_og y)" "og_peer (rx_og y) = og_peer (rx_og x)" "\<not> rx_committed y"
      "og_runtime (rx_og y) = rt"
      using b by (auto simp: y_def)
    have st: "stoppable i g og0 y" using rec b idle by (auto simp: stoppable_def may_settle_def guarded_def)
    note o = own_freeze_calm [of i y env "ls_freeze l1"]
    have "stoppable i g og0 (own_freeze env i (ls_freeze l1) y)"
      using st o frame_idle [of y "own_freeze env i (ls_freeze l1) y"] quiet_guarded [of i "rx_og y" "rx_og (own_freeze env i (ls_freeze l1) y)"] rec b
      by (auto simp: stoppable_def may_settle_def run_frame_def quiet_def intro: record_trans)
    moreover have "\<not> group_live g (rt_kernel rt)" if "res = Some c" for c
      using finalize_stops [OF assms(2) _ _ s [unfolded that]] l by (simp add: session_of_def)
    ultimately show ?thesis
      using eq rec b idle st
      by (auto simp: stoppable_def may_settle_def guarded_def captured_run_def source_live_def idle_session_def split: option.splits)
  qed
  then show "stoppable i g og0 x'" and "v = Proceed \<Longrightarrow> captured_run i g og0 x' \<and> \<not> held i (og_peer (rx_og x'))" by simp_all
qed

definition unrestored :: "string \<Rightarrow> int \<Rightarrow> 's orchestrator \<Rightarrow> 's run \<Rightarrow> bool" where
  "unrestored i g og0 x \<longleftrightarrow> captured_run i g og0 x \<and> \<not> held i (og_peer (rx_og x))"

definition reserved_run :: "string \<Rightarrow> int \<Rightarrow> 's orchestrator \<Rightarrow> 's run \<Rightarrow> bool" where
  "reserved_run i g og0 x \<longleftrightarrow> captured_run i g og0 x \<and> rx_reserved x"

definition committed_run :: "string \<Rightarrow> int \<Rightarrow> 's orchestrator \<Rightarrow> 's run \<Rightarrow> bool" where
  "committed_run i g og0 x \<longleftrightarrow> peer_ok (og_peer (rx_og x)) \<and> \<not> source_live g (rx_og x) \<and> committed_at i (og_peer (rx_og x))
     \<and> rx_reserved x \<and> record_step i og0 (rx_og x) \<and> idle_session x"

lemma unrestored_stoppable: "unrestored i g og0 x \<Longrightarrow> stoppable i g og0 x"
  by (auto simp: unrestored_def captured_run_def stoppable_def may_settle_def guarded_def)

lemma reserved_stoppable: "reserved_run i g og0 x \<Longrightarrow> stoppable i g og0 x"
  by (auto simp: reserved_run_def captured_run_def stoppable_def may_settle_def guarded_def)

lemma committed_stoppable: "committed_run i g og0 x \<Longrightarrow> stoppable i g og0 x"
  by (auto simp: committed_run_def stoppable_def may_settle_def guarded_def)

lemma reserve_cold_reserves:
  assumes "captured_run i g og0 x" and "rx_early x \<or> rx_reserved x" and "st_reserve_cold call env i timeout x = (Proceed, x')"
  shows "rx_reserved x'"
  using assms by (auto simp: st_reserve_cold_def only_if_def with_capture_def reserve_transfer_def captured_run_def Let_def
      split: if_splits prod.splits option.splits)

lemma st_prepare_early:
  assumes "st_prepare env i x = (Proceed, x')"
  shows "rx_early x' \<or> rx_reserved x'"
  using assms by (auto simp: st_prepare_def only_if_def enter_def must_def split: if_splits prod.splits)

lemma st_restore_meets:
  assumes "reserved_run i g og0 x" and "st_restore call env i x = (v, x')"
  shows "reserved_run i g og0 x'"
proof -
  obtain out og1 where d: "peer_do call env (PeerRequest (RqRestore i)) (rx_og x) = (out, og1)" by fastforce
  have 1: "peer_ok (og_peer og1)" using d assms(1) call_ok by (auto simp: peer_do_def reserved_run_def captured_run_def split: prod.splits)
  have 2: "og_runtime og1 = og_runtime (rx_og x)" "og_records og1 = og_records (rx_og x)"
    using d by (auto simp: peer_do_def split: prod.splits)
  have x': "x' = x\<lparr>rx_clock := rx_now env x, rx_og := og1\<rparr>"
    using assms(2) d by (auto simp: st_restore_def ask_def must_def split: if_splits)
  show ?thesis
    using assms(1) 1 2 x' record_trans [OF _ record_same [OF 2(2)]]
    by (auto simp: reserved_run_def captured_run_def source_live_def completed_def idle_session_def)
qed

lemma st_commit_meets:
  assumes "reserved_run i g og0 x" and "st_commit call env i x = (v, x')"
  shows "stoppable i g og0 x'" and "v = Proceed \<Longrightarrow> committed_run i g og0 x'"
proof -
  obtain w y where a: "ask call env (RqCommit i) DESTINATION_COMMIT_FAILED x = (w, y)" by fastforce
  have c: "captured_run i g og0 x" "rx_reserved x" using assms(1) by (simp_all add: reserved_run_def)
  note y = calm_captured(1,2) [OF calm_ask [of "RqCommit i"] c(1) a] c(2)
  have "peer_ok (og_peer (rx_og x))" using c(1) by (simp add: captured_run_def)
  then have final: "w = Proceed \<Longrightarrow> committed_at i (og_peer (rx_og y))"
    using a commit_final by (fastforce simp: ask_def must_def peer_do_def split: prod.splits if_splits)
  have v: "if w = Proceed then v = Proceed \<and> x' = y\<lparr>rx_committed := True\<rparr> else v = w \<and> x' = y"
    using assms(2) a by (auto simp: st_commit_def split: verdict.splits)
  show "v = Proceed \<Longrightarrow> committed_run i g og0 x'"
    using v y final by (auto simp: committed_run_def captured_run_def idle_session_def split: if_splits)
  then show "stoppable i g og0 x'"
    using v y reserved_stoppable [of i g og0 y] committed_stoppable by (auto simp: reserved_run_def split: if_splits)
qed

lemma calm_committed:
  assumes "calm i f" and "committed_run i g og0 x" and "f x = (v, x')"
  shows "committed_run i g og0 x'"
proof -
  have q: "quiet i (rx_og x) (rx_og x')" and f: "run_frame x x'" using assms(1,3) by (auto simp: calm_def)
  then show ?thesis
    using assms(2) frame_idle [OF f] by (auto simp: committed_run_def quiet_def run_frame_def source_live_def intro: record_trans)
qed

lemma st_stop_meets: "committed_run i g og0 x \<Longrightarrow> st_stop env x = (v, x') \<Longrightarrow> committed_run i g og0 x'"
  using stop_source_quiet [of env "rx_wid x" source_stop_attempts "rx_og x" _ _ g] record_trans [OF _ record_same]
  by (fastforce simp: st_stop_def committed_run_def idle_session_def split: prod.splits)

lemma or_force_meets:
  assumes "\<And>x og. og_peer (snd (f x og)) = og_peer og \<and> og_runtime (snd (f x og)) = og_runtime og \<and> record_step i og (snd (f x og))"
    and "committed_run i g og0 x" and "or_force env i f x = (v, x')"
  shows "committed_run i g og0 x'"
proof -
  obtain ok og where f: "f x (rx_og x) = (ok, og)" by fastforce
  with assms(1) [of x "rx_og x"] have o: "og_peer og = og_peer (rx_og x)" "og_runtime og = og_runtime (rx_og x)" "record_step i (rx_og x) og" by auto
  have "\<exists>og'. x' = x\<lparr>rx_og := og'\<rparr> \<and> og_peer og' = og_peer og \<and> og_runtime og' = og_runtime og \<and> record_step i og og'"
    using assms(3) f by (cases ok) (auto simp: or_force_def force_complete_step)
  with o assms(2) show ?thesis by (auto simp: committed_run_def source_live_def idle_session_def intro: record_trans)
qed

end

context peer_client
begin

lemma steps_before_meet:
  assumes "migratable i g og0"
  shows "steps_meet (stoppable i g og0) (before_capture i None og0) (steps_before call env i timeout)
    (\<lambda>x. \<exists>w. capturable g w (og_runtime og0) \<and> before_capture i (Some w) og0 x)"
proof -
  let ?Q = "\<lambda>x. \<exists>w. capturable g w (og_runtime og0) \<and> before_capture i (Some w) og0 x"
  have keep: "?Q x'" if "calm i f" "?Q x" "f x = (v, x')" for f x v x'
    using that calm_before by blast
  have later: "?Q x'" if "st_begin_live env x = (v, x')" "?Q x" for x v x'
    using that st_begin_live_before by blast
  have one: "steps_meet (stoppable i g og0) (before_capture i None og0) [enter env i MigrationDiscover (3/100)] (before_capture i None og0)"
    by (rule meet_invariant) (auto intro: before_stoppable calm_before [OF calm_enter])
  have two: "steps_meet (stoppable i g og0) (before_capture i None og0) [st_workload env i] ?Q"
    by (rule meet_one) (use st_workload_before assms before_stoppable in blast)+
  have rest: "steps_meet (stoppable i g og0) ?Q (drop 2 (steps_before call env i timeout)) ?Q"
  proof (rule meet_invariant)
    fix f x v x' assume f: "f \<in> set (drop 2 (steps_before call env i timeout))" and "?Q x" "f x = (v, x')"
    then show "?Q x'"
      using keep [of f x v x'] later [of x v x']
      by (auto simp: steps_before_def calm_enter calm_own calm_client calm_machine calm_bind calm_inspect calm_plan calm_drain
          calm_open_downtime calm_first_pass calm_reserve_live calm_key_live calm_only_if calm_note calm_precopy calm_close_downtime)
  qed (blast intro: before_stoppable)
  have split: "steps_before call env i timeout = enter env i MigrationDiscover (3/100) # st_workload env i # drop 2 (steps_before call env i timeout)"
    by (simp add: steps_before_def)
  show ?thesis by (subst split) (rule meet_cons [OF one meet_cons [OF two rest]])
qed

lemma steps_after_meet:
  "steps_meet (stoppable i g og0) (unrestored i g og0) (steps_after call env i timeout) (committed_run i g og0)"
proof -
  have u: "unrestored i g og0 x'" if "calm i f" "unrestored i g og0 x" "f x = (v, x')" for f x v x'
    using that(2) calm_captured(1,3) [OF that(1) _ that(3), of g og0] by (simp add: unrestored_def)
  have r: "reserved_run i g og0 x'" if "calm i f" "reserved_run i g og0 x" "f x = (v, x')" for f x v x'
    using that(2) calm_captured(1,2) [OF that(1) _ that(3), of g og0] by (simp add: reserved_run_def)
  let ?ur = "\<lambda>x. unrestored i g og0 x \<and> rx_reserved x"
  have ur: "?ur x'" if "calm i f" "?ur x" "f x = (v, x')" for f x v x'
    using that(2) calm_captured [OF that(1) _ that(3), of g og0] by (simp add: unrestored_def)
  let ?A = "[st_freeze_bound env i, st_record_checkpoint env i]"
  let ?B = "[st_note_cold env i, st_key_cold call env i, enter env i MigrationTransfer (32/100), st_transfer call env i, st_metrics env i,
      enter env i MigrationVerify (72/100), ask call env (RqVerify i) DESTINATION_VERIFY_FAILED, enter env i MigrationRestore (80/100)]"
  let ?C = "[st_restored env i, enter env i MigrationPostValidate (90/100),
      st_get_restored call env i, enter env i MigrationSwitch (94/100), enter env i MigrationCommit (97/100)]"
  have split: "steps_after call env i timeout = ?A @ st_prepare env i # st_reserve_cold call env i timeout # ?B @ st_restore call env i # ?C @ [st_commit call env i]"
    by (simp add: steps_after_def)
  have a: "steps_meet (stoppable i g og0) (unrestored i g og0) ?A (unrestored i g og0)"
    by (rule meet_invariant) (auto intro: unrestored_stoppable u [OF calm_freeze_bound] u [OF calm_record_checkpoint])
  have p: "steps_meet (stoppable i g og0) (unrestored i g og0) [st_prepare env i] (\<lambda>x. unrestored i g og0 x \<and> (rx_early x \<or> rx_reserved x))"
  proof (rule meet_one)
    fix x x' assume "unrestored i g og0 x" "st_prepare env i x = (Proceed, x')"
    with u [OF calm_prepare this] st_prepare_early show "unrestored i g og0 x' \<and> (rx_early x' \<or> rx_reserved x')" by simp
  qed (blast intro: unrestored_stoppable u [OF calm_prepare])+
  have c: "steps_meet (stoppable i g og0) (\<lambda>x. unrestored i g og0 x \<and> (rx_early x \<or> rx_reserved x)) [st_reserve_cold call env i timeout] ?ur"
  proof (rule meet_one)
    fix x x' assume x: "unrestored i g og0 x \<and> (rx_early x \<or> rx_reserved x)" "st_reserve_cold call env i timeout x = (Proceed, x')"
    then show "?ur x'"
      using reserve_cold_reserves [OF _ _ x(2), of g og0] u [OF calm_reserve_cold _ x(2)] by (simp add: unrestored_def)
  qed (blast intro: unrestored_stoppable u [OF calm_reserve_cold])+
  have b: "steps_meet (stoppable i g og0) ?ur ?B ?ur"
  proof (rule meet_invariant)
    fix f x v x' assume "f \<in> set ?B" "?ur x" "f x = (v, x')"
    then show "?ur x'" using ur [of f x v x']
      by (auto simp: calm_note_cold calm_key_cold calm_enter calm_transfer calm_metrics calm_ask)
  qed (auto intro: unrestored_stoppable)
  have s: "steps_meet (stoppable i g og0) ?ur [st_restore call env i] (reserved_run i g og0)"
  proof (rule meet_one)
    fix x v x' assume x: "?ur x" "st_restore call env i x = (v, x')"
    then show "stoppable i g og0 x'"
      using st_restore_meets [OF _ x(2), of g og0] reserved_stoppable by (simp add: unrestored_def reserved_run_def)
  next
    fix x x' assume x: "?ur x" "st_restore call env i x = (Proceed, x')"
    then show "reserved_run i g og0 x'"
      using st_restore_meets [OF _ x(2), of g og0] by (simp add: unrestored_def reserved_run_def)
  qed (blast intro: unrestored_stoppable)
  have d: "steps_meet (stoppable i g og0) (reserved_run i g og0) ?C (reserved_run i g og0)"
  proof (rule meet_invariant)
    fix f x v x' assume "f \<in> set ?C" "reserved_run i g og0 x" "f x = (v, x')"
    then show "reserved_run i g og0 x'" using r [of f x v x']
      by (auto simp: calm_restored calm_enter calm_get_restored)
  qed (rule reserved_stoppable)
  have e: "steps_meet (stoppable i g og0) (reserved_run i g og0) [st_commit call env i] (committed_run i g og0)"
    by (rule meet_one) (blast intro: reserved_stoppable st_commit_meets)+
  show ?thesis
    unfolding split by (rule meet_append [OF a meet_cons [OF p meet_cons [OF c meet_append [OF b meet_cons [OF s meet_append [OF d e]]]]]])
qed

lemma steps_committed_meet:
  "steps_meet (stoppable i g og0) (committed_run i g og0) (steps_committed env i) (committed_run i g og0)"
proof (rule meet_invariant)
  fix f :: "'s run_step" and x v x' assume f: "f \<in> set (steps_committed env i)" and x: "committed_run i g og0 x" "f x = (v, x')"
  have upd: "og_peer (snd (og_update env i h og)) = og_peer og \<and> og_runtime (snd (og_update env i h og)) = og_runtime og" for h and og :: "'s orchestrator"
    by (auto simp: og_update_def Let_def split: option.splits)
  have o: "committed_run i g og0 x'" if "f = st_record_outcome env i"
    using x unfolding that st_record_outcome_def
    by (rule or_force_meets [rotated]) (auto simp: upd benign_simps intro!: record_og_update)
  have c: "committed_run i g og0 x'" if "f = st_complete env i"
    using x unfolding that st_complete_def og_transition_def
    by (rule or_force_meets [rotated]) (auto simp: upd intro!: record_og_update transition_evolves)
  from f x o c show "committed_run i g og0 x'"
    using calm_committed [OF calm_cleanup] calm_committed [OF calm_status] st_stop_meets by (auto simp: steps_committed_def)
qed (rule committed_stoppable)

lemma run_steps_meet:
  assumes "migratable i g og0"
  shows "steps_meet (stoppable i g og0) (before_capture i None og0) (run_steps call env i timeout) (committed_run i g og0)"
proof -
  have cap: "steps_meet (stoppable i g og0) (\<lambda>x. \<exists>w. capturable g w (og_runtime og0) \<and> before_capture i (Some w) og0 x)
      [st_capture env i] (unrestored i g og0)"
    by (rule meet_one) (auto intro: before_stoppable dest: st_capture_meets simp: unrestored_def)
  show ?thesis
    unfolding run_steps_def
    by (rule meet_append [OF steps_before_meet [OF assms] meet_cons [OF cap meet_append [OF steps_after_meet steps_committed_meet]]])
qed

definition ready :: "string \<Rightarrow> int \<Rightarrow> 's orchestrator \<Rightarrow> bool" where
  "ready i g og \<longleftrightarrow> peer_ok (og_peer og) \<and> \<not> held i (og_peer og) \<and> \<not> completed i og \<and> migratable i g og"

lemma new_run_before: "ready i g og \<Longrightarrow> before_capture i None og (new_run og)"
  by (simp add: ready_def before_capture_def new_run_def)

lemma run_guarded:
  assumes "ready i g og"
  shows "guarded i g (run call env i timeout og) \<and> record_step i og (run call env i timeout og)"
    and "guarded i g (run_crash call env i timeout n og) \<and> record_step i og (run_crash call env i timeout n og)"
proof -
  let ?fs = "run_steps call env i (run_budget timeout)"
  have all: "stoppable i g og (snd (exec_steps (take k ?fs) (new_run og)))" for k
    using run_steps_meet [of i g og env "run_budget timeout"] new_run_before [OF assms] assms
    unfolding steps_meet_def ready_def by blast
  then show "guarded i g (run_crash call env i timeout n og) \<and> record_step i og (run_crash call env i timeout n og)"
    by (simp add: run_crash_def stoppable_def may_settle_def)
  obtain v x where e: "exec_steps ?fs (new_run og) = (v, x)" by fastforce
  with all [of "length ?fs"] have x: "stoppable i g og x" by simp
  then have fail: "guarded i g (run_fail call env i code x) \<and> record_step i og (run_fail call env i code x)" for code
    using handle_failure_guarded handle_cancellation_guarded by (auto simp: run_fail_def stoppable_def intro: record_trans)
  from x have "guarded i g (rx_og x) \<and> record_step i og (rx_og x)" "abort_live env x og' = og'" for og'
    by (simp_all add: stoppable_def may_settle_def abort_idle)
  with e fail show "guarded i g (run call env i timeout og) \<and> record_step i og (run call env i timeout og)"
    by (auto simp: run_def split: verdict.splits)
qed

lemma agent_lives_guarded:
  assumes "ready i g og"
  shows "guarded i g (agent_lives call env i timeout crash restarts og) \<and> record_step i og (agent_lives call env i timeout crash restarts og)"
proof -
  have "guarded i g (fold (\<lambda>e. recover_migration call e i) restarts og1) \<and> record_step i og (fold (\<lambda>e. recover_migration call e i) restarts og1)"
    if "guarded i g og1 \<and> record_step i og og1" for og1
    using that
  proof (induction restarts arbitrary: og1)
    case (Cons e es)
    then have "guarded i g (recover_migration call e i og1) \<and> record_step i og (recover_migration call e i og1)"
      using recover_guarded [of i g og1 e] record_trans by blast
    from Cons.IH [OF this] show ?case by simp
  qed simp
  with run_guarded [OF assms] show ?thesis by (auto simp: agent_lives_def split: option.splits)
qed

end

section \<open>A small migration\<close>

definition sample_chunks :: chunk_store where
  "sample_chunks = sample_store\<lparr>cs_keys := \<lparr>kd_ring = Some (km_ring sample_km), kd_files = [(''w1'', [wrap_with sample_master 1 ''w1'' 1 sample_data_key])]\<rparr>\<rparr>"

definition sample_peer :: server where
  "sample_peer = \<lparr>sv_sessions = [], sv_chunks = sample_store, sv_manifests = [], sv_restorer = rs_idle rt_empty,
     sv_organization = ''org'', sv_has_meter = True, sv_has_watcher = False, sv_meter = [], sv_held = [], sv_withdrawn = []\<rparr>"

definition sample_manifest :: checkpoint_manifest where
  "sample_manifest = \<lparr>mf_id = ''c1'', mf_source = ''m1'', mf_workload = ''w1'', mf_key_version = 1, mf_assets = [], mf_sha = ''s''\<rparr>"

definition sample_captured :: captured where
  "sample_captured = \<lparr>ca_manifest = sample_manifest, ca_freeze = 5, ca_plain = 40, ca_stored = 50, ca_duration = 2\<rparr>"

definition sample_ck_env :: ck_env where
  "sample_ck_env = \<lparr>ce_busy = False, ce_ready = True, ce_parent = True, ce_dump = True, ce_images = True, ce_snapshot = False,
     ce_stored = True, ce_index = True, ce_mirror = True, ce_pause = env_good, ce_resume = env_good, ce_undo = env_good, ce_mark = env_good,
     ce_captured = sample_captured\<rparr>"

definition sample_net :: "nat \<Rightarrow> net_env" where
  "sample_net n = \<lparr>ne_attempts = [\<lparr>na_fate = Answered, na_reap = False, na_server = sample_q\<lparr>q_prepare := rs_good\<lparr>pe_id := replicate (n + 1) CHR ''r''\<rparr>\<rparr>\<rparr>], ne_codec = sample_codec, ne_partial = []\<rparr>"

definition dead_net :: net_env where
  "dead_net = \<lparr>ne_attempts = [], ne_codec = sample_codec, ne_partial = []\<rparr>"

definition sample_og :: "server orchestrator" where
  "sample_og = \<lparr>og_records = [(''t1'', sample_migration\<lparr>m_id := ''t1''\<rparr>)], og_freezes = [], og_runtime = rt_running, og_chunks = sample_chunks,
     og_peer = sample_peer, og_machine = ''m1'', og_drained = {}, og_status = [], og_tick = 0\<rparr>"

definition sample_oe :: "net_env og_env" where
  "sample_oe = \<lparr>oe_now = (\<lambda>n. 1), oe_write = (\<lambda>n. True), oe_runtime = (\<lambda>n. env_good), oe_peer = sample_net, oe_stopped = (\<lambda>n. False),
     oe_cancelled = (\<lambda>n. False), oe_client = True, oe_machine = Some ''m2'', oe_inventory = True,
     oe_report = \<lparr>cr_compatible = True, cr_issues = []\<rparr>, oe_plan = Some sample_plan, oe_network = False, oe_activate = True,
     oe_capture = sample_ck_env, oe_pass = (\<lambda>n. \<lparr>pe_asset = None, pe_delta = None\<rparr>), oe_fresh_key = sample_data_key, oe_root_bound = 0\<rparr>"

definition sample_end :: "server orchestrator" where
  "sample_end = run (client_call ''m1'') sample_oe ''t1'' 0 sample_og"


lemma sample_peer_ok: "server_ok sample_peer"
  using rs_idle_fresh(2) [of rt_empty]
  by (simp add: server_ok_def link_ok_def sample_peer_def sessions_ok_def st_ok_def st_get_def rs_ok_def rsv.linked_def)

lemma sample_ready:
  "server_ok (og_peer sample_og)" "\<not> copy_held ''m1'' ''t1'' (og_peer sample_og)" "\<not> completed ''t1'' sample_og" "migratable ''t1'' 10 sample_og"
  by (simp add: sample_og_def sample_peer_ok)
     (auto simp: sample_og_def sample_peer_def copy_held_def completed_def migratable_def capturable_def st_get_def sample_migration_def
        rt_get_def rt_running_def sample_normal_def sample_spec_def)

section \<open>Properties\<close>

lemma lives_guarded:
  assumes "server_ok (og_peer og)" and "\<not> copy_held mach i (og_peer og)" and "\<not> completed i og" and "migratable i g og"
  shows "source_live g (agent_lives (client_call mach) env i timeout crash restarts og) \<longrightarrow>
      \<not> copy_held mach i (og_peer (agent_lives (client_call mach) env i timeout crash restarts og))"
    and "completed i (agent_lives (client_call mach) env i timeout crash restarts og) \<longrightarrow>
      committed_transfer i (og_peer (agent_lives (client_call mach) env i timeout crash restarts og))"
    and "record_step i og (agent_lives (client_call mach) env i timeout crash restarts og)"
  using pc.agent_lives_guarded [of mach i g og env timeout crash restarts] assms
  by (simp_all add: pc.ready_def pc.guarded_def)


definition sample_restart :: "net_env og_env" where
  "sample_restart = sample_oe\<lparr>oe_peer := (\<lambda>n. sample_net (n + 100))\<rparr>"


text \<open>
  C2.  A record that ends in COMPLETED, by the run itself, by one of its handlers or by a later recovery, is
  backed by the destination: the transfer is committed there.
\<close>

theorem completed_means_committed:
  assumes "server_ok (og_peer og)" and "\<not> copy_held mach i (og_peer og)" and "\<not> completed i og" and "migratable i g og"
  shows "completed i (agent_lives (client_call mach) env i timeout crash restarts og) \<longrightarrow>
    committed_transfer i (og_peer (agent_lives (client_call mach) env i timeout crash restarts og))"
  using lives_guarded(2) [OF assms] .

theorem completed_means_committed_witness:
  "completed ''t1'' (agent_lives (client_call ''m1'') sample_oe ''t1'' 0 (Some 39) [sample_restart] sample_og)
   \<and> committed_transfer ''t1'' (og_peer (agent_lives (client_call ''m1'') sample_oe ''t1'' 0 (Some 39) [sample_restart] sample_og))"
proof -
  have "map_option m_stage (st_get (og_records (agent_lives (client_call ''m1'') sample_oe ''t1'' 0 (Some 39) [sample_restart] sample_og)) ''t1'')
      = Some MigrationCompleted" by code_simp
  then have "completed ''t1'' (agent_lives (client_call ''m1'') sample_oe ''t1'' 0 (Some 39) [sample_restart] sample_og)"
    by (auto simp: completed_def)
  then show ?thesis
    using completed_means_committed [OF sample_ready, of sample_oe 0 "Some 39" "[sample_restart]"] by blast
qed

text \<open>
  C8.  The record of a migration keeps its shape.  Whatever happens to the run and to the agent, the record
  stays in the collection, keeps its id, idempotency key, workload, source machine, mode, pass limit and
  creation instant, carries a completion instant exactly when its stage is terminal, and no other record
  changes.
\<close>

theorem migration_record_shape:
  assumes "server_ok (og_peer og)" and "\<not> copy_held mach i (og_peer og)" and "\<not> completed i og" and "migratable i g og"
    and "st_get (og_records og) i = Some m" and "completion_recorded m"
  shows "\<exists>m'. st_get (og_records (agent_lives (client_call mach) env i timeout crash restarts og)) i = Some m'
      \<and> m_id m' = m_id m \<and> m_idempotency_key m' = m_idempotency_key m \<and> m_workload_id m' = m_workload_id m
      \<and> m_source_machine_id m' = m_source_machine_id m \<and> m_mode m' = m_mode m \<and> m_pre_copy_passes m' = m_pre_copy_passes m
      \<and> m_created_at m' = m_created_at m \<and> completion_recorded m'
      \<and> (\<forall>k. k \<noteq> i \<longrightarrow> st_get (og_records (agent_lives (client_call mach) env i timeout crash restarts og)) k = st_get (og_records og) k)"
  using lives_guarded(3) [OF assms(1-4), of env timeout crash restarts] assms(5,6)
  by (auto simp: record_step_def evolves_def)

theorem migration_record_shape_witness:
  "\<exists>m'. st_get (og_records (agent_lives (client_call ''m1'') sample_oe ''t1'' 0 (Some 39) [sample_restart] sample_og)) ''t1'' = Some m'
     \<and> m_workload_id m' = ''w1'' \<and> completion_recorded m'"
proof -
  have "st_get (og_records sample_og) ''t1'' = Some (sample_migration\<lparr>m_id := ''t1''\<rparr>)" "completion_recorded (sample_migration\<lparr>m_id := ''t1''\<rparr>)"
    by (simp_all add: sample_og_def st_get_def completion_recorded_def sample_migration_def terminal_def)
  from migration_record_shape [OF sample_ready this, of sample_oe 0 "Some 39" "[sample_restart]"] show ?thesis
    by (auto simp: sample_migration_def)
qed

end
