(* ===== verification/Migration_Recovery.thy ===== *)
theory Migration_Recovery
  imports Migration_Safety
begin

text \<open>
  Recovery after a restart: that it settles the record when the machine and the destination answer, and the
  situations in which it settles it wrongly.  The situations are runs of the model from the small migration
  of the previous theory.
\<close>

section \<open>Stages\<close>

definition stage_at :: "string \<Rightarrow> 's orchestrator \<Rightarrow> migration_stage option" where
  "stage_at i og = map_option m_stage (st_get (og_records og) i)"

named_theorems stages

lemma stage_same: "og_records og' = og_records og \<Longrightarrow> stage_at i og' = stage_at i og"
  by (simp add: stage_at_def)

lemma stage_update:
  assumes "\<And>now m m'. f now m = Some m' \<Longrightarrow> m_stage m' = m_stage m"
  shows "stage_at i (snd (og_update env i f og)) = stage_at i og"
  using assms by (auto simp: stage_at_def og_update_def Let_def split: option.splits)

lemma stage_note [stages]: "stage_at i (note_stage_event env i m og) = stage_at i og"
  unfolding note_stage_event_def by (rule stage_update) auto

lemma stage_outcome [stages]: "stage_at i (record_source_outcome env i w p b og) = stage_at i og"
  by (auto simp: record_source_outcome_def intro: stage_same split: option.splits)

lemma stage_network [stages]: "stage_at i (restore_source_network env m og) = stage_at i og"
  by (auto simp: restore_source_network_def intro: stage_same)

lemma stage_thaw: "thaw_source env w og = (a, b, og') \<Longrightarrow> stage_at i og' = stage_at i og"
  by (rule stage_same) (rule thaw_peer)

lemma stage_peer_do: "peer_do call env op og = (out, og') \<Longrightarrow> stage_at i og' = stage_at i og"
  by (auto simp: peer_do_def intro: stage_same split: prod.splits)

lemma stage_rollback_loop: "rollback_loop call env i n og = (ok, og') \<Longrightarrow> stage_at i og' = stage_at i og"
proof (induction n arbitrary: og)
  case (Suc n)
  obtain out og1 where d: "peer_do call env (PeerRequest (RqRollback i)) og = (out, og1)" by fastforce
  from Suc d stage_peer_do [OF d, of i] show ?case by (auto split: if_splits)
qed simp

lemma stage_rollback: "rollback_destination call env i peer reserved og = (c, e, og') \<Longrightarrow> stage_at i og' = stage_at i og"
  by (auto simp: rollback_destination_def dest: stage_rollback_loop split: if_splits prod.splits)

lemma stage_probe:
  assumes "destination_holds_live_copy call env i peer og = (h, og')"
  shows "stage_at i og' = stage_at i og"
proof -
  obtain out og1 where d: "peer_do call env (PeerRequest (RqGetCleanup i)) og = (out, og1)" by fastforce
  from assms d stage_peer_do [OF d, of i] show ?thesis
    by (auto simp: destination_holds_live_copy_def split: if_splits sum.splits response.splits)
qed

text \<open>When writes land, a legal transition is taken.\<close>

lemma stage_transition:
  assumes "oe_write env (og_tick og)" and "stage_at i og = Some s" and "can_transition s t"
  shows "fst (og_transition env i t m p og)" and "stage_at i (snd (og_transition env i t m p og)) = Some t"
proof -
  from assms(2) obtain r where r: "st_get (og_records og) i = Some r" "m_stage r = s" by (auto simp: stage_at_def)
  obtain r' where "transition (oe_now env (og_tick og)) t m p r = Some r'" using assms(3) r by (auto simp: transition_def)
  with r assms(1) transition_stage [OF this] show "fst (og_transition env i t m p og)"
    and "stage_at i (snd (og_transition env i t m p og)) = Some t"
    by (simp_all add: og_transition_def og_update_def stage_at_def)
qed

lemma stage_retry:
  assumes "oe_write env (og_tick og)" and "stage_at i og = Some s" and "can_transition s t"
  shows "stage_at i (retry_transition env i t p (Suc n) og) = Some t"
  using stage_transition [OF assms, of RollingBackNote p]
  by (cases "og_transition env i t RollingBackNote p og") simp

text \<open>Everything of a rollback before the record is settled.\<close>

definition rolled :: "('e, 's) peer_call \<Rightarrow> 'e og_env \<Rightarrow> string \<Rightarrow> bool \<Rightarrow> bool \<Rightarrow> bool \<Rightarrow> migration \<Rightarrow> 's orchestrator
    \<Rightarrow> bool \<times> bool \<times> msg list \<times> msg list \<times> 's orchestrator" where
  "rolled call env i peer reserved frozen m og =
     (case rollback_destination call env i peer reserved og of (confirmed, rb_errors, og1) \<Rightarrow>
      case (if \<not> confirmed \<and> frozen then destination_holds_live_copy call env i peer og1 else (True, og1)) of (holds, og2) \<Rightarrow>
      let safe = (confirmed \<or> \<not> holds) in
      case (if frozen \<and> safe then thaw_source env (m_workload_id m) og2 else (False, False, og2)) of (resumed, resume_failed, og3) \<Rightarrow>
      let runs = (resumed \<or> source_workload_running (m_workload_id m) og3);
          og4 = (if runs then restore_source_network env m og3 else og3);
          notes = rb_errors @ (if resume_failed then [ResumeFailedNote] else [])
                  @ (if \<not> confirmed \<and> safe then [ThawedUnconfirmedNote] else []) @ (if runs then [] else [LeftDrainedNote])
      in (safe, resume_failed, rb_errors, notes, og4))"

lemma roll_back_rolled:
  "roll_back_and_settle call env i peer reserved frozen pre stage m og =
     (case rolled call env i peer reserved frozen m og of (safe, rf, errs, notes, og4) \<Rightarrow> close_rollback env i pre stage m safe rf errs notes og4)"
  unfolding roll_back_and_settle_def rolled_def Let_def by (simp only: prod.case_distrib split_beta prod.case fst_conv snd_conv)

lemma stage_rolled:
  assumes "rolled call env i peer reserved frozen m og = (safe, rf, errs, notes, og')"
  shows "stage_at i og' = stage_at i og"
proof -
  obtain confirmed errs og1 where 1: "rollback_destination call env i peer reserved og = (confirmed, errs, og1)" by (metis prod_cases3)
  obtain holds og2 where 2: "(if \<not> confirmed \<and> frozen then destination_holds_live_copy call env i peer og1 else (True, og1)) = (holds, og2)" by fastforce
  obtain resumed rf og3 where 3: "(if frozen \<and> (confirmed \<or> \<not> holds) then thaw_source env (m_workload_id m) og2 else (False, False, og2)) = (resumed, rf, og3)"
    by (metis prod_cases3)
  have "stage_at i og1 = stage_at i og" by (rule stage_rollback [OF 1])
  moreover have "stage_at i og2 = stage_at i og1" using 2 stage_probe by (auto split: if_splits)
  moreover have "stage_at i og3 = stage_at i og2" using 3 stage_thaw by (auto split: if_splits)
  moreover have "og' = og3 \<or> og' = restore_source_network env m og3"
    using assms unfolding rolled_def 1 prod.case 2 3 Let_def by (auto split: if_splits)
  ultimately show ?thesis by (auto simp: stages)
qed

lemma stage_close_pre: "stage_at i (close_rollback env i True stage m safe rf errs notes og) = stage_at i og"
  by (simp add: close_rollback_def Let_def stages) (rule stage_update, auto)

lemma stage_close:
  assumes "\<And>n. oe_write env n" and "stage_at i og = Some s" and "can_transition s stage"
  shows "stage_at i (close_rollback env i False stage m True False [] notes og) = Some stage"
proof -
  let ?o = "record_source_outcome env i (m_workload_id m) (m_network m) False
    (snd (og_update env i (\<lambda>now v. Some (v\<lparr>m_source_preserved := True, m_failure_reason := m_failure_reason v @ notes\<rparr>)) og))"
  have u: "stage_at i (snd (og_update env i (\<lambda>now v. Some (v\<lparr>m_source_preserved := True, m_failure_reason := m_failure_reason v @ notes\<rparr>)) og)) = stage_at i og"
    by (rule stage_update) auto
  have o: "stage_at i ?o = Some s" by (simp add: stages u assms(2))
  then obtain r where r: "st_get (og_records ?o) i = Some r" "m_stage r = s" by (auto simp: stage_at_def)
  have "close_rollback env i False stage m True False [] notes og = snd (og_transition env i stage RolledBackNote 1 ?o)"
    unfolding close_rollback_def Let_def using r assms(3) by simp
  with stage_transition(2) [OF assms(1) o assms(3)] show ?thesis by simp
qed

section \<open>Recovery settles the record\<close>

definition lands :: "'e og_env \<Rightarrow> bool" where
  "lands env \<longleftrightarrow> (\<forall>n. oe_write env n)"

lemma non_terminal_stages:
  "\<not> terminal s \<Longrightarrow> s = MigrationRollingBack \<or> can_transition s MigrationRollingBack
     \<or> s \<noteq> MigrationRollingBack \<and> \<not> can_transition s MigrationRollingBack \<and> can_transition s MigrationFailed"
  by (cases s) (auto simp: terminal_def can_transition_def)

text \<open>
  When writes land and the rollback ends well, \<open>handleFailure\<close> settles the record.
\<close>

definition rolls_well ::
  "('e, 's) peer_call \<Rightarrow> 'e og_env \<Rightarrow> string \<Rightarrow> bool \<Rightarrow> bool \<Rightarrow> bool \<Rightarrow> (runtime \<Rightarrow> bool) \<Rightarrow> migration \<Rightarrow> 's orchestrator \<Rightarrow> bool" where
  "rolls_well call env i peer reserved frozen P m og \<longleftrightarrow>
     (case rolled call env i peer reserved frozen m og of (safe, rf, errs, notes, og') \<Rightarrow> safe \<and> \<not> rf \<and> errs = [] \<and> P (og_runtime og'))"

lemma roll_back_settles:
  assumes "lands env" and "rolls_well call env i peer reserved frozen P m og"
    and "pre \<and> stage_at i og = Some MigrationFailed \<or> \<not> pre \<and> stage_at i og = Some MigrationRollingBack"
  shows "\<exists>s. stage_at i (roll_back_and_settle call env i peer reserved frozen pre MigrationRolledBack m og) = Some s \<and> terminal s
    \<and> P (og_runtime (roll_back_and_settle call env i peer reserved frozen pre MigrationRolledBack m og))"
proof -
  obtain safe rf errs ns og' where r: "rolled call env i peer reserved frozen m og = (safe, rf, errs, ns, og')" by (metis prod_cases5)
  note st = stage_rolled [OF r]
  have e: "roll_back_and_settle call env i peer reserved frozen pre MigrationRolledBack m og
      = close_rollback env i pre MigrationRolledBack m safe rf errs ns og'" by (simp add: roll_back_rolled r)
  from assms(2) r have w: "safe" "\<not> rf" "errs = []" "P (og_runtime og')" by (simp_all add: rolls_well_def)
  have "local_step i og' (close_rollback env i pre MigrationRolledBack m safe rf errs ns og')"
    by (rule local_close) (simp_all add: terminal_def)
  then have rt: "P (og_runtime (close_rollback env i pre MigrationRolledBack m safe rf errs ns og'))" using w(4) by (simp add: local_step_def)
  show ?thesis
  proof (cases pre)
    case True
    with assms(3) st rt show ?thesis unfolding e by (auto simp: stage_close_pre terminal_def)
  next
    case False
    with assms st stage_close [of env i og' MigrationRollingBack MigrationRolledBack m ns] w rt show ?thesis
      unfolding e by (simp add: lands_def terminal_def can_transition_def)
  qed
qed

lemma handle_failure_settles:
  assumes "lands env" and "stage_at i og = Some s" and "\<not> terminal s"
    and "\<And>m og'. og_peer og' = og_peer og \<Longrightarrow> og_runtime og' = og_runtime og \<Longrightarrow> m_workload_id m = m_workload_id (the (st_get (og_records og) i)) \<Longrightarrow>
           rolls_well call env i peer reserved frozen P m og'"
  shows "\<exists>s'. stage_at i (handle_failure call env i peer reserved False frozen code dt og) = Some s' \<and> terminal s'
    \<and> P (og_runtime (handle_failure call env i peer reserved False frozen code dt og))"
proof -
  from assms(2) obtain m where m: "st_get (og_records og) i = Some m" "m_stage m = s" by (auto simp: stage_at_def)
  define og1 where "og1 = snd (og_update env i (\<lambda>now v. Some
     ((if m_failure_code v = NoFailure then v\<lparr>m_failure_code := code, m_failure_reason := [CauseNote code]\<rparr>
       else v\<lparr>m_failure_reason := m_failure_reason v @ [CauseNote code]\<rparr>)
        \<lparr>m_metrics := (m_metrics v)\<lparr>mm_downtime := dt\<rparr>\<rparr>)) og)"
  define pre where "pre = (m_stage m \<noteq> MigrationRollingBack \<and> \<not> can_transition (m_stage m) MigrationRollingBack \<and> can_transition (m_stage m) MigrationFailed)"
  define og2 where "og2 = (if m_stage m = MigrationRollingBack then note_stage_event env i ResumeRollbackNote og1
      else if can_transition (m_stage m) MigrationRollingBack
      then retry_transition env i MigrationRollingBack (migration_progress (m_stage m)) state_persist_attempts og1
      else if pre then snd (og_transition env i MigrationFailed (CauseNote code) (migration_progress (m_stage m)) og1)
      else og1)"
  have s1: "stage_at i og1 = Some s" using assms(2) unfolding og1_def by (subst stage_update) auto
  have l1: "local_step i og og1" unfolding og1_def by (rule local_og_update) (auto simp: benign_simps)
  have l2: "local_step i og1 og2" by (simp add: og2_def locals)
  have l: "local_step i og og2" using local_trans [OF l1 l2] .
  have w1: "oe_write env (og_tick og1)" using assms(1) by (simp add: lands_def)
  have s2: "pre \<and> stage_at i og2 = Some MigrationFailed \<or> \<not> pre \<and> stage_at i og2 = Some MigrationRollingBack"
    using non_terminal_stages [OF assms(3)] s1
      stage_retry [OF w1 s1, of MigrationRollingBack "migration_progress s" 2]
      stage_transition(2) [OF w1 s1, of MigrationFailed "CauseNote code" "migration_progress s"]
    by (auto simp: og2_def pre_def m(2) stages state_persist_attempts_def numeral_3_eq_3 can_transition_def)
  have cm: "m_workload_id (current_migration i m og2) = m_workload_id m"
    using l m(1) by (auto simp: local_step_def record_step_def evolves_def current_migration_def)
  have "rolls_well call env i peer reserved frozen P (current_migration i m og2) og2"
    using l m(1) cm by (intro assms(4)) (simp_all add: local_step_def)
  note settled = roll_back_settles [OF assms(1) this s2]
  have "handle_failure call env i peer reserved False frozen code dt og
      = roll_back_and_settle call env i peer reserved frozen pre MigrationRolledBack (current_migration i m og2) og2"
    using assms(3) unfolding m(2) [symmetric]
    by (simp add: handle_failure_def m(1) og1_def [symmetric] pre_def [symmetric] og2_def [symmetric] Let_def)
  with settled show ?thesis by simp
qed

text \<open>What recovery needs from the machine to thaw the workload: signals and record writes work, and the recorded process is there.\<close>

definition thawable :: "'e og_env \<Rightarrow> string \<Rightarrow> runtime \<Rightarrow> bool" where
  "thawable env wid rt \<longleftrightarrow> (\<forall>n. re_signal (oe_runtime env n) \<and> re_put (oe_runtime env n))
     \<and> (\<forall>w p. rt_get rt wid = Some w \<longrightarrow> wl_process w = Some p \<longrightarrow>
          process_alive (rt_kernel rt) (ps_pid p) (ps_start_ticks p) \<and> group_exists (ps_pgid p) (rt_kernel rt))"

definition thawed :: "string \<Rightarrow> runtime \<Rightarrow> runtime \<Rightarrow> bool" where
  "thawed wid rt rt' \<longleftrightarrow> (\<forall>w p. rt_get rt wid = Some w \<longrightarrow> wl_process w = Some p \<longrightarrow> wl_status w \<noteq> WorkloadRunning \<longrightarrow> group_live (ps_pgid p) (rt_kernel rt'))"

lemma continued_live: "group_exists g ks \<Longrightarrow> group_live g (set_stopped False g ks)"
  by (induction ks) (auto simp: group_exists_def group_live_def set_stopped_def in_group_def)

lemma thaw_works:
  assumes "thawable env wid (og_runtime og)"
  shows "\<exists>a og'. thaw_source env wid og = (a, False, og') \<and> thawed wid (og_runtime og) (og_runtime og')"
proof (cases "\<exists>w p. rt_get (og_runtime og) wid = Some w \<and> wl_process w = Some p \<and> wl_status w \<noteq> WorkloadRunning")
  case True
  then obtain w p where w: "rt_get (og_runtime og) wid = Some w" "wl_process w = Some p" "wl_status w \<noteq> WorkloadRunning" by blast
  with assms continued_live [of "ps_pgid p" "rt_kernel (og_runtime og)"] show ?thesis
    by (simp add: thaw_source_def rt_do_def rt_resume_def signal_and_update_def rt_put_def thawable_def thawed_def failed_def exI [of _ True])
next
  case False
  then show ?thesis by (auto simp: thaw_source_def thawed_def split: option.splits)
qed

lemma rolls_well_intro:
  assumes "reserved \<longrightarrow> peer \<and> (\<forall>n. conclusive (fst (call (oe_peer env n) (PeerRequest (RqRollback i)) (og_peer og))))"
    and "frozen \<longrightarrow> thawable env (m_workload_id m) (og_runtime og)"
  shows "rolls_well call env i peer reserved frozen (\<lambda>rt. frozen \<longrightarrow> thawed (m_workload_id m) (og_runtime og) rt) m og"
proof -
  obtain out p where c: "call (oe_peer env (og_tick og)) (PeerRequest (RqRollback i)) (og_peer og) = (out, p)" by fastforce
  have "\<exists>og1. rollback_destination call env i peer reserved og = (True, [], og1) \<and> og_runtime og1 = og_runtime og"
  proof (cases reserved)
    case True
    with assms(1) c have "peer" "conclusive out" by (metis fst_conv)+
    with True c show ?thesis
      by (auto simp: rollback_destination_def rollback_attempts_def numeral_eq_Suc peer_do_def conclusive_def)
  qed (simp add: rollback_destination_def)
  then obtain og1 where 1: "rollback_destination call env i peer reserved og = (True, [], og1)" and rt: "og_runtime og1 = og_runtime og" by blast
  obtain a rf og3 where 3: "(if frozen then thaw_source env (m_workload_id m) og1 else (False, False, og1)) = (a, rf, og3)" by (metis prod_cases3)
  have rf: "\<not> rf" "frozen \<longrightarrow> thawed (m_workload_id m) (og_runtime og) (og_runtime og3)"
    using 3 thaw_works [of env "m_workload_id m" og1] assms(2) rt by (auto split: if_splits)
  have net: "og_runtime (restore_source_network env m og3) = og_runtime og3" by (simp add: restore_source_network_def)
  show ?thesis
    unfolding rolls_well_def rolled_def 1 prod.case Let_def
    using rf net by (simp add: 3)
qed


lemma probe_reads: "list_all (\<lambda>a. \<not> na_reap a) as \<Longrightarrow> snd (do_json n err as m (RqGetCleanup k) sv) = sv"
proof (induction n err as m "RqGetCleanup k" sv rule: do_json.induct)
  case (3 n err a as m sv)
  obtain r sv1 where d: "deliver a m (RqGetCleanup k) sv = (r, sv1)" by fastforce
  have "sv1 = sv" using d 3(3) cleanup_answer(1) by (auto simp: deliver_def Let_def split: if_splits prod.splits)
  with 3 d show ?case by (auto split: option.splits response.splits)
qed simp_all

definition crashed :: "nat \<Rightarrow> server orchestrator" where
  "crashed n = run_crash (client_call ''m1'') sample_oe ''t1'' 0 n sample_og"

definition calm_restart :: "net_env og_env" where
  "calm_restart = sample_oe\<lparr>oe_peer := (\<lambda>n. sample_net 200)\<rparr>"


section \<open>What recovery gets wrong\<close>

lemma dead_call: "ne_attempts net = [] \<Longrightarrow> client_call mach net (PeerRequest rq) sv = (Inl PeerTransport, sv)"
  by (simp add: request_attempts_def numeral_eq_Suc)

lemma dead_peer_do:
  "\<forall>n. ne_attempts (oe_peer env n) = [] \<Longrightarrow> peer_do (client_call mach) env (PeerRequest rq) og = (Inl PeerTransport, (tick og)\<lparr>og_peer := og_peer og\<rparr>)"
  by (simp add: peer_do_def dead_call del: client_call.simps)

lemma stage_roll_back_pre: "stage_at i (roll_back_and_settle call env i peer reserved frozen True stage m og) = stage_at i og"
  by (cases "rolled call env i peer reserved frozen m og") (auto simp: roll_back_rolled stage_close_pre dest: stage_rolled)

lemma cleanup_failure_is_final:
  assumes "lands env" and "stage_at i og = Some MigrationCleanup"
  shows "stage_at i (handle_failure call env i peer reserved False frozen code dt og) = Some MigrationFailed"
proof -
  from assms(2) obtain m where m: "st_get (og_records og) i = Some m" "m_stage m = MigrationCleanup" by (auto simp: stage_at_def)
  define og1 where "og1 = snd (og_update env i (\<lambda>now v. Some
     ((if m_failure_code v = NoFailure then v\<lparr>m_failure_code := code, m_failure_reason := [CauseNote code]\<rparr>
       else v\<lparr>m_failure_reason := m_failure_reason v @ [CauseNote code]\<rparr>)
        \<lparr>m_metrics := (m_metrics v)\<lparr>mm_downtime := dt\<rparr>\<rparr>)) og)"
  have "stage_at i og1 = Some MigrationCleanup" using assms(2) unfolding og1_def by (subst stage_update) auto
  with assms(1) have 2: "stage_at i (snd (og_transition env i MigrationFailed (CauseNote code) (migration_progress MigrationCleanup) og1)) = Some MigrationFailed"
    by (intro stage_transition(2)) (auto simp: lands_def can_transition_def)
  show ?thesis
    unfolding handle_failure_def m option.case Let_def og1_def [symmetric]
    by (simp add: terminal_def can_transition_def stage_roll_back_pre 2)
qed

text \<open>
  A crash after the destination committed can be filed as a failure.  When the agent restarts with the
  record in CLEANUP, the stage only a committed migration reaches, and the destination cannot be reached at
  that moment, recovery closes the record as FAILED, and no later recovery opens it again.  The handler's
  comment says of such a stage that nothing was reserved from it.
\<close>

theorem cleanup_crash_filed_as_failure:
  assumes "lands env" and "stage_at i og = Some MigrationCleanup" and "\<forall>n. ne_attempts (oe_peer env n) = []"
  shows "stage_at i (recover_migration (client_call mach) env i og) = Some MigrationFailed
    \<and> recover_migration (client_call mach) later i (recover_migration (client_call mach) env i og) = recover_migration (client_call mach) env i og"
proof -
  from assms(2) obtain m where m: "st_get (og_records og) i = Some m" "m_stage m = MigrationCleanup" by (auto simp: stage_at_def)
  have s1: "stage_at i ((tick og)\<lparr>og_peer := og_peer og\<rparr>) = Some MigrationCleanup" using assms(2) by (simp add: stage_at_def)
  have 1: "stage_at i (recover_migration (client_call mach) env i og) = Some MigrationFailed"
    unfolding recover_migration_def m option.case Let_def dead_peer_do [OF assms(3)]
    by (simp add: terminal_def cleanup_failure_is_final [OF assms(1)] stages s1 assms(2))
  then show ?thesis
    by (auto simp: recover_migration_def [of _ later] stage_at_def terminal_def)
qed

definition dead_restart :: "net_env og_env" where
  "dead_restart = sample_oe\<lparr>oe_peer := (\<lambda>n. dead_net)\<rparr>"

theorem cleanup_crash_filed_as_failure_witness:
  "stage_at ''t1'' (recover_migration (client_call ''m1'') dead_restart ''t1'' (crashed 40)) = Some MigrationFailed
   \<and> committed_transfer ''t1'' (og_peer (recover_migration (client_call ''m1'') dead_restart ''t1'' (crashed 40)))"
proof -
  have 1: "lands dead_restart" "\<forall>n. ne_attempts (oe_peer dead_restart n) = []"
    by (simp_all add: lands_def dead_restart_def sample_oe_def dead_net_def)
  have 2: "stage_at ''t1'' (crashed 40) = Some MigrationCleanup" by code_simp
  have 3: "committed_transfer ''t1'' (og_peer (recover_migration (client_call ''m1'') dead_restart ''t1'' (crashed 40)))" by code_simp
  from cleanup_crash_filed_as_failure [OF 1(1) 2 1(2)] 3 show ?thesis by blast
qed

definition late_q :: sv_env where
  "late_q = sample_q\<lparr>q_now := hours 25, q_now2 := hours 25,
     q_restore := (\<lambda>_. rs_good\<lparr>pe_ok := (\<lambda>_. False), pe_rt := (\<lambda>_. env_good\<lparr>re_signal := False, re_put := False\<rparr>), pe_killed := False\<rparr>)\<rparr>"

definition after_expiry :: "server orchestrator" where
  "after_expiry = (crashed 36)\<lparr>og_peer := reap late_q (og_peer (crashed 36))\<rparr>"

text \<open>
  C39.  Two live copies after a failed clean-up of the destination.  The source agent dies right after the
  restore; the transfer expires and the destination, which cannot stop the restored process, files its
  session as FAILED; the source agent comes back.  Recovery reads FAILED as no copy, skips the rollback and
  continues the source: afterwards a process of the workload runs on each machine and the record says
  ROLLED_BACK.
\<close>

theorem failed_session_hides_copy:
  "source_live 10 (recover_migration (client_call ''m1'') sample_restart ''t1'' after_expiry)
   \<and> group_live 20 (rt_kernel (rs_runtime (sv_restorer (og_peer (recover_migration (client_call ''m1'') sample_restart ''t1'' after_expiry)))))
   \<and> stage_at ''t1'' (recover_migration (client_call ''m1'') sample_restart ''t1'' after_expiry) = Some MigrationRolledBack"
proof -
  have "source_live 10 (recover_migration (client_call ''m1'') sample_restart ''t1'' after_expiry)" by code_simp
  moreover have "group_live 20 (rt_kernel (rs_runtime (sv_restorer (og_peer (recover_migration (client_call ''m1'') sample_restart ''t1'' after_expiry)))))"
    by code_simp
  moreover have "stage_at ''t1'' (recover_migration (client_call ''m1'') sample_restart ''t1'' after_expiry) = Some MigrationRolledBack" by code_simp
  ultimately show ?thesis by blast
qed

definition unnoted :: "server orchestrator" where
  "unnoted = run_crash (client_call ''m1'') (sample_oe\<lparr>oe_write := (\<lambda>n. n \<noteq> 1)\<rparr>) ''t1'' 0 25 sample_og"

text \<open>
  A lost ownership note strands the workload.  When the write that records the freeze ownership of a
  running workload fails, the later note of the downtime creates the fact with ownership off; after a crash
  recovery trusts it, rolls back without continuing the workload, and closes the record: the process stays
  stopped.  Without any fact the stage rule would have continued it.
\<close>

theorem lost_ownership_strands_source:
  "stage_at ''t1'' (recover_migration (client_call ''m1'') sample_restart ''t1'' unnoted) = Some MigrationRolledBack
   \<and> rt_kernel (og_runtime (recover_migration (client_call ''m1'') sample_restart ''t1'' unnoted)) =
       [\<lparr>kp_pid = 10, kp_pgid = 10, kp_ticks = 7, kp_stopped = True\<rparr>]
   \<and> source_live 10 (recover_migration (client_call ''m1'') sample_restart ''t1'' (unnoted\<lparr>og_freezes := []\<rparr>))"
proof -
  have "stage_at ''t1'' (recover_migration (client_call ''m1'') sample_restart ''t1'' unnoted) = Some MigrationRolledBack" by code_simp
  moreover have "rt_kernel (og_runtime (recover_migration (client_call ''m1'') sample_restart ''t1'' unnoted)) =
       [\<lparr>kp_pid = 10, kp_pgid = 10, kp_ticks = 7, kp_stopped = True\<rparr>]" by code_simp
  moreover have "source_live 10 (recover_migration (client_call ''m1'') sample_restart ''t1'' (unnoted\<lparr>og_freezes := []\<rparr>))" by code_simp
  ultimately show ?thesis by blast
qed

text \<open>
  A live capture can leave the workload stopped.  When the freeze stops the process but its record
  write fails, \<open>Finalize\<close> reports a failure with no freeze instant and without continuing the workload, so
  that the run does not own the freeze either.  \<open>Create\<close> continues it in the same situation.
\<close>

theorem finalize_leaves_workload_stopped:
  assumes "rt_get rt (wsp_id (wl_spec (ls_workload l))) = Some w" and "wl_process w = Some p"
    and "process_alive (rt_kernel rt) (ps_pid p) (ps_start_ticks p)" and "group_exists (ps_pgid p) (rt_kernel rt)"
    and "re_signal (ce_pause env)" and "\<not> re_put (ce_pause env)" and "can_pass l" and "IsZero (ls_freeze l)"
  shows "\<exists>l' rt'. live_finalize env leave l rt = (None, l', rt') \<and> \<not> group_live (ps_pgid p) (rt_kernel rt') \<and> IsZero (ls_freeze l')
    \<and> live_abort env l' rt' = (l', rt')"
  using assms
  by (simp add: live_finalize_def can_pass_def when_op_def rt_pause_def signal_and_update_def rt_put_def failed_def live_abort_def)

definition sample_live :: live_session where
  "sample_live = \<lparr>ls_workload = the (rt_get rt_running ''w1''), ls_running = True, ls_limit = 1, ls_key_version = 1, ls_passes = 0,
     ls_baseline = 0, ls_frozen = False, ls_freeze = 0, ls_closed = False, ls_failed = False\<rparr>"

theorem finalize_leaves_workload_stopped_witness:
  "\<exists>l' rt'. live_finalize (sample_ck_env\<lparr>ce_pause := env_good\<lparr>re_put := False\<rparr>\<rparr>) False sample_live rt_running = (None, l', rt')
     \<and> \<not> group_live 10 (rt_kernel rt')"
proof -
  let ?w = "the (rt_get rt_running ''w1'')"
  have w: "rt_get rt_running (wsp_id (wl_spec (ls_workload sample_live))) = Some ?w" "wl_process ?w = Some \<lparr>ps_pid = 10, ps_pgid = 10, ps_start_ticks = 7\<rparr>"
    by (simp_all add: rt_running_def rt_get_def st_get_def sample_live_def sample_normal_def sample_spec_def)
  have "process_alive (rt_kernel rt_running) 10 7" "group_exists 10 (rt_kernel rt_running)" "can_pass sample_live" "IsZero (ls_freeze sample_live)"
    by (simp_all add: rt_running_def process_alive_def group_exists_def in_group_def can_pass_def sample_live_def)
  with finalize_leaves_workload_stopped [OF w, of "sample_ck_env\<lparr>ce_pause := env_good\<lparr>re_put := False\<rparr>\<rparr>" False] show ?thesis
    by (auto simp: sample_ck_env_def env_good_def)
qed

end
