(* ===== verification/Migration_Admission.thy ===== *)
theory Migration_Admission
  imports Migration_Orchestrator
begin

text \<open>
  \<^verbatim>\<open>src/internal/migration/orchestrator.go\<close>, \<open>Create\<close> and \<open>Preflight\<close>, and \<^verbatim>\<open>src/internal/endpoint/url.go\<close>:
  which migrations an agent accepts.  \<open>Create\<close> scans the records and inserts the new one in one critical
  section; \<open>Preflight\<close> answers without changing anything.  The text of a URL is split by \<open>net/url\<close>; the
  model starts from its parts.
\<close>

section \<open>Peer endpoints\<close>

record url_parts =
  up_scheme :: string
  up_user :: bool
  up_host :: string
  up_hostname :: string
  up_path :: string
  up_raw_query :: string
  up_fragment :: string

datatype endpoint_error = EndpointEmpty | EndpointScheme | EndpointExtras | EndpointPath | HostnameMissing | HostnameSpace
  | Ipv6Open | PortInvalid | Ipv6Bare | PortEmpty | PortRange | ServerNameInvalid

definition digit :: "char \<Rightarrow> bool" where
  "digit c \<longleftrightarrow> 48 \<le> (of_char c :: int) \<and> (of_char c :: int) \<le> 57"

definition number_of :: "string \<Rightarrow> int" where
  "number_of s = foldl (\<lambda>n c. n * 10 + (of_char c - 48)) 0 s"

definition validate_port_number :: "string \<Rightarrow> endpoint_error option" where
  "validate_port_number port =
     (if port = [] then Some PortEmpty
      else if \<not> list_all digit port then Some PortInvalid
      else if number_of port < 1 \<or> number_of port > 65535 then Some PortRange
      else None)"

definition after_char :: "char \<Rightarrow> string \<Rightarrow> string" where
  "after_char c s = drop 1 (dropWhile (\<lambda>x. x \<noteq> c) s)"

definition validate_explicit_port :: "string \<Rightarrow> endpoint_error option" where
  "validate_explicit_port host =
     (if take 1 host = ''['' then
        if CHR '']'' \<notin> set host then Some Ipv6Open
        else let rest = after_char (CHR '']'') host in
          if rest = [] then None
          else if take 1 rest \<noteq> '':'' then Some PortInvalid
          else validate_port_number (drop 1 rest)
      else if length (filter (\<lambda>c. c = CHR '':'') host) = 0 then None
      else if length (filter (\<lambda>c. c = CHR '':'') host) = 1 then validate_port_number (after_char (CHR '':'') host)
      else Some Ipv6Bare)"

text \<open>\<open>Parse\<close>: \<open>None\<close> stands for a text \<open>url.Parse\<close> refuses.\<close>

definition parse_endpoint :: "string \<Rightarrow> (string \<Rightarrow> url_parts option) \<Rightarrow> (endpoint_error, url_parts) outcome" where
  "parse_endpoint raw split =
     (let value = trim_space raw in
      if value = [] then Inl EndpointEmpty
      else case split value of
        None \<Rightarrow> Inl EndpointScheme
      | Some u \<Rightarrow>
          if up_scheme u \<noteq> ''https'' \<or> up_host u = [] then Inl EndpointScheme
          else if up_user u \<or> up_raw_query u \<noteq> [] \<or> up_fragment u \<noteq> [] then Inl EndpointExtras
          else if up_path u \<noteq> [] \<and> up_path u \<noteq> ''/'' then Inl EndpointPath
          else if up_hostname u = [] then Inl HostnameMissing
          else if CHR '' '' \<in> set (up_hostname u) then Inl HostnameSpace
          else case validate_explicit_port (up_host u) of
            Some e \<Rightarrow> Inl e
          | None \<Rightarrow> Inr (u\<lparr>up_path := []\<rparr>))"

definition trim_right_slash :: "string \<Rightarrow> string" where
  "trim_right_slash s = rev (dropWhile (\<lambda>c. c = CHR ''/'') (rev s))"

definition normalize_endpoint :: "string \<Rightarrow> (string \<Rightarrow> url_parts option) \<Rightarrow> (endpoint_error, string) outcome" where
  "normalize_endpoint raw split =
     (case parse_endpoint raw split of Inl e \<Rightarrow> Inl e | Inr u \<Rightarrow> Inr (trim_right_slash (up_scheme u @ ''://'' @ up_host u)))"

definition server_name :: "string \<Rightarrow> string \<Rightarrow> (string \<Rightarrow> url_parts option) \<Rightarrow> (endpoint_error, string) outcome" where
  "server_name raw override split =
     (let name = trim_space override in
      if name \<noteq> [] then (if list_ex (\<lambda>c. c \<in> set ''/?#@ \<newline>'' \<or> c = CHR 0x09 \<or> c = CHR 0x0D) name then Inl ServerNameInvalid else Inr name)
      else case parse_endpoint raw split of Inl e \<Rightarrow> Inl e | Inr u \<Rightarrow> Inr (up_hostname u))"

section \<open>Requests\<close>

datatype requested_mode = ModeDefault | ModeCold | ModeLive | ModeOther

record create_request =
  cq_workload :: string
  cq_key :: string
  cq_destination :: destination
  cq_mode :: requested_mode
  cq_passes :: int

datatype admit_error = WorkloadIdRequired | EndpointRefused endpoint_error | ModeUnsupported | NoSuchWorkload
  | NotRunningOrPaused workload_status | IdempotencyConflict | MigrationAlreadyActive | NoFreshId | RecordNotStored
  | DestinationUnreachable | DestinationIsSource | DestinationIdentityMismatch | InventoryFailed | PlanInvalid

text \<open>\<open>ae_id\<close>: the id drawn, if any; \<open>ae_split\<close>: \<open>url.Parse\<close>; the rest as in a run.\<close>

record admit_env =
  ae_split :: "string \<Rightarrow> url_parts option"
  ae_id :: "string option"
  ae_now :: time
  ae_write :: bool
  ae_client :: bool
  ae_machine :: "string option"
  ae_inventory :: bool
  ae_report :: compatibility_report
  ae_plan :: "network_plan option"

definition mode_of :: "requested_mode \<Rightarrow> migration_mode option" where
  "mode_of r = (case r of ModeDefault \<Rightarrow> Some MigrationCold | ModeCold \<Rightarrow> Some MigrationCold | ModeLive \<Rightarrow> Some MigrationLive | ModeOther \<Rightarrow> None)"

definition destination_matches :: "destination \<Rightarrow> destination \<Rightarrow> bool" where
  "destination_matches request stored \<longleftrightarrow>
     ds_agent_url request = ds_agent_url stored \<and> ds_server_name request = ds_server_name stored \<and> ds_route request = ds_route stored
     \<and> ds_relay_endpoint request = ds_relay_endpoint stored \<and> ds_relay_ticket request = ds_relay_ticket stored
     \<and> (ds_machine_id request = [] \<or> ds_machine_id stored = [] \<or> ds_machine_id request = ds_machine_id stored)"

text \<open>The checks both operations make first: endpoint, mode and workload.\<close>

definition normalize_destination :: "admit_env \<Rightarrow> destination \<Rightarrow> (admit_error, destination) outcome" where
  "normalize_destination env d =
     (case normalize_endpoint (ds_agent_url d) (ae_split env) of
        Inl e \<Rightarrow> Inl (EndpointRefused e)
      | Inr url \<Rightarrow>
     (case server_name url (ds_server_name d) (ae_split env) of
        Inl e \<Rightarrow> Inl (EndpointRefused e)
      | Inr name \<Rightarrow> Inr (d\<lparr>ds_agent_url := url, ds_server_name := name\<rparr>)))"

definition check_workload :: "runtime \<Rightarrow> string \<Rightarrow> (admit_error, workload) outcome" where
  "check_workload rt wid =
     (case rt_get rt wid of
        None \<Rightarrow> Inl NoSuchWorkload
      | Some w \<Rightarrow> if wl_status w \<noteq> WorkloadRunning \<and> wl_status w \<noteq> WorkloadPaused then Inl (NotRunningOrPaused (wl_status w)) else Inr w)"

definition same_request :: "create_request \<Rightarrow> destination \<Rightarrow> migration_mode \<Rightarrow> migration \<Rightarrow> bool" where
  "same_request rq d mode m \<longleftrightarrow> m_workload_id m = cq_workload rq \<and> destination_matches d (m_destination m) \<and> m_mode m = mode \<and> m_pre_copy_passes m = cq_passes rq"

definition same_key :: "create_request \<Rightarrow> migration \<Rightarrow> bool" where
  "same_key rq m \<longleftrightarrow> cq_key rq \<noteq> [] \<and> m_idempotency_key m = cq_key rq"

text \<open>\<open>Create\<close>'s scan: a refusal, an existing record to answer with, or \<open>None\<close> to go on.\<close>

fun admission :: "create_request \<Rightarrow> destination \<Rightarrow> migration_mode \<Rightarrow> migration list \<Rightarrow> (admit_error, migration option) outcome" where
  "admission rq d mode [] = Inr None"
| "admission rq d mode (m # ms) =
     (if m_workload_id m \<noteq> cq_workload rq \<and> \<not> same_key rq m then admission rq d mode ms
      else if same_key rq m then (if same_request rq d mode m then Inr (Some m) else Inl IdempotencyConflict)
      else if \<not> terminal (m_stage m) then Inl MigrationAlreadyActive
      else admission rq d mode ms)"

fun preflight_scan :: "create_request \<Rightarrow> destination \<Rightarrow> migration_mode \<Rightarrow> migration list \<Rightarrow> admit_error option" where
  "preflight_scan rq d mode [] = None"
| "preflight_scan rq d mode (m # ms) =
     (if same_key rq m then (if same_request rq d mode m then preflight_scan rq d mode ms else Some IdempotencyConflict)
      else if m_workload_id m = cq_workload rq \<and> \<not> terminal (m_stage m) then Some MigrationAlreadyActive
      else preflight_scan rq d mode ms)"

section \<open>The operations\<close>

definition new_migration :: "admit_env \<Rightarrow> string \<Rightarrow> create_request \<Rightarrow> destination \<Rightarrow> migration_mode \<Rightarrow> string \<Rightarrow> string \<Rightarrow> migration" where
  "new_migration env i rq d mode wid machine =
     \<lparr>m_id = i, m_idempotency_key = cq_key rq, m_workload_id = wid, m_checkpoint_id = [], m_source_machine_id = machine,
      m_destination = d, m_mode = mode, m_pre_copy_passes = cq_passes rq, m_stage = MigrationCreated,
      m_compatibility = \<lparr>cr_compatible = False, cr_issues = []\<rparr>,
      m_network = \<lparr>np_policy = NetworkReconnect, np_identity_ip = [], np_ports = [], np_sockets_carried = False, np_drain_before_checkpoint = False\<rparr>,
      m_metrics = \<lparr>mm_total_state_bytes = 0, mm_transferred_bytes = 0, mm_deduplicated_bytes = 0, mm_pre_copy_bytes = 0,
        mm_checkpoint_duration = 0, mm_restore_duration = 0, mm_downtime = 0, mm_transfer_duration = 0\<rparr>,
      m_events = [\<lparr>ev_sequence = 1, ev_stage = MigrationCreated, ev_message = MigrationCreatedNote, ev_timestamp = ae_now env, ev_progress = 0,
        ev_bytes_done = 0, ev_bytes_total = 0\<rparr>],
      m_created_at = ae_now env, m_updated_at = ae_now env, m_completed_at = None, m_failure_code = NoFailure, m_failure_reason = [],
      m_source_preserved = True, m_revision = 1\<rparr>"

text \<open>\<open>Create\<close>: the answer, whether a run was started for it, and the records.\<close>

definition create_migration ::
  "admit_env \<Rightarrow> create_request \<Rightarrow> 's orchestrator \<Rightarrow> (admit_error, migration \<times> bool) outcome \<times> 's orchestrator" where
  "create_migration env rq og =
     (if cq_workload rq = [] then (Inl WorkloadIdRequired, og)
      else case normalize_destination env (cq_destination rq) of
        Inl e \<Rightarrow> (Inl e, og)
      | Inr d \<Rightarrow>
     (case mode_of (cq_mode rq) of
        None \<Rightarrow> (Inl ModeUnsupported, og)
      | Some mode \<Rightarrow>
     (case check_workload (og_runtime og) (cq_workload rq) of
        Inl e \<Rightarrow> (Inl e, og)
      | Inr w \<Rightarrow>
     (case admission rq d mode (st_list (og_records og)) of
        Inl e \<Rightarrow> (Inl e, og)
      | Inr (Some m) \<Rightarrow> (Inr (m, False), og)
      | Inr None \<Rightarrow>
     (case ae_id env of
        None \<Rightarrow> (Inl NoFreshId, og)
      | Some i \<Rightarrow>
          let m = new_migration env i rq d mode (wsp_id (wl_spec w)) (og_machine og) in
          if \<not> ae_write env then (Inl RecordNotStored, og)
          else (Inr (m, True), og\<lparr>og_records := st_put i m (og_records og)\<rparr>))))))"

record preflight_result =
  pf_workload :: workload_spec
  pf_destination :: string
  pf_mode :: migration_mode
  pf_report :: compatibility_report
  pf_network :: network_plan

definition preflight :: "admit_env \<Rightarrow> create_request \<Rightarrow> 's orchestrator \<Rightarrow> (admit_error, preflight_result) outcome" where
  "preflight env rq og =
     (case normalize_destination env (cq_destination rq) of
        Inl e \<Rightarrow> Inl e
      | Inr d \<Rightarrow>
     (case mode_of (cq_mode rq) of
        None \<Rightarrow> Inl ModeUnsupported
      | Some mode \<Rightarrow>
     (case check_workload (og_runtime og) (cq_workload rq) of
        Inl e \<Rightarrow> Inl e
      | Inr w \<Rightarrow>
     (case preflight_scan rq d mode (st_list (og_records og)) of
        Some e \<Rightarrow> Inl e
      | None \<Rightarrow>
          if \<not> ae_client env then Inl DestinationUnreachable
          else case ae_machine env of
            None \<Rightarrow> Inl DestinationUnreachable
          | Some dest \<Rightarrow>
              if dest = og_machine og then Inl DestinationIsSource
              else if ds_machine_id d \<noteq> [] \<and> ds_machine_id d \<noteq> dest then Inl DestinationIdentityMismatch
              else if \<not> ae_inventory env then Inl InventoryFailed
              else case ae_plan env of
                None \<Rightarrow> Inl PlanInvalid
              | Some p \<Rightarrow> Inr \<lparr>pf_workload = wl_spec w, pf_destination = dest, pf_mode = mode, pf_report = ae_report env, pf_network = p\<rparr>))))"

section \<open>Facts about the scans\<close>

lemma port_in_range: "validate_port_number p = None \<Longrightarrow> p \<noteq> [] \<and> list_all digit p \<and> number_of p \<in> {1..65535}"
  by (auto simp: validate_port_number_def split: if_splits)

lemma explicit_port_in_range:
  assumes "validate_explicit_port host = None" and "take 1 host \<noteq> ''[''" and "CHR '':'' \<in> set host"
  shows "number_of (after_char (CHR '':'') host) \<in> {1..65535} \<and> length (filter (\<lambda>c. c = CHR '':'') host) = 1"
proof -
  from assms(3) have "length (filter (\<lambda>c. c = CHR '':'') host) \<noteq> 0" by (auto simp: filter_empty_conv)
  with assms(1,2) show ?thesis
    using port_in_range by (auto simp: validate_explicit_port_def split: if_splits)
qed

lemma admission_none:
  "admission rq d mode ms = Inr None \<longleftrightarrow> (\<forall>m \<in> set ms. \<not> same_key rq m \<and> (m_workload_id m = cq_workload rq \<longrightarrow> terminal (m_stage m)))"
  by (induction ms) auto

lemma admission_existing: "admission rq d mode ms = Inr (Some m) \<Longrightarrow> m \<in> set ms \<and> same_key rq m \<and> same_request rq d mode m"
  by (induction ms) (auto split: if_splits)

lemma preflight_scan_none:
  "preflight_scan rq d mode ms = None \<longleftrightarrow>
     (\<forall>m \<in> set ms. if same_key rq m then same_request rq d mode m else m_workload_id m = cq_workload rq \<longrightarrow> terminal (m_stage m))"
  by (induction ms) auto

lemma preflight_admits: "preflight_scan rq d mode ms = None \<Longrightarrow> \<exists>a. admission rq d mode ms = Inr a"
  by (induction ms) (auto split: if_splits)

lemma admission_replay:
  assumes "m \<in> set ms" and "same_key rq m" and "same_request rq d mode m"
    and "\<And>x. x \<in> set ms \<Longrightarrow> x \<noteq> m \<Longrightarrow> \<not> same_key rq x \<and> (m_workload_id x = cq_workload rq \<longrightarrow> terminal (m_stage x))"
  shows "admission rq d mode ms = Inr (Some m)"
  using assms by (induction ms) (auto split: if_splits)

section \<open>Properties\<close>

definition one_active :: "migration store \<Rightarrow> bool" where
  "one_active st \<longleftrightarrow> (\<forall>i j mi mj. st_get st i = Some mi \<longrightarrow> st_get st j = Some mj \<longrightarrow>
     m_workload_id mi = m_workload_id mj \<longrightarrow> \<not> terminal (m_stage mi) \<longrightarrow> \<not> terminal (m_stage mj) \<longrightarrow> i = j)"

lemma create_shape:
  assumes "create_migration env rq og = (res, og')"
  shows "og' = og \<or> (\<exists>i d mode w. res = Inr (new_migration env i rq d mode (wsp_id (wl_spec w)) (og_machine og), True)
     \<and> ae_id env = Some i \<and> admission rq d mode (st_list (og_records og)) = Inr None \<and> check_workload (og_runtime og) (cq_workload rq) = Inr w
     \<and> og' = og\<lparr>og_records := st_put i (new_migration env i rq d mode (wsp_id (wl_spec w)) (og_machine og)) (og_records og)\<rparr>)"
  using assms by (auto simp: create_migration_def Let_def split: if_splits sum.splits option.splits)

text \<open>
  C21.  A workload is moved by one migration at a time.  An accepted request that names the workload by its
  id keeps that no two records of a workload are open at once; a refused one, and a replay answered with its
  record, change nothing.
\<close>

theorem one_migration_at_a_time:
  assumes "one_active (og_records og)" and "st_ok (og_records og)" and "create_migration env rq og = (res, og')"
    and "\<And>w. rt_get (og_runtime og) (cq_workload rq) = Some w \<Longrightarrow> wsp_id (wl_spec w) = cq_workload rq"
  shows "one_active (og_records og') \<and> (og' \<noteq> og \<longrightarrow> (\<exists>m. res = Inr (m, True) \<and> m_workload_id m = cq_workload rq))"
  using create_shape [OF assms(3)]
proof (elim disjE exE conjE)
  fix i d mode and w :: workload
  let ?m = "new_migration env i rq d mode (wsp_id (wl_spec w)) (og_machine og)"
  assume a: "res = Inr (?m, True)" "admission rq d mode (st_list (og_records og)) = Inr None" "check_workload (og_runtime og) (cq_workload rq) = Inr w"
    "og' = og\<lparr>og_records := st_put i ?m (og_records og)\<rparr>"
  have wid: "m_workload_id ?m = cq_workload rq"
    using a(3) assms(4) by (auto simp: check_workload_def new_migration_def split: option.splits if_splits)
  have "terminal (m_stage x)" if "st_get (og_records og) k = Some x" "m_workload_id x = cq_workload rq" for k x
    using a(2) that st_list_member [OF assms(2), of x] by (auto simp: admission_none)
  with assms(1) wid a show ?thesis by (auto simp: one_active_def)
qed (use assms(1) in simp)

text \<open>
  C22.  A green preflight is kept: a request whose dry run succeeds is not refused by \<open>Create\<close> in the same
  state, once an id is drawn and the record is written.
\<close>

theorem green_preflight_is_admitted:
  assumes "preflight env rq og = Inr r" and "cq_workload rq \<noteq> []" and "ae_id env = Some i" and "ae_write env"
  shows "\<exists>m started og'. create_migration env rq og = (Inr (m, started), og') \<and> m_mode m = pf_mode r"
proof -
  from assms(1) obtain d mode w where a: "normalize_destination env (cq_destination rq) = Inr d" "mode_of (cq_mode rq) = Some mode"
    "check_workload (og_runtime og) (cq_workload rq) = Inr w" "preflight_scan rq d mode (st_list (og_records og)) = None" "pf_mode r = mode"
    by (auto simp: preflight_def split: sum.splits option.splits if_splits)
  obtain x where x: "admission rq d mode (st_list (og_records og)) = Inr x" using preflight_admits [OF a(4)] by blast
  show ?thesis
  proof (cases x)
    case None
    with a x assms(2-4) have "\<exists>og'. create_migration env rq og = (Inr (new_migration env i rq d mode (wsp_id (wl_spec w)) (og_machine og), True), og')"
      by (simp add: create_migration_def Let_def)
    moreover have "m_mode (new_migration env i rq d mode (wsp_id (wl_spec w)) (og_machine og)) = pf_mode r" using a(5) by (simp add: new_migration_def)
    ultimately show ?thesis by blast
  next
    case (Some m)
    with a x assms(2-4) admission_existing [of rq d mode _ m] show ?thesis by (auto simp: create_migration_def same_request_def)
  qed
qed

text \<open>
  A workload's name gets past the admission check.  The scan compares the request's text with the ids in
  the records, while the runtime also resolves a name: a request that names the workload by its name is
  accepted while another migration of it is open.
\<close>

theorem workload_name_bypasses_admission:
  assumes "rt_get (og_runtime og) (cq_workload rq) = Some w" and "wl_status w = WorkloadRunning" and "cq_workload rq \<noteq> []"
    and "st_get (og_records og) k = Some a" and "m_workload_id a = wsp_id (wl_spec w)" and "\<not> terminal (m_stage a)"
    and "\<forall>x \<in> set (st_list (og_records og)). m_workload_id x \<noteq> cq_workload rq" and "cq_key rq = []"
    and "normalize_destination env (cq_destination rq) = Inr d" and "mode_of (cq_mode rq) = Some mode"
    and "ae_id env = Some i" and "i \<noteq> k" and "ae_write env"
  shows "\<exists>m og'. create_migration env rq og = (Inr (m, True), og') \<and> \<not> one_active (og_records og')"
proof -
  have adm: "admission rq d mode (st_list (og_records og)) = Inr None"
    using assms(7,8) by (auto simp: admission_none same_key_def)
  let ?m = "new_migration env i rq d mode (wsp_id (wl_spec w)) (og_machine og)"
  have "create_migration env rq og = (Inr (?m, True), og\<lparr>og_records := st_put i ?m (og_records og)\<rparr>)"
    using assms adm by (simp add: create_migration_def check_workload_def Let_def)
  moreover have "\<not> one_active (st_put i ?m (og_records og))"
  proof
    assume "one_active (st_put i ?m (og_records og))"
    then have "i = k" if "st_get (st_put i ?m (og_records og)) i = Some ?m" "st_get (st_put i ?m (og_records og)) k = Some a"
        "m_workload_id ?m = m_workload_id a" "\<not> terminal (m_stage ?m)" "\<not> terminal (m_stage a)"
      using that unfolding one_active_def by blast
    with assms show False by (simp add: new_migration_def terminal_def)
  qed
  ultimately show ?thesis by simp
qed

text \<open>
  The answer to a replay depends on the order of the records.  When a finished migration answers the
  key and another migration of the workload is open, \<open>Create\<close> answers the replay with its record if that
  one is listed first and refuses it if the open one is; \<open>Preflight\<close> refuses it in both cases, although it
  promises to refuse only what \<open>Create\<close> refuses.
\<close>

theorem replay_depends_on_order:
  assumes "same_key rq b" and "same_request rq d mode b" and "\<not> same_key rq a" and "m_workload_id a = cq_workload rq" and "\<not> terminal (m_stage a)"
  shows "admission rq d mode [b, a] = Inr (Some b) \<and> admission rq d mode [a, b] = Inl MigrationAlreadyActive
    \<and> preflight_scan rq d mode [b, a] = Some MigrationAlreadyActive \<and> preflight_scan rq d mode [a, b] = Some MigrationAlreadyActive"
  using assms by simp

section \<open>Witnesses\<close>

definition sample_split :: "string \<Rightarrow> url_parts option" where
  "sample_split s = Some \<lparr>up_scheme = ''https'', up_user = False, up_host = ''b:8443'', up_hostname = ''b'', up_path = [], up_raw_query = [], up_fragment = []\<rparr>"

definition sample_admit :: admit_env where
  "sample_admit = \<lparr>ae_split = sample_split, ae_id = Some ''t2'', ae_now = 4, ae_write = True, ae_client = True, ae_machine = Some ''m2'', ae_inventory = True,
     ae_report = \<lparr>cr_compatible = True, cr_issues = []\<rparr>, ae_plan = Some sample_plan\<rparr>"

definition sample_create :: create_request where
  "sample_create = \<lparr>cq_workload = ''w1'', cq_key = ''k'', cq_destination = sample_destination, cq_mode = ModeLive, cq_passes = 3\<rparr>"

definition sample_admin :: "migration_stage \<Rightarrow> unit orchestrator" where
  "sample_admin s = \<lparr>og_records = [(''t1'', sample_migration\<lparr>m_id := ''t1'', m_stage := s\<rparr>)], og_freezes = [], og_runtime = rt_running, og_chunks = sample_store,
     og_peer = (), og_machine = ''m1'', og_drained = {}, og_status = [], og_tick = 0\<rparr>"

lemma sample_admin_ok: "one_active (og_records (sample_admin s))" "st_ok (og_records (sample_admin s))"
  by (auto simp: one_active_def sample_admin_def st_get_def st_ok_def split: if_splits)

theorem one_migration_at_a_time_witness:
  "one_active (og_records (snd (create_migration sample_admit sample_create (sample_admin MigrationCompleted))))
   \<and> fst (create_migration sample_admit sample_create (sample_admin MigrationTransfer)) = Inl MigrationAlreadyActive"
proof -
  have "fst (create_migration sample_admit sample_create (sample_admin MigrationTransfer)) = Inl MigrationAlreadyActive" by code_simp
  moreover have w: "wsp_id (wl_spec w) = cq_workload sample_create"
    if "rt_get (og_runtime (sample_admin MigrationCompleted)) (cq_workload sample_create) = Some w" for w
    using that by (auto simp: sample_admin_def sample_create_def rt_running_def rt_get_def st_get_def sample_normal_def sample_spec_def)
  note one_migration_at_a_time [OF sample_admin_ok prod.collapse [symmetric] w]
  ultimately show ?thesis by blast
qed

theorem green_preflight_is_admitted_witness:
  "\<exists>m started og'. create_migration sample_admit sample_create (sample_admin MigrationCompleted) = (Inr (m, started), og') \<and> m_mode m = MigrationLive"
proof -
  have "(case preflight sample_admit sample_create (sample_admin MigrationCompleted) of Inl e \<Rightarrow> False | Inr r \<Rightarrow> pf_mode r = MigrationLive)" by code_simp
  then obtain r where r: "preflight sample_admit sample_create (sample_admin MigrationCompleted) = Inr r" "pf_mode r = MigrationLive"
    by (auto split: sum.splits)
  have s: "cq_workload sample_create \<noteq> []" "ae_id sample_admit = Some ''t2''" "ae_write sample_admit" by (simp_all add: sample_create_def sample_admit_def)
  from green_preflight_is_admitted [OF r(1) s] r(2) show ?thesis by simp
qed

theorem workload_name_bypasses_admission_witness:
  "\<exists>m og'. create_migration sample_admit (sample_create\<lparr>cq_workload := ''job'', cq_key := []\<rparr>) (sample_admin MigrationTransfer) = (Inr (m, True), og')
     \<and> \<not> one_active (og_records og')"
proof -
  let ?rq = "sample_create\<lparr>cq_workload := ''job'', cq_key := []\<rparr>" and ?og = "sample_admin MigrationTransfer"
  let ?w = "the (rt_get rt_running ''job'')"
  have w: "rt_get (og_runtime ?og) (cq_workload ?rq) = Some ?w" "wl_status ?w = WorkloadRunning" "wsp_id (wl_spec ?w) = ''w1''"
    by (simp_all add: sample_admin_def sample_create_def rt_running_def rt_get_def st_get_def st_list_def sample_normal_def sample_spec_def)
  have d: "normalize_destination sample_admit (cq_destination ?rq) = Inr (sample_destination\<lparr>ds_agent_url := ''https://b:8443'', ds_server_name := ''b''\<rparr>)" by code_simp
  show ?thesis
    by (rule workload_name_bypasses_admission [OF w(1,2), where k = "''t1''", OF _ _ _ _ _ _ d])
       (auto simp: w(3) sample_create_def sample_admin_def sample_admit_def st_get_def st_list_def sample_migration_def terminal_def mode_of_def)
qed

theorem replay_depends_on_order_witness:
  "preflight_scan sample_create sample_destination MigrationLive
     [sample_migration\<lparr>m_idempotency_key := ''k'', m_mode := MigrationLive, m_pre_copy_passes := 3, m_stage := MigrationCompleted\<rparr>,
      sample_migration\<lparr>m_stage := MigrationTransfer\<rparr>] = Some MigrationAlreadyActive"
  using replay_depends_on_order [of sample_create
      "sample_migration\<lparr>m_idempotency_key := ''k'', m_mode := MigrationLive, m_pre_copy_passes := 3, m_stage := MigrationCompleted\<rparr>"
      sample_destination MigrationLive "sample_migration\<lparr>m_stage := MigrationTransfer\<rparr>"]
  by (simp add: same_key_def same_request_def sample_create_def sample_migration_def destination_matches_def terminal_def)

end
