(* ===== verification/Checkpoint_Repository.thy ===== *)
theory Checkpoint_Repository
  imports Encrypted_Collection Chunk_Store Go_Strings "HOL-Library.Multiset"
begin

text \<open>
  \<^verbatim>\<open>src/internal/checkpoint/repository.go\<close> and \<^verbatim>\<open>trust.go\<close>: the repository of encrypted, signed checkpoint
  manifests beside the chunk store; the retention of \<^verbatim>\<open>service.go\<close> (\<open>Delete\<close>, \<open>PruneWorkload\<close>, \<open>Import\<close>) and the
  lineage walk of \<^verbatim>\<open>restore.go\<close> (\<open>processChain\<close>).  The index is an encrypted collection of
  \<open>Encrypted_Collection\<close>, the data keys are those of \<open>Workload_Keys\<close>.  A manifest file is represented by
  its size and what it decodes to; encryption is symbolic, as for the workload keys; digests and signatures
  are the parameter \<open>signing\<close>.
\<close>

section \<open>Manifests\<close>

record full_manifest =
  cm_format :: string
  cm_format_version :: string
  cm_id :: string
  cm_parent :: string
  cm_kind :: string
  cm_created :: time
  cm_workload :: string
  cm_workload_name :: string
  cm_source :: string
  cm_public_key :: string
  cm_assets :: "asset_manifest list"
  cm_plain_bytes :: int
  cm_stored_bytes :: int
  cm_signer :: string
  cm_algorithm :: string
  cm_signature :: "bytes option"
  cm_sha :: string

record summary =
  sm_id :: string
  sm_workload :: string
  sm_workload_name :: string
  sm_parent :: string
  sm_kind :: string
  sm_created :: time
  sm_plain_bytes :: int
  sm_stored_bytes :: int
  sm_key_version :: nat
  sm_hash :: string

text \<open>
  The ciphertext remembers the key, the workload, the nonce and the associated data it was sealed with;
  its plaintext decodes to a manifest or to nothing.  The base64 fields of an envelope are what they
  decode to.
\<close>

datatype sealed_manifest = SealedManifest key string bytes bytes "full_manifest option"

record envelope =
  ev_format :: int
  ev_workload :: string
  ev_checkpoint :: string
  ev_key_version :: nat
  ev_nonce :: "bytes option"
  ev_ciphertext :: "sealed_manifest option"

record manifest_file =
  mf_size :: int
  mf_envelope :: "envelope option"

text \<open>
  The digest of a manifest's canonical JSON, the parser of public keys, the digest of a key's encoding and
  the signature check.
\<close>

record signing =
  sg_digest :: "full_manifest \<Rightarrow> string"
  sg_parse :: "string \<Rightarrow> string option"
  sg_sha :: "string \<Rightarrow> string"
  sg_verify :: "string \<Rightarrow> string \<Rightarrow> bytes \<Rightarrow> bool"

datatype repo_error = IdRequiredR | IdShape | IdReserved | StateFormat | SignerIdentity | SourceKey
  | SignatureEncoding | ManifestDigest | SignatureInvalid | RepoKey key_error | SealFailed | IndexFailed coll_error
  | NoManifest | ManifestSize | EnvelopeDecode | EnvelopeInvalid | NonceEncoding | CipherEncoding | ManifestOpen
  | ManifestDecode | EnvelopeDisagrees | IndexDisagrees | HashDisagrees | IdExists | ManifestWrite | RemoveFailed
  | UntrustedSigner | StillParent | ChainLimit | KeepNegative | ForeignParent | ChainCycle | NoProcessState
  | MalformedPass | DuplicatePass | MissingPass | AssetInvalid | MachineId | TrustWrite

definition max_manifest_bytes :: int where
  "max_manifest_bytes = 8 * 2 ^ 20"

subsection \<open>Identifiers\<close>

definition alnum :: "char \<Rightarrow> bool" where
  "alnum c \<longleftrightarrow> (CHR ''0'' \<le> c \<and> c \<le> CHR ''9'') \<or> (CHR ''A'' \<le> c \<and> c \<le> CHR ''Z'') \<or> (CHR ''a'' \<le> c \<and> c \<le> CHR ''z'')"

definition id_shape :: "string \<Rightarrow> bool" where
  "id_shape s = (case s of [] \<Rightarrow> False
     | c # cs \<Rightarrow> alnum c \<and> length cs \<le> 127 \<and> list_all (\<lambda>d. alnum d \<or> d \<in> set ''._-'') cs)"

definition reserved_names :: "string list" where
  "reserved_names = [''index.enc.json'', ''trusted-sources.json'']"

definition repo_validate_id :: "string \<Rightarrow> repo_error option" where
  "repo_validate_id s =
     (if s = [] then Some IdRequiredR
      else if \<not> id_shape s then Some IdShape
      else if s \<in> set reserved_names then Some IdReserved
      else None)"

subsection \<open>Signatures\<close>

definition state_format_name :: string where
  "state_format_name = ''shift-state''"

definition state_format_version :: string where
  "state_format_version = ''1.0.0''"

definition public_key_id :: "signing \<Rightarrow> string \<Rightarrow> string option" where
  "public_key_id sg pem = map_option (sg_sha sg) (sg_parse sg pem)"

definition identity_verify :: "signing \<Rightarrow> string \<Rightarrow> string \<Rightarrow> bytes \<Rightarrow> bool" where
  "identity_verify sg pem message sig = (case sg_parse sg pem of None \<Rightarrow> False | Some k \<Rightarrow> sg_verify sg k message sig)"

definition unsigned :: "full_manifest \<Rightarrow> full_manifest" where
  "unsigned m = m\<lparr>cm_signature := Some [], cm_sha := []\<rparr>"

record signer =
  si_machine :: string
  si_public_key :: string
  si_sign :: "string \<Rightarrow> bytes"

definition sign_manifest :: "signing \<Rightarrow> signer \<Rightarrow> full_manifest \<Rightarrow> full_manifest" where
  "sign_manifest sg si m =
     (let m1 = unsigned (m\<lparr>cm_source := si_machine si, cm_public_key := si_public_key si,
                           cm_signer := si_machine si, cm_algorithm := ''Ed25519+SHA-256''\<rparr>);
          digest = sg_digest sg m1 in
      m1\<lparr>cm_sha := digest, cm_signature := Some (si_sign si digest)\<rparr>)"

definition verify_manifest :: "signing \<Rightarrow> full_manifest \<Rightarrow> repo_error option" where
  "verify_manifest sg m =
     (case repo_validate_id (cm_id m) of Some e \<Rightarrow> Some e | None \<Rightarrow>
      case repo_validate_id (cm_workload m) of Some e \<Rightarrow> Some e | None \<Rightarrow>
      if cm_format m \<noteq> state_format_name \<or> cm_format_version m \<noteq> state_format_version then Some StateFormat
      else if cm_source m = [] \<or> cm_source m \<noteq> cm_signer m then Some SignerIdentity
      else if public_key_id sg (cm_public_key m) \<noteq> Some (cm_source m) then Some SourceKey
      else case cm_signature m of None \<Rightarrow> Some SignatureEncoding | Some sig \<Rightarrow>
      if sg_digest sg (unsigned m) \<noteq> cm_sha m then Some ManifestDigest
      else if \<not> identity_verify sg (cm_public_key m) (sg_digest sg (unsigned m)) sig then Some SignatureInvalid
      else None)"

section \<open>The repository\<close>

text \<open>
  The state directory: the index in memory and on disk, the directories below \<^verbatim>\<open>checkpoints/\<close> (a directory
  may lack its manifest), the trusted signers with the trust file, and the chunk store, which holds the
  key manager that the repository uses too, with the modification time of every chunk file.
\<close>

record checkpoint_state =
  ks_index :: "summary collection"
  ks_disk :: "summary disk"
  ks_dirs :: "manifest_file option store"
  ks_trusted :: "string list"
  ks_trust_file :: "string list"
  ks_chunks :: chunk_store
  ks_mtime :: "chunk_path \<Rightarrow> time"

definition manifest_aad :: "string \<Rightarrow> string \<Rightarrow> nat \<Rightarrow> bytes" where
  "manifest_aad w cid kv =
     ''shift-checkpoint-manifest-v1'' @ [newline] @ w @ [newline] @ cid @ [newline] @ show_nat kv"

definition seal_manifest :: "key \<Rightarrow> string \<Rightarrow> bytes \<Rightarrow> bytes \<Rightarrow> full_manifest \<Rightarrow> sealed_manifest option" where
  "seal_manifest k w nonce aad m =
     (if length k \<noteq> key_size then None else Some (SealedManifest k w nonce aad (Some m)))"

fun open_manifest :: "key \<Rightarrow> string \<Rightarrow> bytes \<Rightarrow> bytes \<Rightarrow> sealed_manifest \<Rightarrow> full_manifest option option" where
  "open_manifest k w nonce aad (SealedManifest k' w' nonce' aad' content) =
     (if length k \<noteq> key_size \<or> length nonce \<noteq> nonce_size then None
      else if k = k' \<and> w = w' \<and> nonce = nonce' \<and> aad = aad' then Some content else None)"

definition decode_encrypted_manifest ::
  "signing \<Rightarrow> chunk_store \<Rightarrow> string \<Rightarrow> manifest_file \<Rightarrow> (repo_error, full_manifest \<times> envelope) outcome" where
  "decode_encrypted_manifest sg chunks cid file =
     (case repo_validate_id cid of Some e \<Rightarrow> Inl e | None \<Rightarrow>
      if mf_size file = 0 \<or> mf_size file > max_manifest_bytes then Inl ManifestSize
      else case mf_envelope file of None \<Rightarrow> Inl EnvelopeDecode | Some ev \<Rightarrow>
      if ev_format ev \<noteq> 1 \<or> ev_workload ev = [] \<or> ev_checkpoint ev \<noteq> cid \<or> ev_key_version ev = 0 then Inl EnvelopeInvalid
      else case repo_validate_id (ev_workload ev) of Some e \<Rightarrow> Inl e | None \<Rightarrow>
     (case workload_key (cs_km chunks) (cs_keys chunks) (ev_workload ev) (ev_key_version ev) of Inl e \<Rightarrow> Inl (RepoKey e) | Inr k \<Rightarrow>
     (case ev_nonce ev of None \<Rightarrow> Inl NonceEncoding | Some nonce \<Rightarrow>
     (case ev_ciphertext ev of None \<Rightarrow> Inl CipherEncoding | Some ct \<Rightarrow>
     (case open_manifest k (ev_workload ev) nonce (manifest_aad (ev_workload ev) cid (ev_key_version ev)) ct of
        None \<Rightarrow> Inl ManifestOpen
      | Some None \<Rightarrow> Inl ManifestDecode
      | Some (Some m) \<Rightarrow>
          if cm_id m \<noteq> cid \<or> cm_workload m \<noteq> ev_workload ev then Inl EnvelopeDisagrees
          else case verify_manifest sg m of Some e \<Rightarrow> Inl e | None \<Rightarrow> Inr (m, ev))))))"

definition dir_manifest :: "checkpoint_state \<Rightarrow> string \<Rightarrow> manifest_file option" where
  "dir_manifest st cid = Option.bind (st_get (ks_dirs st) cid) id"

text \<open>
  \<open>loadEncryptedManifest\<close>.  A valid identifier is a single path component, so the containment test of
  \<open>checkpointDir\<close> always holds after \<open>validateID\<close> and is not repeated.
\<close>

definition repo_load :: "signing \<Rightarrow> checkpoint_state \<Rightarrow> string \<Rightarrow> (repo_error, full_manifest) outcome" where
  "repo_load sg st cid =
     (case repo_validate_id cid of Some e \<Rightarrow> Inl e | None \<Rightarrow>
     (case coll_get (ks_index st) cid of Inl e \<Rightarrow> Inl (IndexFailed e) | Inr s \<Rightarrow>
     (case dir_manifest st cid of None \<Rightarrow> Inl NoManifest | Some file \<Rightarrow>
      if mf_size file > max_manifest_bytes then Inl ManifestSize
      else case decode_encrypted_manifest sg (ks_chunks st) cid file of Inl e \<Rightarrow> Inl e | Inr (m, ev) \<Rightarrow>
      if ev_format ev \<noteq> 1 \<or> ev_workload ev \<noteq> sm_workload s \<or> ev_checkpoint ev \<noteq> cid \<or> ev_key_version ev \<noteq> sm_key_version s
      then Inl IndexDisagrees
      else if cm_sha m \<noteq> sm_hash s then Inl HashDisagrees
      else Inr m)))"

text \<open>
  What one \<open>Save\<close> meets: the success of storing a new data key and the key drawn for it, the nonce, the size
  of the encoded envelope, how far writing the file gets (its directory missing, made without the file, the
  file in place but the directory not synced, or all done), the faults of the index and whether the manifest
  can be removed again.
\<close>

datatype file_write = NoDirectory | Unwritten | Unsynced | Landed

record save_io =
  sv_key :: bool
  sv_fresh :: key
  sv_nonce :: bytes
  sv_size :: int
  sv_write :: file_write
  sv_index :: io_faults
  sv_unlink :: bool

definition put_dir :: "string \<Rightarrow> manifest_file option \<Rightarrow> checkpoint_state \<Rightarrow> checkpoint_state" where
  "put_dir cid f st = st\<lparr>ks_dirs := st_put cid f (ks_dirs st)\<rparr>"

definition write_manifest :: "file_write \<Rightarrow> string \<Rightarrow> manifest_file \<Rightarrow> checkpoint_state \<Rightarrow> bool \<times> checkpoint_state" where
  "write_manifest fw cid file st =
     (case fw of
        NoDirectory \<Rightarrow> (False, st)
      | Unwritten \<Rightarrow> (False, if st_get (ks_dirs st) cid = None then put_dir cid None st else st)
      | Unsynced \<Rightarrow> (False, put_dir cid (Some file) st)
      | Landed \<Rightarrow> (True, put_dir cid (Some file) st))"

definition summary_of :: "nat \<Rightarrow> full_manifest \<Rightarrow> summary" where
  "summary_of kv m = \<lparr>sm_id = cm_id m, sm_workload = cm_workload m, sm_workload_name = cm_workload_name m,
     sm_parent = cm_parent m, sm_kind = cm_kind m, sm_created = cm_created m, sm_plain_bytes = cm_plain_bytes m,
     sm_stored_bytes = cm_stored_bytes m, sm_key_version = kv, sm_hash = cm_sha m\<rparr>"

definition set_keys :: "key_disk \<Rightarrow> checkpoint_state \<Rightarrow> checkpoint_state" where
  "set_keys keys st = st\<lparr>ks_chunks := (ks_chunks st)\<lparr>cs_keys := keys\<rparr>\<rparr>"

definition set_index :: "summary collection \<Rightarrow> summary disk \<Rightarrow> checkpoint_state \<Rightarrow> checkpoint_state" where
  "set_index c dk st = st\<lparr>ks_index := c, ks_disk := dk\<rparr>"

definition install_manifest :: "save_io \<Rightarrow> nat \<Rightarrow> full_manifest \<Rightarrow> manifest_file \<Rightarrow> checkpoint_state \<Rightarrow> repo_error option \<times> checkpoint_state" where
  "install_manifest io kv m file st =
     (case write_manifest (sv_write io) (cm_id m) file st of
        (False, st1) \<Rightarrow> (Some ManifestWrite, st1)
      | (True, st1) \<Rightarrow>
     (case coll_put (sv_index io) (cm_id m) (summary_of kv m) (ks_index st1) (ks_disk st1) of
        (Inr _, c, dk) \<Rightarrow> (None, set_index c dk st1)
      | (Inl e, c, dk) \<Rightarrow>
          (Some (IndexFailed e), (if sv_unlink io then put_dir (cm_id m) None else id) (set_index c dk st1))))"

definition repo_save :: "signing \<Rightarrow> save_io \<Rightarrow> full_manifest \<Rightarrow> checkpoint_state \<Rightarrow> repo_error option \<times> checkpoint_state" where
  "repo_save sg io m st =
     (case repo_validate_id (cm_id m) of Some e \<Rightarrow> (Some e, st) | None \<Rightarrow>
      case repo_validate_id (cm_workload m) of Some e \<Rightarrow> (Some e, st) | None \<Rightarrow>
      case verify_manifest sg m of Some e \<Rightarrow> (Some e, st) | None \<Rightarrow>
      case get_or_create_workload_key (sv_key io) (sv_fresh io) (cs_km (ks_chunks st)) (cm_workload m) (cs_keys (ks_chunks st)) of
        (Inl e, keys) \<Rightarrow> (Some (RepoKey e), set_keys keys st)
      | (Inr (kv, k), keys) \<Rightarrow>
          let st1 = set_keys keys st in
          case seal_manifest k (cm_workload m) (sv_nonce io) (manifest_aad (cm_workload m) (cm_id m) kv) m of
            None \<Rightarrow> (Some SealFailed, st1)
          | Some ct \<Rightarrow>
              let file = \<lparr>mf_size = sv_size io, mf_envelope = Some \<lparr>ev_format = 1, ev_workload = cm_workload m,
                    ev_checkpoint = cm_id m, ev_key_version = kv, ev_nonce = Some (sv_nonce io), ev_ciphertext = Some ct\<rparr>\<rparr> in
              case repo_load sg st1 (cm_id m) of
                Inr existing \<Rightarrow> (if cm_sha existing = cm_sha m then None else Some IdExists, st1)
              | Inl (IndexFailed NotFound) \<Rightarrow> install_manifest io kv m file st1
              | Inl NoManifest \<Rightarrow> install_manifest io kv m file st1
              | Inl e \<Rightarrow> (Some e, st1))"

text \<open>
  \<open>List\<close>.  \<open>sort.Slice\<close> leaves the order of checkpoints created at the same instant open: the sorted result is
  produced by a parameter of which \<open>newest_first\<close> is known.
\<close>

type_synonym sorter = "summary list \<Rightarrow> summary list"

definition newest_first :: "sorter \<Rightarrow> bool" where
  "newest_first srt \<longleftrightarrow> (\<forall>xs. mset (srt xs) = mset xs \<and> sorted_wrt (\<lambda>a b. sm_created b \<le> sm_created a) (srt xs))"

definition repo_list :: "sorter \<Rightarrow> checkpoint_state \<Rightarrow> string \<Rightarrow> summary list" where
  "repo_list srt st w = srt (filter (\<lambda>s. w = [] \<or> sm_workload s = w) (coll_list (ks_index st)))"

text \<open>\<open>RemoveAll\<close> empties the directory, or fails with or without having removed the manifest.\<close>

datatype dir_removal = Removed | Kept | Emptied

record delete_io =
  dl_index :: io_faults
  dl_dir :: dir_removal

definition remove_dir :: "dir_removal \<Rightarrow> string \<Rightarrow> checkpoint_state \<Rightarrow> checkpoint_state" where
  "remove_dir r cid st =
     (case r of Removed \<Rightarrow> st\<lparr>ks_dirs := st_del cid (ks_dirs st)\<rparr> | Kept \<Rightarrow> st
      | Emptied \<Rightarrow> if st_get (ks_dirs st) cid = None then st else put_dir cid None st)"

definition repo_delete :: "delete_io \<Rightarrow> string \<Rightarrow> checkpoint_state \<Rightarrow> repo_error option \<times> checkpoint_state" where
  "repo_delete io cid st =
     (case repo_validate_id cid of Some e \<Rightarrow> (Some e, st) | None \<Rightarrow>
      case coll_get (ks_index st) cid of Inl e \<Rightarrow> (Some (IndexFailed e), st) | Inr _ \<Rightarrow>
     (case coll_delete (dl_index io) cid (ks_index st) (ks_disk st) of
        (Inl e, c, dk) \<Rightarrow> (Some (IndexFailed e), set_index c dk st)
      | (Inr _, c, dk) \<Rightarrow>
          (if dl_dir io = Removed then None else Some RemoveFailed, remove_dir (dl_dir io) cid (set_index c dk st))))"

section \<open>Trusted signers\<close>

definition valid_machine_id :: "string \<Rightarrow> bool" where
  "valid_machine_id s \<longleftrightarrow> length s = 64 \<and> list_all (\<lambda>c. c \<in> set ''0123456789abcdef'') s"

definition trust_local :: "string \<Rightarrow> checkpoint_state \<Rightarrow> checkpoint_state" where
  "trust_local s st = st\<lparr>ks_trusted := List.insert s (ks_trusted st)\<rparr>"

definition pin :: "bool \<Rightarrow> string \<Rightarrow> checkpoint_state \<Rightarrow> repo_error option \<times> checkpoint_state" where
  "pin write_ok s st =
     (if \<not> valid_machine_id s then (Some MachineId, st)
      else let st1 = trust_local s st in
      if write_ok then (None, st1\<lparr>ks_trust_file := ks_trusted st1\<rparr>) else (Some TrustWrite, st1))"

definition admit :: "checkpoint_state \<Rightarrow> full_manifest \<Rightarrow> bool" where
  "admit st m \<longleftrightarrow> cm_signer m \<noteq> [] \<and> cm_signer m \<in> set (ks_trusted st)"

definition open_trust_store :: "string list \<Rightarrow> string list option" where
  "open_trust_store file = (if list_all valid_machine_id file then Some (remdups file) else None)"

definition import_checkpoint :: "signing \<Rightarrow> save_io \<Rightarrow> full_manifest \<Rightarrow> checkpoint_state \<Rightarrow> repo_error option \<times> checkpoint_state" where
  "import_checkpoint sg io m st = (if admit st m then repo_save sg io m st else (Some UntrustedSigner, st))"

section \<open>Lineage\<close>

definition asset_by_name :: "asset_manifest list \<Rightarrow> string \<Rightarrow> asset_manifest option" where
  "asset_by_name as name = find (\<lambda>a. am_name a = name) as"

definition precopy_prefix :: string where
  "precopy_prefix = ''process-state-precopy-''"

text \<open>The pre-copy passes by number, in the order of the assets.\<close>

fun index_passes :: "asset_manifest list \<Rightarrow> (int \<times> asset_manifest) list \<Rightarrow> (repo_error, (int \<times> asset_manifest) list) outcome" where
  "index_passes [] m = Inr m"
| "index_passes (a # as) m =
     (if am_name a = ''process-state'' \<or> \<not> prefix precopy_prefix (am_name a) then index_passes as m
      else case atoi (drop (length precopy_prefix) (am_name a)) of
        None \<Rightarrow> Inl MalformedPass
      | Some n \<Rightarrow>
          if n < 1 then Inl MalformedPass
          else if map_of m n \<noteq> None then Inl DuplicatePass
          else index_passes as ((n, a) # m))"

fun ordered_passes :: "(int \<times> asset_manifest) list \<Rightarrow> int \<Rightarrow> nat \<Rightarrow> (repo_error, asset_manifest list) outcome" where
  "ordered_passes m i 0 = Inr []"
| "ordered_passes m i (Suc n) =
     (case map_of m i of None \<Rightarrow> Inl MissingPass | Some a \<Rightarrow>
     (case ordered_passes m (i + 1) n of Inl e \<Rightarrow> Inl e | Inr as \<Rightarrow> Inr (a # as)))"

definition process_image_assets :: "full_manifest \<Rightarrow> (repo_error, asset_manifest \<times> asset_manifest list) outcome" where
  "process_image_assets m =
     (case asset_by_name (cm_assets m) ''process-state'' of None \<Rightarrow> Inl NoProcessState | Some final \<Rightarrow>
     (case index_passes (cm_assets m) [] of Inl e \<Rightarrow> Inl e | Inr passes \<Rightarrow>
     (case ordered_passes passes 1 (length passes) of Inl e \<Rightarrow> Inl e | Inr ps \<Rightarrow> Inr (final, ps))))"

text \<open>
  \<open>processChain\<close>: the walk admits \<open>n\<close> more ancestors, \<open>seen\<close> are the identifiers of the chain so far.
\<close>

fun chain_from :: "signing \<Rightarrow> checkpoint_state \<Rightarrow> string \<Rightarrow> nat \<Rightarrow> string list \<Rightarrow> full_manifest \<Rightarrow> (repo_error, full_manifest list) outcome" where
  "chain_from sg st w 0 seen m = (if cm_parent m = [] then Inr [m] else Inl ChainLimit)"
| "chain_from sg st w (Suc n) seen m =
     (if cm_parent m = [] then Inr [m]
      else case repo_load sg st (cm_parent m) of Inl e \<Rightarrow> Inl e | Inr p \<Rightarrow>
      if cm_workload p \<noteq> w then Inl ForeignParent
      else if cm_id p \<in> set seen then Inl ChainCycle
      else case chain_from sg st w n (cm_id p # seen) p of Inl e \<Rightarrow> Inl e | Inr ms \<Rightarrow> Inr (m # ms))"

definition max_chain :: nat where
  "max_chain = 256"

definition member_assets :: "full_manifest \<Rightarrow> (repo_error, asset_manifest list) outcome" where
  "member_assets m = (case process_image_assets m of Inl e \<Rightarrow> Inl e | Inr (final, passes) \<Rightarrow> Inr (final # passes))"

definition member_valid :: "codec \<Rightarrow> chunk_store \<Rightarrow> string \<Rightarrow> full_manifest \<Rightarrow> bool" where
  "member_valid cx chunks w m = (case member_assets m of Inl _ \<Rightarrow> False | Inr as \<Rightarrow> list_all (validate_asset cx chunks w) as)"

definition process_chain :: "codec \<Rightarrow> signing \<Rightarrow> checkpoint_state \<Rightarrow> full_manifest \<Rightarrow> (repo_error, full_manifest list) outcome" where
  "process_chain cx sg st m =
     (case chain_from sg st (cm_workload m) (max_chain - 1) [cm_id m] m of Inl e \<Rightarrow> Inl e | Inr chain \<Rightarrow>
      if list_all (member_valid cx (ks_chunks st) (cm_workload m)) chain then Inr chain else Inl AssetInvalid)"

section \<open>Retention\<close>

text \<open>\<open>deleteUnlessNeeded\<close>: the parent chain of one retained checkpoint, at most \<open>n\<close> entries long.\<close>

datatype walk = Clear | Needed | TooLong

fun parent_walk :: "(string \<rightharpoonup> summary) \<Rightarrow> string \<Rightarrow> nat \<Rightarrow> string \<Rightarrow> walk" where
  "parent_walk by_id target 0 p = (if p = [] then Clear else TooLong)"
| "parent_walk by_id target (Suc n) p =
     (if p = [] then Clear
      else if p = target then Needed
      else case by_id p of None \<Rightarrow> Clear | Some s \<Rightarrow> parent_walk by_id target n (sm_parent s))"

definition by_id_of :: "summary list \<Rightarrow> (string \<times> summary) list" where
  "by_id_of ss = rev (map (\<lambda>s. (sm_id s, s)) ss)"

text \<open>
  The code visits the retained checkpoints in no particular order and reports the first one that stands in
  the way; here the list decides which of the two errors is reported.
\<close>

definition delete_unless_needed :: "sorter \<Rightarrow> checkpoint_state \<Rightarrow> full_manifest \<Rightarrow> repo_error option" where
  "delete_unless_needed srt st m =
     (let ss = repo_list srt st (cm_workload m);
          walks = map (\<lambda>s. parent_walk (map_of (by_id_of ss)) (cm_id m) max_chain (sm_parent s)) (filter (\<lambda>s. sm_id s \<noteq> cm_id m) ss) in
      case filter (\<lambda>x. x \<noteq> Clear) walks of [] \<Rightarrow> None | x # _ \<Rightarrow> Some (if x = Needed then StillParent else ChainLimit))"

definition service_delete :: "signing \<Rightarrow> sorter \<Rightarrow> delete_io \<Rightarrow> string \<Rightarrow> checkpoint_state \<Rightarrow> repo_error option \<times> checkpoint_state" where
  "service_delete sg srt io cid st =
     (case repo_load sg st cid of Inl e \<Rightarrow> (Some e, st) | Inr m \<Rightarrow>
     (case delete_unless_needed srt st m of Some e \<Rightarrow> (Some e, st) | None \<Rightarrow> repo_delete io cid st))"

function protect :: "(string \<times> summary) list \<Rightarrow> string list \<Rightarrow> string \<Rightarrow> string list" where
  "protect by_id prot p =
     (if p = [] then prot
      else case map_of by_id p of None \<Rightarrow> prot
      | Some s \<Rightarrow> if p \<in> set prot then prot else protect by_id (p # prot) (sm_parent s))"
  by pat_completeness auto

lemma protect_measure:
  assumes "map_of by_id p = Some s" and "p \<notin> set prot"
  shows "length (filter (\<lambda>e. fst e \<notin> set (p # prot)) by_id) < length (filter (\<lambda>e. fst e \<notin> set prot) by_id)"
proof -
  have sub: "filter (\<lambda>e. fst e \<notin> set (p # prot)) by_id = filter (\<lambda>e. fst e \<noteq> p) (filter (\<lambda>e. fst e \<notin> set prot) by_id)"
    by (auto simp: conj_commute intro!: filter_cong)
  have "(p, s) \<in> set (filter (\<lambda>e. fst e \<notin> set prot) by_id)"
    using assms by (auto dest: map_of_SomeD)
  then show ?thesis unfolding sub by (rule length_filter_less) simp
qed

termination protect
  by (relation "measure (\<lambda>(by_id, prot, p). length (filter (\<lambda>e. fst e \<notin> set prot) by_id))")
    (simp_all add: protect_measure del: set_simps list.set)

declare protect.simps [simp del]

definition protected_ids :: "(string \<times> summary) list \<Rightarrow> summary list \<Rightarrow> string list" where
  "protected_ids by_id kept = foldl (\<lambda>prot s. protect by_id (List.insert (sm_id s) prot) (sm_parent s)) [] kept"

fun prune_each :: "signing \<Rightarrow> sorter \<Rightarrow> (nat \<Rightarrow> delete_io) \<Rightarrow> string list \<Rightarrow> nat \<Rightarrow> summary list \<Rightarrow> checkpoint_state \<Rightarrow> string list \<times> repo_error option \<times> checkpoint_state" where
  "prune_each sg srt io prot i [] st = ([], None, st)"
| "prune_each sg srt io prot i (s # ss) st =
     (if sm_id s \<in> set prot then prune_each sg srt io prot (Suc i) ss st
      else case service_delete sg srt (io i) (sm_id s) st of
        (Some e, st1) \<Rightarrow> ([], Some e, st1)
      | (None, st1) \<Rightarrow>
     (case prune_each sg srt io prot (Suc i) ss st1 of (gone, e, st2) \<Rightarrow> (sm_id s # gone, e, st2)))"

definition prune_workload :: "signing \<Rightarrow> sorter \<Rightarrow> (nat \<Rightarrow> delete_io) \<Rightarrow> string \<Rightarrow> int \<Rightarrow> checkpoint_state \<Rightarrow> string list \<times> repo_error option \<times> checkpoint_state" where
  "prune_workload sg srt io w keep st =
     (if keep < 0 then ([], Some KeepNegative, st)
      else let ss = repo_list srt st w in
      if int (length ss) \<le> keep then ([], None, st)
      else prune_each sg srt io (protected_ids (by_id_of ss) (take (nat keep) ss)) 0 (drop (nat keep) ss) st)"

section \<open>Identifiers are path components\<close>

lemma repo_id_component:
  "repo_validate_id s = None \<Longrightarrow> s \<noteq> [] \<and> CHR ''/'' \<notin> set s \<and> s \<noteq> ''.'' \<and> s \<noteq> ''..'' \<and> length s \<le> 128"
  by (auto simp: repo_validate_id_def id_shape_def alnum_def list_all_iff less_eq_char_def split: if_splits list.splits)

section \<open>What the index says\<close>

text \<open>
  Every index entry is the summary of a manifest whose digest it records.  With a digest that determines
  the parent of a manifest, the summary of a checkpoint then names the parent its manifest names.
\<close>

definition index_faithful :: "signing \<Rightarrow> checkpoint_state \<Rightarrow> bool" where
  "index_faithful sg st \<longleftrightarrow> st_ok (cd_items (co_data (ks_index st)))
     \<and> (\<forall>cid s. contents (ks_index st) cid = Some s
          \<longrightarrow> (\<exists>kv m. s = summary_of kv m \<and> cm_id m = cid \<and> cm_sha m = sg_digest sg (unsigned m)))"

definition digest_binds_parent :: "signing \<Rightarrow> bool" where
  "digest_binds_parent sg \<longleftrightarrow> (\<forall>a b. sg_digest sg a = sg_digest sg b \<longrightarrow> cm_parent a = cm_parent b)"

lemma append_entry_items:
  "append_entry io oper k v c dk = (r, c', dk') \<Longrightarrow> cd_items (co_data c') = cd_items (co_data c)"
  by (auto simp: append_entry_def Let_def maybe_compact_def compact_def persist_def split: if_splits prod.splits option.splits)

lemma set_items_items [simp]: "cd_items (co_data (set_items c s)) = s"
  by (simp add: set_items_def)

lemma coll_put_items:
  assumes "coll_put io k v c dk = (r, c', dk')"
  shows "cd_items (co_data c') = (if failed r then cd_items (co_data c) else st_put k v (cd_items (co_data c)))"
  using assms
  by (auto simp: coll_put_def Let_def dest: append_entry_items split: if_splits prod.splits option.splits)

lemma coll_delete_items:
  assumes "coll_delete io k c dk = (r, c', dk')"
  shows "cd_items (co_data c') = (if failed r then cd_items (co_data c) else st_del k (cd_items (co_data c)))"
  using assms
  by (auto simp: coll_delete_def Let_def dest: append_entry_items split: if_splits prod.splits option.splits)

lemma coll_get_contents: "coll_get c k = (case contents c k of None \<Rightarrow> Inl NotFound | Some v \<Rightarrow> Inr v)"
  by (simp add: coll_get_def contents_def)

lemma decode_manifest_id: "decode_encrypted_manifest sg chunks cid file = Inr (m, ev) \<Longrightarrow>
    cm_id m = cid \<and> verify_manifest sg m = None \<and> cm_workload m = ev_workload ev"
  by (auto simp: decode_encrypted_manifest_def split: if_splits option.splits sum.splits)

lemma verify_manifest_digest: "verify_manifest sg m = None \<Longrightarrow> cm_sha m = sg_digest sg (unsigned m)"
  by (auto simp: verify_manifest_def split: if_splits option.splits)

lemma repo_load_facts:
  assumes "repo_load sg st cid = Inr m"
  obtains s where "contents (ks_index st) cid = Some s" "cm_id m = cid" "cm_sha m = sm_hash s"
    "cm_workload m = sm_workload s" "cm_sha m = sg_digest sg (unsigned m)"
proof -
  obtain s fl ev where "contents (ks_index st) cid = Some s" "decode_encrypted_manifest sg (ks_chunks st) cid fl = Inr (m, ev)"
    "ev_workload ev = sm_workload s" "cm_sha m = sm_hash s"
    using assms by (auto simp: repo_load_def coll_get_contents split: option.splits sum.splits if_splits)
  with decode_manifest_id [of sg "ks_chunks st" cid fl m ev] verify_manifest_digest [of sg m] that show thesis by metis
qed

lemma unsigned_sel [simp]: "cm_parent (unsigned m) = cm_parent m"
  by (simp add: unsigned_def)

lemma summary_of_sel [simp]:
  "sm_id (summary_of kv m) = cm_id m" "sm_parent (summary_of kv m) = cm_parent m"
  "sm_workload (summary_of kv m) = cm_workload m" "sm_hash (summary_of kv m) = cm_sha m"
  "sm_created (summary_of kv m) = cm_created m"
  by (simp_all add: summary_of_def)

lemma loaded_summary:
  assumes "index_faithful sg st" and "digest_binds_parent sg" and load: "repo_load sg st cid = Inr m"
  obtains s where "contents (ks_index st) cid = Some s" "sm_id s = cid" "cm_id m = cid" "sm_parent s = cm_parent m"
    "sm_workload s = cm_workload m"
proof (rule repo_load_facts [OF load])
  fix s assume s: "contents (ks_index st) cid = Some s" "cm_id m = cid" "cm_sha m = sm_hash s"
    "cm_workload m = sm_workload s" "cm_sha m = sg_digest sg (unsigned m)"
  from assms(1) s(1) obtain kv m0 where m0: "s = summary_of kv m0" "cm_id m0 = cid" "cm_sha m0 = sg_digest sg (unsigned m0)"
    unfolding index_faithful_def by blast
  then have "sg_digest sg (unsigned m) = sg_digest sg (unsigned m0)" using s by simp
  then have "cm_parent (unsigned m) = cm_parent (unsigned m0)" using assms(2) unfolding digest_binds_parent_def by blast
  with s m0 that [of s] show thesis by simp
qed

lemma listed_iff:
  assumes "newest_first srt" and "st_ok (cd_items (co_data (ks_index st)))"
  shows "s \<in> set (repo_list srt st w) \<longleftrightarrow> (\<exists>cid. contents (ks_index st) cid = Some s) \<and> (w = [] \<or> sm_workload s = w)"
proof -
  have "set (srt xs) = set xs" for xs using assms(1) by (metis newest_first_def mset_eq_setD)
  then show ?thesis using st_list_member [OF assms(2), of s] by (auto simp: repo_list_def coll_list_def contents_def)
qed

lemma by_id_lookup:
  assumes "newest_first srt" and "index_faithful sg st"
  shows "map_of (by_id_of (repo_list srt st w)) cid
    = (case contents (ks_index st) cid of None \<Rightarrow> None | Some s \<Rightarrow> if w = [] \<or> sm_workload s = w then Some s else None)"
proof -
  let ?ss = "repo_list srt st w"
  have ok: "st_ok (cd_items (co_data (ks_index st)))" using assms(2) by (simp add: index_faithful_def)
  have key: "contents (ks_index st) k = Some s \<Longrightarrow> sm_id s = k" for k s
    using assms(2) by (fastforce simp: index_faithful_def)
  have dom: "(k, s) \<in> set (by_id_of ?ss) \<longleftrightarrow> contents (ks_index st) k = Some s \<and> (w = [] \<or> sm_workload s = w)" for k s
    using listed_iff [OF assms(1) ok, of s w] key by (auto simp: by_id_of_def)
  show ?thesis
  proof (cases "map_of (by_id_of ?ss) cid")
    case None
    then have "\<nexists>s. (cid, s) \<in> set (by_id_of ?ss)" by (force simp: map_of_eq_None_iff)
    with None dom show ?thesis by (auto split: option.splits)
  next
    case (Some s)
    with dom [of cid s] show ?thesis by (auto dest: map_of_SomeD)
  qed
qed

section \<open>Deletion\<close>

lemma repo_delete_effect:
  assumes "repo_delete io cid st = (r, st')"
  shows "ks_chunks st' = ks_chunks st \<and> ks_mtime st' = ks_mtime st \<and> ks_trusted st' = ks_trusted st
    \<and> (\<forall>k. k \<noteq> cid \<longrightarrow> contents (ks_index st') k = contents (ks_index st) k \<and> dir_manifest st' k = dir_manifest st k)
    \<and> (r = None \<longrightarrow> contents (ks_index st') cid = None)
    \<and> (st_ok (cd_items (co_data (ks_index st))) \<longrightarrow> st_ok (cd_items (co_data (ks_index st'))))
    \<and> contents (ks_index st') cid \<in> {None, contents (ks_index st) cid}
    \<and> dir_manifest st' cid \<in> {None, dir_manifest st cid}"
  using assms
  by (cases "coll_delete (dl_index io) cid (ks_index st) (ks_disk st)"; cases "dl_dir io")
    (auto simp: repo_delete_def set_index_def remove_dir_def put_dir_def dir_manifest_def contents_def
      dest!: coll_delete_items split: option.splits sum.splits if_splits)

lemma decode_manifest_cong:
  assumes "cs_km chunks' = cs_km chunks" and "cs_keys chunks' = cs_keys chunks"
  shows "decode_encrypted_manifest sg chunks' cid file = decode_encrypted_manifest sg chunks cid file"
  unfolding decode_encrypted_manifest_def assms by (rule refl)

lemma repo_load_cong:
  assumes "cs_km (ks_chunks st') = cs_km (ks_chunks st)" and "cs_keys (ks_chunks st') = cs_keys (ks_chunks st)"
    and "contents (ks_index st') cid = contents (ks_index st) cid" and "dir_manifest st' cid = dir_manifest st cid"
  shows "repo_load sg st' cid = repo_load sg st cid"
  unfolding repo_load_def coll_get_contents assms(3,4) decode_manifest_cong [OF assms(1,2)] by (rule refl)

lemma chain_from_ids:
  "chain_from sg st w n seen m = Inr ms \<Longrightarrow> \<exists>rest. ms = m # rest
     \<and> (\<forall>p \<in> set rest. repo_load sg st (cm_id p) = Inr p \<and> cm_workload p = w)"
proof (induction n arbitrary: seen m ms)
  case (Suc n)
  show ?case
  proof (cases "cm_parent m = []")
    case False
    then obtain p rest where p: "repo_load sg st (cm_parent m) = Inr p" "cm_workload p = w"
      and rest: "chain_from sg st w n (cm_id p # seen) p = Inr rest" "ms = m # rest"
      using Suc.prems by (auto split: sum.splits if_splits)
    have "cm_id p = cm_parent m" using repo_load_facts [OF p(1)] by metis
    with Suc.IH [OF rest(1)] p rest(2) show ?thesis by auto
  qed (use Suc.prems in auto)
qed (auto split: if_splits)

lemma chain_from_cong:
  assumes "chain_from sg st w n seen m = Inr ms"
    and "\<And>p. p \<in> set (tl ms) \<Longrightarrow> repo_load sg st' (cm_id p) = repo_load sg st (cm_id p)"
  shows "chain_from sg st' w n seen m = Inr ms"
  using assms
proof (induction n arbitrary: seen m ms)
  case (Suc n)
  show ?case
  proof (cases "cm_parent m = []")
    case False
    then obtain p rest where p: "repo_load sg st (cm_parent m) = Inr p" "cm_workload p = w" "cm_id p \<notin> set seen"
      and rest: "chain_from sg st w n (cm_id p # seen) p = Inr rest" "ms = m # rest"
      using Suc.prems(1) by (auto split: sum.splits if_splits)
    have id: "cm_id p = cm_parent m" using repo_load_facts [OF p(1)] by metis
    obtain more where more: "rest = p # more" using chain_from_ids [OF rest(1)] by blast
    have "repo_load sg st' (cm_parent m) = Inr p" using Suc.prems(2) [of p] rest(2) more id p(1) by simp
    moreover have "chain_from sg st' w n (cm_id p # seen) p = Inr rest"
      using Suc.prems(2) rest(2) more by (intro Suc.IH [OF rest(1)]) simp
    ultimately show ?thesis using False p rest(2) by simp
  qed (use Suc.prems in simp)
qed (auto split: if_splits)

lemma ancestor_walk:
  assumes faithful: "index_faithful sg st" "digest_binds_parent sg" and srt: "newest_first srt"
    and "chain_from sg st w n seen m = Inr ms" and "cid \<in> cm_id ` set (tl ms)"
  shows "parent_walk (map_of (by_id_of (repo_list srt st w))) cid k (cm_parent m) \<noteq> Clear"
  using assms(4,5)
proof (induction n arbitrary: seen m ms k)
  case (Suc n)
  have np: "cm_parent m \<noteq> []" using Suc.prems by auto
  then obtain p rest where p: "repo_load sg st (cm_parent m) = Inr p" "cm_workload p = w"
    and rest: "chain_from sg st w n (cm_id p # seen) p = Inr rest" "ms = m # rest"
    using Suc.prems(1) by (auto split: sum.splits if_splits)
  obtain s where s: "contents (ks_index st) (cm_parent m) = Some s" "cm_id p = cm_parent m" "sm_parent s = cm_parent p" "sm_workload s = w"
    using loaded_summary [OF faithful p(1)] p(2) by metis
  then have look: "map_of (by_id_of (repo_list srt st w)) (cm_parent m) = Some s"
    by (simp add: by_id_lookup [OF srt faithful(1)])
  obtain more where more: "rest = p # more" using chain_from_ids [OF rest(1)] by blast
  show ?case
  proof (cases k)
    case (Suc j)
    show ?thesis
    proof (cases "cm_parent m = cid")
      case False
      then have "cid \<in> cm_id ` set (tl rest)" using Suc.prems(2) rest(2) more s(2) by auto
      from Suc.IH [OF rest(1) this, of j] show ?thesis using np False look s(3) Suc by simp
    qed (use np Suc in simp)
  qed (use np in simp)
qed (auto split: if_splits)

text \<open>A checkpoint that can be restored: its manifest loads and its process chain is complete and intact.\<close>

definition restorable :: "codec \<Rightarrow> signing \<Rightarrow> checkpoint_state \<Rightarrow> string \<Rightarrow> full_manifest list \<Rightarrow> bool" where
  "restorable cx sg st cid chain = (case repo_load sg st cid of Inl _ \<Rightarrow> False | Inr m \<Rightarrow> process_chain cx sg st m = Inr chain)"

lemma restorable_iff: "restorable cx sg st cid chain \<longleftrightarrow> (\<exists>m. repo_load sg st cid = Inr m \<and> process_chain cx sg st m = Inr chain)"
  by (auto simp: restorable_def split: sum.splits)

lemma restorable_cong:
  assumes r: "restorable cx sg st cid chain" and chunks: "ks_chunks st' = ks_chunks st"
    and load: "\<And>p. p \<in> set chain \<Longrightarrow> repo_load sg st' (cm_id p) = repo_load sg st (cm_id p)"
  shows "restorable cx sg st' cid chain"
proof -
  obtain m where m: "repo_load sg st cid = Inr m" "process_chain cx sg st m = Inr chain"
    using r by (auto simp: restorable_iff)
  then have lin: "chain_from sg st (cm_workload m) (max_chain - 1) [cm_id m] m = Inr chain"
    and valid: "list_all (member_valid cx (ks_chunks st) (cm_workload m)) chain"
    by (auto simp: process_chain_def split: sum.splits if_splits)
  from chain_from_ids [OF lin] obtain rest where rest: "chain = m # rest" by blast
  have "cm_id m = cid" using repo_load_facts [OF m(1)] by metis
  then have "repo_load sg st' cid = Inr m" using load [of m] rest m(1) by simp
  moreover have "chain_from sg st' (cm_workload m) (max_chain - 1) [cm_id m] m = Inr chain"
    by (rule chain_from_cong [OF lin]) (use load rest in auto)
  ultimately show ?thesis using valid chunks by (auto simp: restorable_iff process_chain_def)
qed

lemma delete_keeps_restorable:
  assumes faithful: "index_faithful sg st" "digest_binds_parent sg" and srt: "newest_first srt"
    and del: "service_delete sg srt io cid st = (r, st')"
    and rest: "restorable cx sg st other chain" and other: "other \<noteq> cid"
  shows "restorable cx sg st' other chain"
proof (cases "\<exists>m. repo_load sg st cid = Inr m \<and> delete_unless_needed srt st m = None")
  case False
  then have "st' = st" using del by (auto simp: service_delete_def split: sum.splits option.splits)
  with rest show ?thesis by simp
next
  case True
  then obtain d where d: "repo_load sg st cid = Inr d" "delete_unless_needed srt st d = None" by blast
  then have run: "repo_delete io cid st = (r, st')" using del by (simp add: service_delete_def)
  obtain m where m: "repo_load sg st other = Inr m" "process_chain cx sg st m = Inr chain"
    using rest by (auto simp: restorable_iff)
  then have lin: "chain_from sg st (cm_workload m) (max_chain - 1) [cm_id m] m = Inr chain"
    by (auto simp: process_chain_def split: sum.splits if_splits)
  obtain more where chain: "chain = m # more"
    and anc: "\<And>p. p \<in> set more \<Longrightarrow> repo_load sg st (cm_id p) = Inr p \<and> cm_workload p = cm_workload m"
    using chain_from_ids [OF lin] by blast
  obtain so where so: "contents (ks_index st) other = Some so" "sm_id so = other" "cm_id m = other"
    "sm_parent so = cm_parent m" "sm_workload so = cm_workload m"
    using loaded_summary [OF faithful m(1)] by metis
  have "cid \<notin> cm_id ` set more"
  proof
    assume "cid \<in> cm_id ` set more"
    then have w: "cm_workload d = cm_workload m" using anc d(1) by auto
    let ?ss = "repo_list srt st (cm_workload d)"
    have "so \<in> set ?ss"
      using so(1,5) w faithful(1) by (auto simp: listed_iff [OF srt] index_faithful_def)
    moreover have "parent_walk (map_of (by_id_of ?ss)) cid max_chain (sm_parent so) \<noteq> Clear"
      using ancestor_walk [OF faithful srt lin, of cid] \<open>cid \<in> cm_id ` set more\<close> chain so(4) w by simp
    moreover have "cm_id d = cid" using repo_load_facts [OF d(1)] by metis
    ultimately have "delete_unless_needed srt st d \<noteq> None"
      using so(2) other by (auto simp: delete_unless_needed_def Let_def filter_empty_conv split: list.splits)
    with d(2) show False by simp
  qed
  then have "p \<in> set chain \<Longrightarrow> cm_id p \<noteq> cid" for p using chain so(3) other by auto
  then show ?thesis
    using repo_delete_effect [OF run] by (intro restorable_cong [OF rest]) (auto intro!: repo_load_cong)
qed

lemma repo_delete_survivor:
  assumes "repo_delete io cid st = (r, st')" and "contents (ks_index st') cid \<noteq> None"
  shows "contents (ks_index st') cid = contents (ks_index st) cid \<and> dir_manifest st' cid = dir_manifest st cid"
  using assms
  by (cases "coll_delete (dl_index io) cid (ks_index st) (ks_disk st)"; cases "dl_dir io")
    (auto simp: repo_delete_def set_index_def remove_dir_def put_dir_def dir_manifest_def contents_def
      dest!: coll_delete_items split: option.splits sum.splits if_splits)

lemma service_delete_effect:
  assumes "service_delete sg srt io cid st = (r, st')"
  shows "st' = st \<and> r \<noteq> None \<or> repo_delete io cid st = (r, st')"
proof (cases "repo_load sg st cid")
  case (Inr m)
  show ?thesis
  proof (cases "delete_unless_needed srt st m")
    case (Some e)
    then have "(Some e, st) = (r, st')" using assms Inr unfolding service_delete_def by simp
    then show ?thesis by auto
  qed (use assms Inr in \<open>simp add: service_delete_def\<close>)
qed (use assms in \<open>auto simp: service_delete_def\<close>)

lemma service_delete_keeps:
  assumes "service_delete sg srt io cid st = (r, st')"
  shows "ks_chunks st' = ks_chunks st"
    and "k \<noteq> cid \<Longrightarrow> contents (ks_index st') k = contents (ks_index st) k"
    and "r = None \<Longrightarrow> contents (ks_index st') cid = None"
    and "contents (ks_index st') k = None \<or> contents (ks_index st') k = contents (ks_index st) k"
    and "index_faithful sg st \<Longrightarrow> index_faithful sg st'"
proof -
  note eff = service_delete_effect [OF assms] repo_delete_effect [of io cid st r st']
  show "ks_chunks st' = ks_chunks st" using eff by blast
  show "k \<noteq> cid \<Longrightarrow> contents (ks_index st') k = contents (ks_index st) k" using eff by blast
  show "r = None \<Longrightarrow> contents (ks_index st') cid = None" using eff by blast
  show sub: "contents (ks_index st') k = None \<or> contents (ks_index st') k = contents (ks_index st) k" for k
    using eff by (cases "k = cid") blast+
  have ok: "st_ok (cd_items (co_data (ks_index st))) \<Longrightarrow> st_ok (cd_items (co_data (ks_index st')))" using eff by blast
  show "index_faithful sg st \<Longrightarrow> index_faithful sg st'"
    using sub ok unfolding index_faithful_def by (metis option.distinct(1))
qed

lemma delete_keeps_survivors:
  assumes faithful: "index_faithful sg st" "digest_binds_parent sg" and srt: "newest_first srt"
    and del: "service_delete sg srt io cid st = (r, st')"
    and rest: "restorable cx sg st other chain" and alive: "contents (ks_index st') other \<noteq> None"
  shows "restorable cx sg st' other chain"
proof (cases "other = cid")
  case True
  consider "st' = st" | "repo_delete io cid st = (r, st')" using service_delete_effect [OF del] by blast
  then show ?thesis
  proof cases
    case 2
    note run = this
    have "repo_load sg st' k = repo_load sg st k" for k
      using repo_delete_effect [OF run] repo_delete_survivor [OF run] alive True
      by (cases "k = cid") (auto intro!: repo_load_cong)
    then show ?thesis using repo_delete_effect [OF run] by (intro restorable_cong [OF rest]) auto
  qed (use rest in simp)
next
  case False
  then show ?thesis by (rule delete_keeps_restorable [OF faithful srt del rest])
qed

lemma prune_each_keeps:
  assumes "index_faithful sg st" and dig: "digest_binds_parent sg" and srt: "newest_first srt"
    and "prune_each sg srt io prot i ss st = (gone, e, st')"
  shows "index_faithful sg st'"
    and "\<And>k. contents (ks_index st') k = None \<or> contents (ks_index st') k = contents (ks_index st) k"
    and "\<And>k. k \<in> set prot \<or> k \<notin> sm_id ` set ss \<Longrightarrow> contents (ks_index st') k = contents (ks_index st) k"
    and "\<And>k. e = None \<Longrightarrow> contents (ks_index st') k = (if k \<in> set gone then None else contents (ks_index st) k)"
    and "e = None \<Longrightarrow> gone = filter (\<lambda>k. k \<notin> set prot) (map sm_id ss)"
    and "\<And>cid chain. restorable cx sg st cid chain \<Longrightarrow> contents (ks_index st') cid \<noteq> None \<Longrightarrow> restorable cx sg st' cid chain"
proof -
  have "index_faithful sg st'
    \<and> (\<forall>k. contents (ks_index st') k = None \<or> contents (ks_index st') k = contents (ks_index st) k)
    \<and> (\<forall>k. k \<in> set prot \<or> k \<notin> sm_id ` set ss \<longrightarrow> contents (ks_index st') k = contents (ks_index st) k)
    \<and> (e = None \<longrightarrow> (\<forall>k. contents (ks_index st') k = (if k \<in> set gone then None else contents (ks_index st) k)))
    \<and> (e = None \<longrightarrow> gone = filter (\<lambda>k. k \<notin> set prot) (map sm_id ss))
    \<and> (\<forall>cid chain. restorable cx sg st cid chain \<longrightarrow> contents (ks_index st') cid \<noteq> None \<longrightarrow> restorable cx sg st' cid chain)"
    using assms(1,4)
  proof (induction ss arbitrary: i st gone)
    case (Cons s ss)
    show ?case
    proof (cases "sm_id s \<in> set prot")
      case True
      then have "prune_each sg srt io prot (Suc i) ss st = (gone, e, st')" using Cons.prems(2) by simp
      from Cons.IH [OF Cons.prems(1) this] True show ?thesis by auto
    next
      case False
      obtain r st1 where del: "service_delete sg srt (io i) (sm_id s) st = (r, st1)" by fastforce
      note step = service_delete_keeps [OF del] delete_keeps_survivors [OF Cons.prems(1) dig srt del]
      show ?thesis
      proof (cases r)
        case (Some x)
        then have "e = Some x" "st' = st1" "gone = []" using Cons.prems(2) False del by simp_all
        moreover have "\<forall>k. k \<in> set prot \<or> k \<notin> sm_id ` set (s # ss) \<longrightarrow> contents (ks_index st1) k = contents (ks_index st) k"
          using step(2) False by (metis image_insert insertCI list.simps(15))
        ultimately show ?thesis using step(4,6) step(5) [OF Cons.prems(1)] by simp
      next
        case None
        then obtain gone1 where rec: "prune_each sg srt io prot (Suc i) ss st1 = (gone1, e, st')" and gone: "gone = sm_id s # gone1"
          using Cons.prems(2) False del by (auto split: prod.splits)
        note ih = Cons.IH [OF step(5) [OF Cons.prems(1)] rec]
        have keep: "\<forall>k. contents (ks_index st') k = None \<or> contents (ks_index st') k = contents (ks_index st) k"
          using ih step(4) by metis
        have other: "\<forall>k. k \<in> set prot \<or> k \<notin> sm_id ` set (s # ss) \<longrightarrow> contents (ks_index st') k = contents (ks_index st) k"
          using ih step(2) False by (metis image_insert insertCI list.simps(15))
        have all: "e = None \<longrightarrow> (\<forall>k. contents (ks_index st') k = (if k \<in> set gone then None else contents (ks_index st) k))"
          using ih step(2,3) None gone by auto
        have "\<forall>cid chain. restorable cx sg st cid chain \<longrightarrow> contents (ks_index st') cid \<noteq> None \<longrightarrow> restorable cx sg st' cid chain"
          using ih step(6) by metis
        with ih keep other all gone False show ?thesis by simp
      qed
    qed
  qed simp
  then show "index_faithful sg st'"
    and "\<And>k. contents (ks_index st') k = None \<or> contents (ks_index st') k = contents (ks_index st) k"
    and "\<And>k. k \<in> set prot \<or> k \<notin> sm_id ` set ss \<Longrightarrow> contents (ks_index st') k = contents (ks_index st) k"
    and "\<And>k. e = None \<Longrightarrow> contents (ks_index st') k = (if k \<in> set gone then None else contents (ks_index st) k)"
    and "e = None \<Longrightarrow> gone = filter (\<lambda>k. k \<notin> set prot) (map sm_id ss)"
    and "\<And>cid chain. restorable cx sg st cid chain \<Longrightarrow> contents (ks_index st') cid \<noteq> None \<Longrightarrow> restorable cx sg st' cid chain"
    by blast+
qed

text \<open>The parent relation among the listed checkpoints, and what \<open>protected\<close> comes to hold.\<close>

definition parent_of :: "(string \<times> summary) list \<Rightarrow> string \<Rightarrow> string \<Rightarrow> bool" where
  "parent_of by_id x y \<longleftrightarrow> y \<noteq> [] \<and> (\<exists>s. map_of by_id x = Some s \<and> sm_parent s = y) \<and> map_of by_id y \<noteq> None"

lemma protect_closure:
  assumes "\<And>x y. x \<in> set prot \<Longrightarrow> parent_of by_id x y \<Longrightarrow> y \<in> set prot \<or> y = p"
  shows "set prot \<subseteq> set (protect by_id prot p)
    \<and> (\<forall>x y. x \<in> set (protect by_id prot p) \<longrightarrow> parent_of by_id x y \<longrightarrow> y \<in> set (protect by_id prot p))
    \<and> (\<forall>y \<in> set (protect by_id prot p). y \<in> set prot \<or> p \<noteq> [] \<and> map_of by_id p \<noteq> None \<and> (parent_of by_id)\<^sup>*\<^sup>* p y)"
  using assms
proof (induction by_id prot p rule: protect.induct)
  case (1 by_id prot p)
  show ?case
  proof (cases "p = [] \<or> map_of by_id p = None \<or> p \<in> set prot")
    case True
    then have "protect by_id prot p = prot" by (subst protect.simps) (auto split: option.splits)
    moreover have "\<not> parent_of by_id x p \<or> p \<in> set prot" for x using True by (auto simp: parent_of_def)
    moreover have "y \<in> set prot" if "x \<in> set prot" "parent_of by_id x y" for x y
      using "1.prems" [OF that] calculation(2) [of x] that(2) by blast
    ultimately show ?thesis by simp
  next
    case False
    then obtain s where s: "map_of by_id p = Some s" by auto
    have eq: "protect by_id prot p = protect by_id (p # prot) (sm_parent s)"
      using False s by (subst protect.simps) simp
    have pend: "y \<in> set (p # prot) \<or> y = sm_parent s" if "x \<in> set (p # prot)" "parent_of by_id x y" for x y
      using that "1.prems" [of x y] s by (auto simp: parent_of_def)
    have ih: "set (p # prot) \<subseteq> set (protect by_id (p # prot) (sm_parent s))
      \<and> (\<forall>x y. x \<in> set (protect by_id (p # prot) (sm_parent s)) \<longrightarrow> parent_of by_id x y \<longrightarrow> y \<in> set (protect by_id (p # prot) (sm_parent s)))
      \<and> (\<forall>y \<in> set (protect by_id (p # prot) (sm_parent s)). y \<in> set (p # prot)
           \<or> sm_parent s \<noteq> [] \<and> map_of by_id (sm_parent s) \<noteq> None \<and> (parent_of by_id)\<^sup>*\<^sup>* (sm_parent s) y)"
    proof (rule "1.IH")
      show "p \<noteq> []" "map_of by_id p = Some s" "p \<notin> set prot" using False s by auto
    qed (rule pend)
    have up: "(parent_of by_id)\<^sup>*\<^sup>* p y"
      if "sm_parent s \<noteq> []" "map_of by_id (sm_parent s) \<noteq> None" "(parent_of by_id)\<^sup>*\<^sup>* (sm_parent s) y" for y
      using that s by (intro converse_rtranclp_into_rtranclp [of "parent_of by_id" p "sm_parent s"]) (auto simp: parent_of_def)
    have "y \<in> set prot \<or> p \<noteq> [] \<and> map_of by_id p \<noteq> None \<and> (parent_of by_id)\<^sup>*\<^sup>* p y"
      if "y \<in> set (protect by_id (p # prot) (sm_parent s))" for y
    proof -
      from ih that have "y \<in> set (p # prot) \<or> sm_parent s \<noteq> [] \<and> map_of by_id (sm_parent s) \<noteq> None
          \<and> (parent_of by_id)\<^sup>*\<^sup>* (sm_parent s) y" by blast
      then consider "y \<in> set prot" | "y = p" | "sm_parent s \<noteq> []" "map_of by_id (sm_parent s) \<noteq> None" "(parent_of by_id)\<^sup>*\<^sup>* (sm_parent s) y"
        by (elim disjE) auto
      then show ?thesis
      proof cases
        case 3
        then show ?thesis using up [OF 3] False by simp
      qed (use False in auto)
    qed
    moreover have "set prot \<subseteq> set (protect by_id (p # prot) (sm_parent s))" using ih by simp
    ultimately show ?thesis unfolding eq using ih by blast
  qed
qed

lemma protected_ids_closure:
  assumes "\<And>s. s \<in> set kept \<Longrightarrow> map_of by_id (sm_id s) = Some s"
  shows "set (protected_ids by_id kept) = {y. \<exists>s \<in> set kept. (parent_of by_id)\<^sup>*\<^sup>* (sm_id s) y}"
proof -
  let ?P = "parent_of by_id"
  let ?f = "\<lambda>prot s. protect by_id (List.insert (sm_id s) prot) (sm_parent s)"
  define closed where "closed prot \<longleftrightarrow> (\<forall>x y. x \<in> set prot \<longrightarrow> ?P x y \<longrightarrow> y \<in> set prot)" for prot
  have star: "y \<in> set prot" if c: "closed prot" and "?P\<^sup>*\<^sup>* x y" "x \<in> set prot" for prot x y
    using that(2,3) by (induction rule: rtranclp_induct) (use c in \<open>auto simp: closed_def\<close>)
  have step: "closed (?f prot s) \<and> set (?f prot s) = set prot \<union> {y. ?P\<^sup>*\<^sup>* (sm_id s) y}"
    if c: "closed prot" and s: "map_of by_id (sm_id s) = Some s" for prot s
  proof -
    let ?ins = "List.insert (sm_id s) prot"
    have pend: "y \<in> set ?ins \<or> y = sm_parent s" if "x \<in> set ?ins" "?P x y" for x y
      using that c s by (auto simp: closed_def parent_of_def)
    have pc: "set ?ins \<subseteq> set (?f prot s) \<and> (\<forall>x y. x \<in> set (?f prot s) \<longrightarrow> ?P x y \<longrightarrow> y \<in> set (?f prot s))
      \<and> (\<forall>y \<in> set (?f prot s). y \<in> set ?ins \<or> sm_parent s \<noteq> [] \<and> map_of by_id (sm_parent s) \<noteq> None \<and> ?P\<^sup>*\<^sup>* (sm_parent s) y)"
      by (rule protect_closure) (rule pend)
    from pc have cl: "closed (?f prot s)" and sub: "set ?ins \<subseteq> set (?f prot s)" unfolding closed_def by blast+
    have one: "?P\<^sup>*\<^sup>* (sm_id s) y" if "sm_parent s \<noteq> []" "map_of by_id (sm_parent s) \<noteq> None" "?P\<^sup>*\<^sup>* (sm_parent s) y" for y
      using that s by (intro converse_rtranclp_into_rtranclp [of ?P "sm_id s" "sm_parent s"]) (auto simp: parent_of_def)
    have "set (?f prot s) \<subseteq> set prot \<union> {y. ?P\<^sup>*\<^sup>* (sm_id s) y}"
    proof
      fix y assume y: "y \<in> set (?f prot s)"
      with pc have "y \<in> set ?ins \<or> sm_parent s \<noteq> [] \<and> map_of by_id (sm_parent s) \<noteq> None \<and> ?P\<^sup>*\<^sup>* (sm_parent s) y" by blast
      then show "y \<in> set prot \<union> {y. ?P\<^sup>*\<^sup>* (sm_id s) y}" using one [of y] by auto
    qed
    moreover have "y \<in> set (?f prot s)" if "?P\<^sup>*\<^sup>* (sm_id s) y" for y using star [OF cl that] sub by auto
    ultimately show ?thesis using cl sub by auto
  qed
  have "closed (foldl ?f prot ks) \<and> set (foldl ?f prot ks) = set prot \<union> {y. \<exists>s \<in> set ks. ?P\<^sup>*\<^sup>* (sm_id s) y}"
    if "closed prot" "set ks \<subseteq> set kept" for prot ks
    using that
  proof (induction ks arbitrary: prot)
    case (Cons s ks)
    then have s: "map_of by_id (sm_id s) = Some s" using assms by simp
    from step [OF Cons.prems(1) s] Cons.IH [of "?f prot s"] Cons.prems(2) show ?case by auto
  qed simp
  from this [of "[]" kept] show ?thesis by (simp add: protected_ids_def closed_def)
qed

text \<open>
  The checkpoints that pruning must keep, said without the loops of the code: the newest \<open>keep\<close> of the
  workload and whatever they reach through their parents.
\<close>

definition retained :: "sorter \<Rightarrow> checkpoint_state \<Rightarrow> string \<Rightarrow> int \<Rightarrow> string set" where
  "retained srt st w keep =
     {y. \<exists>s \<in> set (take (nat keep) (repo_list srt st w)). (parent_of (by_id_of (repo_list srt st w)))\<^sup>*\<^sup>* (sm_id s) y}"

text \<open>
  C15.  Pruning never breaks a checkpoint it keeps.  Whatever faults the deletions meet and wherever pruning
  stops, a checkpoint that could be restored and is still in the index can be restored from the same
  chain.  The newest \<open>keep\<close> checkpoints and their ancestors are never removed, and when pruning reports
  success the index lost exactly the workload's other checkpoints.
\<close>

theorem prune_keeps_restorable:
  assumes faithful: "index_faithful sg st" "digest_binds_parent sg" and srt: "newest_first srt"
    and keep: "0 \<le> keep" and w: "w \<noteq> []"
    and run: "prune_workload sg srt io w keep st = (gone, e, st')"
  shows "(\<forall>cid chain. restorable cx sg st cid chain \<and> contents (ks_index st') cid \<noteq> None \<longrightarrow> restorable cx sg st' cid chain)
    \<and> (\<forall>cid \<in> retained srt st w keep. contents (ks_index st') cid = contents (ks_index st) cid)
    \<and> (e = None \<and> keep < int (length (repo_list srt st w)) \<longrightarrow> (\<forall>cid. contents (ks_index st') cid =
         (case contents (ks_index st) cid of None \<Rightarrow> None
          | Some s \<Rightarrow> if sm_workload s = w \<and> cid \<notin> retained srt st w keep then None else Some s)))"
proof (cases "int (length (repo_list srt st w)) \<le> keep")
  case True
  then have "st' = st" using run keep by (simp add: prune_workload_def Let_def)
  with True show ?thesis by simp
next
  case False
  let ?ss = "repo_list srt st w"
  let ?prot = "protected_ids (by_id_of ?ss) (take (nat keep) ?ss)"
  have each: "prune_each sg srt io ?prot 0 (drop (nat keep) ?ss) st = (gone, e, st')"
    using run keep False by (simp add: prune_workload_def Let_def)
  note pk = prune_each_keeps(1-5) [OF faithful srt each]
  note surv = prune_each_keeps(6) [OF faithful srt each, where cx = cx]
  have key: "contents (ks_index st) k = Some s \<Longrightarrow> sm_id s = k" for k s
    using faithful(1) by (fastforce simp: index_faithful_def)
  have ok: "st_ok (cd_items (co_data (ks_index st)))" using faithful(1) by (simp add: index_faithful_def)
  have mem: "s \<in> set ?ss \<longleftrightarrow> contents (ks_index st) (sm_id s) = Some s \<and> sm_workload s = w" for s
    using listed_iff [OF srt ok, of s w] key w by auto
  have "map_of (by_id_of ?ss) (sm_id s) = Some s" if "s \<in> set (take (nat keep) ?ss)" for s
    using that mem [of s] by (auto simp: by_id_lookup [OF srt faithful(1)] dest: in_set_takeD)
  then have prot: "set ?prot = retained srt st w keep"
    using protected_ids_closure [of "take (nat keep) ?ss" "by_id_of ?ss"] unfolding retained_def by blast
  have kept: "sm_id s \<in> set ?prot" if "s \<in> set (take (nat keep) ?ss)" for s
    using that unfolding prot retained_def by blast
  have "cid \<in> set gone \<longleftrightarrow> cid \<notin> set ?prot \<and> (\<exists>s. contents (ks_index st) cid = Some s \<and> sm_workload s = w)" if "e = None" for cid
  proof -
    have "set ?ss = set (take (nat keep) ?ss) \<union> set (drop (nat keep) ?ss)" by (metis append_take_drop_id set_append)
    then have "cid \<in> sm_id ` set (drop (nat keep) ?ss) \<longleftrightarrow> cid \<in> sm_id ` set ?ss" if "cid \<notin> set ?prot"
      using that kept by auto
    moreover have "cid \<in> sm_id ` set ?ss \<longleftrightarrow> (\<exists>s. contents (ks_index st) cid = Some s \<and> sm_workload s = w)"
      using mem key by (auto simp: image_iff)
    ultimately show ?thesis using pk(5) [OF that] by auto
  qed
  then have "e = None \<longrightarrow> (\<forall>cid. contents (ks_index st') cid =
         (case contents (ks_index st) cid of None \<Rightarrow> None
          | Some s \<Rightarrow> if sm_workload s = w \<and> cid \<notin> retained srt st w keep then None else Some s))"
    using pk(4) prot by (auto split: option.splits)
  with pk(3) surv prot show ?thesis by blast
qed

section \<open>Saving\<close>

lemma write_manifest_keeps:
  assumes "write_manifest fw cid fl st = (b, st')"
  shows "ks_chunks st' = ks_chunks st" "ks_index st' = ks_index st" "ks_disk st' = ks_disk st" "ks_mtime st' = ks_mtime st"
    "k \<noteq> cid \<Longrightarrow> dir_manifest st' k = dir_manifest st k"
    "dir_manifest st' cid = Some fl \<or> \<not> b \<and> dir_manifest st' cid = dir_manifest st cid"
    "ks_trusted st' = ks_trusted st"
  using assms by (auto simp: write_manifest_def put_dir_def dir_manifest_def split: file_write.splits if_splits)

lemma install_manifest_effect:
  assumes "install_manifest io kv m fl st = (r, st')"
  shows "ks_chunks st' = ks_chunks st" "ks_mtime st' = ks_mtime st"
    "k \<noteq> cm_id m \<Longrightarrow> dir_manifest st' k = dir_manifest st k \<and> contents (ks_index st') k = contents (ks_index st) k"
    "dir_manifest st' (cm_id m) \<in> {None, Some fl, dir_manifest st (cm_id m)}"
    "r = None \<Longrightarrow> dir_manifest st' (cm_id m) = Some fl \<and> contents (ks_index st') (cm_id m) = Some (summary_of kv m)"
    "contents (ks_index st') (cm_id m) \<in> {contents (ks_index st) (cm_id m), Some (summary_of kv m)}"
    "st_ok (cd_items (co_data (ks_index st))) \<Longrightarrow> st_ok (cd_items (co_data (ks_index st')))"
    "r \<noteq> None \<Longrightarrow> contents (ks_index st') (cm_id m) = contents (ks_index st) (cm_id m)"
proof -
  obtain b st1 where w: "write_manifest (sv_write io) (cm_id m) fl st = (b, st1)" by fastforce
  obtain p c dk where put: "coll_put (sv_index io) (cm_id m) (summary_of kv m) (ks_index st) (ks_disk st) = (p, c, dk)"
    by (metis prod_cases3)
  note wk = write_manifest_keeps [OF w] and ci = coll_put_items [OF put]
  have "(\<not> b \<and> st' = st1 \<and> r \<noteq> None)
    \<or> (b \<and> \<not> failed p \<and> r = None \<and> st' = set_index c dk st1)
    \<or> (b \<and> failed p \<and> r \<noteq> None \<and> st' = (if sv_unlink io then put_dir (cm_id m) None else id) (set_index c dk st1))"
    using assms w put wk(2,3) by (cases b; cases p) (auto simp: install_manifest_def failed_def)
  then show "ks_chunks st' = ks_chunks st" "ks_mtime st' = ks_mtime st"
    "k \<noteq> cm_id m \<Longrightarrow> dir_manifest st' k = dir_manifest st k \<and> contents (ks_index st') k = contents (ks_index st) k"
    "dir_manifest st' (cm_id m) \<in> {None, Some fl, dir_manifest st (cm_id m)}"
    "r = None \<Longrightarrow> dir_manifest st' (cm_id m) = Some fl \<and> contents (ks_index st') (cm_id m) = Some (summary_of kv m)"
    "contents (ks_index st') (cm_id m) \<in> {contents (ks_index st) (cm_id m), Some (summary_of kv m)}"
    "st_ok (cd_items (co_data (ks_index st))) \<Longrightarrow> st_ok (cd_items (co_data (ks_index st')))"
    "r \<noteq> None \<Longrightarrow> contents (ks_index st') (cm_id m) = contents (ks_index st) (cm_id m)"
    using wk(1,2,4,6) wk(5) [of k] ci by (auto simp: set_index_def put_dir_def dir_manifest_def contents_def split: if_splits)
qed

text \<open>The file that \<open>Save\<close> writes, and what a successful or failed \<open>Save\<close> leaves.\<close>

definition manifest_envelope :: "save_io \<Rightarrow> nat \<Rightarrow> key \<Rightarrow> full_manifest \<Rightarrow> manifest_file" where
  "manifest_envelope io kv k m = \<lparr>mf_size = sv_size io, mf_envelope = Some \<lparr>ev_format = 1, ev_workload = cm_workload m,
     ev_checkpoint = cm_id m, ev_key_version = kv, ev_nonce = Some (sv_nonce io),
     ev_ciphertext = Some (SealedManifest k (cm_workload m) (sv_nonce io) (manifest_aad (cm_workload m) (cm_id m) kv) (Some m))\<rparr>\<rparr>"

lemma repo_save_cases:
  assumes "repo_save sg io m st = (r, st')"
  obtains (refused) "st' = st" "r \<noteq> None"
  | (keys) keys where
      "snd (get_or_create_workload_key (sv_key io) (sv_fresh io) (cs_km (ks_chunks st)) (cm_workload m) (cs_keys (ks_chunks st))) = keys"
      "st' = set_keys keys st" "verify_manifest sg m = None"
      "r = None \<Longrightarrow> \<exists>existing. repo_load sg st' (cm_id m) = Inr existing \<and> cm_sha existing = cm_sha m"
  | (installed) kv k keys where
      "get_or_create_workload_key (sv_key io) (sv_fresh io) (cs_km (ks_chunks st)) (cm_workload m) (cs_keys (ks_chunks st)) = (Inr (kv, k), keys)"
      "verify_manifest sg m = None" "length k = key_size"
      "install_manifest io kv m (manifest_envelope io kv k m) (set_keys keys st) = (r, st')"
      "failed (repo_load sg (set_keys keys st) (cm_id m))"
proof -
  obtain x keys where g: "get_or_create_workload_key (sv_key io) (sv_fresh io) (cs_km (ks_chunks st)) (cm_workload m) (cs_keys (ks_chunks st)) = (x, keys)"
    by fastforce
  show thesis
  proof (cases "verify_manifest sg m")
    case (Some e)
    then have "fst (repo_save sg io m st) \<noteq> None \<and> snd (repo_save sg io m st) = st"
      by (auto simp: repo_save_def split: option.splits)
    with assms refused show thesis by simp
  next
    case None
    then have ids: "repo_validate_id (cm_id m) = None" "repo_validate_id (cm_workload m) = None"
      by (auto simp: verify_manifest_def split: option.splits)
    show thesis
    proof (cases x)
      case (Inl e)
      with assms g None ids have "st' = set_keys keys st" "r = Some (RepoKey e)" by (auto simp: repo_save_def)
      with g None keys [of keys] Inl show thesis by simp
    next
      case (Inr kk)
      then obtain kv k where kk: "x = Inr (kv, k)" by (cases kk) simp
      show thesis
      proof (cases "length k = key_size")
        case False
        with assms g None ids kk have "st' = set_keys keys st" "r = Some SealFailed" by (auto simp: repo_save_def seal_manifest_def)
        with g None keys [of keys] show thesis by simp
      next
        case True
        note run = assms [unfolded repo_save_def ids None g kk option.case prod.case sum.case Let_def seal_manifest_def, simplified True]
        show thesis
        proof (cases "repo_load sg (set_keys keys st) (cm_id m)")
          case (Inr existing)
          with run have "st' = set_keys keys st" "r = None \<longrightarrow> cm_sha existing = cm_sha m" by (auto split: if_splits)
          with g None keys [of keys] Inr show thesis by auto
        next
          case (Inl e)
          show thesis
          proof (cases "e = IndexFailed NotFound \<or> e = NoManifest")
            case True
            with run Inl have "install_manifest io kv m (manifest_envelope io kv k m) (set_keys keys st) = (r, st')"
              by (auto simp: manifest_envelope_def)
            with g kk None \<open>length k = key_size\<close> Inl show thesis by (intro installed) (auto simp: failed_def)
          next
            case False
            with run Inl have "st' = set_keys keys st" "r = Some e"
              by (auto split: repo_error.splits coll_error.splits)
            with g None keys [of keys] show thesis by simp
          qed
        qed
      qed
    qed
  qed
qed

lemma repo_save_faithful:
  assumes "index_faithful sg st" and "repo_save sg io m st = (r, st')"
  shows "index_faithful sg st'"
  using assms(2)
proof (cases rule: repo_save_cases)
  case (keys keys)
  then show ?thesis using assms(1) by (simp add: index_faithful_def set_keys_def)
next
  case (installed kv k keys)
  note eff = install_manifest_effect [OF installed(4)]
  have dig: "cm_sha m = sg_digest sg (unsigned m)" by (rule verify_manifest_digest [OF installed(2)])
  have "\<exists>kv m. s = summary_of kv m \<and> cm_id m = cid \<and> cm_sha m = sg_digest sg (unsigned m)"
    if s: "contents (ks_index st') cid = Some s" for cid s
  proof (cases "contents (ks_index st) cid = Some s")
    case True
    then show ?thesis using assms(1) unfolding index_faithful_def by blast
  next
    case False
    have same: "ks_index (set_keys keys st) = ks_index st" by (simp add: set_keys_def)
    then have "cid = cm_id m" using eff(3) [of cid] s False by metis
    moreover then have "s = summary_of kv m" using eff(6) s False same by auto
    ultimately show ?thesis using dig by blast
  qed
  moreover have "st_ok (cd_items (co_data (ks_index st')))"
    using eff(7) assms(1) by (simp add: index_faithful_def set_keys_def)
  ultimately show ?thesis by (simp add: index_faithful_def)
qed (use assms in simp)

lemma get_or_create_keeps:
  assumes "keys_ok km disk" and "get_or_create_workload_key ok fresh km w disk = (r, disk')"
  shows "keys_ok km disk'" and "workload_key km disk w' v = Inr k \<Longrightarrow> workload_key km disk' w' v = Inr k"
proof -
  obtain ack where ex: "key_exec (GetOrCreate ok fresh w) (km, disk) = (ack, km, disk')"
    using assms(2) by (cases r) (auto split: prod.splits)
  show "keys_ok km disk'" and "workload_key km disk w' v = Inr k \<Longrightarrow> workload_key km disk' w' v = Inr k"
    using key_exec_keeps [OF assms(1) _ ex] by (auto simp: keeps_keys_def)
qed

lemma set_keys_sel [simp]:
  "ks_index (set_keys keys st) = ks_index st" "dir_manifest (set_keys keys st) cid = dir_manifest st cid"
  "cs_km (ks_chunks (set_keys keys st)) = cs_km (ks_chunks st)" "cs_keys (ks_chunks (set_keys keys st)) = keys"
  "ks_mtime (set_keys keys st) = ks_mtime st" "cs_files (ks_chunks (set_keys keys st)) = cs_files (ks_chunks st)"
  by (simp_all add: set_keys_def dir_manifest_def)

lemma decode_manifest_keys:
  assumes "decode_encrypted_manifest sg chunks cid fl = Inr v" and "cs_km chunks' = cs_km chunks"
    and "\<And>w v k. workload_key (cs_km chunks) (cs_keys chunks) w v = Inr k \<Longrightarrow> workload_key (cs_km chunks) (cs_keys chunks') w v = Inr k"
  shows "decode_encrypted_manifest sg chunks' cid fl = Inr v"
proof -
  obtain ev where ev: "mf_envelope fl = Some ev" using assms(1) by (auto simp: decode_encrypted_manifest_def split: option.splits if_splits)
  obtain k where k: "workload_key (cs_km chunks) (cs_keys chunks) (ev_workload ev) (ev_key_version ev) = Inr k"
    using assms(1) ev by (auto simp: decode_encrypted_manifest_def split: option.splits if_splits sum.splits)
  show ?thesis
    using assms(1) unfolding decode_encrypted_manifest_def ev assms(2) option.case k assms(3) [OF k] .
qed

lemma repo_load_keys:
  assumes "repo_load sg st cid = Inr m" and "cs_km (ks_chunks st') = cs_km (ks_chunks st)"
    and "\<And>w v k. workload_key (cs_km (ks_chunks st)) (cs_keys (ks_chunks st)) w v = Inr k
           \<Longrightarrow> workload_key (cs_km (ks_chunks st)) (cs_keys (ks_chunks st')) w v = Inr k"
    and "contents (ks_index st') cid = contents (ks_index st) cid" and "dir_manifest st' cid = dir_manifest st cid"
  shows "repo_load sg st' cid = Inr m"
proof -
  obtain fl v where fl: "dir_manifest st cid = Some fl" and dec: "decode_encrypted_manifest sg (ks_chunks st) cid fl = Inr v"
    using assms(1) by (auto simp: repo_load_def split: option.splits if_splits sum.splits)
  note dec' = decode_manifest_keys [OF dec assms(2,3)]
  show ?thesis
    using assms(1) by (simp add: repo_load_def coll_get_contents assms(4,5) fl dec dec' split: option.splits if_splits)
qed

lemma saved_envelope_decodes:
  assumes "verify_manifest sg m = None" and "length k = key_size" and "length (sv_nonce io) = nonce_size"
    and "0 < sv_size io" and "sv_size io \<le> max_manifest_bytes" and "kv \<noteq> 0"
    and "workload_key (cs_km chunks) (cs_keys chunks) (cm_workload m) kv = Inr k"
  shows "\<exists>ev. decode_encrypted_manifest sg chunks (cm_id m) (manifest_envelope io kv k m) = Inr (m, ev)
    \<and> ev_format ev = 1 \<and> ev_workload ev = cm_workload m \<and> ev_checkpoint ev = cm_id m \<and> ev_key_version ev = kv"
proof -
  have ids: "repo_validate_id (cm_id m) = None" "repo_validate_id (cm_workload m) = None" "cm_workload m \<noteq> []"
    using assms(1) by (auto simp: verify_manifest_def repo_validate_id_def split: option.splits if_splits)
  show ?thesis
    using assms ids by (simp add: decode_encrypted_manifest_def manifest_envelope_def)
qed

lemma installed_loads:
  assumes inst: "install_manifest io kv m (manifest_envelope io kv k m) st = (None, st')"
    and "verify_manifest sg m = None" and "length k = key_size" and "length (sv_nonce io) = nonce_size"
    and "0 < sv_size io" and "sv_size io \<le> max_manifest_bytes" and "kv \<noteq> 0"
    and "workload_key (cs_km (ks_chunks st)) (cs_keys (ks_chunks st)) (cm_workload m) kv = Inr k"
  shows "repo_load sg st' (cm_id m) = Inr m"
proof -
  note eff = install_manifest_effect [OF inst]
  have "workload_key (cs_km (ks_chunks st')) (cs_keys (ks_chunks st')) (cm_workload m) kv = Inr k"
    using assms(8) eff(1) by simp
  from saved_envelope_decodes [OF assms(2-7) this] obtain ev where
    ev: "decode_encrypted_manifest sg (ks_chunks st') (cm_id m) (manifest_envelope io kv k m) = Inr (m, ev)"
    "ev_format ev = 1" "ev_workload ev = cm_workload m" "ev_checkpoint ev = cm_id m" "ev_key_version ev = kv" by blast
  have "repo_validate_id (cm_id m) = None" using assms(2) by (auto simp: verify_manifest_def split: option.splits)
  with eff(5) ev assms(6) show ?thesis
    by (simp add: repo_load_def coll_get_contents) (simp add: manifest_envelope_def summary_of_def)
qed


section \<open>A small repository\<close>

lemma maybe_compact_code [code]:
  "maybe_compact io c dk =
     (if int (co_journal_n c) < 128 \<and> int (co_journal_bytes c) < 262144 then (c, dk) else compact io c dk)"
  by (simp add: maybe_compact_def journal_compact_entries_def journal_compact_bytes_def)

definition sample_signing :: signing where
  "sample_signing = \<lparr>sg_digest = cm_parent, sg_parse = Some, sg_sha = id, sg_verify = (\<lambda>k d s. s = k @ d)\<rparr>"

definition sample_signer :: signer where
  "sample_signer = \<lparr>si_machine = ''M'', si_public_key = ''M'', si_sign = (\<lambda>d. ''M'' @ d)\<rparr>"

definition sample_sorter :: sorter where
  "sample_sorter = sort_key (\<lambda>s. - sm_created s)"

lemma sample_sorter_newest: "newest_first sample_sorter"
proof -
  have "sorted (map (\<lambda>s. - sm_created s) (sort_key (\<lambda>s. - sm_created s) xs))" for xs :: "summary list" by simp
  then show ?thesis by (simp add: newest_first_def sample_sorter_def sorted_wrt_map)
qed

lemma sample_signing_binds: "digest_binds_parent sample_signing"
  by (simp add: digest_binds_parent_def sample_signing_def)

definition sample_process_put :: "(chunk_error, asset_manifest \<times> int) outcome \<times> chunk_store" where
  "sample_process_put = put_asset sample_codec sample_asset_io True sample_data_key ''w'' ''process-state'' ''hello'' sample_store"

definition sample_empty :: checkpoint_state where
  "sample_empty = \<lparr>ks_index = fst (open_collection True empty_disk), ks_disk = empty_disk, ks_dirs = [], ks_trusted = [],
     ks_trust_file = [], ks_chunks = snd sample_process_put, ks_mtime = (\<lambda>p. 0)\<rparr>"

definition sample_save_io :: save_io where
  "sample_save_io = \<lparr>sv_key = True, sv_fresh = sample_data_key, sv_nonce = replicate 12 CHR ''n'', sv_size = 900,
     sv_write = Landed, sv_index = io_good\<lparr>io_len := 1\<rparr>, sv_unlink = True\<rparr>"

definition sample_delete_io :: delete_io where
  "sample_delete_io = \<lparr>dl_index = io_good\<lparr>io_len := 1\<rparr>, dl_dir = Removed\<rparr>"

definition sample_repo_manifest :: "string \<Rightarrow> string \<Rightarrow> time \<Rightarrow> full_manifest" where
  "sample_repo_manifest cid parent t = sign_manifest sample_signing sample_signer
     \<lparr>cm_format = state_format_name, cm_format_version = state_format_version, cm_id = cid, cm_parent = parent,
      cm_kind = (if parent = [] then ''full'' else ''incremental''), cm_created = t, cm_workload = ''w'',
      cm_workload_name = ''web'', cm_source = [], cm_public_key = [], cm_assets = [fst (projr (fst sample_process_put))],
      cm_plain_bytes = 5, cm_stored_bytes = 60, cm_signer = [], cm_algorithm = [], cm_signature = None, cm_sha = []\<rparr>"

fun save_all :: "signing \<Rightarrow> save_io \<Rightarrow> full_manifest list \<Rightarrow> checkpoint_state \<Rightarrow> checkpoint_state" where
  "save_all sg io [] st = st"
| "save_all sg io (m # ms) st = save_all sg io ms (snd (repo_save sg io m st))"

text \<open>A full checkpoint, a second full one, and an increment on the first.\<close>

definition sample_repo :: checkpoint_state where
  "sample_repo = save_all sample_signing sample_save_io
     [sample_repo_manifest ''a'' [] 10, sample_repo_manifest ''b'' [] 20, sample_repo_manifest ''c'' ''a'' 30] sample_empty"

lemma save_all_faithful: "index_faithful sg st \<Longrightarrow> index_faithful sg (save_all sg io ms st)"
  by (induction ms arbitrary: st) (auto intro: repo_save_faithful [OF _ surjective_pairing])

lemma sample_repo_faithful: "index_faithful sample_signing sample_repo"
proof -
  have "index_faithful sample_signing sample_empty"
    by (simp add: index_faithful_def sample_empty_def open_collection_def empty_disk_def replay_journal_def empty_data_def contents_def)
  then show ?thesis unfolding sample_repo_def by (rule save_all_faithful)
qed

definition sample_prune :: "string list \<times> repo_error option \<times> checkpoint_state" where
  "sample_prune = prune_workload sample_signing sample_sorter (\<lambda>i. sample_delete_io) ''w'' 1 sample_repo"

text \<open>Keeping one checkpoint keeps the newest, \<^verbatim>\<open>c\<close>, and its parent; \<^verbatim>\<open>b\<close> goes.\<close>

theorem prune_keeps_restorable_witness:
  "restorable sample_codec sample_signing (snd (snd sample_prune)) ''c'' [sample_repo_manifest ''c'' ''a'' 30, sample_repo_manifest ''a'' [] 10]
    \<and> fst sample_prune = [''b'']"
proof -
  have run: "prune_workload sample_signing sample_sorter (\<lambda>i. sample_delete_io) ''w'' 1 sample_repo
      = (fst sample_prune, fst (snd sample_prune), snd (snd sample_prune))"
    by (simp add: sample_prune_def)
  have gone: "fst sample_prune = [''b'']" by code_simp
  have before: "restorable sample_codec sample_signing sample_repo ''c'' [sample_repo_manifest ''c'' ''a'' 30, sample_repo_manifest ''a'' [] 10]"
    by code_simp
  have still: "contents (ks_index (snd (snd sample_prune))) ''c'' \<noteq> None" by code_simp
  from prune_keeps_restorable [OF sample_repo_faithful sample_signing_binds sample_sorter_newest _ _ run, of sample_codec]
    before still gone show ?thesis by simp
qed


text \<open>
  An older descendant does not make a checkpoint survive pruning quietly: when the dates of a parent and its
  child are inverted, as after an import from a machine whose clock is behind, the parent is tried first,
  its deletion is refused, and pruning gives up with an error, leaving every checkpoint in place.
\<close>

definition sample_inverted :: checkpoint_state where
  "sample_inverted = save_all sample_signing sample_save_io
     [sample_repo_manifest ''a'' [] 30, sample_repo_manifest ''c'' ''a'' 10, sample_repo_manifest ''b'' [] 40] sample_empty"

lemma prune_stops_at_older_descendant:
  "case prune_workload sample_signing sample_sorter (\<lambda>i. sample_delete_io) ''w'' 1 sample_inverted of
     (gone, e, st') \<Rightarrow> gone = [] \<and> e = Some StillParent \<and> contents (ks_index st') ''c'' \<noteq> None"
  by code_simp

end
