(* ===== verification/Garbage_Collector.thy ===== *)
theory Garbage_Collector
  imports Checkpoint_Repository
begin

text \<open>
  \<^verbatim>\<open>src/internal/gc/gc.go\<close>: the mark-and-sweep collector of orphaned chunks, with \<open>Enumerate\<close> and \<open>DeleteRef\<close> of
  \<^verbatim>\<open>chunkstore/store.go\<close>, and the storing half of \<open>Service.Create\<close>, the writer it must not harm.  Clock readings,
  the order of directory walks and of unstable sorts, cancellation and the success of file operations are
  arguments.  Temporary files are not part of the state, so \<open>reclaimStaleTemps\<close> has no counterpart.
\<close>

section \<open>Plans\<close>

datatype gc_error = GraceNegative | OrphansUnreadable | PlanUnreadable | PlanNotFound | ScanLoad repo_error | ScanRead
  | ScanManifest repo_error | WalkFailed | SaveFailed | PlanIdRequired | ScanCancelled

datatype candidate_status = Waiting | Eligible | DeletedC | Skipped

record candidate =
  ca_ref :: chunk_ref
  ca_bytes :: int
  ca_modified :: time
  ca_first_seen :: time
  ca_eligible_at :: time
  ca_status :: candidate_status
  ca_error :: string

datatype plan_status = Planned | PlanRunning | Paused | PlanCompleted | PlanCancelled

record plan =
  pl_id :: string
  pl_generated :: time
  pl_grace :: duration
  pl_referenced :: nat
  pl_checkpoints :: nat
  pl_candidates :: "candidate list"
  pl_cursor :: nat
  pl_status :: plan_status
  pl_dry_run :: bool
  pl_updated :: time
  pl_orphans :: "time store"
  pl_unindexed :: "string list"

text \<open>The files below \<^verbatim>\<open>gc/\<close>: the ledger of first sightings and the plans; a file may fail to decode.\<close>

datatype 'a json_file = Absent | Corrupt | Holds 'a

record gc_state =
  gs_repo :: checkpoint_state
  gs_orphans :: "time store json_file"
  gs_plans :: "plan option store"

definition min_grace :: duration where
  "min_grace = hours 1"

definition gc_chunk_key :: "chunk_ref \<Rightarrow> string" where
  "gc_chunk_key ref = ''v'' @ show_nat (cr_key_version ref) @ ''/'' @ cr_address ref"

definition valid_plan_id :: "string \<Rightarrow> bool" where
  "valid_plan_id s \<longleftrightarrow> s \<noteq> [] \<and> length s \<le> 64
     \<and> list_all (\<lambda>c. CHR ''a'' \<le> c \<and> c \<le> CHR ''z'' \<or> is_digit c \<or> c = CHR ''-'') s \<and> hd s \<noteq> CHR ''-''"

definition load_plan :: "string \<Rightarrow> gc_state \<Rightarrow> (gc_error, plan) outcome" where
  "load_plan pid gs =
     (if \<not> valid_plan_id pid then Inl PlanNotFound
      else case st_get (gs_plans gs) pid of
        None \<Rightarrow> Inl PlanNotFound
      | Some None \<Rightarrow> Inl PlanUnreadable
      | Some (Some p) \<Rightarrow> if pl_id p \<noteq> pid then Inl PlanNotFound else Inr p)"

definition save_plan :: "bool \<Rightarrow> plan \<Rightarrow> gc_state \<Rightarrow> gc_error option \<times> gc_state" where
  "save_plan ok p gs =
     (if \<not> valid_plan_id (pl_id p) then (Some PlanIdRequired, gs)
      else if \<not> ok then (Some SaveFailed, gs)
      else (None, gs\<lparr>gs_plans := st_put (pl_id p) (Some p) (gs_plans gs)\<rparr>))"

definition load_orphans :: "gc_state \<Rightarrow> (gc_error, time store) outcome" where
  "load_orphans gs = (case gs_orphans gs of Absent \<Rightarrow> Inr [] | Corrupt \<Rightarrow> Inl OrphansUnreadable | Holds m \<Rightarrow> Inr m)"

section \<open>The scan\<close>

text \<open>Whether \<open>ReadDir\<close> succeeds and whether the manifest of a directory can be read.\<close>

record scan_env =
  sc_readdir :: bool
  sc_open :: "string \<Rightarrow> bool"

definition manifest_keys :: "full_manifest \<Rightarrow> string list" where
  "manifest_keys m = concat (map (\<lambda>a. map gc_chunk_key (am_chunks a)) (cm_assets m))"

fun scan_index :: "signing \<Rightarrow> checkpoint_state \<Rightarrow> summary list \<Rightarrow> (gc_error, string list) outcome" where
  "scan_index sg st [] = Inr []"
| "scan_index sg st (s # ss) =
     (case repo_load sg st (sm_id s) of Inl e \<Rightarrow> Inl (ScanLoad e) | Inr m \<Rightarrow>
     (case scan_index sg st ss of Inl e \<Rightarrow> Inl e | Inr ks \<Rightarrow> Inr (manifest_keys m @ ks)))"

text \<open>\<open>onDiskManifestChunks\<close>: further references, and the checkpoints that the index does not list.\<close>

fun scan_dirs :: "signing \<Rightarrow> scan_env \<Rightarrow> chunk_store \<Rightarrow> string list \<Rightarrow> manifest_file option store \<Rightarrow> (gc_error, string list \<times> string list) outcome" where
  "scan_dirs sg env chunks indexed [] = Inr ([], [])"
| "scan_dirs sg env chunks indexed ((name, None) # ds) = scan_dirs sg env chunks indexed ds"
| "scan_dirs sg env chunks indexed ((name, Some fl) # ds) =
     (if \<not> sc_open env name then Inl ScanRead
      else case decode_encrypted_manifest sg chunks name fl of Inl e \<Rightarrow> Inl (ScanManifest e) | Inr (m, _) \<Rightarrow>
     (case scan_dirs sg env chunks indexed ds of Inl e \<Rightarrow> Inl e | Inr (ks, un) \<Rightarrow>
      Inr (manifest_keys m @ ks, (if cm_id m \<in> set indexed then un else cm_id m # un))))"

definition referenced_chunks :: "signing \<Rightarrow> sorter \<Rightarrow> scan_env \<Rightarrow> checkpoint_state \<Rightarrow> (gc_error, string list \<times> nat \<times> string list) outcome" where
  "referenced_chunks sg srt env st =
     (let ss = repo_list srt st [] in
      case scan_index sg st ss of Inl e \<Rightarrow> Inl e | Inr ks \<Rightarrow>
      if \<not> sc_readdir env then Inl ScanRead
      else case scan_dirs sg env (ks_chunks st) (map sm_id ss) (ks_dirs st) of Inl e \<Rightarrow> Inl e | Inr (ks', un) \<Rightarrow>
      Inr (remdups (ks @ ks'), length ss, sort un))"

section \<open>Chunk files\<close>

definition listed_ref :: "chunk_path \<Rightarrow> bytes \<Rightarrow> chunk_ref" where
  "listed_ref p b = \<lparr>cr_address = snd p, cr_key_version = fst p, cr_plain_size = 0, cr_stored_size = size_of b,
     cr_cipher_sha = [], cr_plain_sha = [], cr_sequence = 0, cr_compression = []\<rparr>"

definition enumerate_chunks :: "chunk_path list \<Rightarrow> checkpoint_state \<Rightarrow> (chunk_ref \<times> time) list" where
  "enumerate_chunks walk st =
     concat (map (\<lambda>p. case cs_files (ks_chunks st) p of
       None \<Rightarrow> []
     | Some b \<Rightarrow> if valid_address (snd p) \<and> fst p \<noteq> 0 then [(listed_ref p b, ks_mtime st p)] else []) walk)"

definition drop_file :: "chunk_path \<Rightarrow> checkpoint_state \<Rightarrow> checkpoint_state" where
  "drop_file p st = st\<lparr>ks_chunks := (ks_chunks st)\<lparr>cs_files := (cs_files (ks_chunks st))(p := None)\<rparr>\<rparr>"

definition delete_ref :: "bool \<Rightarrow> chunk_ref \<Rightarrow> time \<Rightarrow> checkpoint_state \<Rightarrow> bool \<times> checkpoint_state" where
  "delete_ref ok ref modified st =
     (case chunk_path_of ref of None \<Rightarrow> (False, st) | Some p \<Rightarrow>
     (case cs_files (ks_chunks st) p of None \<Rightarrow> (False, st) | Some b \<Rightarrow>
      if \<not> ok \<or> ks_mtime st p \<noteq> modified \<or> size_of b \<noteq> cr_stored_size ref then (False, st)
      else (True, drop_file p st)))"

section \<open>Planning\<close>

record plan_env =
  pn_scan :: scan_env
  pn_walk :: "chunk_path list"
  pn_walk_ok :: bool
  pn_sort :: "candidate list \<Rightarrow> candidate list"
  pn_id :: string
  pn_clock :: time
  pn_save_orphans :: bool
  pn_save_plan :: bool

definition plan_candidate :: "duration \<Rightarrow> time \<Rightarrow> time store \<Rightarrow> chunk_ref \<times> time \<Rightarrow> candidate" where
  "plan_candidate grace now previous info =
     (let first = (case st_get previous (gc_chunk_key (fst info)) of None \<Rightarrow> now | Some t \<Rightarrow> if IsZero t then now else t) in
      \<lparr>ca_ref = fst info, ca_bytes = cr_stored_size (fst info), ca_modified = snd info, ca_first_seen = first,
       ca_eligible_at = first + grace, ca_status = (if first + grace > now then Waiting else Eligible), ca_error = []\<rparr>)"

definition effective_grace :: "duration \<Rightarrow> duration" where
  "effective_grace grace = (if grace < min_grace then min_grace else grace)"

definition effective_now :: "plan_env \<Rightarrow> time \<Rightarrow> time" where
  "effective_now env now = (if IsZero now then pn_clock env else now)"

definition gc_plan :: "signing \<Rightarrow> sorter \<Rightarrow> plan_env \<Rightarrow> duration \<Rightarrow> time \<Rightarrow> gc_state \<Rightarrow> (gc_error, plan) outcome \<times> gc_state" where
  "gc_plan sg srt env grace0 now0 gs =
     (if grace0 < 0 then (Inl GraceNegative, gs)
      else let grace = effective_grace grace0; now = effective_now env now0 in
      case load_orphans gs of Inl e \<Rightarrow> (Inl e, gs) | Inr previous \<Rightarrow>
     (case referenced_chunks sg srt (pn_scan env) (gs_repo gs) of Inl e \<Rightarrow> (Inl e, gs) | Inr (referenced, n, unindexed) \<Rightarrow>
      if \<not> pn_walk_ok env then (Inl WalkFailed, gs)
      else let orphaned = filter (\<lambda>i. gc_chunk_key (fst i) \<notin> set referenced) (enumerate_chunks (pn_walk env) (gs_repo gs));
               cands = map (plan_candidate grace now previous) orphaned;
               current = foldl (\<lambda>m c. st_put (gc_chunk_key (ca_ref c)) (ca_first_seen c) m) [] cands;
               p = \<lparr>pl_id = pn_id env, pl_generated = now, pl_grace = grace, pl_referenced = length referenced,
                    pl_checkpoints = n, pl_candidates = pn_sort env cands, pl_cursor = 0, pl_status = Planned,
                    pl_dry_run = False, pl_updated = now, pl_orphans = current, pl_unindexed = unindexed\<rparr> in
      if \<not> pn_save_orphans env then (Inl SaveFailed, gs)
      else case save_plan (pn_save_plan env) p (gs\<lparr>gs_orphans := Holds current\<rparr>) of
        (Some e, gs1) \<Rightarrow> (Inl e, gs1)
      | (None, gs1) \<Rightarrow> (Inr p, gs1)))"

section \<open>Sweeping\<close>

text \<open>
  The text of a failed unlink's error is not kept.  What a sweep meets: the clock at its start and end, the scan, whether the context is cancelled when the
  cursor reaches a candidate, whether unlinking a candidate succeeds and whether the plan can be saved then.
\<close>

record sweep_env =
  sw_now :: time
  sw_end :: time
  sw_scan :: scan_env
  sw_ctx :: "nat \<Rightarrow> bool"
  sw_unlink :: "nat \<Rightarrow> bool"
  sw_save :: "nat \<Rightarrow> bool"
  sw_final :: bool

definition sweep_one :: "time \<Rightarrow> string list \<Rightarrow> bool \<Rightarrow> candidate \<Rightarrow> checkpoint_state \<Rightarrow> candidate \<times> checkpoint_state" where
  "sweep_one now referenced ok c st =
     (if ca_status c = DeletedC \<or> ca_status c = Skipped then (c, st)
      else if ca_status c \<noteq> Eligible \<or> \<not> IsZero (ca_eligible_at c) \<and> ca_eligible_at c > now then (c, st)
      else if ca_modified c > now - min_grace then (c, st)
      else if gc_chunk_key (ca_ref c) \<in> set referenced
      then (c\<lparr>ca_status := Skipped, ca_error := ''chunk became referenced''\<rparr>, st)
      else case delete_ref ok (ca_ref c) (ca_modified c) st of
        (False, st1) \<Rightarrow> (c\<lparr>ca_status := Skipped, ca_error := ''delete failed''\<rparr>, st1)
      | (True, st1) \<Rightarrow> (c\<lparr>ca_status := DeletedC\<rparr>, st1))"

text \<open>
  The loop: it saves the plan after an attempted deletion at every 128th position, and stops early when the
  context is cancelled (the first component of the result).
\<close>

definition reaches_delete :: "time \<Rightarrow> string list \<Rightarrow> candidate \<Rightarrow> bool" where
  "reaches_delete now referenced c \<longleftrightarrow> ca_status c = Eligible \<and> (IsZero (ca_eligible_at c) \<or> ca_eligible_at c \<le> now)
     \<and> ca_modified c \<le> now - min_grace \<and> gc_chunk_key (ca_ref c) \<notin> set referenced"

function sweep_loop :: "sweep_env \<Rightarrow> string list \<Rightarrow> plan \<Rightarrow> gc_state \<Rightarrow> bool \<times> plan \<times> gc_state" where
  "sweep_loop env referenced p gs =
     (if \<not> pl_cursor p < length (pl_candidates p) then (False, p, gs)
      else if sw_ctx env (pl_cursor p) then (True, p, gs)
      else let i = pl_cursor p; c = pl_candidates p ! i in
      case sweep_one (sw_now env) referenced (sw_unlink env i) c (gs_repo gs) of (c', st) \<Rightarrow>
      let p1 = p\<lparr>pl_cursor := Suc i, pl_candidates := (pl_candidates p)[i := c']\<rparr>; gs1 = gs\<lparr>gs_repo := st\<rparr> in
      sweep_loop env referenced p1
        (if reaches_delete (sw_now env) referenced c \<and> Suc i mod 128 = 0 then snd (save_plan (sw_save env i) p1 gs1) else gs1))"
  by pat_completeness auto
termination by (relation "measure (\<lambda>(env, referenced, p, gs). length (pl_candidates p) - pl_cursor p)") auto

declare sweep_loop.simps [simp del]

definition gc_sweep :: "signing \<Rightarrow> sorter \<Rightarrow> sweep_env \<Rightarrow> string \<Rightarrow> bool \<Rightarrow> gc_state \<Rightarrow> (gc_error, plan) outcome \<times> gc_state" where
  "gc_sweep sg srt env pid dry gs =
     (case load_plan pid gs of Inl e \<Rightarrow> (Inl e, gs) | Inr p0 \<Rightarrow>
      if dry then let p = p0\<lparr>pl_dry_run := True, pl_updated := sw_now env\<rparr> in (Inr p, snd (save_plan (sw_final env) p gs))
      else let p = p0\<lparr>pl_dry_run := False, pl_status := PlanRunning\<rparr> in
      case referenced_chunks sg srt (sw_scan env) (gs_repo gs) of
        Inl e \<Rightarrow> (Inl e, snd (save_plan (sw_final env) (p\<lparr>pl_status := Paused\<rparr>) gs))
      | Inr (referenced, _, unindexed) \<Rightarrow>
     (case sweep_loop env referenced (p\<lparr>pl_unindexed := unindexed\<rparr>) gs of
        (True, p1, gs1) \<Rightarrow> (Inl ScanCancelled, snd (save_plan (sw_final env) (p1\<lparr>pl_status := Paused\<rparr>) gs1))
      | (False, p1, gs1) \<Rightarrow>
          let p2 = p1\<lparr>pl_status := PlanCompleted, pl_updated := sw_end env\<rparr> in
          case save_plan (sw_final env) p2 gs1 of
            (Some e, gs2) \<Rightarrow> (Inl e, gs2)
          | (None, gs2) \<Rightarrow> (Inr p2, gs2)))"

definition gc_cancel :: "bool \<Rightarrow> time \<Rightarrow> string \<Rightarrow> gc_state \<Rightarrow> (gc_error, plan) outcome \<times> gc_state" where
  "gc_cancel ok now pid gs =
     (case load_plan pid gs of Inl e \<Rightarrow> (Inl e, gs) | Inr p0 \<Rightarrow>
      let p = p0\<lparr>pl_status := PlanCancelled, pl_updated := now\<rparr> in
      case save_plan ok p gs of (Some e, gs1) \<Rightarrow> (Inl e, gs1) | (None, gs1) \<Rightarrow> (Inr p, gs1))"

section \<open>Capturing a checkpoint\<close>

text \<open>
  The storing half of \<open>Service.Create\<close>: the image set and then the root are written to the chunk store, the
  manifest lists both, is signed and saved.  A chunk file that is linked gets the current time; a chunk that
  is already there keeps its own.
\<close>

record capture_part =
  cp_name :: string
  cp_data :: bytes
  cp_io :: asset_io
  cp_key :: bool
  cp_fresh :: key

record capture =
  cap_image :: capture_part
  cap_root :: capture_part
  cap_manifest :: full_manifest
  cap_key :: bool
  cap_fresh :: key
  cap_save :: save_io
  cap_now :: time

definition with_chunks :: "time \<Rightarrow> chunk_store \<Rightarrow> checkpoint_state \<Rightarrow> checkpoint_state" where
  "with_chunks now chunks st = st\<lparr>ks_chunks := chunks,
     ks_mtime := (\<lambda>p. if cs_files (ks_chunks st) p = None \<and> cs_files chunks p \<noteq> None then now else ks_mtime st p)\<rparr>"

definition store_part :: "codec \<Rightarrow> string \<Rightarrow> time \<Rightarrow> capture_part \<Rightarrow> checkpoint_state \<Rightarrow> (chunk_error, asset_manifest) outcome \<times> checkpoint_state" where
  "store_part cx w now part st =
     (case put_asset cx (cp_io part) (cp_key part) (cp_fresh part) w (cp_name part) (cp_data part) (ks_chunks st) of
        (Inl e, chunks) \<Rightarrow> (Inl e, with_chunks now chunks st)
      | (Inr (asset, _), chunks) \<Rightarrow> (Inr asset, with_chunks now chunks st))"

definition capture_assets :: "codec \<Rightarrow> capture \<Rightarrow> checkpoint_state \<Rightarrow> (chunk_error, asset_manifest list) outcome \<times> checkpoint_state" where
  "capture_assets cx cap st =
     (let w = cm_workload (cap_manifest cap) in
      case store_part cx w (cap_now cap) (cap_image cap) st of
        (Inl e, st1) \<Rightarrow> (Inl e, st1)
      | (Inr image_asset, st1) \<Rightarrow>
     (case store_part cx w (cap_now cap) (cap_root cap) st1 of
        (Inl e, st2) \<Rightarrow> (Inl e, st2)
      | (Inr root_asset, st2) \<Rightarrow> (Inr [root_asset, image_asset], st2)))"

definition capture_manifest :: "signing \<Rightarrow> signer \<Rightarrow> capture \<Rightarrow> asset_manifest list \<Rightarrow> full_manifest" where
  "capture_manifest sg si cap assets = sign_manifest sg si ((cap_manifest cap)\<lparr>cm_format := state_format_name,
     cm_format_version := state_format_version, cm_assets := assets,
     cm_plain_bytes := i64 (sum_list (map am_plain_size assets)), cm_stored_bytes := i64 (sum_list (map am_stored_size assets))\<rparr>)"

definition publish :: "signing \<Rightarrow> signer \<Rightarrow> capture \<Rightarrow> asset_manifest list \<Rightarrow> checkpoint_state \<Rightarrow> repo_error option \<times> checkpoint_state" where
  "publish sg si cap assets st =
     (case get_or_create_workload_key (cap_key cap) (cap_fresh cap) (cs_km (ks_chunks st)) (cm_workload (cap_manifest cap)) (cs_keys (ks_chunks st)) of
        (Inl e, keys) \<Rightarrow> (Some (RepoKey e), set_keys keys st)
      | (Inr _, keys) \<Rightarrow> repo_save sg (cap_save cap) (capture_manifest sg si cap assets) (set_keys keys st))"

text \<open>One capture inside the write guard; without it other steps may come between the two halves.\<close>

definition capture_checkpoint :: "codec \<Rightarrow> signing \<Rightarrow> signer \<Rightarrow> capture \<Rightarrow> checkpoint_state \<Rightarrow> bool \<times> checkpoint_state" where
  "capture_checkpoint cx sg si cap st =
     (case capture_assets cx cap st of
        (Inl e, st1) \<Rightarrow> (False, st1)
      | (Inr assets, st1) \<Rightarrow> (case publish sg si cap assets st1 of (e, st2) \<Rightarrow> (e = None, st2)))"

section \<open>What the collector must keep\<close>

text \<open>A chunk store that grew: every file and every readable key is still there.\<close>

definition grows :: "chunk_store \<Rightarrow> chunk_store \<Rightarrow> bool" where
  "grows st st' \<longleftrightarrow> cs_km st' = cs_km st \<and> cs_chunk_size st' = cs_chunk_size st
     \<and> (\<forall>p b. cs_files st p = Some b \<longrightarrow> cs_files st' p = Some b)
     \<and> (\<forall>w v k. workload_key (cs_km st) (cs_keys st) w v = Inr k \<longrightarrow> workload_key (cs_km st) (cs_keys st') w v = Inr k)"

lemma grows_refl [simp]: "grows st st"
  by (simp add: grows_def)

lemma grows_trans [trans]: "grows a b \<Longrightarrow> grows b c \<Longrightarrow> grows a c"
  by (simp add: grows_def)

lemma keeps_grows: "keeps_files st st' \<Longrightarrow> grows st st'"
  by (simp add: keeps_files_def grows_def)

lemma verify_encoded_key:
  assumes "verify_encoded cx st w ref b = Inr r"
  shows "\<exists>k. workload_key (cs_km st) (cs_keys st) w (cr_key_version ref) = Inr k"
  using assms by (auto simp: verify_encoded_def split: if_splits sum.splits)

lemma verify_chunk_grows:
  assumes ok: "verify_chunk cx st w ref = Inr r" and grow: "grows st st'"
  shows "verify_chunk cx st' w ref = Inr r"
proof -
  obtain p b where p: "chunk_path_of ref = Some p" "cs_files st p = Some b" and v: "verify_encoded cx st w ref b = Inr r"
    and sz: "\<not> (cr_plain_size ref < 1 \<or> cr_plain_size ref > max_plain_chunk)"
      "\<not> (cr_stored_size ref < 1 \<or> cr_stored_size ref > max_encoded_chunk)"
    using ok by (auto simp: verify_chunk_def split: if_splits option.splits)
  obtain k where k: "workload_key (cs_km st) (cs_keys st) w (cr_key_version ref) = Inr k"
    using verify_encoded_key [OF v] by blast
  with grow have k': "workload_key (cs_km st') (cs_keys st') w (cr_key_version ref) = Inr k" by (simp add: grows_def)
  have "verify_encoded cx st' w ref b = Inr r"
    using v k k' by (auto simp: verify_encoded_def split: if_splits sum.splits)
  moreover have "cs_files st' p = Some b" using grow p(2) unfolding grows_def by blast
  ultimately show ?thesis using p(1) sz by (simp add: verify_chunk_def)
qed

lemma restore_chunks_mono:
  assumes "\<And>ref r. ref \<in> set refs \<Longrightarrow> verify_chunk cx st w ref = Inr r \<Longrightarrow> verify_chunk cx st' w ref = Inr r"
    and "restore_chunks cx st w i refs = Inr out"
  shows "restore_chunks cx st' w i refs = Inr out"
  using assms
proof (induction refs arbitrary: i out)
  case (Cons ref refs)
  from Cons.prems(2) obtain p c o2 where "cr_sequence ref = i" and v: "verify_chunk cx st w ref = Inr (p, c)"
    and rest: "restore_chunks cx st w (i + 1) refs = Inr o2" and "out = p @ o2"
    by (auto split: if_splits sum.splits)
  moreover have "restore_chunks cx st' w (i + 1) refs = Inr o2" using Cons.prems(1) by (intro Cons.IH [OF _ rest]) simp
  moreover have "verify_chunk cx st' w ref = Inr (p, c)" using Cons.prems(1) [OF _ v] by simp
  ultimately show ?case by simp
qed simp

lemma validate_asset_mono:
  assumes "\<And>ref r. ref \<in> set (am_chunks a) \<Longrightarrow> verify_chunk cx st w ref = Inr r \<Longrightarrow> verify_chunk cx st' w ref = Inr r"
    and "validate_asset cx st w a"
  shows "validate_asset cx st' w a"
proof -
  obtain data where "restore_asset cx st w a = Inr data"
    using assms(2) by (auto simp: validate_asset_def failed_def split: sum.splits)
  then obtain out where out: "restore_chunks cx st w 0 (sort_key cr_sequence (am_chunks a)) = Inr out"
    and chk: "i64 (size_of out) = am_plain_size a" "cx_sha cx out = am_sha a"
    by (auto simp: restore_asset_def split: sum.splits if_splits)
  have "restore_chunks cx st' w 0 (sort_key cr_sequence (am_chunks a)) = Inr out"
    by (rule restore_chunks_mono [OF _ out]) (use assms(1) in auto)
  with chk show ?thesis by (simp add: validate_asset_def restore_asset_def failed_def)
qed

lemma validate_asset_grows: "validate_asset cx st w a \<Longrightarrow> grows st st' \<Longrightarrow> validate_asset cx st' w a"
  using verify_chunk_grows by (rule validate_asset_mono)

lemma put_chunk_keeps:
  assumes "put_chunk cx io w kv dk seq plain st = (r, st')"
  shows "keeps_files st st'"
proof -
  have link: "keeps_files st (snd (link_chunk cx io w ref p encoded plain st))" for ref p encoded
  proof -
    let ?st = "case pi_late io of None \<Rightarrow> st | Some b \<Rightarrow> if cs_files st p = None then add_file p b st else st"
    have "keeps_files st ?st" by (auto simp: keeps_files_add split: option.splits)
    moreover have "keeps_files ?st (snd (link_chunk cx io w ref p encoded plain st))"
      unfolding link_chunk_def Let_def
      by (cases "cs_files ?st p"; cases "pi_write io"; cases "pi_link io")
        (simp_all add: keeps_files_add split: sum.splits)
    ultimately show ?thesis by (rule keeps_files_trans)
  qed
  have "keeps_files st (snd (put_chunk cx io w kv dk seq plain st))"
    unfolding put_chunk_def Let_def by (auto simp: link split: option.splits sum.splits)
  with assms show ?thesis by simp
qed

lemma put_blocks_keeps:
  "put_blocks cx io w kv dk n i bs st = (r, st') \<Longrightarrow> keeps_files st st'"
proof (induction bs arbitrary: i st r st')
  case (Cons b bs)
  show ?case
  proof (cases "ai_read io i")
    case True
    obtain x st1 where pc: "put_chunk cx (ai_put io i) w kv dk (int i) b st = (x, st1)" by fastforce
    obtain y st2 where pb: "put_blocks cx io w kv dk n (Suc i) bs st1 = (y, st2)" by fastforce
    have "st' = st1 \<or> st' = st2" using Cons.prems True pc pb by (auto split: sum.splits if_splits)
    with put_chunk_keeps [OF pc] Cons.IH [OF pb] keeps_files_trans show ?thesis by blast
  qed (use Cons.prems in simp)
qed (auto split: if_splits)

lemma put_asset_grows:
  assumes keys: "keys_ok (cs_km st) (cs_keys st)" and run: "put_asset cx io ok fresh w name data st = (r, st')"
  shows "grows st st' \<and> keys_ok (cs_km st') (cs_keys st')
    \<and> (cs_keys st' = cs_keys st \<or> cs_keys st' = snd (get_or_create_workload_key ok fresh (cs_km st) w (cs_keys st)))"
proof (cases "w = [] \<or> name = []")
  case True
  with run keys show ?thesis by (auto simp: put_asset_def)
next
  case False
  obtain x disk where g: "get_or_create_workload_key ok fresh (cs_km st) w (cs_keys st) = (x, disk)" by fastforce
  note gk = get_or_create_keeps [OF keys g]
  have up: "grows st (st\<lparr>cs_keys := disk\<rparr>)" using gk(2) by (simp add: grows_def)
  show ?thesis
  proof (cases x)
    case (Inl e)
    with run False g gk up show ?thesis by (auto simp: put_asset_def)
  next
    case (Inr v)
    obtain kv dk where v: "x = Inr (kv, dk)" using Inr by (cases v) simp
    obtain y st1 where pb: "put_blocks cx io w kv dk (cs_chunk_size st) 0 (blocks (cs_chunk_size st) data) (st\<lparr>cs_keys := disk\<rparr>) = (y, st1)"
      by fastforce
    note keep = put_blocks_keeps [OF pb]
    have "st' = st1" using run False g v pb by (auto simp: put_asset_def split: sum.splits)
    moreover have "keys_ok (cs_km st1) (cs_keys st1)" "cs_keys st1 = disk" using keep gk(1) by (auto simp: keeps_files_def)
    ultimately show ?thesis using grows_trans [OF up keeps_grows [OF keep]] g by auto
  qed
qed

text \<open>
  A healthy state directory: the keys are readable, every manifest on disk decodes and all its assets can be
  restored from the chunk store, and every checkpoint in the index loads.
\<close>

definition versions_fine :: "key_disk \<Rightarrow> bool" where
  "versions_fine keys \<longleftrightarrow> (\<forall>w rs r. st_get (kd_files keys) w = Some rs \<and> r \<in> set rs \<longrightarrow> 0 < wr_version r \<and> wr_version r < 2 ^ 32)"

definition store_ready :: "chunk_store \<Rightarrow> bool" where
  "store_ready st \<longleftrightarrow> keys_ok (cs_km st) (cs_keys st) \<and> versions_fine (cs_keys st)
     \<and> 0 < cs_chunk_size st \<and> int (cs_chunk_size st) \<le> max_plain_chunk"

definition manifests_intact :: "codec \<Rightarrow> signing \<Rightarrow> checkpoint_state \<Rightarrow> bool" where
  "manifests_intact cx sg st \<longleftrightarrow> (\<forall>name fl. dir_manifest st name = Some fl \<longrightarrow>
     (\<exists>m ev. decode_encrypted_manifest sg (ks_chunks st) name fl = Inr (m, ev)
        \<and> (\<forall>a \<in> set (cm_assets m). validate_asset cx (ks_chunks st) (cm_workload m) a)))"

definition index_loads :: "signing \<Rightarrow> checkpoint_state \<Rightarrow> bool" where
  "index_loads sg st \<longleftrightarrow> (\<forall>cid. contents (ks_index st) cid \<noteq> None \<longrightarrow> (\<exists>m. repo_load sg st cid = Inr m))"

definition healthy :: "codec \<Rightarrow> signing \<Rightarrow> checkpoint_state \<Rightarrow> bool" where
  "healthy cx sg st \<longleftrightarrow> store_ready (ks_chunks st) \<and> manifests_intact cx sg st \<and> index_loads sg st"

lemma get_or_create_versions:
  assumes "versions_fine keys" and "get_or_create_workload_key ok fresh km w keys = (r, keys')"
  shows "versions_fine keys' \<and> (\<forall>v k. r = Inr (v, k) \<longrightarrow> 0 < v \<and> v < 2 ^ 32)"
proof (cases "records_or_none keys w")
  case (Inl e)
  with assms show ?thesis by (auto simp: get_or_create_workload_key_def)
next
  case (Inr rs)
  show ?thesis
  proof (cases "rs = []")
    case True
    obtain x disk where st: "store_workload_key ok km w 1 fresh [] keys = (x, disk)" by fastforce
    have "versions_fine disk"
      using st assms(1) by (auto simp: store_workload_key_def Let_def versions_fine_def wrap_with_def split: option.splits if_splits)
    with st assms(2) Inr True show ?thesis by (auto simp: get_or_create_workload_key_def split: sum.splits)
  next
    case False
    then have "st_get (kd_files keys) w = Some rs"
      using Inr by (auto simp: records_or_none_def load_records_def split: option.splits sum.splits if_splits key_error.splits)
    then have "0 < wr_version (last rs) \<and> wr_version (last rs) < 2 ^ 32"
      using assms(1) False last_in_set unfolding versions_fine_def by blast
    with assms Inr False show ?thesis by (auto simp: get_or_create_workload_key_def split: sum.splits)
  qed
qed

lemma intact_grows:
  assumes "manifests_intact cx sg st" and grow: "grows (ks_chunks st) (ks_chunks st')"
    and "\<And>name. dir_manifest st' name = dir_manifest st name"
  shows "manifests_intact cx sg st'"
  unfolding manifests_intact_def
proof (intro allI impI)
  fix name fl assume "dir_manifest st' name = Some fl"
  then obtain m ev where dec: "decode_encrypted_manifest sg (ks_chunks st) name fl = Inr (m, ev)"
    and val: "\<forall>a \<in> set (cm_assets m). validate_asset cx (ks_chunks st) (cm_workload m) a"
    using assms(1,3) by (fastforce simp: manifests_intact_def)
  have "decode_encrypted_manifest sg (ks_chunks st') name fl = Inr (m, ev)"
    using grow by (intro decode_manifest_keys [OF dec]) (auto simp: grows_def)
  moreover have "\<forall>a \<in> set (cm_assets m). validate_asset cx (ks_chunks st') (cm_workload m) a"
    using val validate_asset_grows [OF _ grow] by blast
  ultimately show "\<exists>m ev. decode_encrypted_manifest sg (ks_chunks st') name fl = Inr (m, ev)
      \<and> (\<forall>a \<in> set (cm_assets m). validate_asset cx (ks_chunks st') (cm_workload m) a)" by blast
qed

lemma loads_grows:
  assumes "index_loads sg st" and grow: "grows (ks_chunks st) (ks_chunks st')"
    and "\<And>name. dir_manifest st' name = dir_manifest st name" and "ks_index st' = ks_index st"
  shows "index_loads sg st'"
  unfolding index_loads_def
proof (intro allI impI)
  fix cid assume "contents (ks_index st') cid \<noteq> None"
  then obtain m where "repo_load sg st cid = Inr m" using assms(1,4) by (auto simp: index_loads_def)
  then have "repo_load sg st' cid = Inr m"
    by (rule repo_load_keys) (use grow assms(3,4) in \<open>auto simp: grows_def\<close>)
  then show "\<exists>m. repo_load sg st' cid = Inr m" by blast
qed

lemma healthy_grows:
  assumes "healthy cx sg st" and "grows (ks_chunks st) (ks_chunks st')" and "store_ready (ks_chunks st')"
    and "\<And>name. dir_manifest st' name = dir_manifest st name" and "ks_index st' = ks_index st"
  shows "healthy cx sg st'"
  using assms intact_grows loads_grows unfolding healthy_def by blast

section \<open>Captures keep the directory healthy\<close>

definition part_ok :: "capture_part \<Rightarrow> bool" where
  "part_ok part \<longleftrightarrow> (\<forall>i. length (pi_nonce (ai_put (cp_io part) i)) = nonce_size)"

definition capture_ok :: "capture \<Rightarrow> bool" where
  "capture_ok cap \<longleftrightarrow> part_ok (cap_image cap) \<and> part_ok (cap_root cap)
     \<and> length (sv_nonce (cap_save cap)) = nonce_size \<and> 0 < sv_size (cap_save cap) \<and> sv_size (cap_save cap) \<le> max_manifest_bytes"

lemma with_chunks_sel [simp]:
  "ks_chunks (with_chunks now chunks st) = chunks" "ks_index (with_chunks now chunks st) = ks_index st"
  "dir_manifest (with_chunks now chunks st) name = dir_manifest st name"
  by (simp_all add: with_chunks_def dir_manifest_def)

lemma store_part_ok:
  assumes laws: "codec_laws cx" and ready: "store_ready (ks_chunks st)" and part: "part_ok part"
    and run: "store_part cx w now part st = (r, st')"
  shows "grows (ks_chunks st) (ks_chunks st')" and "store_ready (ks_chunks st')"
    and "dir_manifest st' name = dir_manifest st name" and "ks_index st' = ks_index st"
    and "r = Inr a \<Longrightarrow> validate_asset cx (ks_chunks st') w a"
proof -
  obtain x chunks where pa: "put_asset cx (cp_io part) (cp_key part) (cp_fresh part) w (cp_name part) (cp_data part) (ks_chunks st) = (x, chunks)"
    by fastforce
  then have st': "st' = with_chunks now chunks st" and r: "r = (case x of Inl e \<Rightarrow> Inl e | Inr (a, _) \<Rightarrow> Inr a)"
    using run by (auto simp: store_part_def split: sum.splits)
  have keys: "keys_ok (cs_km (ks_chunks st)) (cs_keys (ks_chunks st))" using ready by (simp add: store_ready_def)
  obtain g disk where goc: "get_or_create_workload_key (cp_key part) (cp_fresh part) (cs_km (ks_chunks st)) w (cs_keys (ks_chunks st)) = (g, disk)"
    by fastforce
  have vf: "versions_fine (cs_keys (ks_chunks st))" using ready by (simp add: store_ready_def)
  note gv = get_or_create_versions [OF vf goc] and pg = put_asset_grows [OF keys pa]
  show grow: "grows (ks_chunks st) (ks_chunks st')" using pg st' by simp
  show "dir_manifest st' name = dir_manifest st name" "ks_index st' = ks_index st" by (simp_all add: st')
  have "versions_fine (cs_keys chunks)" using pg goc gv vf by auto
  with pg grow ready show "store_ready (ks_chunks st')" by (auto simp: store_ready_def grows_def st')
  show "validate_asset cx (ks_chunks st') w a" if ra: "r = Inr a"
  proof -
    obtain dd where x: "x = Inr (a, dd)" using ra r by (auto split: sum.splits)
    have "restore_asset cx chunks w a = Inr (cp_data part)"
      using put_restore_roundtrip [OF laws keys _ _ _ _ pa [unfolded x]] part ready gv goc
      by (auto simp: part_ok_def store_ready_def)
    then show ?thesis by (simp add: st' validate_asset_def failed_def)
  qed
qed

lemma capture_assets_ok:
  assumes laws: "codec_laws cx" and ready: "store_ready (ks_chunks st)" and cap: "capture_ok cap"
    and run: "capture_assets cx cap st = (r, st')"
  shows "grows (ks_chunks st) (ks_chunks st')" and "store_ready (ks_chunks st')"
    and "dir_manifest st' name = dir_manifest st name" and "ks_index st' = ks_index st"
    and "r = Inr as \<Longrightarrow> \<forall>a \<in> set as. validate_asset cx (ks_chunks st') (cm_workload (cap_manifest cap)) a"
proof -
  let ?w = "cm_workload (cap_manifest cap)"
  obtain x st1 where one: "store_part cx ?w (cap_now cap) (cap_image cap) st = (x, st1)" by fastforce
  obtain y st2 where two: "store_part cx ?w (cap_now cap) (cap_root cap) st1 = (y, st2)" by fastforce
  have parts: "part_ok (cap_image cap)" "part_ok (cap_root cap)" using cap by (simp_all add: capture_ok_def)
  note s1 = store_part_ok [OF laws ready parts(1) one]
  note s2 = store_part_ok [OF laws s1(2) parts(2) two]
  have cases: "st' = st1 \<and> (\<exists>e. r = Inl e) \<or> st' = st2 \<and> ((\<exists>e. r = Inl e) \<or> (\<exists>a b. x = Inr a \<and> y = Inr b \<and> r = Inr [b, a]))"
    using run one two by (auto simp: capture_assets_def split: sum.splits)
  show "grows (ks_chunks st) (ks_chunks st')" "store_ready (ks_chunks st')"
    using cases s1(1,2) s2(1,2) grows_trans by blast+
  show "dir_manifest st' name = dir_manifest st name" "ks_index st' = ks_index st"
    using cases s1(3) [of name] s2(3) [of name] s1(4) s2(4) by auto
  show "\<forall>a \<in> set as. validate_asset cx (ks_chunks st') ?w a" if "r = Inr as"
  proof -
    from cases that obtain a b where ab: "x = Inr a" "y = Inr b" "as = [b, a]" "st' = st2" by auto
    from validate_asset_grows [OF s1(5) [OF ab(1)] s2(1)] s2(5) [OF ab(2)] ab show ?thesis by simp
  qed
qed

lemma capture_manifest_sel [simp]:
  "cm_workload (capture_manifest sg si cap as) = cm_workload (cap_manifest cap)" "cm_assets (capture_manifest sg si cap as) = as"
  by (simp_all add: capture_manifest_def sign_manifest_def unsigned_def Let_def)

lemma healthy_set_keys:
  assumes "healthy cx sg st"
    and g: "get_or_create_workload_key ok fresh (cs_km (ks_chunks st)) w (cs_keys (ks_chunks st)) = (r, keys)"
  shows "healthy cx sg (set_keys keys st)" and "grows (ks_chunks st) (ks_chunks (set_keys keys st))"
proof -
  have ready: "store_ready (ks_chunks st)" using assms(1) by (simp add: healthy_def)
  then have ko: "keys_ok (cs_km (ks_chunks st)) (cs_keys (ks_chunks st))" and vf: "versions_fine (cs_keys (ks_chunks st))"
    by (simp_all add: store_ready_def)
  show grow: "grows (ks_chunks st) (ks_chunks (set_keys keys st))"
    using get_or_create_keeps(2) [OF ko g] by (simp add: grows_def set_keys_def)
  have "store_ready (ks_chunks (set_keys keys st))"
    using ready get_or_create_keeps(1) [OF ko g] get_or_create_versions [OF vf g] by (simp add: store_ready_def set_keys_def)
  with grow show "healthy cx sg (set_keys keys st)" by (intro healthy_grows [OF assms(1)]) simp_all
qed

lemma save_healthy:
  assumes h: "healthy cx sg st" and save: "repo_save sg io m st = (r, st')"
    and io: "length (sv_nonce io) = nonce_size" "0 < sv_size io" "sv_size io \<le> max_manifest_bytes"
    and val: "\<forall>a \<in> set (cm_assets m). validate_asset cx (ks_chunks st) (cm_workload m) a"
  shows "healthy cx sg st'"
  using save
proof (cases rule: repo_save_cases)
  case (keys disk)
  from keys(1) have "get_or_create_workload_key (sv_key io) (sv_fresh io) (cs_km (ks_chunks st)) (cm_workload m) (cs_keys (ks_chunks st))
      = (fst (get_or_create_workload_key (sv_key io) (sv_fresh io) (cs_km (ks_chunks st)) (cm_workload m) (cs_keys (ks_chunks st))), disk)"
    by (metis prod.collapse)
  from healthy_set_keys(1) [OF h this] show ?thesis by (simp add: keys(2))
next
  case (installed kv k disk)
  let ?st1 = "set_keys disk st"
  note h1 = healthy_set_keys [OF h installed(1)] and eff = install_manifest_effect [OF installed(4)]
  have ready: "store_ready (ks_chunks st)" using h by (simp add: healthy_def)
  then have ko: "keys_ok (cs_km (ks_chunks st)) (cs_keys (ks_chunks st))" and vf: "versions_fine (cs_keys (ks_chunks st))"
    by (simp_all add: store_ready_def)
  have kv: "kv \<noteq> 0" using get_or_create_versions [OF vf installed(1)] by simp
  have wk: "workload_key (cs_km (ks_chunks ?st1)) (cs_keys (ks_chunks ?st1)) (cm_workload m) kv = Inr k"
    using get_or_create_reads [OF ko installed(1)] by simp
  from saved_envelope_decodes [OF installed(2,3) io kv wk] obtain ev where
    dec: "decode_encrypted_manifest sg (ks_chunks st') (cm_id m) (manifest_envelope io kv k m) = Inr (m, ev)"
    using eff(1) by auto
  have val': "\<forall>a \<in> set (cm_assets m). validate_asset cx (ks_chunks st') (cm_workload m) a"
    using val validate_asset_grows [OF _ h1(2)] eff(1) by auto
  have "manifests_intact cx sg st'"
    unfolding manifests_intact_def
  proof (intro allI impI)
    fix name fl assume fl: "dir_manifest st' name = Some fl"
    consider "dir_manifest ?st1 name = Some fl" | "name = cm_id m" "fl = manifest_envelope io kv k m"
      using fl eff(3) [of name] eff(4) by (cases "name = cm_id m") auto
    then show "\<exists>m ev. decode_encrypted_manifest sg (ks_chunks st') name fl = Inr (m, ev)
      \<and> (\<forall>a \<in> set (cm_assets m). validate_asset cx (ks_chunks st') (cm_workload m) a)"
    proof cases
      case 1
      then show ?thesis using h1(1) unfolding healthy_def manifests_intact_def eff(1) by blast
    qed (use dec val' in blast)
  qed
  moreover have "index_loads sg st'"
    unfolding index_loads_def
  proof (intro allI impI)
    fix cid assume c: "contents (ks_index st') cid \<noteq> None"
    show "\<exists>m. repo_load sg st' cid = Inr m"
    proof (cases "cid = cm_id m")
      case True
      have "contents (ks_index ?st1) (cm_id m) = None"
        using h1(1) installed(5) by (fastforce simp: healthy_def index_loads_def failed_def split: sum.splits)
      then have "r = None" using eff(8) c True by metis
      from installed_loads [OF installed(4) [unfolded this] installed(2,3) io kv wk] True show ?thesis by blast
    next
      case False
      with eff(3) [OF False] c obtain m0 where m0: "repo_load sg ?st1 cid = Inr m0"
        using h1(1) by (auto simp: healthy_def index_loads_def)
      have "repo_load sg st' cid = repo_load sg ?st1 cid"
        using eff(1) eff(3) [OF False] by (intro repo_load_cong) auto
      with m0 show ?thesis by auto
    qed
  qed
  moreover have "store_ready (ks_chunks st')" using h1(1) eff(1) by (simp add: healthy_def)
  ultimately show ?thesis by (simp add: healthy_def)
qed (use h in simp)

lemma capture_healthy:
  assumes laws: "codec_laws cx" and h: "healthy cx sg st" and cap: "capture_ok cap"
    and run: "capture_checkpoint cx sg si cap st = (r, st')"
  shows "healthy cx sg st'"
proof -
  obtain x st1 where ca: "capture_assets cx cap st = (x, st1)" by fastforce
  have ready: "store_ready (ks_chunks st)" using h by (simp add: healthy_def)
  note c = capture_assets_ok [OF laws ready cap ca]
  have h1: "healthy cx sg st1" by (rule healthy_grows [OF h c(1,2)]) (simp_all add: c(3,4))
  show ?thesis
  proof (cases x)
    case (Inl e)
    with run ca h1 show ?thesis by (simp add: capture_checkpoint_def)
  next
    case (Inr assets)
    obtain g disk where goc: "get_or_create_workload_key (cap_key cap) (cap_fresh cap) (cs_km (ks_chunks st1))
        (cm_workload (cap_manifest cap)) (cs_keys (ks_chunks st1)) = (g, disk)" by fastforce
    note h2 = healthy_set_keys [OF h1 goc]
    obtain e st2 where sv: "repo_save sg (cap_save cap) (capture_manifest sg si cap assets) (set_keys disk st1) = (e, st2)" by fastforce
    have "\<forall>a \<in> set assets. validate_asset cx (ks_chunks (set_keys disk st1)) (cm_workload (cap_manifest cap)) a"
      using c(5) [OF Inr] validate_asset_grows [OF _ h2(2)] by blast
    then have "healthy cx sg st2"
      using cap by (intro save_healthy [OF h2(1) sv]) (simp_all add: capture_ok_def)
    then show ?thesis
      using run ca Inr goc sv h2(1) by (auto simp: capture_checkpoint_def publish_def split: sum.splits)
  qed
qed

section \<open>Deletions keep the directory healthy\<close>

lemma repo_delete_healthy:
  assumes h: "healthy cx sg st" and del: "repo_delete io cid st = (r, st')"
  shows "healthy cx sg st'"
proof -
  note eff = repo_delete_effect [OF del] and surv = repo_delete_survivor [OF del]
  have chunks: "ks_chunks st' = ks_chunks st" using eff by blast
  have dirs: "dir_manifest st' name = None \<or> dir_manifest st' name = dir_manifest st name" for name
    using eff by (cases "name = cid") blast+
  have "manifests_intact cx sg st'"
    using h dirs unfolding healthy_def manifests_intact_def chunks by (metis option.distinct(1))
  moreover have "index_loads sg st'"
    unfolding index_loads_def
  proof (intro allI impI)
    fix k assume k: "contents (ks_index st') k \<noteq> None"
    then have same: "contents (ks_index st') k = contents (ks_index st) k" "dir_manifest st' k = dir_manifest st k"
      using eff surv by (cases "k = cid"; blast)+
    then have "repo_load sg st' k = repo_load sg st k" by (intro repo_load_cong) (simp_all add: chunks)
    with h k same show "\<exists>m. repo_load sg st' k = Inr m" by (auto simp: healthy_def index_loads_def)
  qed
  ultimately show ?thesis using h chunks by (simp add: healthy_def)
qed

lemma service_delete_healthy:
  assumes "healthy cx sg st" and "service_delete sg srt io cid st = (r, st')"
  shows "healthy cx sg st'"
  using service_delete_effect [OF assms(2)] repo_delete_healthy [OF assms(1)] assms(1) by blast

lemma prune_each_healthy:
  "healthy cx sg st \<Longrightarrow> prune_each sg srt io prot i ss st = (gone, e, st') \<Longrightarrow> healthy cx sg st'"
proof (induction ss arbitrary: i st gone)
  case (Cons s ss)
  show ?case
  proof (cases "sm_id s \<in> set prot")
    case True
    with Cons show ?thesis by simp
  next
    case False
    obtain r st1 where del: "service_delete sg srt (io i) (sm_id s) st = (r, st1)" by fastforce
    note h1 = service_delete_healthy [OF Cons.prems(1) del]
    show ?thesis
    proof (cases r)
      case None
      then obtain gone1 where "prune_each sg srt io prot (Suc i) ss st1 = (gone1, e, st')"
        using Cons.prems(2) False del by (auto split: prod.splits)
      then show ?thesis by (rule Cons.IH [OF h1])
    qed (use Cons.prems(2) False del h1 in simp)
  qed
qed simp

lemma prune_healthy:
  "healthy cx sg st \<Longrightarrow> prune_workload sg srt io w keep st = (gone, e, st') \<Longrightarrow> healthy cx sg st'"
  by (auto simp: prune_workload_def Let_def split: if_splits intro: prune_each_healthy)

section \<open>Sweeping keeps what is referenced\<close>

text \<open>What a sweep does to the state directory: some chunk files go, none of them under a referenced key.\<close>

definition swept :: "string list \<Rightarrow> checkpoint_state \<Rightarrow> checkpoint_state \<Rightarrow> bool" where
  "swept referenced st st' \<longleftrightarrow> (\<exists>f. st' = st\<lparr>ks_chunks := (ks_chunks st)\<lparr>cs_files := f\<rparr>\<rparr>
     \<and> (\<forall>p. f p = None \<or> f p = cs_files (ks_chunks st) p)
     \<and> (\<forall>ref p. chunk_path_of ref = Some p \<and> gc_chunk_key ref \<in> set referenced \<longrightarrow> f p = cs_files (ks_chunks st) p))"

lemma swept_refl: "swept referenced st st"
  unfolding swept_def by (intro exI [of _ "cs_files (ks_chunks st)"]) simp

lemma swept_trans:
  assumes "swept referenced a b" and "swept referenced b c"
  shows "swept referenced a c"
proof -
  obtain f where f: "b = a\<lparr>ks_chunks := (ks_chunks a)\<lparr>cs_files := f\<rparr>\<rparr>" "\<And>p. f p = None \<or> f p = cs_files (ks_chunks a) p"
    "\<And>ref p. chunk_path_of ref = Some p \<and> gc_chunk_key ref \<in> set referenced \<Longrightarrow> f p = cs_files (ks_chunks a) p"
    using assms(1) unfolding swept_def by blast
  obtain g where g: "c = b\<lparr>ks_chunks := (ks_chunks b)\<lparr>cs_files := g\<rparr>\<rparr>" "\<And>p. g p = None \<or> g p = cs_files (ks_chunks b) p"
    "\<And>ref p. chunk_path_of ref = Some p \<and> gc_chunk_key ref \<in> set referenced \<Longrightarrow> g p = cs_files (ks_chunks b) p"
    using assms(2) unfolding swept_def by blast
  have fb: "cs_files (ks_chunks b) = f" by (simp add: f(1))
  show ?thesis
    unfolding swept_def
  proof (intro exI [of _ g] conjI allI impI)
    show "c = a\<lparr>ks_chunks := (ks_chunks a)\<lparr>cs_files := g\<rparr>\<rparr>" by (simp add: f(1) g(1))
    show "g p = None \<or> g p = cs_files (ks_chunks a) p" for p using f(2) [of p] g(2) [of p] fb by auto
    show "g p = cs_files (ks_chunks a) p" if "chunk_path_of ref = Some p \<and> gc_chunk_key ref \<in> set referenced" for ref p
      using f(3) [OF that] g(3) [OF that] fb by simp
  qed
qed

lemma gc_chunk_key_path: "chunk_path_of a = Some p \<Longrightarrow> chunk_path_of b = Some p \<Longrightarrow> gc_chunk_key a = gc_chunk_key b"
  by (auto simp: chunk_path_of_def gc_chunk_key_def split: if_splits)

lemma sweep_one_swept:
  assumes "sweep_one now referenced ok c st = (c', st')"
  shows "swept referenced st st'"
proof (cases "st' = st")
  case False
  then have key: "gc_chunk_key (ca_ref c) \<notin> set referenced" and del: "delete_ref ok (ca_ref c) (ca_modified c) st = (True, st')"
    using assms by (auto simp: sweep_one_def delete_ref_def split: if_splits option.splits bool.splits prod.splits)
  obtain p where p: "chunk_path_of (ca_ref c) = Some p" and st': "st' = drop_file p st"
    using del by (auto simp: delete_ref_def split: option.splits if_splits)
  show ?thesis
    unfolding swept_def
  proof (intro exI [of _ "(cs_files (ks_chunks st))(p := None)"] conjI allI impI)
    show "st' = st\<lparr>ks_chunks := (ks_chunks st)\<lparr>cs_files := (cs_files (ks_chunks st))(p := None)\<rparr>\<rparr>" by (simp add: st' drop_file_def)
    show "((cs_files (ks_chunks st))(p := None)) q = cs_files (ks_chunks st) q"
      if "chunk_path_of ref = Some q \<and> gc_chunk_key ref \<in> set referenced" for ref q
      using that key gc_chunk_key_path [OF p, of ref] by (cases "q = p") auto
  qed simp
qed (simp add: swept_refl)

lemma save_plan_repo [simp]: "gs_repo (snd (save_plan ok p gs)) = gs_repo gs"
  by (simp add: save_plan_def)

lemma sweep_loop_swept:
  "sweep_loop env referenced p gs = (b, p', gs') \<Longrightarrow> swept referenced (gs_repo gs) (gs_repo gs')"
proof (induction env referenced p gs rule: sweep_loop.induct)
  case (1 env referenced p gs)
  show ?case
  proof (cases "pl_cursor p < length (pl_candidates p) \<and> \<not> sw_ctx env (pl_cursor p)")
    case False
    then show ?thesis using "1.prems" by (subst (asm) sweep_loop.simps) (auto simp: swept_refl split: if_splits)
  next
    case True
    let ?i = "pl_cursor p"
    let ?c = "pl_candidates p ! ?i"
    obtain c' st where one: "sweep_one (sw_now env) referenced (sw_unlink env ?i) ?c (gs_repo gs) = (c', st)" by fastforce
    let ?p1 = "p\<lparr>pl_cursor := Suc ?i, pl_candidates := (pl_candidates p)[?i := c']\<rparr>"
    let ?gs1 = "gs\<lparr>gs_repo := st\<rparr>"
    let ?gs2 = "if reaches_delete (sw_now env) referenced ?c \<and> Suc ?i mod 128 = 0 then snd (save_plan (sw_save env ?i) ?p1 ?gs1) else ?gs1"
    have rec: "sweep_loop env referenced ?p1 ?gs2 = (b, p', gs')"
      using "1.prems" True one by (subst (asm) sweep_loop.simps) (simp add: Let_def)
    have "swept referenced (gs_repo ?gs2) (gs_repo gs')"
      using True by (intro "1.IH" [OF _ _ refl refl one [symmetric] refl refl rec]) auto
    moreover have "gs_repo ?gs2 = st" by simp
    ultimately show ?thesis using swept_trans [OF sweep_one_swept [OF one]] by simp
  qed
qed

lemma scan_dirs_covers:
  assumes "scan_dirs sg env chunks indexed ds = Inr (ks, un)" and "(name, Some fl) \<in> set ds"
    and "decode_encrypted_manifest sg chunks name fl = Inr (m, ev)"
  shows "set (manifest_keys m) \<subseteq> set ks"
  using assms
proof (induction sg env chunks indexed ds arbitrary: ks un rule: scan_dirs.induct)
  case (3 sg env chunks indexed name' fl' ds)
  obtain m' ev' where d: "decode_encrypted_manifest sg chunks name' fl' = Inr (m', ev')" and op: "sc_open env name'"
    using "3.prems"(1) by (auto split: if_splits sum.splits)
  obtain ks1 un1 where rec: "scan_dirs sg env chunks indexed ds = Inr (ks1, un1)" and ks: "ks = manifest_keys m' @ ks1"
    using "3.prems"(1) d op by (auto split: sum.splits)
  show ?case
  proof (cases "(name, Some fl) = (name', Some fl')")
    case True
    with d "3.prems"(3) ks show ?thesis by auto
  next
    case False
    with "3.prems"(2) have "(name, Some fl) \<in> set ds" by auto
    from "3.IH" [OF _ d refl rec this "3.prems"(3)] op ks show ?thesis by auto
  qed
qed auto

lemma scan_covers:
  assumes "referenced_chunks sg srt env st = Inr (ks, n, un)" and "dir_manifest st name = Some fl"
    and "decode_encrypted_manifest sg (ks_chunks st) name fl = Inr (m, ev)"
  shows "set (manifest_keys m) \<subseteq> set ks"
proof -
  obtain ks1 ks2 un2 where d: "scan_dirs sg env (ks_chunks st) (map sm_id (repo_list srt st [])) (ks_dirs st) = Inr (ks2, un2)"
    and ks: "set ks = set ks1 \<union> set ks2"
    using assms(1) by (auto simp: referenced_chunks_def Let_def split: sum.splits if_splits)
  have mem: "(name, Some fl) \<in> set (ks_dirs st)"
    using assms(2) by (cases "st_get (ks_dirs st) name") (auto simp: dir_manifest_def st_get_def dest: map_of_SomeD)
  show ?thesis using scan_dirs_covers [OF d mem assms(3)] ks by blast
qed

lemma swept_verify:
  assumes "swept referenced st st'" and "gc_chunk_key ref \<in> set referenced" and ok: "verify_chunk cx (ks_chunks st) w ref = Inr r"
  shows "verify_chunk cx (ks_chunks st') w ref = Inr r"
proof -
  obtain f where f: "ks_chunks st' = (ks_chunks st)\<lparr>cs_files := f\<rparr>"
    "\<And>ref p. chunk_path_of ref = Some p \<and> gc_chunk_key ref \<in> set referenced \<Longrightarrow> f p = cs_files (ks_chunks st) p"
    using assms(1) unfolding swept_def by auto
  obtain p where p: "chunk_path_of ref = Some p" using ok by (auto simp: verify_chunk_def split: if_splits option.splits)
  have "cs_files (ks_chunks st') p = cs_files (ks_chunks st) p" using f p assms(2) by simp
  moreover have "verify_encoded cx (ks_chunks st') w ref = verify_encoded cx (ks_chunks st) w ref"
    by (rule verify_encoded_cong) (simp_all add: f(1))
  ultimately show ?thesis using ok unfolding verify_chunk_def p option.case by (auto split: if_splits option.splits)
qed

lemma swept_healthy:
  assumes h: "healthy cx sg st" and scan: "referenced_chunks sg srt env st = Inr (ks, n, un)" and sw: "swept ks st st'"
  shows "healthy cx sg st'"
proof -
  obtain f where st': "st' = st\<lparr>ks_chunks := (ks_chunks st)\<lparr>cs_files := f\<rparr>\<rparr>" using sw unfolding swept_def by blast
  have dirs: "dir_manifest st' name = dir_manifest st name" for name by (simp add: st' dir_manifest_def)
  have keys: "cs_km (ks_chunks st') = cs_km (ks_chunks st)" "cs_keys (ks_chunks st') = cs_keys (ks_chunks st)" by (simp_all add: st')
  have "manifests_intact cx sg st'"
    unfolding manifests_intact_def dirs decode_manifest_cong [OF keys]
  proof (intro allI impI)
    fix name fl assume fl: "dir_manifest st name = Some fl"
    then obtain m ev where dec: "decode_encrypted_manifest sg (ks_chunks st) name fl = Inr (m, ev)"
      and val: "\<forall>a \<in> set (cm_assets m). validate_asset cx (ks_chunks st) (cm_workload m) a"
      using h unfolding healthy_def manifests_intact_def by blast
    have "validate_asset cx (ks_chunks st') (cm_workload m) a" if a: "a \<in> set (cm_assets m)" for a
    proof (rule validate_asset_mono)
      show "validate_asset cx (ks_chunks st) (cm_workload m) a" using val a by blast
      fix ref r assume "ref \<in> set (am_chunks a)" "verify_chunk cx (ks_chunks st) (cm_workload m) ref = Inr r"
      moreover then have "gc_chunk_key ref \<in> set ks" using scan_covers [OF scan fl dec] a by (auto simp: manifest_keys_def)
      ultimately show "verify_chunk cx (ks_chunks st') (cm_workload m) ref = Inr r" using swept_verify [OF sw] by blast
    qed
    with dec show "\<exists>m ev. decode_encrypted_manifest sg (ks_chunks st) name fl = Inr (m, ev)
        \<and> (\<forall>a \<in> set (cm_assets m). validate_asset cx (ks_chunks st') (cm_workload m) a)" by blast
  qed
  moreover have "repo_load sg st' cid = repo_load sg st cid" for cid
    by (rule repo_load_cong) (simp_all only: keys dirs, simp add: st')
  then have "index_loads sg st'" using h by (simp add: healthy_def index_loads_def st')
  ultimately show ?thesis using h by (simp add: healthy_def store_ready_def st')
qed

lemma gc_sweep_repo:
  assumes "gc_sweep sg srt env pid dry gs = (r, gs')"
  shows "gs_repo gs' = gs_repo gs \<or> (\<exists>ks n un. referenced_chunks sg srt (sw_scan env) (gs_repo gs) = Inr (ks, n, un) \<and> swept ks (gs_repo gs) (gs_repo gs'))"
proof (cases "load_plan pid gs")
  case (Inl e)
  with assms show ?thesis by (simp add: gc_sweep_def)
next
  case (Inr p0)
  show ?thesis
  proof (cases dry)
    case True
    with assms Inr have "gs' = snd (save_plan (sw_final env) (p0\<lparr>pl_dry_run := True, pl_updated := sw_now env\<rparr>) gs)"
      by (auto simp: gc_sweep_def Let_def)
    then show ?thesis by simp
  next
    case False
    show ?thesis
    proof (cases "referenced_chunks sg srt (sw_scan env) (gs_repo gs)")
      case (Inl e)
      with assms \<open>load_plan pid gs = Inr p0\<close> False
      have "gs' = snd (save_plan (sw_final env) (p0\<lparr>pl_dry_run := False, pl_status := Paused\<rparr>) gs)" by (auto simp: gc_sweep_def Let_def)
      then show ?thesis by simp
    next
      case scan: (Inr v)
      obtain ks n un where v: "v = (ks, n, un)" by (metis prod_cases3)
      let ?p = "p0\<lparr>pl_dry_run := False, pl_status := PlanRunning, pl_unindexed := un\<rparr>"
      obtain b p1 gs1 where loop: "sweep_loop env ks ?p gs = (b, p1, gs1)" by (metis prod_cases3)
      have "gs' = snd (save_plan (sw_final env) (if b then p1\<lparr>pl_status := Paused\<rparr> else p1\<lparr>pl_status := PlanCompleted, pl_updated := sw_end env\<rparr>) gs1)"
        using assms Inr False scan v loop by (cases b) (auto simp: gc_sweep_def Let_def split: prod.splits option.splits)
      then have "gs_repo gs' = gs_repo gs1" by simp
      with sweep_loop_swept [OF loop] scan v show ?thesis by auto
    qed
  qed
qed

lemma gc_plan_repo:
  assumes "gc_plan sg srt env grace now gs = (r, gs')"
  shows "gs_repo gs' = gs_repo gs"
  using assms
  by (auto simp: gc_plan_def Let_def save_plan_def split: if_splits sum.splits option.splits prod.splits)

lemma gc_cancel_repo:
  assumes "gc_cancel ok now pid gs = (r, gs')"
  shows "gs_repo gs' = gs_repo gs"
  using assms by (auto simp: gc_cancel_def Let_def save_plan_def split: if_splits sum.splits option.splits prod.splits)

section \<open>Runs of the agent\<close>

text \<open>
  What the agent does to its checkpoint store: captures inside the write guard, deletions and prunings, and
  the collector's plans, sweeps and cancellations, in any order.
\<close>

datatype store_step = CaptureStep signer capture | DeleteStep delete_io string | PruneStep "nat \<Rightarrow> delete_io" string int
  | PlanStep plan_env duration time | SweepStep sweep_env string bool | CancelStep bool time string

fun store_exec :: "codec \<Rightarrow> signing \<Rightarrow> sorter \<Rightarrow> store_step \<Rightarrow> gc_state \<Rightarrow> gc_state" where
  "store_exec cx sg srt (CaptureStep si cap) gs = gs\<lparr>gs_repo := snd (capture_checkpoint cx sg si cap (gs_repo gs))\<rparr>"
| "store_exec cx sg srt (DeleteStep io cid) gs = gs\<lparr>gs_repo := snd (service_delete sg srt io cid (gs_repo gs))\<rparr>"
| "store_exec cx sg srt (PruneStep io w keep) gs = gs\<lparr>gs_repo := snd (snd (prune_workload sg srt io w keep (gs_repo gs)))\<rparr>"
| "store_exec cx sg srt (PlanStep env grace now) gs = snd (gc_plan sg srt env grace now gs)"
| "store_exec cx sg srt (SweepStep env pid dry) gs = snd (gc_sweep sg srt env pid dry gs)"
| "store_exec cx sg srt (CancelStep ok now pid) gs = snd (gc_cancel ok now pid gs)"

fun step_ok :: "store_step \<Rightarrow> bool" where
  "step_ok (CaptureStep si cap) = capture_ok cap"
| "step_ok _ = True"

lemma store_exec_healthy:
  assumes laws: "codec_laws cx" and ok: "step_ok s" and h: "healthy cx sg (gs_repo gs)"
  shows "healthy cx sg (gs_repo (store_exec cx sg srt s gs))"
proof (cases s)
  case (CaptureStep si cap)
  then show ?thesis using ok capture_healthy [OF laws h, of cap si] by (simp add: prod_eq_iff)
next
  case (DeleteStep io cid)
  then show ?thesis using service_delete_healthy [OF h, of srt io cid] by (simp add: prod_eq_iff)
next
  case (PruneStep io w keep)
  then show ?thesis using prune_healthy [OF h, of srt io w keep] by (simp add: prod_eq_iff)
next
  case (PlanStep env grace now)
  then show ?thesis using gc_plan_repo [of sg srt env grace now gs] h by (simp add: prod_eq_iff)
next
  case (SweepStep env pid dry)
  then show ?thesis
    using gc_sweep_repo [of sg srt env pid dry gs "fst (gc_sweep sg srt env pid dry gs)" "snd (gc_sweep sg srt env pid dry gs)"]
      swept_healthy [OF h] h by auto
next
  case (CancelStep t now pid)
  then show ?thesis using gc_cancel_repo [of t now pid gs] h by (simp add: prod_eq_iff)
qed


section \<open>Two sightings before a deletion\<close>

definition path_key :: "chunk_path \<Rightarrow> string" where
  "path_key p = ''v'' @ show_nat (fst p) @ ''/'' @ snd p"

lemma gc_chunk_key_of_path: "chunk_path_of ref = Some p \<Longrightarrow> gc_chunk_key ref = path_key p"
  by (auto simp: chunk_path_of_def gc_chunk_key_def path_key_def split: if_splits)

text \<open>
  A history of planning runs, each on the state directory it found.  A key was seen at a time when a run
  with that time scanned its directory and did not find the key referenced.
\<close>

type_synonym planning = "checkpoint_state \<times> plan_env \<times> duration \<times> time"

definition plan_run :: "signing \<Rightarrow> sorter \<Rightarrow> planning \<Rightarrow> gc_state \<Rightarrow> gc_state" where
  "plan_run sg srt x gs = (case x of (st, env, grace, now) \<Rightarrow> snd (gc_plan sg srt env grace now (gs\<lparr>gs_repo := st\<rparr>)))"

definition unreferenced :: "signing \<Rightarrow> sorter \<Rightarrow> scan_env \<Rightarrow> checkpoint_state \<Rightarrow> string \<Rightarrow> bool" where
  "unreferenced sg srt env st k = (case referenced_chunks sg srt env st of Inl _ \<Rightarrow> False | Inr (ks, _) \<Rightarrow> k \<notin> set ks)"

definition seen :: "signing \<Rightarrow> sorter \<Rightarrow> planning list \<Rightarrow> string \<Rightarrow> time \<Rightarrow> bool" where
  "seen sg srt h k t \<longleftrightarrow> list_ex (\<lambda>(st, env, grace, now). effective_now env now = t \<and> unreferenced sg srt (pn_scan env) st k) h"

lemma seen_append [simp]: "seen sg srt (h @ h') k t \<longleftrightarrow> seen sg srt h k t \<or> seen sg srt h' k t"
  by (simp add: seen_def)

lemma foldl_put_get:
  "st_get (foldl (\<lambda>m c. st_put (f c) (g c) m) m cs) k = Some t \<Longrightarrow> st_get m k = Some t \<or> (\<exists>c \<in> set cs. f c = k \<and> g c = t)"
  by (induction cs arbitrary: m) (fastforce split: if_splits)+

lemma gc_plan_cases:
  assumes "gc_plan sg srt env grace now gs = (r, gs')"
  obtains (none) "gs_orphans gs' = gs_orphans gs" "failed r"
  | (planned) previous ks n un cands where "load_orphans gs = Inr previous"
      "referenced_chunks sg srt (pn_scan env) (gs_repo gs) = Inr (ks, n, un)"
      "cands = map (plan_candidate (effective_grace grace) (effective_now env now) previous)
         (filter (\<lambda>i. gc_chunk_key (fst i) \<notin> set ks) (enumerate_chunks (pn_walk env) (gs_repo gs)))"
      "gs_orphans gs' = Holds (foldl (\<lambda>m c. st_put (gc_chunk_key (ca_ref c)) (ca_first_seen c) m) [] cands)"
      "\<And>p. r = Inr p \<Longrightarrow> pl_candidates p = pn_sort env cands \<and> pl_cursor p = 0 \<and> load_plan (pl_id p) gs' = Inr p"
proof (cases "grace < 0 \<or> failed (load_orphans gs) \<or> failed (referenced_chunks sg srt (pn_scan env) (gs_repo gs)) \<or> \<not> pn_walk_ok env \<or> \<not> pn_save_orphans env")
  case True
  then have "gs_orphans gs' = gs_orphans gs" "failed r"
    using assms by (auto simp: gc_plan_def Let_def failed_def split: sum.splits if_splits prod.splits)
  then show thesis by (rule none)
next
  case False
  then obtain previous v where pv: "load_orphans gs = Inr previous" and v: "referenced_chunks sg srt (pn_scan env) (gs_repo gs) = Inr v"
    by (auto simp: failed_def split: sum.splits)
  obtain ks n un where v3: "v = (ks, n, un)" by (metis prod_cases3)
  let ?cands = "map (plan_candidate (effective_grace grace) (effective_now env now) previous)
         (filter (\<lambda>i. gc_chunk_key (fst i) \<notin> set ks) (enumerate_chunks (pn_walk env) (gs_repo gs)))"
  let ?cur = "foldl (\<lambda>m c. st_put (gc_chunk_key (ca_ref c)) (ca_first_seen c) m) [] ?cands"
  show thesis
  proof (rule planned [OF pv v [unfolded v3] refl])
    show "gs_orphans gs' = Holds ?cur"
      using assms False pv v v3 by (auto simp: gc_plan_def Let_def save_plan_def split: if_splits)
    show "pl_candidates p = pn_sort env ?cands \<and> pl_cursor p = 0 \<and> load_plan (pl_id p) gs' = Inr p" if "r = Inr p" for p
      using assms False pv v v3 that by (auto simp: gc_plan_def Let_def save_plan_def load_plan_def split: if_splits)
  qed
qed

lemma plan_candidate_sel [simp]:
  "ca_ref (plan_candidate g now prev i) = fst i" "ca_modified (plan_candidate g now prev i) = snd i"
  by (simp_all add: plan_candidate_def Let_def)

lemma plan_candidate_first:
  "ca_first_seen (plan_candidate g now prev i) = now
    \<or> st_get prev (gc_chunk_key (fst i)) = Some (ca_first_seen (plan_candidate g now prev i))"
  by (auto simp: plan_candidate_def Let_def split: option.splits)

lemma ledger_seen:
  assumes "gs_orphans gs0 = Absent" and "gs_orphans (fold (plan_run sg srt) h gs0) = Holds m" and "st_get m k = Some t"
  shows "seen sg srt h k t"
  using assms(2,3)
proof (induction h arbitrary: m k t rule: rev_induct)
  case (snoc x h)
  obtain st env grace now where x: "x = (st, env, grace, now)" by (metis prod_cases4)
  let ?gs = "(fold (plan_run sg srt) h gs0)\<lparr>gs_repo := st\<rparr>"
  obtain r gs' where run: "gc_plan sg srt env grace now ?gs = (r, gs')" by fastforce
  have now': "fold (plan_run sg srt) (h @ [x]) gs0 = gs'" using run by (simp add: x plan_run_def)
  from run show ?case
  proof (cases rule: gc_plan_cases)
    case none
    with snoc now' show ?thesis by auto
  next
    case (planned previous ks n un cands)
    then have m: "m = foldl (\<lambda>m c. st_put (gc_chunk_key (ca_ref c)) (ca_first_seen c) m) [] cands" using snoc.prems(1) now' by simp
    from foldl_put_get [of "\<lambda>c. gc_chunk_key (ca_ref c)" ca_first_seen "[]" cands k t] snoc.prems(2) m
    obtain c where c: "c \<in> set cands" "gc_chunk_key (ca_ref c) = k" "ca_first_seen c = t" by auto
    then obtain i where i: "c = plan_candidate (effective_grace grace) (effective_now env now) previous i" "gc_chunk_key (fst i) \<notin> set ks"
      using planned(3) by auto
    consider "t = effective_now env now" | "st_get previous k = Some t"
      using plan_candidate_first [of "effective_grace grace" "effective_now env now" previous i] c i(1) by auto
    then show ?thesis
    proof cases
      case 1
      then show ?thesis using planned(2) i c by (auto simp: seen_def unreferenced_def x)
    next
      case 2
      have "gs_orphans (fold (plan_run sg srt) h gs0) = Holds previous"
        using planned(1) 2 by (auto simp: load_orphans_def split: json_file.splits)
      from snoc.IH [OF this 2] show ?thesis by simp
    qed
  qed
qed (use assms(1) in simp)

lemma sweep_loop_deletes:
  assumes "sweep_loop env ks p gs = (b, p', gs')"
    and "cs_files (ks_chunks (gs_repo gs)) q \<noteq> None" and "cs_files (ks_chunks (gs_repo gs')) q = None"
  shows "\<exists>c \<in> set (pl_candidates p). reaches_delete (sw_now env) ks c \<and> chunk_path_of (ca_ref c) = Some q
    \<and> ca_modified c = ks_mtime (gs_repo gs) q"
proof -
  have "\<exists>i < length (pl_candidates p). pl_cursor p \<le> i \<and> reaches_delete (sw_now env) ks (pl_candidates p ! i)
     \<and> chunk_path_of (ca_ref (pl_candidates p ! i)) = Some q \<and> ca_modified (pl_candidates p ! i) = ks_mtime (gs_repo gs) q"
    using assms
  proof (induction env ks p gs rule: sweep_loop.induct)
    case (1 env ks p gs)
    have run: "pl_cursor p < length (pl_candidates p) \<and> \<not> sw_ctx env (pl_cursor p)"
      using "1.prems" by (subst (asm) sweep_loop.simps) (auto split: if_splits)
    let ?i = "pl_cursor p"
    let ?c = "pl_candidates p ! ?i"
    obtain c' st where one: "sweep_one (sw_now env) ks (sw_unlink env ?i) ?c (gs_repo gs) = (c', st)" by fastforce
    let ?p1 = "p\<lparr>pl_cursor := Suc ?i, pl_candidates := (pl_candidates p)[?i := c']\<rparr>"
    let ?gs1 = "gs\<lparr>gs_repo := st\<rparr>"
    let ?gs2 = "if reaches_delete (sw_now env) ks ?c \<and> Suc ?i mod 128 = 0 then snd (save_plan (sw_save env ?i) ?p1 ?gs1) else ?gs1"
    have rec: "sweep_loop env ks ?p1 ?gs2 = (b, p', gs')"
      using "1.prems"(1) run one by (subst (asm) sweep_loop.simps) (simp add: Let_def)
    have repo: "gs_repo ?gs2 = st" by simp
    show ?case
    proof (cases "cs_files (ks_chunks st) q = None")
      case True
      then have "reaches_delete (sw_now env) ks ?c \<and> chunk_path_of (ca_ref ?c) = Some q \<and> ca_modified ?c = ks_mtime (gs_repo gs) q"
        using one "1.prems"(2)
        by (auto simp: sweep_one_def delete_ref_def drop_file_def reaches_delete_def not_less
            split: if_splits option.splits bool.splits prod.splits)
      then show ?thesis using run by blast
    next
      case False
      have "ks_mtime st = ks_mtime (gs_repo gs)" using sweep_one_swept [OF one] by (auto simp: swept_def)
      moreover have "\<exists>i < length (pl_candidates ?p1). pl_cursor ?p1 \<le> i \<and> reaches_delete (sw_now env) ks (pl_candidates ?p1 ! i)
          \<and> chunk_path_of (ca_ref (pl_candidates ?p1 ! i)) = Some q \<and> ca_modified (pl_candidates ?p1 ! i) = ks_mtime (gs_repo ?gs2) q"
        using run False repo by (intro "1.IH" [OF _ _ refl refl one [symmetric] refl refl rec _ "1.prems"(3)]) auto
      ultimately show ?thesis using repo by auto
    qed
  qed
  then show ?thesis by (metis nth_mem)
qed

text \<open>
  C16.  A chunk is only collected after two sightings at least an hour apart.  Start with no ledger and let any
  number of planning runs happen on whatever directories they find; when a further run plans and that plan
  is swept, every chunk file that the sweep removed had been found unreferenced by an earlier run, at least
  the grace period and never less than an hour before the last run, again by the last run, and a third time
  by the sweep, and had not been written for an hour.
\<close>

theorem collected_after_two_sightings:
  assumes "gs_orphans gs0 = Absent" and "\<forall>xs. set (pn_sort env xs) = set xs"
    and plan: "gc_plan sg srt env grace now ((fold (plan_run sg srt) h gs0)\<lparr>gs_repo := st\<rparr>) = (Inr p, gs2)"
    and sweep: "gc_sweep sg srt senv (pl_id p) dry (gs2\<lparr>gs_repo := st2\<rparr>) = (r, gs3)"
    and gone: "cs_files (ks_chunks st2) q \<noteq> None" "cs_files (ks_chunks (gs_repo gs3)) q = None"
  shows "(\<exists>t. seen sg srt h (path_key q) t \<and> t + effective_grace grace \<le> effective_now env now)
    \<and> hours 1 \<le> effective_grace grace \<and> unreferenced sg srt (pn_scan env) st (path_key q)
    \<and> unreferenced sg srt (sw_scan senv) st2 (path_key q) \<and> ks_mtime st2 q \<le> sw_now senv - hours 1"
  using plan
proof (cases rule: gc_plan_cases)
  case (planned previous ks n un cands)
  let ?gs = "gs2\<lparr>gs_repo := st2\<rparr>"
  have load: "load_plan (pl_id p) ?gs = Inr p" using planned(5) by (simp add: load_plan_def split: if_splits option.splits)
  have live: "\<not> dry"
  proof
    assume dry
    then have "gs_repo gs3 = st2" using sweep load by (auto simp: gc_sweep_def Let_def)
    with gone show False by simp
  qed
  obtain v where v: "referenced_chunks sg srt (sw_scan senv) st2 = Inr v"
  proof (cases "referenced_chunks sg srt (sw_scan senv) st2")
    case (Inl e)
    then have "gs_repo gs3 = st2" using sweep load live by (auto simp: gc_sweep_def Let_def)
    with gone show thesis by simp
  qed
  obtain ks2 n2 un2 where v3: "v = (ks2, n2, un2)" by (metis prod_cases3)
  let ?p = "p\<lparr>pl_dry_run := False, pl_status := PlanRunning, pl_unindexed := un2\<rparr>"
  obtain b p1 gs1 where loop: "sweep_loop senv ks2 ?p ?gs = (b, p1, gs1)" by (metis prod_cases3)
  have "gs_repo gs3 = gs_repo gs1"
    using sweep load live v v3 loop by (cases b) (auto simp: gc_sweep_def Let_def save_plan_def split: prod.splits option.splits if_splits)
  with sweep_loop_deletes [OF loop, of q] gone obtain c where c: "c \<in> set (pl_candidates p)" "reaches_delete (sw_now senv) ks2 c"
    "chunk_path_of (ca_ref c) = Some q" "ca_modified c = ks_mtime st2 q" by auto
  then have "c \<in> set cands" using assms(2) planned(5) by auto
  then obtain i where i: "c = plan_candidate (effective_grace grace) (effective_now env now) previous i" "gc_chunk_key (fst i) \<notin> set ks"
    using planned(3) by auto
  have key: "gc_chunk_key (fst i) = path_key q" using gc_chunk_key_of_path [OF c(3)] i(1) by simp
  have pos: "hours 1 \<le> effective_grace grace" by (simp add: effective_grace_def min_grace_def)
  have el: "ca_first_seen c + effective_grace grace \<le> effective_now env now"
    using c(2) i(1) by (simp add: reaches_delete_def plan_candidate_def Let_def split: if_splits)
  then have "ca_first_seen c \<noteq> effective_now env now" using pos by (simp add: hours_def seconds_def)
  then have "st_get previous (path_key q) = Some (ca_first_seen c)"
    using plan_candidate_first [of "effective_grace grace" "effective_now env now" previous i] i(1) key by auto
  moreover then have "gs_orphans (fold (plan_run sg srt) h gs0) = Holds previous"
    using planned(1) by (auto simp: load_orphans_def split: json_file.splits)
  ultimately have "seen sg srt h (path_key q) (ca_first_seen c)" using ledger_seen [OF assms(1)] by blast
  moreover have "unreferenced sg srt (pn_scan env) st (path_key q)" using planned(2) i(2) key by (simp add: unreferenced_def)
  moreover have "unreferenced sg srt (sw_scan senv) st2 (path_key q)"
    using v v3 c(2) gc_chunk_key_of_path [OF c(3)] by (simp add: unreferenced_def reaches_delete_def)
  moreover have "ks_mtime st2 q \<le> sw_now senv - hours 1" using c(2,4) by (simp add: reaches_delete_def min_grace_def)
  ultimately show ?thesis using el pos by blast
qed (simp add: failed_def)

section \<open>Orphans are collected\<close>

lemma swept_files:
  assumes "swept ks st st'"
  shows "cs_files (ks_chunks st') q = None \<or> cs_files (ks_chunks st') q = cs_files (ks_chunks st) q"
proof -
  obtain f where "st' = st\<lparr>ks_chunks := (ks_chunks st)\<lparr>cs_files := f\<rparr>\<rparr>" "\<forall>p. f p = None \<or> f p = cs_files (ks_chunks st) p"
    using assms unfolding swept_def by blast
  then show ?thesis by (cases q) simp
qed

lemma sweep_loop_completes:
  assumes "sweep_loop env ks p gs = (b, p', gs')" and "\<forall>i. \<not> sw_ctx env i" and "\<forall>i. sw_unlink env i"
    and "pl_cursor p \<le> i" and "i < length (pl_candidates p)" and "c = pl_candidates p ! i"
    and "reaches_delete (sw_now env) ks c" and "chunk_path_of (ca_ref c) = Some q" and "ca_modified c = ks_mtime (gs_repo gs) q"
    and "\<And>x. cs_files (ks_chunks (gs_repo gs)) q = Some x \<Longrightarrow> size_of x = cr_stored_size (ca_ref c)"
  shows "cs_files (ks_chunks (gs_repo gs')) q = None"
  using assms
proof (induction env ks p gs rule: sweep_loop.induct)
  case (1 env ks p gs)
  let ?j = "pl_cursor p"
  let ?d = "pl_candidates p ! ?j"
  have run: "?j < length (pl_candidates p)" "\<not> sw_ctx env ?j" using "1.prems" by auto
  obtain d' st where one: "sweep_one (sw_now env) ks (sw_unlink env ?j) ?d (gs_repo gs) = (d', st)" by fastforce
  let ?p1 = "p\<lparr>pl_cursor := Suc ?j, pl_candidates := (pl_candidates p)[?j := d']\<rparr>"
  let ?gs1 = "gs\<lparr>gs_repo := st\<rparr>"
  let ?gs2 = "if reaches_delete (sw_now env) ks ?d \<and> Suc ?j mod 128 = 0 then snd (save_plan (sw_save env ?j) ?p1 ?gs1) else ?gs1"
  have rec: "sweep_loop env ks ?p1 ?gs2 = (b, p', gs')"
    using "1.prems"(1) run one by (subst (asm) sweep_loop.simps) (simp add: Let_def)
  have repo: "gs_repo ?gs2 = st" by simp
  obtain f where f: "st = (gs_repo gs)\<lparr>ks_chunks := (ks_chunks (gs_repo gs))\<lparr>cs_files := f\<rparr>\<rparr>"
    "\<And>q. f q = None \<or> f q = cs_files (ks_chunks (gs_repo gs)) q"
    using sweep_one_swept [OF one] unfolding swept_def by blast
  show ?case
  proof (cases "?j = i")
    case True
    have "cs_files (ks_chunks st) q = None"
      using one "1.prems"(3,6-10) True
      by (cases "cs_files (ks_chunks (gs_repo gs)) q")
        (auto simp: sweep_one_def delete_ref_def drop_file_def reaches_delete_def split: if_splits)
    then show ?thesis using swept_files [OF sweep_loop_swept [OF rec], of q] repo by auto
  next
    case False
    have sz: "size_of x = cr_stored_size (ca_ref c)" if "cs_files (ks_chunks st) q = Some x" for x
      using "1.prems"(10) that f(2) [of q] f(1) by auto
    show ?thesis
      by (rule "1.IH" [OF _ _ refl refl one [symmetric] refl refl rec "1.prems"(2,3)])
        (use run False "1.prems"(4-9) f(1) repo sz in \<open>auto\<close>)
  qed
qed

lemma st_get_foldl_put:
  "c \<in> set cs \<Longrightarrow> f c = k \<Longrightarrow> \<exists>c' \<in> set cs. f c' = k \<and> st_get (foldl (\<lambda>m c. st_put (f c) (g c) m) m cs) k = Some (g c')"
proof (induction cs rule: rev_induct)
  case (snoc x cs)
  then show ?case by (cases "f x = k") auto
qed simp

lemma enumerated:
  assumes "q \<in> set walk" and "cs_files (ks_chunks st) q = Some b" and "valid_address (snd q)" and "fst q \<noteq> 0"
  shows "(listed_ref q b, ks_mtime st q) \<in> set (enumerate_chunks walk st)"
  using assms by (force simp: enumerate_chunks_def)

lemma listed_ref_path: "valid_address (snd q) \<Longrightarrow> chunk_path_of (listed_ref q b) = Some q"
  by (simp add: chunk_path_of_def listed_ref_def)

lemma listed_ref_key: "gc_chunk_key (listed_ref q b) = path_key q"
  by (simp add: gc_chunk_key_def listed_ref_def path_key_def)

text \<open>
  C17.  Orphans do not stay.  When a chunk file is unreferenced in two planning runs of which the second comes at
  least its grace period after the first, and the second plan is swept without faults once the file has not
  been written for an hour, the file is gone.
\<close>

theorem orphan_is_collected:
  assumes plan1: "gc_plan sg srt env1 g1 now1 gs = (Inr p1, gs1)" and plan2: "gc_plan sg srt env2 g2 now2 gs1 = (Inr p2, gs2)"
    and sweep: "gc_sweep sg srt senv (pl_id p2) False gs2 = (r, gs3)"
    and sort: "\<forall>xs. set (pn_sort env2 xs) = set xs"
    and q: "q \<in> set (pn_walk env1)" "q \<in> set (pn_walk env2)" "valid_address (snd q)" "fst q \<noteq> 0"
      "cs_files (ks_chunks (gs_repo gs)) q = Some b"
    and un: "unreferenced sg srt (pn_scan env1) (gs_repo gs) (path_key q)" "unreferenced sg srt (pn_scan env2) (gs_repo gs) (path_key q)"
      "unreferenced sg srt (sw_scan senv) (gs_repo gs) (path_key q)"
    and ledger: "\<forall>m t. load_orphans gs = Inr m \<and> st_get m (path_key q) = Some t \<longrightarrow> t \<le> effective_now env1 now1"
    and times: "effective_now env1 now1 \<noteq> 0" "effective_now env1 now1 + effective_grace g2 \<le> effective_now env2 now2"
      "effective_now env2 now2 \<le> sw_now senv" "ks_mtime (gs_repo gs) q \<le> sw_now senv - hours 1"
    and calm: "\<forall>i. \<not> sw_ctx senv i" "\<forall>i. sw_unlink senv i"
  shows "cs_files (ks_chunks (gs_repo gs3)) q = None"
proof -
  let ?st = "gs_repo gs"
  have repo: "gs_repo gs1 = ?st" "gs_repo gs2 = ?st" using gc_plan_repo [OF plan1] gc_plan_repo [OF plan2] by simp_all
  let ?info = "(listed_ref q b, ks_mtime ?st q)"
  obtain t where t: "t \<noteq> 0" "t \<le> effective_now env1 now1" and led: "\<exists>m. gs_orphans gs1 = Holds m \<and> st_get m (path_key q) = Some t"
    using plan1
  proof (cases rule: gc_plan_cases)
    case (planned previous ks n un' cands)
    have i: "?info \<in> set (filter (\<lambda>i. gc_chunk_key (fst i) \<notin> set ks) (enumerate_chunks (pn_walk env1) ?st))"
      using enumerated [OF q(1,5,3,4)] un(1) planned(2) by (simp add: unreferenced_def listed_ref_key)
    let ?c = "plan_candidate (effective_grace g1) (effective_now env1 now1) previous ?info"
    have "?c \<in> set cands" "gc_chunk_key (ca_ref ?c) = path_key q" using i planned(3) by (auto simp: listed_ref_key)
    from st_get_foldl_put [of ?c cands "\<lambda>c. gc_chunk_key (ca_ref c)", OF this, of ca_first_seen "[]"]
    obtain c where c: "c \<in> set cands" "gc_chunk_key (ca_ref c) = path_key q"
      "st_get (foldl (\<lambda>m c. st_put (gc_chunk_key (ca_ref c)) (ca_first_seen c) m) [] cands) (path_key q) = Some (ca_first_seen c)" by blast
    then obtain j where j: "c = plan_candidate (effective_grace g1) (effective_now env1 now1) previous j" using planned(3) by auto
    have "ca_first_seen c \<noteq> 0" using times(1) j by (auto simp: plan_candidate_def Let_def split: option.splits)
    moreover have "ca_first_seen c \<le> effective_now env1 now1"
      using plan_candidate_first [of "effective_grace g1" "effective_now env1 now1" previous j] ledger planned(1) c(2) j by auto
    ultimately show thesis using that c(3) planned(4) by blast
  qed (simp add: failed_def)
  show ?thesis
    using plan2
  proof (cases rule: gc_plan_cases)
    case (planned previous ks n un' cands)
    have pv: "st_get previous (path_key q) = Some t" using led planned(1) by (auto simp: load_orphans_def)
    let ?c = "plan_candidate (effective_grace g2) (effective_now env2 now2) previous ?info"
    have c: "ca_first_seen ?c = t" "ca_eligible_at ?c = t + effective_grace g2" "ca_status ?c = Eligible"
      using pv t times(2) by (simp_all add: plan_candidate_def Let_def listed_ref_key)
    have "?info \<in> set (filter (\<lambda>i. gc_chunk_key (fst i) \<notin> set ks) (enumerate_chunks (pn_walk env2) (gs_repo gs1)))"
      using enumerated [OF q(2,5,3,4)] un(2) planned(2) repo by (simp add: unreferenced_def listed_ref_key)
    then have "?c \<in> set (pl_candidates p2)" using planned(3,5) sort by auto
    then obtain i where i: "i < length (pl_candidates p2)" "pl_candidates p2 ! i = ?c" by (metis in_set_conv_nth)
    obtain ks3 n3 un3 where scan: "referenced_chunks sg srt (sw_scan senv) ?st = Inr (ks3, n3, un3)" "path_key q \<notin> set ks3"
      using un(3) by (auto simp: unreferenced_def split: sum.splits)
    let ?p = "p2\<lparr>pl_dry_run := False, pl_status := PlanRunning, pl_unindexed := un3\<rparr>"
    obtain b' p3 gs4 where loop: "sweep_loop senv ks3 ?p gs2 = (b', p3, gs4)" by (metis prod_cases3)
    have "gs_repo gs3 = gs_repo gs4"
      using sweep planned(5) scan(1) loop repo by (cases b') (auto simp: gc_sweep_def Let_def save_plan_def split: prod.splits option.splits if_splits)
    moreover have "reaches_delete (sw_now senv) ks3 ?c"
      using c t times scan(2) by (simp add: reaches_delete_def listed_ref_key min_grace_def)
    then have "cs_files (ks_chunks (gs_repo gs4)) q = None"
      by (rule sweep_loop_completes [OF loop calm, of i, rotated 3])
        (use i planned(5) repo q(3,5) listed_ref_path in \<open>auto simp: listed_ref_def\<close>)
    ultimately show ?thesis by simp
  qed (simp add: failed_def)
qed

section \<open>A small agent\<close>

definition sample_scan :: scan_env where
  "sample_scan = \<lparr>sc_readdir = True, sc_open = (\<lambda>n. True)\<rparr>"

definition sample_path :: chunk_path where
  "sample_path = (1, replicate 64 CHR ''0'')"

definition sample_plan_env :: "string \<Rightarrow> plan_env" where
  "sample_plan_env pid = \<lparr>pn_scan = sample_scan, pn_walk = [sample_path], pn_walk_ok = True,
     pn_sort = sort_key ca_eligible_at, pn_id = pid, pn_clock = 0, pn_save_orphans = True, pn_save_plan = True\<rparr>"

definition sample_sweep_env :: "time \<Rightarrow> sweep_env" where
  "sample_sweep_env now = \<lparr>sw_now = now, sw_end = now, sw_scan = sample_scan, sw_ctx = (\<lambda>i. False),
     sw_unlink = (\<lambda>i. True), sw_save = (\<lambda>i. True), sw_final = True\<rparr>"

definition sample_part :: "string \<Rightarrow> capture_part" where
  "sample_part name = \<lparr>cp_name = name, cp_data = ''hello'', cp_io = sample_asset_io, cp_key = True, cp_fresh = sample_data_key\<rparr>"

definition sample_capture :: "string \<Rightarrow> time \<Rightarrow> capture" where
  "sample_capture cid now = \<lparr>cap_image = sample_part ''process-state'', cap_root = sample_part ''filesystem-root'',
     cap_manifest = \<lparr>cm_format = [], cm_format_version = [], cm_id = cid, cm_parent = [], cm_kind = ''full'', cm_created = now,
       cm_workload = ''w'', cm_workload_name = ''web'', cm_source = [], cm_public_key = [], cm_assets = [], cm_plain_bytes = 0,
       cm_stored_bytes = 0, cm_signer = [], cm_algorithm = [], cm_signature = None, cm_sha = []\<rparr>,
     cap_key = True, cap_fresh = sample_data_key, cap_save = sample_save_io, cap_now = now\<rparr>"

definition sample_fresh :: gc_state where
  "sample_fresh = \<lparr>gs_repo = sample_empty\<lparr>ks_chunks := sample_store\<rparr>, gs_orphans = Absent, gs_plans = []\<rparr>"

text \<open>
  A checkpoint is captured and deleted; its chunk is then an orphan that one planning run sees at hour 10.
\<close>

definition sample_orphaned :: gc_state where
  "sample_orphaned = fold (store_exec sample_codec sample_signing sample_sorter)
     [CaptureStep sample_signer (sample_capture ''a'' (hours 1)), DeleteStep sample_delete_io ''a'',
      PlanStep (sample_plan_env ''p1'') (hours 24) (hours 10)] sample_fresh"

definition sample_steps :: "store_step list" where
  "sample_steps = [PlanStep (sample_plan_env ''p2'') (hours 24) (hours 40), CaptureStep sample_signer (sample_capture ''b'' (hours 41)),
     SweepStep (sample_sweep_env (hours 42)) ''p2'' False]"

lemma sample_fresh_healthy: "healthy sample_codec sample_signing (gs_repo sample_fresh)"
proof -
  have "versions_fine sample_key_disk"
    by (auto simp: versions_fine_def sample_key_disk_def st_get_def wrap_with_def split: if_splits)
  then have "store_ready sample_store" by (simp add: store_ready_def sample_store_def sample_keys_ok max_plain_chunk_def)
  moreover have "manifests_intact sample_codec sample_signing (gs_repo sample_fresh)"
    by (simp add: manifests_intact_def sample_fresh_def sample_empty_def dir_manifest_def)
  moreover have "index_loads sample_signing (gs_repo sample_fresh)"
    by (simp add: index_loads_def sample_fresh_def sample_empty_def open_collection_def empty_disk_def replay_journal_def
        empty_data_def contents_def)
  ultimately show ?thesis by (simp add: healthy_def sample_fresh_def)
qed

lemma sample_capture_ok: "capture_ok (sample_capture cid now)"
  by (simp add: capture_ok_def sample_capture_def part_ok_def sample_part_def sample_asset_io_def sample_put_io_def
      sample_save_io_def nonce_size_def max_manifest_bytes_def)


definition sample_second_plan :: "(gc_error, plan) outcome \<times> gc_state" where
  "sample_second_plan = gc_plan sample_signing sample_sorter (sample_plan_env ''p2'') (hours 24) (hours 40) sample_orphaned"

definition sample_swept :: "(gc_error, plan) outcome \<times> gc_state" where
  "sample_swept = gc_sweep sample_signing sample_sorter (sample_sweep_env (hours 42)) ''p2'' False (snd sample_second_plan)"

lemma sample_sort_set: "\<forall>xs. set (pn_sort (sample_plan_env pid) xs) = set xs"
  by (simp add: sample_plan_env_def)

lemma sample_second_plan_ok: "sample_second_plan = (Inr (projr (fst sample_second_plan)), snd sample_second_plan)"
proof -
  have "\<not> isl (fst sample_second_plan)" by code_simp
  then show ?thesis by (cases sample_second_plan) (auto simp: isl_def split: sum.splits)
qed

lemma sample_second_plan_id: "pl_id (projr (fst sample_second_plan)) = ''p2''"
  by code_simp

definition sample_before_plan :: gc_state where
  "sample_before_plan = fold (store_exec sample_codec sample_signing sample_sorter)
     [CaptureStep sample_signer (sample_capture ''a'' (hours 1)), DeleteStep sample_delete_io ''a''] sample_fresh"

definition sample_history :: "planning list" where
  "sample_history = [(gs_repo sample_before_plan, sample_plan_env ''p1'', hours 24, hours 10)]"

lemma sample_orphaned_history:
  "sample_orphaned = fold (plan_run sample_signing sample_sorter) sample_history sample_before_plan"
  by (simp add: sample_orphaned_def sample_history_def plan_run_def sample_before_plan_def)

theorem collected_after_two_sightings_witness:
  "cs_files (ks_chunks (gs_repo (snd sample_swept))) sample_path = None
    \<and> (\<exists>t. seen sample_signing sample_sorter sample_history (path_key sample_path) t \<and> t + hours 24 \<le> hours 40)"
proof -
  have gone: "cs_files (ks_chunks (gs_repo (snd sample_second_plan))) sample_path \<noteq> None"
    "cs_files (ks_chunks (gs_repo (snd sample_swept))) sample_path = None" by code_simp+
  have plan: "gc_plan sample_signing sample_sorter (sample_plan_env ''p2'') (hours 24) (hours 40)
      ((fold (plan_run sample_signing sample_sorter) sample_history sample_before_plan)\<lparr>gs_repo := gs_repo sample_orphaned\<rparr>)
      = (Inr (projr (fst sample_second_plan)), snd sample_second_plan)"
    using sample_second_plan_ok by (simp add: sample_orphaned_history [symmetric] sample_second_plan_def)
  have sweep: "gc_sweep sample_signing sample_sorter (sample_sweep_env (hours 42)) (pl_id (projr (fst sample_second_plan))) False
      ((snd sample_second_plan)\<lparr>gs_repo := gs_repo (snd sample_second_plan)\<rparr>) = (fst sample_swept, snd sample_swept)"
    by (simp add: sample_second_plan_id sample_swept_def)
  have absent: "gs_orphans sample_before_plan = Absent" by (simp add: sample_before_plan_def sample_fresh_def)
  have eff: "effective_grace (hours 24) = hours 24" "effective_now (sample_plan_env ''p2'') (hours 40) = hours 40"
    by (simp_all add: effective_grace_def min_grace_def hours_def seconds_def effective_now_def)
  from collected_after_two_sightings [OF absent sample_sort_set plan sweep gone] eff gone(2) show ?thesis by metis
qed

theorem orphan_is_collected_witness:
  "cs_files (ks_chunks (gs_repo (snd sample_swept))) sample_path = None"
proof -
  let ?gs = sample_before_plan
  let ?p1 = "gc_plan sample_signing sample_sorter (sample_plan_env ''p1'') (hours 24) (hours 10) ?gs"
  have "\<not> isl (fst ?p1)" by code_simp
  then have plan1: "?p1 = (Inr (projr (fst ?p1)), snd ?p1)" by (cases ?p1) (auto simp: isl_def split: sum.splits)
  have orph: "snd ?p1 = sample_orphaned" by (simp add: sample_orphaned_def sample_before_plan_def)
  have plan2: "gc_plan sample_signing sample_sorter (sample_plan_env ''p2'') (hours 24) (hours 40) (snd ?p1)
      = (Inr (projr (fst sample_second_plan)), snd sample_second_plan)"
    using sample_second_plan_ok by (simp add: orph sample_second_plan_def)
  have sweep: "gc_sweep sample_signing sample_sorter (sample_sweep_env (hours 42)) (pl_id (projr (fst sample_second_plan))) False
      (snd sample_second_plan) = (fst sample_swept, snd sample_swept)"
    by (simp add: sample_second_plan_id sample_swept_def)
  have there: "cs_files (ks_chunks (gs_repo ?gs)) sample_path = Some (the (cs_files (ks_chunks (gs_repo ?gs)) sample_path))" by code_simp
  have un: "unreferenced sample_signing sample_sorter sample_scan (gs_repo ?gs) (path_key sample_path)" by code_simp
  have valid: "valid_address (snd sample_path)" "fst sample_path \<noteq> 0" by code_simp+
  have led: "\<forall>m t. load_orphans ?gs = Inr m \<and> st_get m (path_key sample_path) = Some t \<longrightarrow> t \<le> effective_now (sample_plan_env ''p1'') (hours 10)"
    by (simp add: load_orphans_def sample_before_plan_def sample_fresh_def)
  have old: "ks_mtime (gs_repo ?gs) sample_path = hours 1" by code_simp
  have env: "pn_scan (sample_plan_env pid) = sample_scan" "pn_walk (sample_plan_env pid) = [sample_path]"
    "sw_scan (sample_sweep_env now) = sample_scan" "sw_now (sample_sweep_env now) = now"
    "sw_ctx (sample_sweep_env now) i = False" "sw_unlink (sample_sweep_env now) i = True" for pid now i
    by (simp_all add: sample_plan_env_def sample_sweep_env_def)
  have times: "effective_now (sample_plan_env ''p1'') (hours 10) \<noteq> 0"
    "effective_now (sample_plan_env ''p1'') (hours 10) + effective_grace (hours 24) \<le> effective_now (sample_plan_env ''p2'') (hours 40)"
    "effective_now (sample_plan_env ''p2'') (hours 40) \<le> sw_now (sample_sweep_env (hours 42))"
    "ks_mtime (gs_repo ?gs) sample_path \<le> sw_now (sample_sweep_env (hours 42)) - hours 1"
    by (simp_all add: env old effective_grace_def min_grace_def effective_now_def hours_def seconds_def)
  show ?thesis
    by (rule orphan_is_collected [OF plan1 plan2 sweep sample_sort_set _ _ valid there _ _ _ led times]) (simp_all add: env un)
qed

section \<open>Outside the guarantee\<close>

text \<open>
  The agent never gives the migration orchestrator its write guard, so the two halves of a migration's capture
  are separate steps.  The sweep that comes between them deletes the orphan that the first half resolved.
\<close>

definition sample_unguarded :: "repo_error option \<times> checkpoint_state" where
  "sample_unguarded =
     (let gs = snd sample_second_plan in
      case capture_assets sample_codec (sample_capture ''b'' (hours 41)) (gs_repo gs) of
        (Inr assets, st1) \<Rightarrow>
          publish sample_signing sample_signer (sample_capture ''b'' (hours 41)) assets
            (gs_repo (snd (gc_sweep sample_signing sample_sorter (sample_sweep_env (hours 42)) ''p2'' False (gs\<lparr>gs_repo := st1\<rparr>))))
      | (Inl e, st1) \<Rightarrow> (Some AssetInvalid, st1))"

text \<open>
  C38.  A capture that does not hold the write guard can lose its data: it resolves a chunk that an earlier
  checkpoint left behind, the collector, to which the chunk is an orphan past its grace period, deletes it,
  and the capture then saves its manifest.  The checkpoint is reported as created, is in the index and
  loads, but its process state cannot be restored.
\<close>

theorem unguarded_capture_loses_chunks:
  "fst sample_unguarded = None
    \<and> \<not> failed (repo_load sample_signing (snd sample_unguarded) ''b'')
    \<and> \<not> healthy sample_codec sample_signing (snd sample_unguarded)
    \<and> (\<forall>chain. \<not> restorable sample_codec sample_signing (snd sample_unguarded) ''b'' chain)"
proof -
  let ?st = "snd sample_unguarded"
  have ack: "fst sample_unguarded = None" by code_simp
  have load: "\<not> failed (repo_load sample_signing ?st ''b'')" by code_simp
  have bad: "case repo_load sample_signing ?st ''b'' of Inl _ \<Rightarrow> False
      | Inr m \<Rightarrow> failed (process_chain sample_codec sample_signing ?st m)" by code_simp
  then have broken: "\<not> restorable sample_codec sample_signing ?st ''b'' chain" for chain
    by (auto simp: restorable_def failed_def split: sum.splits)
  have "case dir_manifest ?st ''b'' of None \<Rightarrow> False
    | Some fl \<Rightarrow> (case decode_encrypted_manifest sample_signing (ks_chunks ?st) ''b'' fl of Inl _ \<Rightarrow> False
        | Inr (m, _) \<Rightarrow> \<not> list_all (validate_asset sample_codec (ks_chunks ?st) (cm_workload m)) (cm_assets m))" by code_simp
  then have "\<not> manifests_intact sample_codec sample_signing ?st"
    by (fastforce simp: manifests_intact_def list_all_iff split: option.splits sum.splits prod.splits)
  with ack load broken show ?thesis by (simp add: healthy_def)
qed

text \<open>
  Cancelling a plan does not stop it: \<open>Sweep\<close> never looks at the status of the plan it loads.
\<close>

definition sample_cancelled :: "(gc_error, plan) outcome \<times> gc_state" where
  "sample_cancelled = gc_sweep sample_signing sample_sorter (sample_sweep_env (hours 42)) ''p2'' False
     (snd (gc_cancel True (hours 41) ''p2'' (snd sample_second_plan)))"

theorem cancelled_plan_still_sweeps:
  "\<not> failed (fst (gc_cancel True (hours 41) ''p2'' (snd sample_second_plan)))
    \<and> cs_files (ks_chunks (gs_repo (snd sample_second_plan))) sample_path \<noteq> None
    \<and> cs_files (ks_chunks (gs_repo (snd sample_cancelled))) sample_path = None"
  by code_simp

lemma scan_blocked:
  assumes faithful: "index_faithful sg st" and srt: "newest_first srt" and "contents (ks_index st) cid \<noteq> None" and "failed (repo_load sg st cid)"
  shows "failed (referenced_chunks sg srt env st)"
proof -
  obtain s where s: "contents (ks_index st) cid = Some s" using assms(3) by auto
  then have "sm_id s = cid" using faithful unfolding index_faithful_def by (metis summary_of_sel(1))
  moreover have "s \<in> set (repo_list srt st [])" using s faithful by (auto simp: listed_iff [OF srt] index_faithful_def)
  moreover have "failed (scan_index sg st ss)" if "s \<in> set ss" for ss
    using that assms(4) \<open>sm_id s = cid\<close> by (induction ss) (auto simp: failed_def split: sum.splits)
  ultimately have "failed (scan_index sg st (repo_list srt st []))" by blast
  then show ?thesis by (cases "scan_index sg st (repo_list srt st [])") (simp_all add: referenced_chunks_def Let_def)
qed

text \<open>
  \<open>Save\<close> does not apply the size limit that \<open>Load\<close> and the collector apply.  A new checkpoint whose encrypted
  manifest is larger is acknowledged and indexed, but it can never be loaded, and from then on every
  planning run and every sweep fails without removing anything.
\<close>

theorem oversized_manifest_blocks_collection:
  assumes faithful: "index_faithful sg st" and srt: "newest_first srt"
    and save: "repo_save sg io m st = (None, st')" and new: "contents (ks_index st) (cm_id m) = None"
    and big: "sv_size io > max_manifest_bytes"
  shows "contents (ks_index st') (cm_id m) \<noteq> None \<and> repo_load sg st' (cm_id m) = Inl ManifestSize
    \<and> (gs_repo gs = st' \<longrightarrow> failed (fst (gc_plan sg srt penv grace now gs))
         \<and> (\<not> dry \<longrightarrow> failed (fst (gc_sweep sg srt senv pid dry gs)) \<and> gs_repo (snd (gc_sweep sg srt senv pid dry gs)) = st'))"
  using save
proof (cases rule: repo_save_cases)
  case (keys disk)
  then show ?thesis using new by (auto elim!: repo_load_facts)
next
  case (installed kv k disk)
  note eff = install_manifest_effect [OF installed(4)]
  have c: "contents (ks_index st') (cm_id m) \<noteq> None" "dir_manifest st' (cm_id m) = Some (manifest_envelope io kv k m)"
    using eff(5) by auto
  have "repo_validate_id (cm_id m) = None" using installed(2) by (auto simp: verify_manifest_def split: option.splits)
  with c big have load: "repo_load sg st' (cm_id m) = Inl ManifestSize"
    by (auto simp: repo_load_def coll_get_contents manifest_envelope_def)
  have bl: "\<exists>e. referenced_chunks sg srt env st' = Inl e" for env
    using scan_blocked [OF repo_save_faithful [OF faithful save] srt c(1), of env] load by (auto simp: failed_def split: sum.splits)
  have "failed (fst (gc_plan sg srt penv grace now gs))" if "gs_repo gs = st'"
    using bl [of "pn_scan penv"] that by (auto simp: gc_plan_def Let_def failed_def split: sum.splits)
  moreover have "failed (fst (gc_sweep sg srt senv pid False gs)) \<and> gs_repo (snd (gc_sweep sg srt senv pid False gs)) = st'" if "gs_repo gs = st'"
    using bl [of "sw_scan senv"] that by (auto simp: gc_sweep_def Let_def failed_def split: sum.splits)
  ultimately show ?thesis using c(1) load by auto
qed simp

definition sample_oversized :: "repo_error option \<times> checkpoint_state" where
  "sample_oversized = repo_save sample_signing (sample_save_io\<lparr>sv_size := 9000000\<rparr>) (sample_repo_manifest ''d'' [] 40) sample_repo"

theorem oversized_manifest_blocks_collection_witness:
  "fst sample_oversized = None \<and> repo_load sample_signing (snd sample_oversized) ''d'' = Inl ManifestSize"
proof -
  have ack: "fst sample_oversized = None" by code_simp
  have run: "repo_save sample_signing (sample_save_io\<lparr>sv_size := 9000000\<rparr>) (sample_repo_manifest ''d'' [] 40) sample_repo = (None, snd sample_oversized)"
    using ack by (simp add: sample_oversized_def prod_eq_iff)
  have cid: "cm_id (sample_repo_manifest ''d'' [] 40) = ''d''" by code_simp
  have new: "contents (ks_index sample_repo) (cm_id (sample_repo_manifest ''d'' [] 40)) = None" by code_simp
  from oversized_manifest_blocks_collection [OF sample_repo_faithful sample_sorter_newest run new, of sample_fresh]
    ack cid show ?thesis by (simp add: max_manifest_bytes_def)
qed

end
