(* ===== verification/Update_Version.thy ===== *)
theory Update_Version
  imports Go_Strings "HOL-Library.Product_Lexorder" "HOL-Library.Code_Target_Nat"
begin

text \<open>
  \<^verbatim>\<open>src/internal/update/version.go\<close>: semantic versions, how they are read, printed and ordered.  The
  order is related to an independent reading of semantic-version precedence: a key in a linear order,
  built from the instances below, that \<open>Compare\<close> compares.
\<close>

section \<open>Versions\<close>

record version =
  vMajor :: int
  vMinor :: int
  vPatch :: int
  vPreRelease :: string
  vBuild :: string

datatype version_error =
  VersionEmpty | EmptyBuildId | EmptyPreReleaseId | NotThreeNumbers | MalformedNumber string | NonNumeric string
  | EmptyIdentifier | BadIdentifier string

definition identifier_char :: "char \<Rightarrow> bool" where
  "identifier_char c \<longleftrightarrow> between CHR ''0'' CHR ''9'' c \<or> between CHR ''a'' CHR ''z'' c \<or> between CHR ''A'' CHR ''Z'' c \<or> c = CHR ''-''"

fun bad_identifier :: "string list \<Rightarrow> version_error option" where
  "bad_identifier [] = None"
| "bad_identifier (w # ws) =
     (if w = [] then Some EmptyIdentifier
      else if \<not> list_all identifier_char w then Some (BadIdentifier w)
      else bad_identifier ws)"

definition valid_identifiers :: "string \<Rightarrow> version_error option" where
  "valid_identifiers s = (if s = [] then None else bad_identifier (split_on CHR ''.'' s))"

definition parse_number :: "string \<Rightarrow> (version_error, int) outcome" where
  "parse_number w =
     (if w = [] \<or> 1 < length w \<and> hd w = CHR ''0'' then Inl (MalformedNumber w)
      else case atoi w of None \<Rightarrow> Inl (NonNumeric w)
      | Some n \<Rightarrow> if n < 0 then Inl (NonNumeric w) else Inr n)"

definition trim_v :: "string \<Rightarrow> string" where
  "trim_v s = (case s of [] \<Rightarrow> [] | c # cs \<Rightarrow> if c = CHR ''v'' then cs else s)"

text \<open>An optional suffix after \<open>d\<close>; the separator with nothing behind it is the error \<open>e\<close>.\<close>

definition split_suffix :: "version_error \<Rightarrow> char \<Rightarrow> string \<Rightarrow> (version_error, string \<times> string) outcome" where
  "split_suffix e d s = (case cut_at d s of None \<Rightarrow> Inr (s, []) | Some (w, t) \<Rightarrow> if t = [] then Inl e else Inr (w, t))"

definition parse_numbers :: "string \<Rightarrow> (version_error, int \<times> int \<times> int) outcome" where
  "parse_numbers s =
     (case split_on CHR ''.'' s of
        [a, b, c] \<Rightarrow>
          (case parse_number a of Inl e \<Rightarrow> Inl e | Inr x \<Rightarrow>
          (case parse_number b of Inl e \<Rightarrow> Inl e | Inr y \<Rightarrow>
          (case parse_number c of Inl e \<Rightarrow> Inl e | Inr z \<Rightarrow> Inr (x, y, z))))
      | _ \<Rightarrow> Inl NotThreeNumbers)"

definition ParseVersion :: "string \<Rightarrow> (version_error, version) outcome" where
  "ParseVersion s =
     (let text = trim_v (trim_space s) in
      if text = [] then Inl VersionEmpty else
      case split_suffix EmptyBuildId CHR ''+'' text of Inl e \<Rightarrow> Inl e | Inr (text1, build) \<Rightarrow>
     (case split_suffix EmptyPreReleaseId CHR ''-'' text1 of Inl e \<Rightarrow> Inl e | Inr (text2, pre) \<Rightarrow>
     (case parse_numbers text2 of Inl e \<Rightarrow> Inl e | Inr (x, y, z) \<Rightarrow>
     (case valid_identifiers pre of Some e \<Rightarrow> Inl e | None \<Rightarrow>
     (case valid_identifiers build of Some e \<Rightarrow> Inl e | None \<Rightarrow>
        Inr \<lparr>vMajor = x, vMinor = y, vPatch = z, vPreRelease = pre, vBuild = build\<rparr>)))))"

definition version_string :: "version \<Rightarrow> string" where
  "version_string v =
     itoa (vMajor v) @ ''.'' @ itoa (vMinor v) @ ''.'' @ itoa (vPatch v)
       @ (if vPreRelease v \<noteq> [] then ''-'' @ vPreRelease v else [])
       @ (if vBuild v \<noteq> [] then ''+'' @ vBuild v else [])"

definition Stable :: "version \<Rightarrow> bool" where
  "Stable v \<longleftrightarrow> vPreRelease v = []"

section \<open>Precedence\<close>

definition compare_int :: "int \<Rightarrow> int \<Rightarrow> int" where
  "compare_int a b = (if a < b then -1 else if b < a then 1 else 0)"

definition comparePreReleaseIdentifier :: "string \<Rightarrow> string \<Rightarrow> int" where
  "comparePreReleaseIdentifier l r =
     (case (atoi l, atoi r) of
        (Some a, Some b) \<Rightarrow> compare_int a b
      | (Some _, None) \<Rightarrow> -1
      | (None, Some _) \<Rightarrow> 1
      | (None, None) \<Rightarrow> if l < r then -1 else if r < l then 1 else 0)"

fun compare_parts :: "string list \<Rightarrow> string list \<Rightarrow> int" where
  "compare_parts (l # ls) (r # rs) =
     (let c = comparePreReleaseIdentifier l r in if c \<noteq> 0 then c else compare_parts ls rs)"
| "compare_parts [] (r # rs) = -1"
| "compare_parts (l # ls) [] = 1"
| "compare_parts [] [] = 0"

definition comparePreRelease :: "string \<Rightarrow> string \<Rightarrow> int" where
  "comparePreRelease l r =
     (if l = r then 0 else if l = [] then 1 else if r = [] then -1
      else compare_parts (split_on CHR ''.'' l) (split_on CHR ''.'' r))"

definition Compare :: "version \<Rightarrow> version \<Rightarrow> int" where
  "Compare a b =
     (if vMajor a \<noteq> vMajor b then (if vMajor a < vMajor b then -1 else 1)
      else if vMinor a \<noteq> vMinor b then (if vMinor a < vMinor b then -1 else 1)
      else if vPatch a \<noteq> vPatch b then (if vPatch a < vPatch b then -1 else 1)
      else comparePreRelease (vPreRelease a) (vPreRelease b))"

definition Precedes :: "version \<Rightarrow> version \<Rightarrow> bool" where
  "Precedes a b \<longleftrightarrow> Compare a b < 0"

definition SameRelease :: "version \<Rightarrow> version \<Rightarrow> bool" where
  "SameRelease a b \<longleftrightarrow> Compare a b = 0"

section \<open>Reading what was printed\<close>

definition version_ok :: "version \<Rightarrow> bool" where
  "version_ok v \<longleftrightarrow>
     0 \<le> vMajor v \<and> in_i64 (vMajor v) \<and> 0 \<le> vMinor v \<and> in_i64 (vMinor v) \<and> 0 \<le> vPatch v \<and> in_i64 (vPatch v)
     \<and> valid_identifiers (vPreRelease v) = None \<and> valid_identifiers (vBuild v) = None"

lemma atoi_range: "atoi w = Some n \<Longrightarrow> in_i64 n"
  by (auto simp: atoi_def Let_def split: option.splits if_splits)

lemma parse_number_ok: "parse_number w = Inr n \<Longrightarrow> 0 \<le> n \<and> in_i64 n"
  by (auto simp: parse_number_def dest: atoi_range split: if_splits option.splits)

lemma parse_numbers_ok: "parse_numbers s = Inr (x, y, z) \<Longrightarrow> 0 \<le> x \<and> in_i64 x \<and> 0 \<le> y \<and> in_i64 y \<and> 0 \<le> z \<and> in_i64 z"
  by (auto simp: parse_numbers_def dest!: parse_number_ok split: list.splits sum.splits)

lemma parsed_version_ok: "ParseVersion s = Inr v \<Longrightarrow> version_ok v"
  by (auto simp: ParseVersion_def Let_def version_ok_def dest!: parse_numbers_ok split: if_splits sum.splits option.splits)

lemma parse_itoa: "0 \<le> n \<Longrightarrow> in_i64 n \<Longrightarrow> parse_number (itoa n) = Inr n"
  using itoa_number [of n] by (auto simp: parse_number_def atoi_itoa)

lemma itoa_free: "0 \<le> n \<Longrightarrow> c \<in> set (itoa n) \<Longrightarrow> c \<noteq> CHR ''-'' \<and> c \<noteq> CHR ''+'' \<and> c \<noteq> CHR ''.'' \<and> c \<noteq> CHR ''v'' \<and> \<not> is_space c"
  using itoa_number [of n] digit_not_sign [of c] by blast

lemma identifiers_chars: "bad_identifier ws = None \<Longrightarrow> w \<in> set ws \<Longrightarrow> c \<in> set w \<Longrightarrow> identifier_char c"
  by (induction ws rule: bad_identifier.induct) (auto simp: list_all_iff split: if_splits)

lemma in_split_on: "c \<in> set s \<Longrightarrow> c = d \<or> (\<exists>w\<in>set (split_on d s). c \<in> set w)"
  by (induction s) (auto split: list.splits)

lemma valid_chars: "valid_identifiers s = None \<Longrightarrow> c \<in> set s \<Longrightarrow> identifier_char c \<or> c = CHR ''.''"
  using in_split_on [of c s "CHR ''.''"] by (auto simp: valid_identifiers_def dest: identifiers_chars split: if_splits)

lemma identifier_not: "identifier_char c \<or> c = CHR ''.'' \<Longrightarrow> c \<noteq> CHR ''+'' \<and> \<not> is_space c"
  by (auto simp: identifier_char_def between_def is_space_def)

definition number_text :: "version \<Rightarrow> string" where
  "number_text v = join_on CHR ''.'' [itoa (vMajor v), itoa (vMinor v), itoa (vPatch v)]"

lemma version_string_parts:
  "version_string v = number_text v @ (if vPreRelease v \<noteq> [] then CHR ''-'' # vPreRelease v else [])
     @ (if vBuild v \<noteq> [] then CHR ''+'' # vBuild v else [])"
  by (simp add: version_string_def number_text_def)

lemma parse_number_text: "version_ok v \<Longrightarrow> parse_numbers (number_text v) = Inr (vMajor v, vMinor v, vPatch v)"
proof -
  assume v: "version_ok v"
  then have "split_on CHR ''.'' (number_text v) = [itoa (vMajor v), itoa (vMinor v), itoa (vPatch v)]"
    unfolding number_text_def by (intro split_on_join) (auto simp: version_ok_def dest: itoa_free)
  with v show ?thesis by (simp add: parse_numbers_def version_ok_def parse_itoa)
qed

lemma number_text_chars:
  assumes "version_ok v" and "c \<in> set (number_text v)"
  shows "c \<noteq> CHR ''-'' \<and> c \<noteq> CHR ''+'' \<and> c \<noteq> CHR ''v'' \<and> \<not> is_space c"
  using assms itoa_free [of _ c] by (auto simp: number_text_def version_ok_def is_space_def)

lemma split_suffix_none: "d \<notin> set s \<Longrightarrow> split_suffix e d s = Inr (s, [])"
  by (simp add: split_suffix_def cut_at_def)

lemma split_suffix_some: "d \<notin> set w \<Longrightarrow> t \<noteq> [] \<Longrightarrow> split_suffix e d (w @ d # t) = Inr (w, t)"
  by (simp add: split_suffix_def cut_at_append)

lemma version_text_trimmed:
  assumes v: "version_ok v"
  shows "trim_v (trim_space (version_string v)) = version_string v" "version_string v \<noteq> []"
proof -
  let ?s = "version_string v"
  have n: "number_text v \<noteq> []" by (simp add: number_text_def)
  then show s: "?s \<noteq> []" by (simp add: version_string_parts)
  have h: "hd ?s \<in> set (number_text v)" using n by (simp add: version_string_parts)
  have "\<not> is_space c" if "c \<in> set ?s" for c
    using that number_text_chars [OF v, of c] valid_chars [of "vPreRelease v" c] valid_chars [of "vBuild v" c] identifier_not [of c] v
    by (auto simp: version_string_parts version_ok_def is_space_def split: if_splits)
  then have "trim_space ?s = ?s" using s by (intro trim_space_fixed) auto
  moreover have "hd ?s \<noteq> CHR ''v''" using number_text_chars [OF v h] by simp
  ultimately show "trim_v (trim_space ?s) = ?s" using s by (cases ?s) (auto simp: trim_v_def)
qed

lemma parse_printed:
  assumes v: "version_ok v"
  shows "ParseVersion (version_string v) = Inr v"
proof -
  let ?pre = "if vPreRelease v \<noteq> [] then CHR ''-'' # vPreRelease v else []"
  let ?text = "number_text v @ ?pre"
  have free: "CHR ''+'' \<notin> set ?text" "CHR ''-'' \<notin> set (number_text v)"
    using number_text_chars [OF v] valid_chars [of "vPreRelease v"] identifier_not v by (auto simp: version_ok_def)
  have b: "split_suffix EmptyBuildId CHR ''+'' (version_string v) = Inr (?text, vBuild v)"
    using split_suffix_none [OF free(1)] split_suffix_some [OF free(1), of "vBuild v"] by (cases "vBuild v = []") (simp_all add: version_string_parts)
  have p: "split_suffix EmptyPreReleaseId CHR ''-'' ?text = Inr (number_text v, vPreRelease v)"
    using split_suffix_none [OF free(2)] split_suffix_some [OF free(2), of "vPreRelease v"] by (cases "vPreRelease v = []") simp_all
  have valid: "valid_identifiers (vPreRelease v) = None" "valid_identifiers (vBuild v) = None" using v by (simp_all add: version_ok_def)
  show ?thesis
    unfolding ParseVersion_def Let_def version_text_trimmed(1) [OF v]
    by (simp add: version_text_trimmed(2) [OF v] b p parse_number_text [OF v] valid)
qed

section \<open>Precedence as a linear order\<close>

text \<open>
  The keys of semantic-version precedence.  An identifier is a number or a word, numbers first; a
  pre-release is the list of its identifiers, and no pre-release at all comes after every one.
\<close>

datatype identifier_rank = NumberKey int | WordKey string

datatype release_rank = PreKey "identifier_rank list" | ReleaseKey

instantiation identifier_rank :: linorder
begin

definition less_eq_identifier_rank :: "identifier_rank \<Rightarrow> identifier_rank \<Rightarrow> bool" where
  "less_eq_identifier_rank a b =
     (case a of NumberKey m \<Rightarrow> (case b of NumberKey n \<Rightarrow> m \<le> n | WordKey _ \<Rightarrow> True)
      | WordKey s \<Rightarrow> (case b of NumberKey _ \<Rightarrow> False | WordKey t \<Rightarrow> s \<le> t))"

definition less_identifier_rank :: "identifier_rank \<Rightarrow> identifier_rank \<Rightarrow> bool" where
  "less_identifier_rank a b \<longleftrightarrow> a \<le> b \<and> \<not> b \<le> (a :: identifier_rank)"

instance
  by standard (auto simp: less_eq_identifier_rank_def less_identifier_rank_def split: identifier_rank.splits)

end

instantiation release_rank :: linorder
begin

definition less_eq_release_rank :: "release_rank \<Rightarrow> release_rank \<Rightarrow> bool" where
  "less_eq_release_rank a b =
     (case b of ReleaseKey \<Rightarrow> True
      | PreKey ys \<Rightarrow> (case a of ReleaseKey \<Rightarrow> False | PreKey xs \<Rightarrow> xs \<le> ys))"

definition less_release_rank :: "release_rank \<Rightarrow> release_rank \<Rightarrow> bool" where
  "less_release_rank a b \<longleftrightarrow> a \<le> b \<and> \<not> b \<le> (a :: release_rank)"

instance
  by standard (auto simp: less_eq_release_rank_def less_release_rank_def split: release_rank.splits)

end

definition identifier_key :: "string \<Rightarrow> identifier_rank" where
  "identifier_key s = (case atoi s of Some n \<Rightarrow> NumberKey n | None \<Rightarrow> WordKey s)"

definition release_key :: "string \<Rightarrow> release_rank" where
  "release_key s = (if s = [] then ReleaseKey else PreKey (map identifier_key (split_on CHR ''.'' s)))"

definition precedence :: "version \<Rightarrow> int \<times> int \<times> int \<times> release_rank" where
  "precedence v = (vMajor v, vMinor v, vPatch v, release_key (vPreRelease v))"

text \<open>The sign of a comparison in a linear order.\<close>

definition order_sign :: "'a :: linorder \<Rightarrow> 'a \<Rightarrow> int" where
  "order_sign x y = (if x < y then -1 else if y < x then 1 else 0)"

lemma identifier_key_sign: "comparePreReleaseIdentifier l r = order_sign (identifier_key l) (identifier_key r)"
  by (auto simp: comparePreReleaseIdentifier_def compare_int_def order_sign_def identifier_key_def less_identifier_rank_def
      less_eq_identifier_rank_def split: option.splits)

lemma order_sign_zero [simp]: "order_sign x y = 0 \<longleftrightarrow> x = y"
  by (auto simp: order_sign_def)

lemma compare_parts_sign: "compare_parts ls rs = order_sign (map identifier_key ls) (map identifier_key rs)"
proof (induction ls rs rule: compare_parts.induct)
  case (1 l ls r rs)
  then show ?case
    by (cases "identifier_key l" "identifier_key r" rule: linorder_cases)
       (auto simp: Let_def identifier_key_sign order_sign_def)
qed (simp_all add: order_sign_def)

lemma release_key_sign: "comparePreRelease l r = order_sign (release_key l) (release_key r)"
  by (auto simp: comparePreRelease_def compare_parts_sign release_key_def order_sign_def less_release_rank_def less_eq_release_rank_def)

lemma Compare_sign: "Compare a b = order_sign (precedence a) (precedence b)"
  by (auto simp: Compare_def precedence_def release_key_sign order_sign_def less_prod_def)

lemma Precedes_iff: "Precedes a b \<longleftrightarrow> precedence a < precedence b"
  by (auto simp: Precedes_def Compare_sign order_sign_def)

lemma SameRelease_iff: "SameRelease a b \<longleftrightarrow> precedence a = precedence b"
  by (simp add: SameRelease_def Compare_sign)

section \<open>The order and the two spellings\<close>


text \<open>
  C32. Reading a version and printing it gives a text that reads as the same version.
\<close>

theorem version_roundtrip:
  assumes "ParseVersion s = Inr v"
  shows "ParseVersion (version_string v) = Inr v"
  using assms by (intro parse_printed parsed_version_ok)

theorem version_roundtrip_witness:
  "ParseVersion (version_string \<lparr>vMajor = 1, vMinor = 20, vPatch = 3, vPreRelease = ''rc.1'', vBuild = ''b-7''\<rparr>)
     = Inr \<lparr>vMajor = 1, vMinor = 20, vPatch = 3, vPreRelease = ''rc.1'', vBuild = ''b-7''\<rparr>"
proof -
  have "ParseVersion '' v1.20.3-rc.1+b-7'' = Inr \<lparr>vMajor = 1, vMinor = 20, vPatch = 3, vPreRelease = ''rc.1'', vBuild = ''b-7''\<rparr>"
    by code_simp
  then show ?thesis by (rule version_roundtrip)
qed

text \<open>
  \<open>Atoi\<close> reads a sign, so an identifier that semantic versioning orders as a word is ordered as a
  number: \<open>1.0.0--5\<close> comes before \<open>1.0.0-1\<close>, not after it.
\<close>

lemma signed_identifier_is_a_number:
  "Compare \<lparr>vMajor = 1, vMinor = 0, vPatch = 0, vPreRelease = ''-5'', vBuild = []\<rparr>
           \<lparr>vMajor = 1, vMinor = 0, vPatch = 0, vPreRelease = ''1'', vBuild = []\<rparr> = -1"
  by code_simp

end
