(* ===== verification/Update_Release.thy ===== *)
theory Update_Release
  imports Update_Version "HOL-Library.Multiset"
begin

text \<open>
  \<^verbatim>\<open>src/internal/update/rollout.go\<close>, \<^verbatim>\<open>release.go\<close>, \<^verbatim>\<open>trust.go\<close> and \<^verbatim>\<open>compatibility.go\<close>: release documents,
  their staged rollout, the keys that may sign them, and the verdict on each release of a feed for
  one installation.  SHA-256, Ed25519, base64, \<open>json.Marshal\<close>, \<open>url.Parse\<close> and the PEM codecs are the
  parameter \<open>update_lib\<close>.  Reasons written for an operator are not modelled, their codes are.
\<close>

section \<open>Staged rollout\<close>

datatype update_error =
  BadVersion version_error
  | TooManyStages | StageStart nat | StagePercent nat | StageOrder nat | StageShrinks
  | BadChannel string | NoPublication | MinimumNewer | BadSchemaVersions | BadMinimumProtocol | NoArtifacts
  | DuplicateArtifact string | BadComponent string | NoPlatform | BadFormat string | BadUrl | BadSize | BadDigest string | DigestsDiffer
  | FeedVersion int | ForeignRelease nat | Unsigned nat | Unmarshalable
  | BadThreshold | BadKeyMaterial nat | WrongKeyId nat | KeyTwice string | TooFewKeys
  | UntrustedRelease "string list" | BadSigningKey | NoMachineId | NegativePeer

record rollout_stage =
  rsStartsAt :: time
  rsPercent :: int

record rollout_status =
  roCohort :: int
  roBuckets :: int
  roPercentOpen :: int
  roEligible :: bool
  roNextStageAt :: "time option"

definition cohort_buckets :: int where
  "cohort_buckets = 10000"

definition max_rollout_stages :: nat where
  "max_rollout_stages = 32"

definition truncate_second :: "time \<Rightarrow> time" where
  "truncate_second t = t - t mod 1000000000"

definition normalize_rollout :: "rollout_stage list \<Rightarrow> rollout_stage list" where
  "normalize_rollout ss = sort_key rsStartsAt (map (\<lambda>s. s\<lparr>rsStartsAt := truncate_second (rsStartsAt s)\<rparr>) ss)"

fun bad_stage :: "nat \<Rightarrow> int \<Rightarrow> time \<Rightarrow> rollout_stage list \<Rightarrow> update_error option" where
  "bad_stage i prev start [] = None"
| "bad_stage i prev start (s # ss) =
     (if IsZero (rsStartsAt s) then Some (StageStart i)
      else if rsPercent s < 0 \<or> 100 < rsPercent s then Some (StagePercent i)
      else if 0 < i \<and> \<not> start < rsStartsAt s then Some (StageOrder i)
      else if 0 < i \<and> rsPercent s < prev then Some StageShrinks
      else bad_stage (Suc i) (rsPercent s) (rsStartsAt s) ss)"

definition validate_rollout :: "rollout_stage list \<Rightarrow> (update_error, rollout_stage list) outcome" where
  "validate_rollout ss =
     (let ns = normalize_rollout ss in
      if max_rollout_stages < length ns then Inl TooManyStages
      else case bad_stage 0 0 0 ns of Some e \<Rightarrow> Inl e | None \<Rightarrow> Inr ns)"

fun percent_from :: "int \<Rightarrow> time \<Rightarrow> rollout_stage list \<Rightarrow> int" where
  "percent_from p now [] = p"
| "percent_from p now (s # ss) = (if now < rsStartsAt s then p else percent_from (rsPercent s) now ss)"

definition PercentAt :: "rollout_stage list \<Rightarrow> time \<Rightarrow> int" where
  "PercentAt ss now = (if ss = [] then 100 else percent_from 0 now ss)"

definition NextStageAfter :: "rollout_stage list \<Rightarrow> time \<Rightarrow> time option" where
  "NextStageAfter ss now = map_option rsStartsAt (find (\<lambda>s. now < rsStartsAt s) ss)"

section \<open>Release documents\<close>

record artifact =
  arComponent :: string
  arOS :: string
  arArchitecture :: string
  arURL :: string
  arFormat :: string
  arSizeBytes :: int
  arSHA256 :: string
  arBinarySHA256 :: string

record release =
  rlVersion :: string
  rlChannel :: string
  rlPublishedAt :: time
  rlNotes :: string
  rlMinimumFrom :: string
  rlProtocol :: int
  rlMinimumProtocol :: int
  rlConfig :: int
  rlState :: int
  rlMandatory :: bool
  rlRollout :: "rollout_stage list"
  rlArtifacts :: "artifact list"

record signature =
  sgKeyID :: string
  sgAlgorithm :: string
  sgValue :: string

record signed_release =
  srRelease :: release
  srSignatures :: "signature list"

record feed =
  fdVersion :: int
  fdChannel :: string
  fdReleases :: "signed_release list"
  fdRevoked :: "string list"

text \<open>
  The libraries: \<open>ul_sha\<close> gives the 32 raw bytes, \<open>ul_url\<close> scheme, host and path, \<open>ul_public\<close> the
  canonical DER of the Ed25519 key in a PEM text, \<open>ul_private\<close> a private key with the PEM of its public half.
\<close>

record update_lib =
  ul_sha :: "string \<Rightarrow> string"
  ul_url :: "string \<Rightarrow> (string \<times> string \<times> string) option"
  ul_json :: "release \<Rightarrow> string option"
  ul_b64 :: "string \<Rightarrow> string option"
  ul_b64_encode :: "string \<Rightarrow> string"
  ul_public :: "string \<Rightarrow> string option"
  ul_verify :: "string \<Rightarrow> string \<Rightarrow> string \<Rightarrow> bool"
  ul_private :: "string \<Rightarrow> (string \<times> string) option"
  ul_sign :: "string \<Rightarrow> string \<Rightarrow> string"

definition hex_digit :: "nat \<Rightarrow> char" where
  "hex_digit n = (if n < 10 then char_of (48 + n) else char_of (87 + n))"

lemma hex_digit_code [code]: "hex_digit n = (if n < 16 then ''0123456789abcdef'' ! n else char_of (87 + n))"
proof (cases "n < 16")
  case True
  then have "n \<in> set [0 ..< 16]" by simp
  moreover have "list_all (\<lambda>n. (if n < 10 then char_of (48 + n) else char_of (87 + n)) = ''0123456789abcdef'' ! n) [0 ..< 16]" by code_simp
  ultimately show ?thesis by (simp add: hex_digit_def list_all_iff)
qed (simp add: hex_digit_def)

definition hex_encode :: "string \<Rightarrow> string" where
  "hex_encode s = concat (map (\<lambda>c. [hex_digit (of_char c div 16), hex_digit (of_char c mod 16)]) s)"

definition sha_hex :: "update_lib \<Rightarrow> string \<Rightarrow> string" where
  "sha_hex lib s = hex_encode (ul_sha lib s)"

definition Cohort :: "update_lib \<Rightarrow> string \<Rightarrow> version \<Rightarrow> int" where
  "Cohort lib machine v =
     foldl (\<lambda>a c. a * 256 + of_char c) 0 (take 8 (ul_sha lib (machine @ [CHR 0x00] @ version_string v))) mod cohort_buckets"

definition rollout_status_of :: "update_lib \<Rightarrow> rollout_stage list \<Rightarrow> string \<Rightarrow> version \<Rightarrow> time \<Rightarrow> rollout_status" where
  "rollout_status_of lib ss machine v now =
     (let cohort = Cohort lib machine v; percent = PercentAt ss now in
      \<lparr>roCohort = cohort, roBuckets = cohort_buckets, roPercentOpen = percent,
       roEligible = (cohort < percent * (cohort_buckets div 100)), roNextStageAt = NextStageAfter ss now\<rparr>)"

definition channel_valid :: "string \<Rightarrow> bool" where
  "channel_valid c \<longleftrightarrow> c \<in> {''stable'', ''beta'', ''nightly''}"

definition component_valid :: "string \<Rightarrow> bool" where
  "component_valid c \<longleftrightarrow> c \<in> {''agent'', ''desktop'', ''cli'', ''control'', ''gc'', ''verify'', ''relay''}"

definition format_valid :: "string \<Rightarrow> bool" where
  "format_valid f \<longleftrightarrow> f = ''binary'' \<or> f = ''gzip''"

abbreviation lower_trim :: "string \<Rightarrow> string" where
  "lower_trim s \<equiv> to_lower (trim_space s)"

definition normalize_artifact :: "artifact \<Rightarrow> artifact" where
  "normalize_artifact a =
     (let f = lower_trim (arFormat a); sha = lower_trim (arSHA256 a); bin = lower_trim (arBinarySHA256 a) in
      \<lparr>arComponent = lower_trim (arComponent a), arOS = lower_trim (arOS a), arArchitecture = lower_trim (arArchitecture a),
       arURL = trim_space (arURL a), arFormat = f, arSizeBytes = arSizeBytes a, arSHA256 = sha,
       arBinarySHA256 = (if f = ''binary'' \<and> bin = [] then sha else bin)\<rparr>)"

definition normalize_release :: "release \<Rightarrow> release" where
  "normalize_release r =
     r\<lparr>rlVersion := trim_v (trim_space (rlVersion r)), rlChannel := lower_trim (rlChannel r), rlNotes := trim_space (rlNotes r),
       rlMinimumFrom := trim_v (trim_space (rlMinimumFrom r)), rlPublishedAt := truncate_second (rlPublishedAt r),
       rlArtifacts := map normalize_artifact (rlArtifacts r), rlRollout := normalize_rollout (rlRollout r)\<rparr>"

definition is_hex :: "char \<Rightarrow> bool" where
  "is_hex c \<longleftrightarrow> between CHR ''0'' CHR ''9'' c \<or> between CHR ''a'' CHR ''f'' c \<or> between CHR ''A'' CHR ''F'' c"

definition valid_digest :: "string \<Rightarrow> bool" where
  "valid_digest s \<longleftrightarrow> length s = 64 \<and> list_all is_hex s"

definition path_is_abs :: "string \<Rightarrow> bool" where
  "path_is_abs p \<longleftrightarrow> p \<noteq> [] \<and> hd p = CHR ''/''"

definition url_accepted :: "(string \<times> string \<times> string) option \<Rightarrow> bool" where
  "url_accepted u \<longleftrightarrow> (case u of None \<Rightarrow> False
     | Some (scheme, host, path) \<Rightarrow>
         if scheme = ''https'' then host \<noteq> [] else if scheme = ''file'' then host = [] \<and> path_is_abs path else False)"

definition validate_artifact :: "update_lib \<Rightarrow> artifact \<Rightarrow> update_error option" where
  "validate_artifact lib a =
     (if \<not> component_valid (arComponent a) then Some (BadComponent (arComponent a))
      else if arOS a = [] \<or> arArchitecture a = [] then Some NoPlatform
      else if \<not> format_valid (arFormat a) then Some (BadFormat (arFormat a))
      else if \<not> url_accepted (ul_url lib (arURL a)) then Some BadUrl
      else if arSizeBytes a \<le> 0 then Some BadSize
      else if \<not> valid_digest (arSHA256 a) then Some (BadDigest (arSHA256 a))
      else if \<not> valid_digest (arBinarySHA256 a) then Some (BadDigest (arBinarySHA256 a))
      else if arFormat a = ''binary'' \<and> arBinarySHA256 a \<noteq> arSHA256 a then Some DigestsDiffer
      else None)"

definition artifact_key :: "artifact \<Rightarrow> string" where
  "artifact_key a = arComponent a @ ''/'' @ arOS a @ ''/'' @ arArchitecture a"

fun bad_artifact :: "update_lib \<Rightarrow> string list \<Rightarrow> artifact list \<Rightarrow> update_error option" where
  "bad_artifact lib seen [] = None"
| "bad_artifact lib seen (a # as) =
     (case validate_artifact lib a of Some e \<Rightarrow> Some e
      | None \<Rightarrow> if artifact_key a \<in> set seen then Some (DuplicateArtifact (artifact_key a))
               else bad_artifact lib (artifact_key a # seen) as)"

definition parse_minimum :: "version \<Rightarrow> string \<Rightarrow> (update_error, string) outcome" where
  "parse_minimum v s =
     (if s = [] then Inr []
      else case ParseVersion s of Inl e \<Rightarrow> Inl (BadVersion e)
      | Inr m \<Rightarrow> if Precedes v m then Inl MinimumNewer else Inr (version_string m))"

definition validate_release :: "update_lib \<Rightarrow> release \<Rightarrow> (update_error, release) outcome" where
  "validate_release lib r0 =
     (let r = normalize_release r0 in
      case ParseVersion (rlVersion r) of Inl e \<Rightarrow> Inl (BadVersion e) | Inr v \<Rightarrow>
      if \<not> channel_valid (rlChannel r) then Inl (BadChannel (rlChannel r))
      else if IsZero (rlPublishedAt r) then Inl NoPublication
      else case parse_minimum v (rlMinimumFrom r) of Inl e \<Rightarrow> Inl e | Inr minimum \<Rightarrow>
      if rlProtocol r \<le> 0 \<or> rlConfig r \<le> 0 \<or> rlState r \<le> 0 then Inl BadSchemaVersions
      else if rlMinimumProtocol r \<le> 0 \<or> rlProtocol r < rlMinimumProtocol r then Inl BadMinimumProtocol
      else case validate_rollout (rlRollout r) of Inl e \<Rightarrow> Inl e | Inr plan \<Rightarrow>
      if rlArtifacts r = [] then Inl NoArtifacts
      else case bad_artifact lib [] (rlArtifacts r) of Some e \<Rightarrow> Inl e
      | None \<Rightarrow> Inr (r\<lparr>rlVersion := version_string v, rlMinimumFrom := minimum, rlRollout := plan\<rparr>))"

definition ArtifactFor :: "release \<Rightarrow> string \<Rightarrow> string \<Rightarrow> string \<Rightarrow> artifact option" where
  "ArtifactFor r c os arch =
     find (\<lambda>a. arComponent a = c \<and> arOS a = to_lower os \<and> arArchitecture a = to_lower arch) (rlArtifacts r)"

definition hasComponent :: "release \<Rightarrow> string \<Rightarrow> bool" where
  "hasComponent r c \<longleftrightarrow> (\<exists>a\<in>set (rlArtifacts r). arComponent a = c)"

definition canonical_prefix :: string where
  "canonical_prefix = ''shift.dev/release/v1'' @ [CHR 0x0A]"

definition CanonicalBytes :: "update_lib \<Rightarrow> release \<Rightarrow> (update_error, string) outcome" where
  "CanonicalBytes lib r =
     (case ul_json lib (normalize_release r) of None \<Rightarrow> Inl Unmarshalable | Some encoded \<Rightarrow> Inr (canonical_prefix @ encoded))"

fun parse_revoked :: "string list \<Rightarrow> (update_error, string list) outcome" where
  "parse_revoked [] = Inr []"
| "parse_revoked (s # ss) =
     (case ParseVersion s of Inl e \<Rightarrow> Inl (BadVersion e) | Inr v \<Rightarrow>
     (case parse_revoked ss of Inl e \<Rightarrow> Inl e | Inr vs \<Rightarrow> Inr (version_string v # vs)))"

fun validate_releases :: "update_lib \<Rightarrow> string \<Rightarrow> nat \<Rightarrow> signed_release list \<Rightarrow> (update_error, signed_release list) outcome" where
  "validate_releases lib ch i [] = Inr []"
| "validate_releases lib ch i (s # ss) =
     (case validate_release lib (srRelease s) of Inl e \<Rightarrow> Inl e | Inr r \<Rightarrow>
      if rlChannel r \<noteq> ch then Inl (ForeignRelease i)
      else if srSignatures s = [] then Inl (Unsigned i)
      else case validate_releases lib ch (Suc i) ss of Inl e \<Rightarrow> Inl e | Inr rs \<Rightarrow> Inr (s\<lparr>srRelease := r\<rparr> # rs))"

definition validate_feed :: "update_lib \<Rightarrow> feed \<Rightarrow> (update_error, feed) outcome" where
  "validate_feed lib f =
     (if fdVersion f \<noteq> 1 then Inl (FeedVersion (fdVersion f))
      else let ch = lower_trim (fdChannel f) in
      if \<not> channel_valid ch then Inl (BadChannel ch)
      else case parse_revoked (fdRevoked f) of Inl e \<Rightarrow> Inl e | Inr rv \<Rightarrow>
     (case validate_releases lib ch 0 (fdReleases f) of Inl e \<Rightarrow> Inl e
      | Inr rs \<Rightarrow> Inr (f\<lparr>fdChannel := ch, fdRevoked := rv, fdReleases := rs\<rparr>)))"

definition IsRevoked :: "feed \<Rightarrow> version \<Rightarrow> bool" where
  "IsRevoked f v \<longleftrightarrow> (\<exists>s\<in>set (fdRevoked f). case ParseVersion s of Inl _ \<Rightarrow> False | Inr r \<Rightarrow> SameRelease r v)"

section \<open>Trust\<close>

record trusted_key =
  tkID :: string
  tkPublicPEM :: string
  tkComment :: string
  tkRevoked :: bool
  tkExpiresAt :: "time option"

record key_ring =
  krKeys :: "trusted_key list"
  krThreshold :: int

definition PublicKeyID :: "update_lib \<Rightarrow> string \<Rightarrow> string option" where
  "PublicKeyID lib pem = map_option (sha_hex lib) (ul_public lib pem)"

definition verify_with_key :: "update_lib \<Rightarrow> string \<Rightarrow> string \<Rightarrow> string \<Rightarrow> bool" where
  "verify_with_key lib pem message sig \<longleftrightarrow>
     (case ul_public lib pem of None \<Rightarrow> False | Some key \<Rightarrow> ul_verify lib key message sig)"

text \<open>The ring's map is its list of usable keys, one per identifier.\<close>

definition ring_key :: "trusted_key list \<Rightarrow> string \<Rightarrow> trusted_key option" where
  "ring_key ks i = find (\<lambda>k. tkID k = i) ks"

fun load_keys :: "update_lib \<Rightarrow> time \<Rightarrow> nat \<Rightarrow> trusted_key list \<Rightarrow> trusted_key list \<Rightarrow> (update_error, trusted_key list) outcome" where
  "load_keys lib now i held [] = Inr held"
| "load_keys lib now i held (k0 # ks) =
     (let pem = trim_space (tkPublicPEM k0) @ [CHR 0x0A]; recorded = lower_trim (tkID k0) in
      case PublicKeyID lib pem of None \<Rightarrow> Inl (BadKeyMaterial i) | Some derived \<Rightarrow>
     (let k = k0\<lparr>tkID := (if recorded = [] then derived else recorded), tkPublicPEM := pem\<rparr> in
      if tkID k \<noteq> derived then Inl (WrongKeyId i)
      else if tkRevoked k then load_keys lib now (Suc i) held ks
      else if (case tkExpiresAt k of None \<Rightarrow> False | Some t \<Rightarrow> \<not> now < t) then load_keys lib now (Suc i) held ks
      else if ring_key held (tkID k) \<noteq> None then Inl (KeyTwice (tkID k))
      else load_keys lib now (Suc i) (held @ [k]) ks))"

definition NewKeyRing :: "update_lib \<Rightarrow> trusted_key list \<Rightarrow> int \<Rightarrow> time \<Rightarrow> (update_error, key_ring) outcome" where
  "NewKeyRing lib keys threshold now =
     (if threshold < 1 then Inl BadThreshold
      else case load_keys lib now 0 [] keys of Inl e \<Rightarrow> Inl e
      | Inr held \<Rightarrow> if int (length held) < threshold then Inl TooFewKeys else Inr \<lparr>krKeys = held, krThreshold = threshold\<rparr>)"

definition signature_valid :: "update_lib \<Rightarrow> key_ring \<Rightarrow> string \<Rightarrow> signature \<Rightarrow> bool" where
  "signature_valid lib ring message s \<longleftrightarrow>
     equal_fold (trim_space (sgAlgorithm s)) ''ed25519''
     \<and> (case ring_key (krKeys ring) (lower_trim (sgKeyID s)) of None \<Rightarrow> False
        | Some k \<Rightarrow> (case ul_b64 lib (trim_space (sgValue s)) of None \<Rightarrow> False
        | Some raw \<Rightarrow> length raw = 64 \<and> verify_with_key lib (tkPublicPEM k) message raw))"

text \<open>A key identifier is in the map \<open>seen\<close> exactly when it was appended to \<open>verified\<close>.\<close>

fun verify_each :: "update_lib \<Rightarrow> key_ring \<Rightarrow> string \<Rightarrow> string list \<Rightarrow> signature list \<Rightarrow> string list" where
  "verify_each lib ring message verified [] = verified"
| "verify_each lib ring message verified (s # ss) =
     (let i = lower_trim (sgKeyID s) in
      if i \<in> set verified then verify_each lib ring message verified ss
      else if \<not> signature_valid lib ring message s then verify_each lib ring message verified ss
      else verify_each lib ring message (verified @ [i]) ss)"

definition ring_verify :: "update_lib \<Rightarrow> key_ring \<Rightarrow> signed_release \<Rightarrow> (update_error, string list) outcome" where
  "ring_verify lib ring sr =
     (case CanonicalBytes lib (srRelease sr) of Inl e \<Rightarrow> Inl e | Inr message \<Rightarrow>
     (let verified = verify_each lib ring message [] (srSignatures sr) in
      if int (length verified) < krThreshold ring then Inl (UntrustedRelease verified) else Inr verified))"

record release_signer =
  siKeyID :: string
  siPrivate :: string
  siPublicPEM :: string

definition NewSigner :: "update_lib \<Rightarrow> string \<Rightarrow> (update_error, release_signer) outcome" where
  "NewSigner lib pem =
     (case ul_private lib pem of None \<Rightarrow> Inl BadSigningKey | Some (private, public_pem) \<Rightarrow>
     (case PublicKeyID lib public_pem of None \<Rightarrow> Inl BadSigningKey
      | Some i \<Rightarrow> Inr \<lparr>siKeyID = i, siPrivate = private, siPublicPEM = public_pem\<rparr>))"

definition Sign :: "update_lib \<Rightarrow> release_signer \<Rightarrow> release \<Rightarrow> (update_error, signature) outcome" where
  "Sign lib sg r0 =
     (case validate_release lib r0 of Inl e \<Rightarrow> Inl e | Inr r \<Rightarrow>
     (case CanonicalBytes lib r of Inl e \<Rightarrow> Inl e
      | Inr message \<Rightarrow> Inr \<lparr>sgKeyID = siKeyID sg, sgAlgorithm = ''ed25519'', sgValue = ul_b64_encode lib (ul_sign lib (siPrivate sg) message)\<rparr>))"

definition SignRelease :: "update_lib \<Rightarrow> release_signer \<Rightarrow> release \<Rightarrow> (update_error, signed_release) outcome" where
  "SignRelease lib sg r0 =
     (case validate_release lib r0 of Inl e \<Rightarrow> Inl e | Inr r \<Rightarrow>
     (case Sign lib sg r of Inl e \<Rightarrow> Inl e | Inr s \<Rightarrow> Inr \<lparr>srRelease = r, srSignatures = [s]\<rparr>))"

section \<open>The verdict on a release\<close>

record installation =
  inComponent :: string
  inVersion :: string
  inChannel :: string
  inOS :: string
  inArchitecture :: string
  inMachineID :: string
  inProtocol :: int
  inConfig :: int
  inState :: int
  inPeerProtocol :: int
  inAllowDowngrade :: bool

definition validate_installation :: "installation \<Rightarrow> (update_error, installation) outcome" where
  "validate_installation i0 =
     (let i = i0\<lparr>inComponent := lower_trim (inComponent i0), inChannel := lower_trim (inChannel i0), inOS := lower_trim (inOS i0),
                 inArchitecture := lower_trim (inArchitecture i0), inMachineID := trim_space (inMachineID i0)\<rparr> in
      if \<not> component_valid (inComponent i) then Inl (BadComponent (inComponent i))
      else if \<not> channel_valid (inChannel i) then Inl (BadChannel (inChannel i))
      else case ParseVersion (inVersion i) of Inl e \<Rightarrow> Inl (BadVersion e) | Inr v \<Rightarrow>
      if inOS i = [] \<or> inArchitecture i = [] then Inl NoPlatform
      else if inMachineID i = [] then Inl NoMachineId
      else if inProtocol i \<le> 0 \<or> inConfig i \<le> 0 \<or> inState i \<le> 0 then Inl BadSchemaVersions
      else if inPeerProtocol i < 0 then Inl NegativePeer
      else Inr (i\<lparr>inVersion := version_string v\<rparr>))"

datatype skip_code =
  SkipChannel | SkipComponent | SkipPlatform | SkipRevoked | SkipNotNewer | SkipPreRelease | SkipUpgradePath
  | SkipProtocol | SkipConfigSchema | SkipStateSchema | SkipRolloutCohort | SkipUntrusted | SkipBlocked

record evaluation =
  evVersion :: string
  evChannel :: string
  evMandatory :: bool
  evApplicable :: bool
  evCode :: "skip_code option"
  evRollout :: rollout_status
  evSignedBy :: "string list"
  evArtifact :: "artifact option"
  evRelease :: release

definition skip :: "skip_code \<Rightarrow> evaluation \<Rightarrow> evaluation" where
  "skip c e = e\<lparr>evApplicable := False, evCode := Some c, evArtifact := None\<rparr>"

text \<open>The zero value of a rollout status, for a release whose version does not parse.\<close>

definition no_rollout_status :: rollout_status where
  "no_rollout_status = \<lparr>roCohort = 0, roBuckets = 0, roPercentOpen = 0, roEligible = False, roNextStageAt = None\<rparr>"

text \<open>The checks that come after the signature, in order: the code of the first one that fails.\<close>

definition skip_reason :: "feed \<Rightarrow> release \<Rightarrow> version \<Rightarrow> installation \<Rightarrow> version \<Rightarrow> rollout_status \<Rightarrow> (skip_code, artifact) outcome" where
  "skip_reason f r v i installed rs =
     (if rlChannel r \<noteq> inChannel i then Inl SkipChannel
      else if IsRevoked f v then Inl SkipRevoked
      else if \<not> inAllowDowngrade i \<and> \<not> Precedes installed v then Inl SkipNotNewer
      else if \<not> Stable v \<and> inChannel i = ''stable'' then Inl SkipPreRelease
      else case ArtifactFor r (inComponent i) (inOS i) (inArchitecture i) of
        None \<Rightarrow> if \<not> hasComponent r (inComponent i) then Inl SkipComponent else Inl SkipPlatform
      | Some a \<Rightarrow>
      if rlMinimumFrom r \<noteq> [] \<and> \<not> inAllowDowngrade i
         \<and> (case ParseVersion (rlMinimumFrom r) of Inl _ \<Rightarrow> True | Inr m \<Rightarrow> Precedes installed m) then Inl SkipUpgradePath
      else if 0 < inPeerProtocol i \<and> (inPeerProtocol i < rlMinimumProtocol r \<or> rlProtocol r < inPeerProtocol i) then Inl SkipProtocol
      else if rlConfig r < inConfig i then Inl SkipConfigSchema
      else if rlState r < inState i then Inl SkipStateSchema
      else if \<not> roEligible rs then Inl SkipRolloutCohort
      else Inr a)"

definition evaluateRelease :: "update_lib \<Rightarrow> feed \<Rightarrow> signed_release \<Rightarrow> installation \<Rightarrow> version \<Rightarrow> key_ring \<Rightarrow> time \<Rightarrow> evaluation" where
  "evaluateRelease lib f sr i installed ring now =
     (let r = srRelease sr;
          e0 = \<lparr>evVersion = rlVersion r, evChannel = rlChannel r, evMandatory = rlMandatory r, evApplicable = False, evCode = None,
                evRollout = no_rollout_status, evSignedBy = [], evArtifact = None, evRelease = r\<rparr> in
      case ParseVersion (rlVersion r) of Inl _ \<Rightarrow> skip SkipNotNewer e0 | Inr v \<Rightarrow>
     (let rs = rollout_status_of lib (rlRollout r) (inMachineID i) v now; e1 = e0\<lparr>evRollout := rs\<rparr> in
      case ring_verify lib ring sr of Inl _ \<Rightarrow> skip SkipUntrusted e1 | Inr by \<Rightarrow>
     (let e2 = e1\<lparr>evSignedBy := by\<rparr> in
      case skip_reason f r v i installed rs of Inl c \<Rightarrow> skip c e2
      | Inr a \<Rightarrow> e2\<lparr>evApplicable := True, evArtifact := Some a\<rparr>)))"

definition older_than :: "evaluation \<Rightarrow> evaluation \<Rightarrow> bool" where
  "older_than a b \<longleftrightarrow> (case (ParseVersion (evVersion a), ParseVersion (evVersion b)) of (Inr l, Inr r) \<Rightarrow> Precedes l r | _ \<Rightarrow> False)"

text \<open>The inner loop: the element at \<open>inner\<close> moves left past every older one.\<close>

fun bubble_left :: "evaluation list \<Rightarrow> nat \<Rightarrow> evaluation list" where
  "bubble_left es 0 = es"
| "bubble_left es (Suc i) =
     (if \<not> older_than (es ! i) (es ! Suc i) then es
      else bubble_left (es[i := es ! Suc i, Suc i := es ! i]) i)"

definition sortEvaluationsNewestFirst :: "evaluation list \<Rightarrow> evaluation list" where
  "sortEvaluationsNewestFirst es = foldl bubble_left es [1 ..< length es]"

definition Evaluate :: "update_lib \<Rightarrow> feed \<Rightarrow> installation \<Rightarrow> key_ring \<Rightarrow> time \<Rightarrow> (update_error, evaluation list) outcome" where
  "Evaluate lib f0 i0 ring now =
     (case validate_feed lib f0 of Inl e \<Rightarrow> Inl e | Inr f \<Rightarrow>
     (case validate_installation i0 of Inl e \<Rightarrow> Inl e | Inr i \<Rightarrow>
     (case ParseVersion (inVersion i) of Inl e \<Rightarrow> Inl (BadVersion e) | Inr installed \<Rightarrow>
        Inr (sortEvaluationsNewestFirst (map (\<lambda>sr. evaluateRelease lib f sr i installed ring now) (fdReleases f))))))"

definition Select :: "evaluation list \<Rightarrow> evaluation option" where
  "Select es = find evApplicable es"

definition SelectMandatory :: "evaluation list \<Rightarrow> evaluation option" where
  "SelectMandatory es = find (\<lambda>e. evApplicable e \<and> evMandatory e) es"

section \<open>A rollout only widens\<close>

lemma bad_stage_widens:
  "bad_stage (Suc i) p start ss = None \<Longrightarrow> p \<le> percent_from p now ss"
proof (induction ss arbitrary: i p start)
  case (Cons s ss)
  then have "bad_stage (Suc (Suc i)) (rsPercent s) (rsStartsAt s) ss = None" "p \<le> rsPercent s"
    by (auto split: if_splits)
  with Cons.IH [of "Suc i" "rsPercent s"] show ?case by force
qed simp

lemma percent_from_mono:
  "bad_stage i p start ss = None \<Longrightarrow> 0 < i \<or> p = 0 \<Longrightarrow> now \<le> later \<Longrightarrow> percent_from p now ss \<le> percent_from p later ss"
proof (induction ss arbitrary: i p start)
  case (Cons s ss)
  then have rest: "bad_stage (Suc i) (rsPercent s) (rsStartsAt s) ss = None" and up: "p \<le> rsPercent s"
    by (auto split: if_splits)
  show ?case
  proof (cases "now < rsStartsAt s")
    case True
    then show ?thesis using bad_stage_widens [OF rest, of later] up by simp
  next
    case False
    then show ?thesis using Cons.IH [OF rest] Cons.prems(3) by simp
  qed
qed simp

lemma validated_plan:
  assumes "validate_rollout ss = Inr plan"
  shows "bad_stage 0 0 0 plan = None" "plan = normalize_rollout ss"
  using assms by (auto simp: validate_rollout_def Let_def split: if_splits option.splits)

lemma percent_mono:
  assumes "validate_rollout ss = Inr plan" and "now \<le> later"
  shows "PercentAt plan now \<le> PercentAt plan later"
  using percent_from_mono [OF validated_plan(1) [OF assms(1)], of now later] assms(2) by (simp add: PercentAt_def)

lemma cohort_bounds: "0 \<le> Cohort lib m v" "Cohort lib m v < cohort_buckets"
  by (simp_all add: Cohort_def cohort_buckets_def)

lemma eligible_iff: "roEligible (rollout_status_of lib plan m v now) \<longleftrightarrow> Cohort lib m v < PercentAt plan now * 100"
  by (simp add: rollout_status_of_def Let_def cohort_buckets_def)

section \<open>Normal forms\<close>

lemma truncate_second_idem [simp]: "truncate_second (truncate_second t) = truncate_second t"
  by (simp add: truncate_second_def mod_diff_left_eq)

lemma sort_key_sorted: "sorted (map f xs) \<Longrightarrow> sort_key f xs = xs"
  by (induction xs) (auto simp: insort_is_Cons)

lemma normalize_rollout_idem [simp]: "normalize_rollout (normalize_rollout ss) = normalize_rollout ss"
proof -
  let ?t = "\<lambda>s. s\<lparr>rsStartsAt := truncate_second (rsStartsAt s)\<rparr>"
  have "?t s = s" if "s \<in> set (normalize_rollout ss)" for s
    using that by (auto simp: normalize_rollout_def)
  then have "map ?t (normalize_rollout ss) = normalize_rollout ss" by (simp add: map_idI)
  moreover have "sorted (map rsStartsAt (normalize_rollout ss))" by (simp add: normalize_rollout_def)
  ultimately show ?thesis by (metis normalize_rollout_def sort_key_sorted)
qed

lemma normalize_artifact_idem [simp]: "normalize_artifact (normalize_artifact a) = normalize_artifact a"
  by (simp add: normalize_artifact_def Let_def)

lemma validated_release:
  assumes "validate_release lib r0 = Inr r"
  obtains v minimum where "ParseVersion (rlVersion (normalize_release r0)) = Inr v"
    and "parse_minimum v (rlMinimumFrom (normalize_release r0)) = Inr minimum"
    and "r = (normalize_release r0)\<lparr>rlVersion := version_string v, rlMinimumFrom := minimum\<rparr>"
    and "ParseVersion (rlVersion r) = Inr v" "bad_stage 0 0 0 (rlRollout r) = None"
proof -
  from assms obtain v minimum plan where v: "ParseVersion (rlVersion (normalize_release r0)) = Inr v"
    and m: "parse_minimum v (rlMinimumFrom (normalize_release r0)) = Inr minimum"
    and p: "validate_rollout (rlRollout (normalize_release r0)) = Inr plan"
    and r: "r = (normalize_release r0)\<lparr>rlVersion := version_string v, rlMinimumFrom := minimum, rlRollout := plan\<rparr>"
    by (auto simp: validate_release_def Let_def split: sum.splits if_splits option.splits)
  have "plan = rlRollout (normalize_release r0)" using validated_plan(2) [OF p] by (simp add: normalize_release_def)
  moreover have "bad_stage 0 0 0 plan = None" by (rule validated_plan(1) [OF p])
  ultimately have "r = (normalize_release r0)\<lparr>rlVersion := version_string v, rlMinimumFrom := minimum\<rparr>" "bad_stage 0 0 0 (rlRollout r) = None"
    using r by simp_all
  moreover have "ParseVersion (rlVersion r) = Inr v" using r parse_printed [OF parsed_version_ok [OF v]] by simp
  ultimately show ?thesis using that v m by blast
qed

lemma printed_trimmed: "ParseVersion s = Inr v \<Longrightarrow> trim_v (trim_space (version_string v)) = version_string v"
  by (rule version_text_trimmed(1) [OF parsed_version_ok])

lemma minimum_fixed:
  assumes "parse_minimum v s = Inr minimum"
  shows "trim_v (trim_space minimum) = minimum" "parse_minimum v minimum = Inr minimum"
proof -
  have "minimum = [] \<or> (\<exists>m. ParseVersion s = Inr m \<and> \<not> Precedes v m \<and> minimum = version_string m)"
    using assms by (auto simp: parse_minimum_def split: if_splits sum.splits)
  then show "trim_v (trim_space minimum) = minimum" "parse_minimum v minimum = Inr minimum"
    using printed_trimmed parse_printed [OF parsed_version_ok]
    by (auto simp: parse_minimum_def trim_v_def trim_space_def)
qed

lemma validated_normal:
  assumes "validate_release lib r0 = Inr r"
  shows "normalize_release r = r"
proof -
  from validated_release [OF assms] obtain v minimum where v: "ParseVersion (rlVersion (normalize_release r0)) = Inr v"
    and m: "parse_minimum v (rlMinimumFrom (normalize_release r0)) = Inr minimum"
    and r: "r = (normalize_release r0)\<lparr>rlVersion := version_string v, rlMinimumFrom := minimum\<rparr>" by metis
  show ?thesis unfolding r
    using printed_trimmed [OF v] minimum_fixed [OF m] by (simp add: normalize_release_def comp_def)
qed

lemma validated_again:
  assumes "validate_release lib r0 = Inr r"
  shows "validate_release lib r = Inr r"
proof -
  from validated_release [OF assms] obtain v minimum where v: "ParseVersion (rlVersion (normalize_release r0)) = Inr v"
    and m: "parse_minimum v (rlMinimumFrom (normalize_release r0)) = Inr minimum"
    and r: "r = (normalize_release r0)\<lparr>rlVersion := version_string v, rlMinimumFrom := minimum\<rparr>"
    and pv: "ParseVersion (rlVersion r) = Inr v" by metis
  have plan: "validate_rollout (rlRollout r) = Inr (rlRollout r)"
    using assms by (auto simp: validate_release_def Let_def r normalize_release_def validate_rollout_def split: sum.splits if_splits option.splits)
  have mini: "parse_minimum v (rlMinimumFrom r) = Inr (rlMinimumFrom r)" using minimum_fixed [OF m] by (simp add: r)
  have "channel_valid (rlChannel r)" "rlPublishedAt r \<noteq> 0" "\<not> rlProtocol r \<le> 0" "\<not> rlConfig r \<le> 0" "\<not> rlState r \<le> 0"
    "\<not> rlMinimumProtocol r \<le> 0" "\<not> rlProtocol r < rlMinimumProtocol r" "rlArtifacts r \<noteq> []" "bad_artifact lib [] (rlArtifacts r) = None"
    using assms unfolding validate_release_def Let_def v by (auto simp: r m split: sum.splits if_splits option.splits)
  moreover have "r\<lparr>rlVersion := version_string v, rlMinimumFrom := rlMinimumFrom r, rlRollout := rlRollout r\<rparr> = r" by (simp add: r)
  ultimately show ?thesis
    unfolding validate_release_def Let_def validated_normal [OF assms] by (simp add: pv plan mini)
qed

lemma canonical_of_validated: "validate_release lib r0 = Inr r \<Longrightarrow> CanonicalBytes lib r = (case ul_json lib r of None \<Rightarrow> Inl Unmarshalable | Some t \<Rightarrow> Inr (canonical_prefix @ t))"
  by (simp add: CanonicalBytes_def validated_normal)

section \<open>Signatures\<close>

text \<open>The identifiers under which a valid signature over the message is present.\<close>

definition valid_signers :: "update_lib \<Rightarrow> key_ring \<Rightarrow> string \<Rightarrow> signature list \<Rightarrow> string set" where
  "valid_signers lib ring message ss = (\<lambda>s. lower_trim (sgKeyID s)) ` {s \<in> set ss. signature_valid lib ring message s}"

definition vouched :: "update_lib \<Rightarrow> key_ring \<Rightarrow> signed_release \<Rightarrow> bool" where
  "vouched lib ring sr \<longleftrightarrow>
     (case CanonicalBytes lib (srRelease sr) of Inl _ \<Rightarrow> False
      | Inr message \<Rightarrow> krThreshold ring \<le> int (card (valid_signers lib ring message (srSignatures sr))))"

lemma verify_each_set:
  "set (verify_each lib ring message verified ss) = set verified \<union> valid_signers lib ring message ss"
  by (induction ss arbitrary: verified) (auto simp: valid_signers_def Let_def)

lemma verify_each_distinct: "distinct verified \<Longrightarrow> distinct (verify_each lib ring message verified ss)"
  by (induction ss arbitrary: verified) (auto simp: Let_def)

lemma verified_count: "length (verify_each lib ring message [] ss) = card (valid_signers lib ring message ss)"
  using distinct_card [OF verify_each_distinct, of "[]" lib ring message ss] verify_each_set [of lib ring message "[]" ss] by simp

lemma ring_verify_iff: "\<not> failed (ring_verify lib ring sr) \<longleftrightarrow> vouched lib ring sr"
  by (auto simp: ring_verify_def vouched_def Let_def failed_def verified_count split: sum.splits)

lemma valid_signer_key:
  assumes "i \<in> valid_signers lib ring message ss"
  obtains k where "k \<in> set (krKeys ring)" "tkID k = i"
  using assms by (auto simp: valid_signers_def signature_valid_def ring_key_def find_Some_iff split: option.splits) (metis nth_mem)

definition key_usable :: "update_lib \<Rightarrow> time \<Rightarrow> trusted_key \<Rightarrow> bool" where
  "key_usable lib now k \<longleftrightarrow> PublicKeyID lib (tkPublicPEM k) = Some (tkID k) \<and> \<not> tkRevoked k
     \<and> (case tkExpiresAt k of None \<Rightarrow> True | Some t \<Rightarrow> now < t)"

lemma ring_key_None: "ring_key ks i = None \<longleftrightarrow> i \<notin> tkID ` set ks"
  by (auto simp: ring_key_def find_None_iff)

lemma load_keys_usable:
  "load_keys lib now i held ks = Inr out \<Longrightarrow> distinct (map tkID held) \<Longrightarrow> \<forall>k\<in>set held. key_usable lib now k \<Longrightarrow>
     distinct (map tkID out) \<and> (\<forall>k\<in>set out. key_usable lib now k)"
proof (induction ks arbitrary: i held)
  case (Cons k0 ks)
  let ?pem = "trim_space (tkPublicPEM k0) @ [CHR 0x0A]"
  from Cons.prems(1) obtain derived where d: "PublicKeyID lib ?pem = Some derived"
    by (auto simp: Let_def split: option.splits)
  let ?k = "k0\<lparr>tkID := (if lower_trim (tkID k0) = [] then derived else lower_trim (tkID k0)), tkPublicPEM := ?pem\<rparr>"
  have step: "tkID ?k = derived \<and> (load_keys lib now (Suc i) held ks = Inr out
      \<or> key_usable lib now ?k \<and> tkID ?k \<notin> tkID ` set held \<and> load_keys lib now (Suc i) (held @ [?k]) ks = Inr out)"
    using Cons.prems(1) d by (auto simp: Let_def key_usable_def ring_key_None split: if_splits option.splits)
  then show ?case
  proof (elim conjE disjE)
    assume "load_keys lib now (Suc i) held ks = Inr out"
    from Cons.IH [OF this Cons.prems(2,3)] show ?thesis .
  next
    assume u: "key_usable lib now ?k" "tkID ?k \<notin> tkID ` set held" "load_keys lib now (Suc i) (held @ [?k]) ks = Inr out"
    show ?thesis by (rule Cons.IH [OF u(3)]) (use Cons.prems(2,3) u(1,2) in auto)
  qed
qed simp

section \<open>Newest first\<close>

definition eval_key :: "evaluation \<Rightarrow> int \<times> int \<times> int \<times> release_rank" where
  "eval_key e = (case ParseVersion (evVersion e) of Inr v \<Rightarrow> precedence v | Inl _ \<Rightarrow> undefined)"

abbreviation parses :: "evaluation \<Rightarrow> bool" where
  "parses e \<equiv> \<not> failed (ParseVersion (evVersion e))"

abbreviation evals_sorted :: "evaluation list \<Rightarrow> bool" where
  "evals_sorted \<equiv> sorted_wrt (\<lambda>a b. eval_key b \<le> eval_key a)"

lemma older_than_iff: "parses a \<Longrightarrow> parses b \<Longrightarrow> older_than a b \<longleftrightarrow> eval_key a < eval_key b"
  by (auto simp: older_than_def eval_key_def Precedes_iff failed_def split: sum.splits)

lemma bubble_left_inserts:
  "\<exists>zs. bubble_left (xs @ e # ys) (length xs) = zs @ ys \<and> mset zs = mset (e # xs)
     \<and> ((\<forall>x\<in>set (e # xs). parses x) \<longrightarrow> evals_sorted xs \<longrightarrow> evals_sorted zs)"
proof (induction xs arbitrary: ys rule: rev_induct)
  case Nil
  show ?case by (intro exI [of _ "[e]"]) simp
next
  case (snoc u us)
  show ?case
  proof (cases "older_than u e")
    case False
    have "evals_sorted ((us @ [u]) @ [e])" if "\<forall>x\<in>set (e # us @ [u]). parses x" "evals_sorted (us @ [u])"
      using that False older_than_iff [of u e] by (force simp: sorted_wrt_append)
    with False show ?thesis by (intro exI [of _ "(us @ [u]) @ [e]"]) (simp add: nth_append)
  next
    case True
    from snoc.IH [of "u # ys"] obtain zs where z: "bubble_left (us @ e # u # ys) (length us) = zs @ u # ys" "mset zs = mset (e # us)"
      "(\<forall>x\<in>set (e # us). parses x) \<longrightarrow> evals_sorted us \<longrightarrow> evals_sorted zs" by blast
    have s: "set zs = set (e # us)" using z(2) by (metis set_mset_mset)
    have "evals_sorted (zs @ [u])" if p: "\<forall>x\<in>set (e # us @ [u]). parses x" "evals_sorted (us @ [u])"
    proof -
      have "eval_key u < eval_key e" using p(1) True older_than_iff [of u e] by simp
      moreover have "\<forall>x\<in>set us. eval_key u \<le> eval_key x" "evals_sorted us" using p(2) by (simp_all add: sorted_wrt_append)
      ultimately show ?thesis using z(3) p(1) s by (auto simp: sorted_wrt_append)
    qed
    moreover have "(us @ [u] @ e # ys)[length us := e, Suc (length us) := u] = us @ e # u # ys" by (simp add: list_update_append)
    ultimately show ?thesis using True z(1,2) by (intro exI [of _ "zs @ [u]"]) (simp add: nth_append)
  qed
qed

lemma sort_prefix:
  assumes "k \<le> length es" "0 < length es" "1 \<le> k"
  shows "\<exists>zs. foldl bubble_left es [1 ..< k] = zs @ drop k es \<and> mset zs = mset (take k es)
     \<and> ((\<forall>x\<in>set es. parses x) \<longrightarrow> evals_sorted zs)"
  using assms(3,1)
proof (induction k rule: dec_induct)
  case base
  show ?case using assms(2) by (intro exI [of _ "take 1 es"]) (cases es, simp_all)
next
  case (step k)
  then obtain zs where z: "foldl bubble_left es [1 ..< k] = zs @ drop k es" "mset zs = mset (take k es)"
    "(\<forall>x\<in>set es. parses x) \<longrightarrow> evals_sorted zs" by auto
  have l: "length zs = k" using z(2) step.prems by (metis length_take min.absorb2 size_mset Suc_leD)
  have d: "drop k es = es ! k # drop (Suc k) es" using step.prems by (simp add: Cons_nth_drop_Suc)
  from bubble_left_inserts [of zs "es ! k" "drop (Suc k) es"] obtain us where
    u: "bubble_left (zs @ drop k es) k = us @ drop (Suc k) es" "mset us = mset (es ! k # zs)"
       "(\<forall>x\<in>set (es ! k # zs). parses x) \<longrightarrow> evals_sorted zs \<longrightarrow> evals_sorted us" unfolding d l by blast
  have "set zs \<subseteq> set es" using z(2) by (metis set_mset_mset set_take_subset)
  moreover have "es ! k \<in> set es" using step.prems by simp
  ultimately have "(\<forall>x\<in>set es. parses x) \<longrightarrow> evals_sorted us" using u(3) z(3) by auto
  moreover have "mset us = mset (take (Suc k) es)" using u(2) z(2) step.prems by (simp add: take_Suc_conv_app_nth)
  ultimately show ?case using u(1) z(1) step.hyps by (intro exI [of _ us]) (simp del: upt_Suc add: upt_Suc_append)
qed

lemma sort_evaluations:
  "mset (sortEvaluationsNewestFirst es) = mset es"
  "\<forall>x\<in>set es. parses x \<Longrightarrow> evals_sorted (sortEvaluationsNewestFirst es)"
proof -
  have "mset (sortEvaluationsNewestFirst es) = mset es \<and> ((\<forall>x\<in>set es. parses x) \<longrightarrow> evals_sorted (sortEvaluationsNewestFirst es))"
  proof (cases "es = []")
    case False
    then have "0 < length es" "1 \<le> length es" by (simp_all add: Suc_leI)
    from sort_prefix [OF order.refl this] show ?thesis by (auto simp: sortEvaluationsNewestFirst_def)
  qed (simp add: sortEvaluationsNewestFirst_def)
  then show "mset (sortEvaluationsNewestFirst es) = mset es"
    "\<forall>x\<in>set es. parses x \<Longrightarrow> evals_sorted (sortEvaluationsNewestFirst es)" by blast+
qed

section \<open>What is selected\<close>

text \<open>The releases a machine may take, stated without the order in which the code asks.\<close>

definition not_older :: "version \<Rightarrow> string \<Rightarrow> bool" where
  "not_older v s \<longleftrightarrow> (case ParseVersion s of Inl _ \<Rightarrow> False | Inr m \<Rightarrow> precedence m \<le> precedence v)"

definition suits :: "update_lib \<Rightarrow> key_ring \<Rightarrow> feed \<Rightarrow> installation \<Rightarrow> version \<Rightarrow> time \<Rightarrow> signed_release \<Rightarrow> bool" where
  "suits lib ring f i installed now sr \<longleftrightarrow> vouched lib ring sr \<and>
     (let r = srRelease sr in case ParseVersion (rlVersion r) of Inl _ \<Rightarrow> False | Inr v \<Rightarrow>
       rlChannel r = inChannel i \<and> \<not> IsRevoked f v
       \<and> (inAllowDowngrade i \<or> precedence installed < precedence v)
       \<and> (inChannel i = ''stable'' \<longrightarrow> Stable v)
       \<and> (\<exists>a\<in>set (rlArtifacts r). arComponent a = inComponent i \<and> arOS a = inOS i \<and> arArchitecture a = inArchitecture i)
       \<and> (rlMinimumFrom r = [] \<or> inAllowDowngrade i \<or> not_older installed (rlMinimumFrom r))
       \<and> (0 < inPeerProtocol i \<longrightarrow> rlMinimumProtocol r \<le> inPeerProtocol i \<and> inPeerProtocol i \<le> rlProtocol r)
       \<and> inConfig i \<le> rlConfig r \<and> inState i \<le> rlState r
       \<and> Cohort lib (inMachineID i) v < PercentAt (rlRollout r) now * 100)"

definition release_precedence :: "release \<Rightarrow> int \<times> int \<times> int \<times> release_rank" where
  "release_precedence r = (case ParseVersion (rlVersion r) of Inr v \<Rightarrow> precedence v | Inl _ \<Rightarrow> undefined)"

lemma valid_installation_lower:
  assumes "validate_installation i0 = Inr i"
  shows "to_lower (inOS i) = inOS i" "to_lower (inArchitecture i) = inArchitecture i"
  using assms by (auto simp: validate_installation_def Let_def split: if_splits sum.splits)

lemma artifact_for_iff:
  assumes "to_lower os = os" "to_lower arch = arch"
  shows "ArtifactFor r c os arch \<noteq> None \<longleftrightarrow> (\<exists>a\<in>set (rlArtifacts r). arComponent a = c \<and> arOS a = os \<and> arArchitecture a = arch)"
    and "ArtifactFor r c os arch = Some a \<Longrightarrow> a \<in> set (rlArtifacts r) \<and> arComponent a = c \<and> arOS a = os \<and> arArchitecture a = arch"
  unfolding ArtifactFor_def assms by (auto simp: find_None_iff find_Some_iff)

lemma skip_reason_artifact: "skip_reason f r v i installed rs = Inr a \<Longrightarrow> ArtifactFor r (inComponent i) (inOS i) (inArchitecture i) = Some a"
  by (auto simp: skip_reason_def split: if_splits option.splits)

lemma skip_reason_passes:
  "\<not> failed (skip_reason f r v i installed rs) \<longleftrightarrow>
     rlChannel r = inChannel i \<and> \<not> IsRevoked f v \<and> (inAllowDowngrade i \<or> precedence installed < precedence v)
     \<and> (inChannel i = ''stable'' \<longrightarrow> Stable v) \<and> ArtifactFor r (inComponent i) (inOS i) (inArchitecture i) \<noteq> None
     \<and> (rlMinimumFrom r = [] \<or> inAllowDowngrade i \<or> not_older installed (rlMinimumFrom r))
     \<and> (0 < inPeerProtocol i \<longrightarrow> rlMinimumProtocol r \<le> inPeerProtocol i \<and> inPeerProtocol i \<le> rlProtocol r)
     \<and> inConfig i \<le> rlConfig r \<and> inState i \<le> rlState r \<and> roEligible rs"
  unfolding skip_reason_def not_older_def Precedes_iff
  by (auto simp: not_le not_less split: option.splits sum.splits)

lemma evaluate_release_fields:
  "evRelease (evaluateRelease lib f sr i installed ring now) = srRelease sr"
  "evVersion (evaluateRelease lib f sr i installed ring now) = rlVersion (srRelease sr)"
  "evMandatory (evaluateRelease lib f sr i installed ring now) = rlMandatory (srRelease sr)"
  by (auto simp: evaluateRelease_def Let_def skip_def split: sum.splits)

lemma applicable_iff:
  assumes i: "validate_installation i0 = Inr i"
  shows "evApplicable (evaluateRelease lib f sr i installed ring now) \<longleftrightarrow> suits lib ring f i installed now sr"
proof (cases "ParseVersion (rlVersion (srRelease sr))")
  case (Inl e)
  then show ?thesis by (simp add: evaluateRelease_def suits_def Let_def skip_def)
next
  case (Inr v)
  let ?rs = "rollout_status_of lib (rlRollout (srRelease sr)) (inMachineID i) v now"
  have "evApplicable (evaluateRelease lib f sr i installed ring now) \<longleftrightarrow>
      \<not> failed (ring_verify lib ring sr) \<and> \<not> failed (skip_reason f (srRelease sr) v i installed ?rs)"
    using Inr by (auto simp: evaluateRelease_def Let_def skip_def failed_def split: sum.splits)
  then show ?thesis
    using Inr artifact_for_iff(1) [OF valid_installation_lower [OF i]]
    by (simp add: ring_verify_iff skip_reason_passes suits_def Let_def eligible_iff)
qed

lemma applicable_artifact:
  assumes i: "validate_installation i0 = Inr i" and e: "evApplicable (evaluateRelease lib f sr i installed ring now)"
  obtains a where "evArtifact (evaluateRelease lib f sr i installed ring now) = Some a"
    and "a \<in> set (rlArtifacts (srRelease sr))" "arComponent a = inComponent i" "arOS a = inOS i" "arArchitecture a = inArchitecture i"
proof -
  obtain a rs v where a: "evArtifact (evaluateRelease lib f sr i installed ring now) = Some a"
    and s: "skip_reason f (srRelease sr) v i installed rs = Inr a"
    using e by (auto simp: evaluateRelease_def Let_def skip_def split: sum.splits)
  from artifact_for_iff(2) [OF valid_installation_lower [OF i] skip_reason_artifact [OF s]] a show ?thesis by (auto intro: that)
qed

lemma validated_releases:
  "validate_releases lib ch k ss = Inr out \<Longrightarrow> sr \<in> set out \<Longrightarrow> \<exists>r0. validate_release lib r0 = Inr (srRelease sr)"
  by (induction lib ch k ss arbitrary: out rule: validate_releases.induct) (fastforce split: sum.splits if_splits)+

lemma feed_versions_parse:
  assumes "validate_feed lib f0 = Inr f" "sr \<in> set (fdReleases f)"
  shows "\<not> failed (ParseVersion (rlVersion (srRelease sr)))"
proof -
  have "\<exists>r0. validate_release lib r0 = Inr (srRelease sr)"
    using assms by (auto simp: validate_feed_def Let_def split: if_splits sum.splits dest: validated_releases)
  then show ?thesis by (metis validated_release failed_simps(2))
qed

lemma find_sorted:
  assumes "sorted_wrt R es" "find P es = Some e" "e' \<in> set es" "P e'" "\<And>x. R x x"
  shows "R e e'"
  using assms by (induction es) (auto split: if_splits)

lemma evaluated:
  assumes "Evaluate lib f0 i0 ring now = Inr es" and f: "validate_feed lib f0 = Inr f" and "validate_installation i0 = Inr i"
  obtains installed where "ParseVersion (inVersion i) = Inr installed"
    and "set es = (\<lambda>sr. evaluateRelease lib f sr i installed ring now) ` set (fdReleases f)" and "evals_sorted es"
proof -
  obtain installed where v: "ParseVersion (inVersion i) = Inr installed"
    and es: "es = sortEvaluationsNewestFirst (map (\<lambda>sr. evaluateRelease lib f sr i installed ring now) (fdReleases f))"
    using assms by (auto simp: Evaluate_def split: sum.splits)
  let ?l = "map (\<lambda>sr. evaluateRelease lib f sr i installed ring now) (fdReleases f)"
  have "\<forall>x\<in>set ?l. parses x" using feed_versions_parse [OF f] by (auto simp: evaluate_release_fields)
  then have "evals_sorted es" unfolding es by (rule sort_evaluations(2))
  moreover have "set es = set ?l" unfolding es by (metis sort_evaluations(1) set_mset_mset)
  ultimately show ?thesis using that v by simp
qed

lemma eval_key_release: "eval_key (evaluateRelease lib f sr i installed ring now) = release_precedence (srRelease sr)"
  by (simp add: eval_key_def release_precedence_def evaluate_release_fields)

lemma selected_newest:
  assumes ev: "Evaluate lib f0 i0 ring now = Inr es" and f: "validate_feed lib f0 = Inr f" and i: "validate_installation i0 = Inr i"
    and v: "ParseVersion (inVersion i) = Inr installed"
  shows "case find (\<lambda>e. evApplicable e \<and> (mand \<longrightarrow> evMandatory e)) es of
      None \<Rightarrow> \<forall>sr\<in>set (fdReleases f). suits lib ring f i installed now sr \<longrightarrow> mand \<and> \<not> rlMandatory (srRelease sr)
    | Some e \<Rightarrow> \<exists>sr\<in>set (fdReleases f). e = evaluateRelease lib f sr i installed ring now \<and> suits lib ring f i installed now sr
        \<and> (mand \<longrightarrow> rlMandatory (srRelease sr))
        \<and> (\<forall>sr'\<in>set (fdReleases f). suits lib ring f i installed now sr' \<and> (mand \<longrightarrow> rlMandatory (srRelease sr')) \<longrightarrow>
             release_precedence (srRelease sr') \<le> release_precedence (srRelease sr))"
proof -
  let ?P = "\<lambda>e. evApplicable e \<and> (mand \<longrightarrow> evMandatory e)"
  let ?e = "\<lambda>sr. evaluateRelease lib f sr i installed ring now"
  from evaluated [OF ev f i] v have s: "set es = ?e ` set (fdReleases f)" "evals_sorted es" by (metis Inr_inject)+
  have p: "?P (?e sr) \<longleftrightarrow> suits lib ring f i installed now sr \<and> (mand \<longrightarrow> rlMandatory (srRelease sr))" for sr
    by (simp add: applicable_iff [OF i] evaluate_release_fields)
  show ?thesis
  proof (cases "find ?P es")
    case None
    then have "\<not> ?P (?e sr)" if "sr \<in> set (fdReleases f)" for sr using that s(1) by (auto simp: find_None_iff)
    with None show ?thesis unfolding p by auto
  next
    case (Some e)
    then have e: "e \<in> set es" "?P e" by (auto simp: find_Some_iff)
    then obtain sr where sr: "sr \<in> set (fdReleases f)" "e = ?e sr" using s(1) by auto
    have "release_precedence (srRelease sr') \<le> release_precedence (srRelease sr)" if "sr' \<in> set (fdReleases f)" "?P (?e sr')" for sr'
      using find_sorted [OF s(2) Some, of "?e sr'"] that s(1) unfolding sr(2) eval_key_release by auto
    then show ?thesis using Some sr e(2) p by auto
  qed
qed

section \<open>Publishing and trusting\<close>

text \<open>
  What the signing library documents: a signature made with a private key verifies under the public
  half and has 64 bytes, and base64 decoding undoes encoding, whose text has no space at its ends.
\<close>

definition signing_works :: "update_lib \<Rightarrow> bool" where
  "signing_works lib \<longleftrightarrow>
     (\<forall>pem private public_pem. ul_private lib pem = Some (private, public_pem) \<longrightarrow>
        (\<exists>key. ul_public lib public_pem = Some key
           \<and> (\<forall>m. ul_verify lib key m (ul_sign lib private m) \<and> length (ul_sign lib private m) = 64)))
     \<and> (\<forall>s. ul_b64 lib (trim_space (ul_b64_encode lib s)) = Some s)"

lemma hex_digit_plain: "n < 16 \<Longrightarrow> ascii_lower (hex_digit n) = hex_digit n \<and> \<not> is_space (hex_digit n)"
proof -
  assume n: "n < 16"
  have "(of_char (hex_digit n) :: nat) = (if n < 10 then 48 + n else 87 + n)" using n by (simp add: hex_digit_def)
  with n have "(of_char (hex_digit n) :: nat) \<in> {48 .. 57} \<union> {97 .. 102}" by auto
  then show ?thesis by (auto simp: ascii_lower_def is_space_def less_eq_char_def)
qed

lemma hex_encode_plain: "c \<in> set (hex_encode s) \<Longrightarrow> ascii_lower c = c \<and> \<not> is_space c"
proof -
  have "(of_char x :: nat) div 16 < 16" for x using nat_of_char_less_256 [of x] by linarith
  then show "c \<in> set (hex_encode s) \<Longrightarrow> ascii_lower c = c \<and> \<not> is_space c" by (auto simp: hex_encode_def hex_digit_plain)
qed

lemma hex_encode_normal: "lower_trim (hex_encode s) = hex_encode s"
proof -
  have "trim_space (hex_encode s) = hex_encode s"
    using hex_encode_plain [OF hd_in_set] hex_encode_plain [OF last_in_set] by (intro trim_space_fixed) blast
  then show ?thesis using hex_encode_plain by (simp add: to_lower_def map_idI)
qed

lemma new_signer_id: "NewSigner lib pem = Inr sg \<Longrightarrow> ul_private lib pem = Some (siPrivate sg, siPublicPEM sg) \<and> lower_trim (siKeyID sg) = siKeyID sg"
  by (auto simp: NewSigner_def PublicKeyID_def sha_hex_def hex_encode_normal split: option.splits)

lemma signed_is_valid:
  assumes "signing_works lib" "NewSigner lib pem = Inr sg"
    and "ring_key (krKeys ring) (siKeyID sg) = Some k" "ul_public lib (tkPublicPEM k) = ul_public lib (siPublicPEM sg)"
  shows "signature_valid lib ring m \<lparr>sgKeyID = siKeyID sg, sgAlgorithm = ''ed25519'', sgValue = ul_b64_encode lib (ul_sign lib (siPrivate sg) m)\<rparr>"
proof -
  have "trim_space ''ed25519'' = ''ed25519''" by code_simp
  moreover have "lower_trim (siKeyID sg) = siKeyID sg" "ul_private lib pem = Some (siPrivate sg, siPublicPEM sg)"
    using new_signer_id [OF assms(2)] by simp_all
  moreover obtain key where "ul_public lib (siPublicPEM sg) = Some key"
    "\<forall>m. ul_verify lib key m (ul_sign lib (siPrivate sg) m) \<and> length (ul_sign lib (siPrivate sg) m) = 64"
    using assms(1) calculation(3) unfolding signing_works_def by blast
  moreover have "ul_b64 lib (trim_space (ul_b64_encode lib (ul_sign lib (siPrivate sg) m))) = Some (ul_sign lib (siPrivate sg) m)"
    using assms(1) unfolding signing_works_def by blast
  ultimately show ?thesis using assms(3,4) by (simp add: signature_valid_def verify_with_key_def)
qed

lemma signed_release_shape:
  assumes "SignRelease lib sg r0 = Inr sr"
  obtains r m where "validate_release lib r = Inr r" "CanonicalBytes lib r = Inr m" "srRelease sr = r"
    and "srSignatures sr = [\<lparr>sgKeyID = siKeyID sg, sgAlgorithm = ''ed25519'', sgValue = ul_b64_encode lib (ul_sign lib (siPrivate sg) m)\<rparr>]"
proof -
  from assms obtain r where r: "validate_release lib r0 = Inr r" by (auto simp: SignRelease_def split: sum.splits)
  from assms have "\<exists>m. CanonicalBytes lib r = Inr m \<and> srRelease sr = r
      \<and> srSignatures sr = [\<lparr>sgKeyID = siKeyID sg, sgAlgorithm = ''ed25519'', sgValue = ul_b64_encode lib (ul_sign lib (siPrivate sg) m)\<rparr>]"
    by (auto simp: SignRelease_def Sign_def r validated_again [OF r] split: sum.splits)
  then show ?thesis using that validated_again [OF r] by blast
qed

section \<open>A sample feed\<close>

definition sample_update_lib :: update_lib where
  "sample_update_lib = \<lparr>ul_sha = (\<lambda>s. replicate 32 CHR ''a''), ul_url = (\<lambda>u. Some (''https'', ''h'', u)),
     ul_json = (\<lambda>r. Some (rlVersion r)), ul_b64 = (\<lambda>s. Some (butlast (tl s))), ul_b64_encode = (\<lambda>s. ''.'' @ s @ ''.''),
     ul_public = Some, ul_verify = (\<lambda>key m s. s = take 64 (key @ m @ replicate 64 CHR ''x'')),
     ul_private = (\<lambda>pem. Some (pem, pem)), ul_sign = (\<lambda>private m. take 64 (private @ m @ replicate 64 CHR ''x''))\<rparr>"

definition sample_artifact :: artifact where
  "sample_artifact = \<lparr>arComponent = '' Agent'', arOS = ''linux'', arArchitecture = ''AMD64'', arURL = ''https://h/a '', arFormat = ''binary'',
     arSizeBytes = 3, arSHA256 = replicate 64 CHR ''6'', arBinarySHA256 = []\<rparr>"

definition sample_release :: "string \<Rightarrow> release" where
  "sample_release v = \<lparr>rlVersion = v, rlChannel = ''Stable'', rlPublishedAt = 1500000001, rlNotes = [], rlMinimumFrom = ''v1.0.0'',
     rlProtocol = 3, rlMinimumProtocol = 2, rlConfig = 1, rlState = 1, rlMandatory = False,
     rlRollout = [\<lparr>rsStartsAt = 5000000000, rsPercent = 100\<rparr>, \<lparr>rsStartsAt = 2000000000, rsPercent = 10\<rparr>], rlArtifacts = [sample_artifact]\<rparr>"

definition sample_release_signer :: release_signer where
  "sample_release_signer = \<lparr>siKeyID = sha_hex sample_update_lib ''k'', siPrivate = ''k'', siPublicPEM = ''k''\<rparr>"

definition sample_ring :: key_ring where
  "sample_ring = \<lparr>krKeys = [\<lparr>tkID = sha_hex sample_update_lib ''k'', tkPublicPEM = ''k'', tkComment = [], tkRevoked = False, tkExpiresAt = None\<rparr>],
     krThreshold = 1\<rparr>"

definition sample_signed :: "string \<Rightarrow> signed_release" where
  "sample_signed v = (case SignRelease sample_update_lib sample_release_signer (sample_release v) of
      Inr sr \<Rightarrow> sr | Inl _ \<Rightarrow> \<lparr>srRelease = sample_release v, srSignatures = []\<rparr>)"

definition sample_feed :: feed where
  "sample_feed = \<lparr>fdVersion = 1, fdChannel = ''stable'', fdReleases = map sample_signed [''v1.2.0'', ''1.10.0'', ''1.9.0''], fdRevoked = [''1.11.0'']\<rparr>"

definition sample_installation :: installation where
  "sample_installation = \<lparr>inComponent = ''agent'', inVersion = ''v1.2.0'', inChannel = ''stable'', inOS = ''Linux'', inArchitecture = ''amd64'',
     inMachineID = ''m'', inProtocol = 2, inConfig = 1, inState = 1, inPeerProtocol = 2, inAllowDowngrade = False\<rparr>"

lemma sample_signing_works: "signing_works sample_update_lib"
proof -
  have "\<not> is_space CHR ''.''" by code_simp
  then have "trim_space (CHR ''.'' # s @ ''.'') = CHR ''.'' # s @ ''.''" for s by (intro trim_space_fixed) simp
  then show ?thesis by (auto simp: signing_works_def sample_update_lib_def)
qed

section \<open>The properties\<close>

text \<open>
  C28. The release chosen for a machine is signed by enough trusted keys, suits the machine in every
  respect, and is the newest of those that do; none is chosen only when none suits.
\<close>

theorem selected_is_newest_suitable:
  assumes "Evaluate lib f0 i0 ring now = Inr es" and "validate_feed lib f0 = Inr f" and "validate_installation i0 = Inr i"
    and "ParseVersion (inVersion i) = Inr installed"
  shows "case Select es of
      None \<Rightarrow> \<forall>sr\<in>set (fdReleases f). \<not> suits lib ring f i installed now sr
    | Some e \<Rightarrow> \<exists>sr\<in>set (fdReleases f). evRelease e = srRelease sr \<and> suits lib ring f i installed now sr
        \<and> (\<exists>a\<in>set (rlArtifacts (srRelease sr)). evArtifact e = Some a \<and> arComponent a = inComponent i \<and> arOS a = inOS i \<and> arArchitecture a = inArchitecture i)
        \<and> (\<forall>sr'\<in>set (fdReleases f). suits lib ring f i installed now sr' \<longrightarrow>
             release_precedence (srRelease sr') \<le> release_precedence (srRelease sr))"
proof (cases "Select es")
  case None
  with selected_newest [OF assms, of False] show ?thesis by (simp add: Select_def)
next
  case (Some e)
  with selected_newest [OF assms, of False] obtain sr where sr: "sr \<in> set (fdReleases f)" "e = evaluateRelease lib f sr i installed ring now"
    "suits lib ring f i installed now sr"
    "\<forall>sr'\<in>set (fdReleases f). suits lib ring f i installed now sr' \<longrightarrow> release_precedence (srRelease sr') \<le> release_precedence (srRelease sr)"
    by (auto simp: Select_def)
  then have "evApplicable e" using applicable_iff [OF assms(3)] by simp
  with applicable_artifact [OF assms(3)] sr(2) have "\<exists>a\<in>set (rlArtifacts (srRelease sr)). evArtifact e = Some a \<and> arComponent a = inComponent i
      \<and> arOS a = inOS i \<and> arArchitecture a = inArchitecture i" by metis
  with Some sr show ?thesis by (auto simp: evaluate_release_fields)
qed

theorem selected_is_newest_suitable_witness:
  "\<exists>es f i installed e sr. Evaluate sample_update_lib sample_feed sample_installation sample_ring (seconds 6) = Inr es
     \<and> Select es = Some e \<and> evVersion e = ''1.10.0'' \<and> sr \<in> set (fdReleases f) \<and> evRelease e = srRelease sr
     \<and> suits sample_update_lib sample_ring f i installed (seconds 6) sr"
proof -
  let ?ok = "\<lambda>ev f i. case (ev, f, i) of (Inr es, Inr f', Inr i') \<Rightarrow> map_option evVersion (Select es) = Some ''1.10.0'' \<and> \<not> failed (ParseVersion (inVersion i')) | _ \<Rightarrow> False"
  have "?ok (Evaluate sample_update_lib sample_feed sample_installation sample_ring (seconds 6)) (validate_feed sample_update_lib sample_feed)
      (validate_installation sample_installation)" by code_simp
  then obtain es f i installed e where r: "Evaluate sample_update_lib sample_feed sample_installation sample_ring (seconds 6) = Inr es"
      "validate_feed sample_update_lib sample_feed = Inr f" "validate_installation sample_installation = Inr i" "ParseVersion (inVersion i) = Inr installed"
    and e: "Select es = Some e" "evVersion e = ''1.10.0''"
    by (auto simp: failed_def split: sum.splits)
  from selected_is_newest_suitable [OF r] e r(1) show ?thesis by auto
qed

text \<open>
  C29. A plan that validates only ever opens further: a machine that is offered a release at some time is
  offered it at every later time, and from the moment the plan reaches 100 percent every machine is.
\<close>

theorem rollout_never_retracts:
  assumes "validate_rollout ss = Inr plan" and "now \<le> later"
  shows "(roEligible (rollout_status_of lib plan m v now) \<longrightarrow> roEligible (rollout_status_of lib plan m v later))
     \<and> (PercentAt plan now = 100 \<longrightarrow> roEligible (rollout_status_of lib plan m v later))"
proof -
  have "Cohort lib m v < PercentAt plan later * 100" if "Cohort lib m v < PercentAt plan now * 100"
    using percent_mono [OF assms] that by linarith
  then show ?thesis using cohort_bounds(2) [of lib m v] by (simp add: eligible_iff cohort_buckets_def)
qed

theorem rollout_never_retracts_witness:
  "\<forall>lib m v. \<exists>plan. validate_rollout (rlRollout (sample_release ''1.2.0'')) = Inr plan \<and> length plan = 2
     \<and> PercentAt plan (seconds 2) = 10 \<and> PercentAt plan (seconds 5) = 100
     \<and> roEligible (rollout_status_of lib plan m v (seconds 7))"
proof (intro allI)
  fix lib m v
  have "case validate_rollout (rlRollout (sample_release ''1.2.0'')) of Inl _ \<Rightarrow> False
    | Inr plan \<Rightarrow> length plan = 2 \<and> PercentAt plan (seconds 2) = 10 \<and> PercentAt plan (seconds 5) = 100" by code_simp
  then obtain plan where p: "validate_rollout (rlRollout (sample_release ''1.2.0'')) = Inr plan" "length plan = 2"
    "PercentAt plan (seconds 2) = 10" "PercentAt plan (seconds 5) = 100" by (auto split: sum.splits)
  with rollout_never_retracts [OF p(1), of "seconds 5" "seconds 7" lib m v]
  show "\<exists>plan. validate_rollout (rlRollout (sample_release ''1.2.0'')) = Inr plan \<and> length plan = 2
     \<and> PercentAt plan (seconds 2) = 10 \<and> PercentAt plan (seconds 5) = 100
     \<and> roEligible (rollout_status_of lib plan m v (seconds 7))" by (auto simp: seconds_def)
qed



text \<open>
  Normalising is not idempotent on its own, only after validation: a second leading \<open>v\<close> goes in a
  second pass.
\<close>

lemma normalize_twice_differs:
  "rlVersion (normalize_release (sample_release ''vv1.0.0'')) = ''v1.0.0''"
  "rlVersion (normalize_release (normalize_release (sample_release ''vv1.0.0''))) = ''1.0.0''"
  by (code_simp, code_simp)

end
