(* ===== verification/Update_Installer.thy ===== *)
theory Update_Installer
  imports Update_Release
begin

text \<open>
  \<^verbatim>\<open>src/internal/update/installer.go\<close> and \<^verbatim>\<open>fetch.go\<close>: fetching an artifact, checking it, swapping the
  executable and preserving the one before it.  The disk is the executable and the backup directories by
  name; every system call that can fail is a field of the environment, and a copy that fails may leave
  part of the file behind.  The staging directory is private to one call and removed at its end, so the
  bytes in it are values here.  Running a binary is a function of its bytes.
\<close>

section \<open>The disk\<close>

datatype exe_file = ExeMissing | ExeRegular string | ExeIrregular

record backup =
  bkID :: string
  bkVersion :: string
  bkSavedAt :: time
  bkSHA256 :: string
  bkComponent :: string

text \<open>A backup directory: its \<open>backup.json\<close> if that can be read, and the binary in it.\<close>

record backup_dir =
  bdMeta :: "backup option"
  bdBinary :: "string option"

record update_disk =
  dkExe :: exe_file
  dkBackups :: "backup_dir store"

record installed =
  isComponent :: string
  isVersion :: string
  isPrevious :: string
  isInstalledAt :: time
  isBackupID :: string
  isSHA256 :: string
  isCleanupWarning :: bool

datatype install_error = ErrBadRelease | ErrNotReady | ErrTransient | ErrOther

text \<open>\<open>ilStamp\<close> is the library's formatting of a time, \<open>ilGunzip\<close> its decompression.\<close>

record installer =
  ilComponent :: string
  ilKeep :: int
  ilLib :: update_lib
  ilStamp :: "time \<Rightarrow> string"
  ilGunzip :: "string \<Rightarrow> string option"

datatype copy_result = Copied | CopyFailed "string option"

record backup_io =
  bi_stat :: bool
  bi_digest :: bool
  bi_now :: time
  bi_mkdir :: bool
  bi_copy :: copy_result
  bi_write :: bool

record swap_io =
  si_copy :: bool
  si_rename :: bool
  si_sync :: bool

definition max_artifact_bytes :: int where
  "max_artifact_bytes = 2 * 2 ^ 30"

definition default_kept_backups :: int where
  "default_kept_backups = 3"

definition is_abs_path :: "string \<Rightarrow> bool" where
  "is_abs_path p \<longleftrightarrow> p \<noteq> [] \<and> hd p = CHR ''/''"

definition NewInstaller ::
  "string \<Rightarrow> string \<Rightarrow> string \<Rightarrow> string \<Rightarrow> bool \<Rightarrow> int \<Rightarrow> bool \<Rightarrow> update_lib \<Rightarrow> (time \<Rightarrow> string) \<Rightarrow> (string \<Rightarrow> string option) \<Rightarrow> installer option" where
  "NewInstaller component exe staging backups fetcher keep mkdirs lib stamp gunzip =
     (if \<not> component_valid component \<or> \<not> is_abs_path exe \<or> \<not> is_abs_path staging \<or> \<not> is_abs_path backups \<or> \<not> fetcher \<or> \<not> mkdirs then None
      else Some \<lparr>ilComponent = component, ilKeep = (if keep \<le> 0 then default_kept_backups else keep), ilLib = lib, ilStamp = stamp, ilGunzip = gunzip\<rparr>)"

section \<open>Fetching\<close>

record http_response =
  hrOK :: bool
  hrContentLength :: int
  hrBody :: string
  hrReadError :: bool

text \<open>The bytes written to the download, or \<open>None\<close> for an error.  \<open>None\<close> in place of a response is a request that failed.\<close>

definition http_fetch :: "update_lib \<Rightarrow> http_response option \<Rightarrow> artifact \<Rightarrow> string option" where
  "http_fetch lib response a =
     (if arSizeBytes a \<le> 0 \<or> max_artifact_bytes < arSizeBytes a then None
      else case ul_url lib (arURL a) of None \<Rightarrow> None | Some (scheme, host, path) \<Rightarrow>
      if scheme \<noteq> ''https'' \<or> host = [] then None
      else case response of None \<Rightarrow> None | Some r \<Rightarrow>
      if \<not> hrOK r then None
      else if 0 \<le> hrContentLength r \<and> hrContentLength r \<noteq> arSizeBytes a then None
      else let written = take (nat (arSizeBytes a + 1)) (hrBody r) in
      if hrReadError r then None
      else if int (length written) \<noteq> arSizeBytes a then None
      else Some written)"

datatype local_file = NoFile | NotRegular | LocalFile string

definition file_fetch :: "update_lib \<Rightarrow> (string \<Rightarrow> local_file) \<Rightarrow> bool \<Rightarrow> artifact \<Rightarrow> string option" where
  "file_fetch lib files read_error a =
     (if arSizeBytes a \<le> 0 \<or> max_artifact_bytes < arSizeBytes a then None
      else case ul_url lib (arURL a) of None \<Rightarrow> None | Some (scheme, host, path) \<Rightarrow>
      if scheme \<noteq> ''file'' \<or> host \<noteq> [] \<or> \<not> path_is_abs path then None
      else case files path of NoFile \<Rightarrow> None | NotRegular \<Rightarrow> None
      | LocalFile b \<Rightarrow>
      if int (length b) \<noteq> arSizeBytes a then None
      else if read_error then None
      else Some (take (nat (arSizeBytes a)) b))"

section \<open>Staging and the self test\<close>

record stage_io =
  sg_open :: bool
  sg_fetch :: "artifact \<Rightarrow> string option"
  sg_sync :: bool
  sg_close :: bool
  sg_rename :: bool
  sg_file_digest :: bool
  sg_chmod :: bool

definition stage :: "installer \<Rightarrow> stage_io \<Rightarrow> artifact \<Rightarrow> (install_error, string) outcome" where
  "stage il io a =
     (if \<not> sg_open io then Inl ErrTransient
      else case sg_fetch io a of None \<Rightarrow> Inl ErrTransient | Some download \<Rightarrow>
      if \<not> sg_sync io \<or> \<not> sg_close io then Inl ErrTransient
      else if sha_hex (ilLib il) download \<noteq> arSHA256 a then Inl ErrBadRelease
      else let unpacked =
          (if arFormat a = ''binary'' then (if sg_rename io then Inr download else Inl ErrTransient)
           else if arFormat a = ''gzip'' then (case ilGunzip il download of None \<Rightarrow> Inl ErrBadRelease
              | Some b \<Rightarrow> if max_artifact_bytes < int (length b) then Inl ErrBadRelease else Inr b)
           else Inl ErrBadRelease) in
      case unpacked of Inl e \<Rightarrow> Inl e | Inr binary \<Rightarrow>
      if \<not> sg_file_digest io then Inl ErrTransient
      else if sha_hex (ilLib il) binary \<noteq> arBinarySHA256 a then Inl ErrBadRelease
      else if \<not> sg_chmod io then Inl ErrTransient
      else Inr binary)"

text \<open>\<open>strings.Fields\<close> and \<open>strings.Trim\<close>.\<close>

fun fields_from :: "string \<Rightarrow> string \<Rightarrow> string list" where
  "fields_from w [] = (if w = [] then [] else [w])"
| "fields_from w (c # cs) =
     (if is_space c then (if w = [] then fields_from [] cs else w # fields_from [] cs) else fields_from (w @ [c]) cs)"

definition fields :: "string \<Rightarrow> string list" where
  "fields s = fields_from [] s"

definition trim_set :: "char set \<Rightarrow> string \<Rightarrow> string" where
  "trim_set cs s = rev (dropWhile (\<lambda>c. c \<in> cs) (rev (dropWhile (\<lambda>c. c \<in> cs) s)))"

definition report_marks :: "char set" where
  "report_marks = {CHR 0x22, CHR 0x27, CHR '','', CHR ''('', CHR '')'', CHR '':''}"

definition parseVersionReport :: "string \<Rightarrow> version option" where
  "parseVersionReport output =
     (if fields output = [] then None
      else case ParseVersion (trim_set report_marks (last (fields output))) of Inl _ \<Rightarrow> None | Inr v \<Rightarrow> Some v)"

text \<open>\<open>run b argument\<close> is what the binary prints on standard output, \<open>None\<close> when it does not run.\<close>

definition ProbeVersion :: "(string \<Rightarrow> string \<Rightarrow> string option) \<Rightarrow> string \<Rightarrow> string \<Rightarrow> version option" where
  "ProbeVersion run component b =
     (case Option.bind (run b ''--version'') parseVersionReport of Some v \<Rightarrow> Some v
      | None \<Rightarrow> if component = ''cli'' then Option.bind (run b ''version'') parseVersionReport else None)"

section \<open>Backups\<close>

definition write_binary :: "string \<Rightarrow> string option \<Rightarrow> update_disk \<Rightarrow> update_disk" where
  "write_binary name b d =
     (let entry = (case st_get (dkBackups d) name of Some e \<Rightarrow> e | None \<Rightarrow> \<lparr>bdMeta = None, bdBinary = None\<rparr>) in
      d\<lparr>dkBackups := st_put name (case b of None \<Rightarrow> entry | Some x \<Rightarrow> entry\<lparr>bdBinary := Some x\<rparr>) (dkBackups d)\<rparr>)"

definition write_meta :: "string \<Rightarrow> backup \<Rightarrow> update_disk \<Rightarrow> update_disk" where
  "write_meta name m d =
     (case st_get (dkBackups d) name of None \<Rightarrow> d
      | Some e \<Rightarrow> d\<lparr>dkBackups := st_put name (e\<lparr>bdMeta := Some m\<rparr>) (dkBackups d)\<rparr>)"

definition backupCurrent :: "installer \<Rightarrow> backup_io \<Rightarrow> string \<Rightarrow> update_disk \<Rightarrow> (install_error, backup option) outcome \<times> update_disk" where
  "backupCurrent il io current d =
     (if \<not> bi_stat io then (Inl ErrOther, d)
      else case dkExe d of ExeMissing \<Rightarrow> (Inr None, d) | ExeIrregular \<Rightarrow> (Inl ErrOther, d)
      | ExeRegular b \<Rightarrow>
      if \<not> bi_digest io then (Inl ErrOther, d)
      else let digest = sha_hex (ilLib il) b;
               version = (if trim_space current = [] then ''unknown'' else trim_space current);
               name = ilStamp il (bi_now io) @ ''-'' @ take 12 digest in
      if \<not> bi_mkdir io then (Inl ErrOther, d)
      else case bi_copy io of CopyFailed part \<Rightarrow> (Inl ErrOther, write_binary name part d)
      | Copied \<Rightarrow>
     (let d1 = write_binary name (Some b) d;
          m = \<lparr>bkID = name, bkVersion = version, bkSavedAt = bi_now io, bkSHA256 = digest, bkComponent = ilComponent il\<rparr> in
      if \<not> bi_write io then (Inl ErrOther, d1) else (Inr (Some m), write_meta name m d1)))"

definition swap :: "swap_io \<Rightarrow> string \<Rightarrow> update_disk \<Rightarrow> install_error option \<times> update_disk" where
  "swap io staged d =
     (if \<not> si_copy io then (Some ErrOther, d)
      else if \<not> si_rename io then (Some ErrOther, d)
      else (if si_sync io then None else Some ErrOther, d\<lparr>dkExe := ExeRegular staged\<rparr>))"

text \<open>A listed backup comes with the name of its directory, which is where its binary is.\<close>

definition listed_backup :: "string \<times> backup_dir \<Rightarrow> (string \<times> backup) list" where
  "listed_backup p =
     (case bdMeta (snd p) of None \<Rightarrow> []
      | Some m \<Rightarrow> (case bdBinary (snd p) of None \<Rightarrow> [] | Some _ \<Rightarrow> [(fst p, m)]))"

definition Backups :: "update_disk \<Rightarrow> (string \<times> backup) list" where
  "Backups d = sort_key (\<lambda>p. - bkSavedAt (snd p)) (concat (map listed_backup (dkBackups d)))"

fun remove_backups :: "(string \<Rightarrow> bool) \<Rightarrow> (string \<times> backup) list \<Rightarrow> update_disk \<Rightarrow> bool \<times> update_disk" where
  "remove_backups io [] d = (True, d)"
| "remove_backups io (p # ps) d =
     (if io (bkID (snd p)) then remove_backups io ps (d\<lparr>dkBackups := st_del (bkID (snd p)) (dkBackups d)\<rparr>) else (False, d))"

definition pruneBackups :: "installer \<Rightarrow> bool \<Rightarrow> (string \<Rightarrow> bool) \<Rightarrow> update_disk \<Rightarrow> bool \<times> update_disk" where
  "pruneBackups il listed io d = (if \<not> listed then (False, d) else remove_backups io (drop (nat (ilKeep il)) (Backups d)) d)"

section \<open>Install and roll back\<close>

record install_io =
  ii_ready :: bool
  ii_ready_again :: bool
  ii_tempdir :: bool
  ii_stage :: stage_io
  ii_run :: "string \<Rightarrow> string \<Rightarrow> string option"
  ii_backup :: backup_io
  ii_swap :: swap_io
  ii_now :: time
  ii_list :: bool
  ii_remove :: "string \<Rightarrow> bool"

definition Install :: "installer \<Rightarrow> install_io \<Rightarrow> release \<Rightarrow> artifact \<Rightarrow> string \<Rightarrow> update_disk \<Rightarrow> (install_error, installed) outcome \<times> update_disk" where
  "Install il io r a current d =
     (case ParseVersion (rlVersion r) of Inl _ \<Rightarrow> (Inl ErrBadRelease, d) | Inr expected \<Rightarrow>
      if arComponent a \<noteq> ilComponent il then (Inl ErrBadRelease, d)
      else if validate_artifact (ilLib il) a \<noteq> None then (Inl ErrBadRelease, d)
      else if \<not> ii_ready io then (Inl ErrNotReady, d)
      else if \<not> ii_tempdir io then (Inl ErrTransient, d)
      else case stage il (ii_stage io) a of Inl e \<Rightarrow> (Inl e, d) | Inr staged \<Rightarrow>
     (case ProbeVersion (ii_run io) (ilComponent il) staged of None \<Rightarrow> (Inl ErrBadRelease, d) | Some reported \<Rightarrow>
      if \<not> SameRelease reported expected then (Inl ErrBadRelease, d)
      else if \<not> ii_ready_again io then (Inl ErrNotReady, d)
      else case backupCurrent il (ii_backup io) current d of (Inl _, d1) \<Rightarrow> (Inl ErrTransient, d1) | (Inr saved, d1) \<Rightarrow>
     (case swap (ii_swap io) staged d1 of (Some _, d2) \<Rightarrow> (Inl ErrTransient, d2) | (None, d2) \<Rightarrow>
     (case pruneBackups il (ii_list io) (ii_remove io) d2 of (clean, d3) \<Rightarrow>
        (Inr \<lparr>isComponent = ilComponent il, isVersion = version_string expected, isPrevious = trim_space current, isInstalledAt = ii_now io,
              isBackupID = (case saved of None \<Rightarrow> [] | Some m \<Rightarrow> bkID m), isSHA256 = arBinarySHA256 a, isCleanupWarning = (\<not> clean)\<rparr>, d3)))))"

record rollback_io =
  ri_digest :: bool
  ri_ready :: bool
  ri_run :: "string \<Rightarrow> string \<Rightarrow> string option"
  ri_backup :: backup_io
  ri_swap :: swap_io
  ri_now :: time

definition backup_binary :: "update_disk \<Rightarrow> string \<Rightarrow> string option" where
  "backup_binary d name = Option.bind (st_get (dkBackups d) name) bdBinary"

text \<open>
  \<open>swap\<close> copies from the backup's path again: it installs what is there once the current binary has
  been preserved.
\<close>

definition Rollback :: "installer \<Rightarrow> rollback_io \<Rightarrow> string \<times> backup \<Rightarrow> string \<Rightarrow> update_disk \<Rightarrow> (install_error, installed) outcome \<times> update_disk" where
  "Rollback il io target current d =
     (case target of (name, bk) \<Rightarrow>
      case (if ri_digest io then backup_binary d name else None) of None \<Rightarrow> (Inl ErrOther, d) | Some b \<Rightarrow>
      if sha_hex (ilLib il) b \<noteq> bkSHA256 bk then (Inl ErrOther, d)
      else if \<not> ri_ready io then (Inl ErrNotReady, d)
      else case ProbeVersion (ri_run io) (ilComponent il) b of None \<Rightarrow> (Inl ErrOther, d) | Some reported \<Rightarrow>
      if bkVersion bk \<noteq> ''unknown''
         \<and> (case ParseVersion (bkVersion bk) of Inl _ \<Rightarrow> False | Inr recorded \<Rightarrow> \<not> SameRelease recorded reported) then (Inl ErrOther, d)
      else case backupCurrent il (ri_backup io) current d of (Inl e, d1) \<Rightarrow> (Inl e, d1) | (Inr _, d1) \<Rightarrow>
     (case backup_binary d1 name of None \<Rightarrow> (Inl ErrOther, d1) | Some b1 \<Rightarrow>
     (case swap (ri_swap io) b1 d1 of (Some e, d2) \<Rightarrow> (Inl e, d2) | (None, d2) \<Rightarrow>
        (Inr \<lparr>isComponent = ilComponent il, isVersion = version_string reported, isPrevious = trim_space current, isInstalledAt = ri_now io,
              isBackupID = bkID bk, isSHA256 = sha_hex (ilLib il) b, isCleanupWarning = False\<rparr>, d2))))"

section \<open>What is on the disk\<close>

definition metas :: "update_disk \<Rightarrow> (string \<times> backup) set" where
  "metas d = {(n, m). \<exists>e. st_get (dkBackups d) n = Some e \<and> bdMeta e = Some m}"

definition disk_ok :: "update_disk \<Rightarrow> bool" where
  "disk_ok d \<longleftrightarrow> st_ok (dkBackups d) \<and> (\<forall>(n, m) \<in> metas d. bkID m = n)"

text \<open>The digests of the executable and of every binary the backups vouch for.\<close>

definition exe_digests :: "update_lib \<Rightarrow> update_disk \<Rightarrow> string set" where
  "exe_digests lib d = (case dkExe d of ExeRegular b \<Rightarrow> {sha_hex lib b} | _ \<Rightarrow> {})"

definition known :: "update_lib \<Rightarrow> update_disk \<Rightarrow> string set" where
  "known lib d = exe_digests lib d \<union> (\<lambda>p. bkSHA256 (snd p)) ` metas d"

lemma write_binary_get:
  "st_get (dkBackups (write_binary name b d)) n =
     (if n = name then Some \<lparr>bdMeta = Option.bind (st_get (dkBackups d) name) bdMeta,
         bdBinary = (case b of Some x \<Rightarrow> Some x | None \<Rightarrow> backup_binary d name)\<rparr> else st_get (dkBackups d) n)"
  by (auto simp: write_binary_def Let_def backup_binary_def split: option.splits)

lemma metas_iff: "(n, m) \<in> metas d \<longleftrightarrow> Option.bind (st_get (dkBackups d) n) bdMeta = Some m"
  by (cases "st_get (dkBackups d) n") (simp_all add: metas_def)

lemma write_binary_frame [simp]: "dkExe (write_binary name b d) = dkExe d" "metas (write_binary name b d) = metas d"
proof -
  have "(n, m) \<in> metas (write_binary name b d) \<longleftrightarrow> (n, m) \<in> metas d" for n m
    by (simp add: metas_iff write_binary_get)
  then show "metas (write_binary name b d) = metas d" by auto
qed (simp add: write_binary_def Let_def)

lemma write_meta_frame [simp]: "dkExe (write_meta name m d) = dkExe d"
  by (auto simp: write_meta_def split: option.splits)

lemma write_meta_metas: "metas (write_meta name m d) \<subseteq> insert (name, m) (metas d)"
  by (auto simp: write_meta_def metas_def split: option.splits if_splits)

lemma writes_ok: "st_ok (dkBackups d) \<Longrightarrow> st_ok (dkBackups (write_binary name b d))" "st_ok (dkBackups d) \<Longrightarrow> st_ok (dkBackups (write_meta name m d))"
  by (auto simp: write_binary_def write_meta_def Let_def split: option.splits)

text \<open>The name under which a binary is preserved, and the backup's record.\<close>

definition backup_name :: "installer \<Rightarrow> backup_io \<Rightarrow> string \<Rightarrow> string" where
  "backup_name il io b = ilStamp il (bi_now io) @ ''-'' @ take 12 (sha_hex (ilLib il) b)"

definition backup_of :: "installer \<Rightarrow> backup_io \<Rightarrow> string \<Rightarrow> string \<Rightarrow> backup" where
  "backup_of il io current b = \<lparr>bkID = backup_name il io b, bkVersion = (if trim_space current = [] then ''unknown'' else trim_space current),
     bkSavedAt = bi_now io, bkSHA256 = sha_hex (ilLib il) b, bkComponent = ilComponent il\<rparr>"

lemma backup_cases:
  obtains (refused) e where "backupCurrent il io current d = (Inl e, d)"
  | (first) "backupCurrent il io current d = (Inr None, d)" "dkExe d = ExeMissing"
  | (partly) b part e where "dkExe d = ExeRegular b" "backupCurrent il io current d = (Inl e, write_binary (backup_name il io b) part d)"
  | (saved) b where "dkExe d = ExeRegular b"
      "backupCurrent il io current d = (Inr (Some (backup_of il io current b)),
         write_meta (backup_name il io b) (backup_of il io current b) (write_binary (backup_name il io b) (Some b) d))"
proof (cases "dkExe d")
  case (ExeRegular b)
  show ?thesis
  proof (cases "bi_stat io \<and> bi_digest io \<and> bi_mkdir io")
    case False
    then show ?thesis using ExeRegular by (intro refused [of ErrOther]) (auto simp: backupCurrent_def Let_def)
  next
    case ok: True
    show ?thesis
    proof (cases "bi_copy io = Copied \<and> bi_write io")
      case True
      then show ?thesis using ExeRegular ok
        by (intro saved) (simp_all add: backupCurrent_def Let_def backup_name_def backup_of_def)
    next
      case False
      then show ?thesis using ExeRegular ok partly [OF ExeRegular, of ErrOther]
        by (cases "bi_copy io") (auto simp: backupCurrent_def Let_def backup_name_def)
    qed
  qed
next
  case ExeMissing
  then show ?thesis using refused [of ErrOther] first by (cases "bi_stat io") (simp_all add: backupCurrent_def)
next
  case ExeIrregular
  then show ?thesis by (intro refused [of ErrOther]) (simp add: backupCurrent_def)
qed

lemma backup_effect:
  fixes il :: installer and io :: backup_io and current :: string and d :: update_disk
  defines "d1 \<equiv> snd (backupCurrent il io current d)"
  shows "dkExe d1 = dkExe d" "known (ilLib il) d1 \<subseteq> known (ilLib il) d" "disk_ok d \<Longrightarrow> disk_ok d1"
proof -
  have "dkExe d1 = dkExe d \<and> known (ilLib il) d1 \<subseteq> known (ilLib il) d \<and> (disk_ok d \<longrightarrow> disk_ok d1)"
  proof (cases rule: backup_cases [of il io current d])
    case (partly b part e)
    then show ?thesis by (simp add: d1_def known_def exe_digests_def disk_ok_def writes_ok)
  next
    case (saved b)
    let ?n = "backup_name il io b" and ?m = "backup_of il io current b"
    let ?w = "write_binary ?n (Some b) d"
    have m: "metas d1 \<subseteq> insert (?n, ?m) (metas d)" using write_meta_metas [of ?n ?m ?w] saved by (simp add: d1_def)
    have e: "dkExe d1 = ExeRegular b" using saved by (simp add: d1_def)
    have "bkSHA256 ?m = sha_hex (ilLib il) b" "bkID ?m = ?n" by (simp_all add: backup_of_def)
    then have "known (ilLib il) d1 \<subseteq> known (ilLib il) d" "\<forall>(n, m)\<in>metas d. bkID m = n \<Longrightarrow> \<forall>(n, m)\<in>metas d1. bkID m = n"
      using m e saved by (auto simp: known_def exe_digests_def)
    moreover have "st_ok (dkBackups d) \<Longrightarrow> st_ok (dkBackups d1)" using saved by (simp add: d1_def writes_ok)
    ultimately show ?thesis using saved e by (simp add: disk_ok_def)
  qed (simp_all add: d1_def)
  then show "dkExe d1 = dkExe d" "known (ilLib il) d1 \<subseteq> known (ilLib il) d" "disk_ok d \<Longrightarrow> disk_ok d1" by blast+
qed

lemma backup_other_binary:
  assumes "backupCurrent il io current d = (Inr out, d1)"
  shows "backup_binary d1 n = backup_binary d n \<or> (\<exists>b. dkExe d = ExeRegular b \<and> n = backup_name il io b \<and> backup_binary d1 n = Some b)"
proof (cases rule: backup_cases [of il io current d])
  case (saved b)
  let ?n = "backup_name il io b"
  have d1: "d1 = write_meta ?n (backup_of il io current b) (write_binary ?n (Some b) d)" using saved assms by simp
  show ?thesis
  proof (cases "n = ?n")
    case True
    then have "backup_binary d1 n = Some b" by (simp add: d1 backup_binary_def write_meta_def write_binary_get)
    with True saved show ?thesis by blast
  next
    case False
    then show ?thesis by (simp add: d1 backup_binary_def write_meta_def write_binary_get)
  qed
qed (use assms in auto)

lemma remove_backups_effect:
  "dkExe (snd (remove_backups io ps d)) = dkExe d \<and> metas (snd (remove_backups io ps d)) \<subseteq> metas d
     \<and> (st_ok (dkBackups d) \<longrightarrow> st_ok (dkBackups (snd (remove_backups io ps d))))
     \<and> (\<forall>n. n \<notin> (\<lambda>p. bkID (snd p)) ` set ps \<longrightarrow> st_get (dkBackups (snd (remove_backups io ps d))) n = st_get (dkBackups d) n)"
proof (induction ps arbitrary: d)
  case (Cons p ps)
  let ?d = "d\<lparr>dkBackups := st_del (bkID (snd p)) (dkBackups d)\<rparr>"
  have "metas ?d \<subseteq> metas d" by (auto simp: metas_def split: if_splits)
  with Cons [of ?d] show ?case by auto
qed simp

lemma prune_effect:
  fixes il :: installer and listed :: bool and io :: "string \<Rightarrow> bool" and d :: update_disk
  defines "d1 \<equiv> snd (pruneBackups il listed io d)"
  shows "dkExe d1 = dkExe d" "metas d1 \<subseteq> metas d" "known lib d1 \<subseteq> known lib d" "disk_ok d \<Longrightarrow> disk_ok d1"
  using remove_backups_effect [of io "drop (nat (ilKeep il)) (Backups d)" d]
  by (auto simp: d1_def pruneBackups_def known_def exe_digests_def disk_ok_def)

section \<open>Installing\<close>

lemma stage_digest: "stage il io a = Inr b \<Longrightarrow> sha_hex (ilLib il) b = arBinarySHA256 a"
  by (auto simp: stage_def Let_def split: if_splits option.splits sum.splits)

text \<open>Where an installation can stop: before the backup, in it, at the swap, or not at all.\<close>

lemma install_cases:
  obtains (early) e where "Install il io r a current d = (Inl e, d)"
  | (backup) "Install il io r a current d = (Inl ErrTransient, snd (backupCurrent il (ii_backup io) current d))"
  | (unsynced) b v w out d1 where "ParseVersion (rlVersion r) = Inr w" "stage il (ii_stage io) a = Inr b"
      "ProbeVersion (ii_run io) (ilComponent il) b = Some v" "SameRelease v w" "ii_ready io" "ii_ready_again io" "arComponent a = ilComponent il"
      "backupCurrent il (ii_backup io) current d = (Inr out, d1)" "\<not> si_sync (ii_swap io)"
      "Install il io r a current d = (Inl ErrTransient, d1\<lparr>dkExe := ExeRegular b\<rparr>)"
  | (swapped) b v w out d1 inst where "ParseVersion (rlVersion r) = Inr w" "stage il (ii_stage io) a = Inr b"
      "ProbeVersion (ii_run io) (ilComponent il) b = Some v" "SameRelease v w" "ii_ready io" "ii_ready_again io" "arComponent a = ilComponent il"
      "backupCurrent il (ii_backup io) current d = (Inr out, d1)"
      "Install il io r a current d = (Inr inst, snd (pruneBackups il (ii_list io) (ii_remove io) (d1\<lparr>dkExe := ExeRegular b\<rparr>)))"
      "isVersion inst = version_string w" "isSHA256 inst = arBinarySHA256 a" "isBackupID inst = (case out of None \<Rightarrow> [] | Some m \<Rightarrow> bkID m)"
proof (cases "\<exists>w b v. ParseVersion (rlVersion r) = Inr w \<and> stage il (ii_stage io) a = Inr b
      \<and> ProbeVersion (ii_run io) (ilComponent il) b = Some v \<and> SameRelease v w \<and> ii_ready io \<and> ii_ready_again io
      \<and> arComponent a = ilComponent il \<and> validate_artifact (ilLib il) a = None \<and> ii_tempdir io")
  case False
  then have "\<exists>e. Install il io r a current d = (Inl e, d)"
    by (auto simp: Install_def split: sum.splits option.splits)
  with early show ?thesis by blast
next
  case True
  then obtain w b v where w: "ParseVersion (rlVersion r) = Inr w" "stage il (ii_stage io) a = Inr b"
      "ProbeVersion (ii_run io) (ilComponent il) b = Some v" "SameRelease v w" "ii_ready io" "ii_ready_again io" "arComponent a = ilComponent il"
    and ok: "validate_artifact (ilLib il) a = None" "ii_tempdir io" by blast
  obtain res d1 where bk: "backupCurrent il (ii_backup io) current d = (res, d1)" by fastforce
  show ?thesis
  proof (cases res)
    case (Inl e)
    then show ?thesis using backup w ok bk by (simp add: Install_def)
  next
    case (Inr out)
    note bk = bk [unfolded Inr]
    consider "\<not> (si_copy (ii_swap io) \<and> si_rename (ii_swap io))"
      | "si_copy (ii_swap io) \<and> si_rename (ii_swap io)" "\<not> si_sync (ii_swap io)"
      | "si_copy (ii_swap io) \<and> si_rename (ii_swap io)" "si_sync (ii_swap io)" by blast
    then show ?thesis
    proof cases
      case 1
      then show ?thesis using backup w ok bk by (auto simp: Install_def swap_def)
    next
      case 2
      then show ?thesis using unsynced [OF w bk] w ok bk by (simp add: Install_def swap_def)
    next
      case 3
      obtain clean d3 where p: "pruneBackups il (ii_list io) (ii_remove io) (d1\<lparr>dkExe := ExeRegular b\<rparr>) = (clean, d3)" by fastforce
      show ?thesis using swapped [OF w bk] w ok bk 3 p by (simp add: Install_def swap_def)
    qed
  qed
qed

lemma install_known:
  assumes "Install il io r a current d = (out, d')"
  shows "known (ilLib il) d' \<subseteq> insert (arBinarySHA256 a) (known (ilLib il) d)" "disk_ok d \<Longrightarrow> disk_ok d'"
proof -
  have swapped_known: "known (ilLib il) (d1\<lparr>dkExe := ExeRegular b\<rparr>) \<subseteq> insert (sha_hex (ilLib il) b) (known (ilLib il) d1)" for d1 b
    by (auto simp: known_def exe_digests_def metas_def)
  have swapped_ok: "disk_ok (d1\<lparr>dkExe := x\<rparr>) = disk_ok d1" for d1 x by (simp add: disk_ok_def metas_def)
  have "known (ilLib il) d' \<subseteq> insert (arBinarySHA256 a) (known (ilLib il) d) \<and> (disk_ok d \<longrightarrow> disk_ok d')"
  proof (cases rule: install_cases [of il io r a current d])
    case backup
    then show ?thesis using assms backup_effect [where il = il and io = "ii_backup io" and current = current and d = d] by auto
  next
    case (unsynced b v w x d1)
    then show ?thesis
      using assms backup_effect [where il = il and io = "ii_backup io" and current = current and d = d] stage_digest [of il "ii_stage io" a b] swapped_known [of b d1]
      by (auto simp: swapped_ok)
  next
    case (swapped b v w x d1 inst)
    then show ?thesis
      using assms backup_effect [where il = il and io = "ii_backup io" and current = current and d = d] stage_digest [of il "ii_stage io" a b] swapped_known [of b d1]
        prune_effect(3) [of "ilLib il" il "ii_list io" "ii_remove io" "d1\<lparr>dkExe := ExeRegular b\<rparr>"]
        prune_effect(4) [of "d1\<lparr>dkExe := ExeRegular b\<rparr>" il "ii_list io" "ii_remove io"]
      by (auto simp: swapped_ok)
  qed (use assms in auto)
  then show "known (ilLib il) d' \<subseteq> insert (arBinarySHA256 a) (known (ilLib il) d)" "disk_ok d \<Longrightarrow> disk_ok d'" by blast+
qed

section \<open>Rolling back\<close>

lemma undo_cases:
  obtains (early) e where "Rollback il io (n, bk) current d = (Inl e, d)"
  | (backup) e where "Rollback il io (n, bk) current d = (Inl e, snd (backupCurrent il (ri_backup io) current d))"
  | (swapped) b b1 v x d1 out where "backup_binary d n = Some b" "sha_hex (ilLib il) b = bkSHA256 bk" "ri_ready io"
      "ProbeVersion (ri_run io) (ilComponent il) b = Some v"
      "backupCurrent il (ri_backup io) current d = (Inr x, d1)" "backup_binary d1 n = Some b1"
      "Rollback il io (n, bk) current d = (out, d1\<lparr>dkExe := ExeRegular b1\<rparr>)"
      "\<And>inst. out = Inr inst \<Longrightarrow> isVersion inst = version_string v"
proof (cases "\<exists>b v. ri_digest io \<and> backup_binary d n = Some b \<and> sha_hex (ilLib il) b = bkSHA256 bk \<and> ri_ready io
      \<and> ProbeVersion (ri_run io) (ilComponent il) b = Some v
      \<and> \<not> (bkVersion bk \<noteq> ''unknown'' \<and> (case ParseVersion (bkVersion bk) of Inl _ \<Rightarrow> False | Inr recorded \<Rightarrow> \<not> SameRelease recorded v))")
  case False
  then have "\<exists>e. Rollback il io (n, bk) current d = (Inl e, d)"
    by (auto simp: Rollback_def split: option.splits)
  with early show ?thesis by blast
next
  case True
  then obtain b v where b: "ri_digest io" "backup_binary d n = Some b" "sha_hex (ilLib il) b = bkSHA256 bk" "ri_ready io"
      "ProbeVersion (ri_run io) (ilComponent il) b = Some v"
    and ver: "\<not> (bkVersion bk \<noteq> ''unknown'' \<and> (case ParseVersion (bkVersion bk) of Inl _ \<Rightarrow> False | Inr recorded \<Rightarrow> \<not> SameRelease recorded v))"
    by blast
  obtain res d1 where bk: "backupCurrent il (ri_backup io) current d = (res, d1)" by fastforce
  have eq: "Rollback il io (n, bk) current d =
     (case res of Inl e \<Rightarrow> (Inl e, d1) | Inr _ \<Rightarrow>
      (case backup_binary d1 n of None \<Rightarrow> (Inl ErrOther, d1) | Some b1 \<Rightarrow>
      (case swap (ri_swap io) b1 d1 of (Some e, d2) \<Rightarrow> (Inl e, d2) | (None, d2) \<Rightarrow>
        (Inr \<lparr>isComponent = ilComponent il, isVersion = version_string v, isPrevious = trim_space current, isInstalledAt = ri_now io,
              isBackupID = bkID bk, isSHA256 = sha_hex (ilLib il) b, isCleanupWarning = False\<rparr>, d2))))"
    using b ver bk by (auto simp: Rollback_def split: sum.splits)
  show ?thesis
  proof (cases res)
    case (Inl e)
    then show ?thesis using backup eq bk by simp
  next
    case (Inr x)
    show ?thesis
    proof (cases "backup_binary d1 n")
      case None
      then show ?thesis using backup [of ErrOther] eq bk Inr by simp
    next
      case (Some b1)
      show ?thesis
      proof (cases "si_copy (ri_swap io) \<and> si_rename (ri_swap io)")
        case False
        then show ?thesis using backup [of ErrOther] eq bk Inr Some by (auto simp: swap_def)
      next
        case True
        with swapped [OF b(2-5) bk [unfolded Inr] Some] eq Inr Some show ?thesis
          by (cases "si_sync (ri_swap io)") (auto simp: swap_def)
      qed
    qed
  qed
qed

lemma listed_backup_iff: "q \<in> set (listed_backup p) \<longleftrightarrow> fst q = fst p \<and> bdMeta (snd p) = Some (snd q) \<and> bdBinary (snd p) \<noteq> None"
  by (cases q; cases "bdMeta (snd p)"; cases "bdBinary (snd p)") (auto simp: listed_backup_def)

lemma listed_backup_get:
  assumes "st_ok (dkBackups d)"
  shows "(n, m) \<in> set (Backups d) \<longleftrightarrow> (\<exists>e. st_get (dkBackups d) n = Some e \<and> bdMeta e = Some m \<and> bdBinary e \<noteq> None)"
proof -
  have "distinct (map fst (dkBackups d))" using assms by (auto simp: st_ok_def strict_sorted_iff)
  then have "st_get (dkBackups d) n = Some e \<longleftrightarrow> (n, e) \<in> set (dkBackups d)" for e by (simp add: st_get_def)
  then show ?thesis by (force simp: Backups_def listed_backup_iff)
qed

lemma listed_metas: "p \<in> set (Backups d) \<Longrightarrow> st_ok (dkBackups d) \<Longrightarrow> p \<in> metas d"
  by (cases p) (auto simp: listed_backup_get metas_def)

lemma rollback_known:
  assumes "Rollback il io (n, bk) current d = (out, d')" and meta: "(n, bk) \<in> metas d"
  shows "known (ilLib il) d' \<subseteq> known (ilLib il) d" "disk_ok d \<Longrightarrow> disk_ok d'"
proof -
  have bkp: "known (ilLib il) (snd (backupCurrent il (ri_backup io) current d)) \<subseteq> known (ilLib il) d"
    "disk_ok d \<Longrightarrow> disk_ok (snd (backupCurrent il (ri_backup io) current d))"
    using backup_effect [where il = il and io = "ri_backup io" and current = current and d = d] by blast+
  have "known (ilLib il) d' \<subseteq> known (ilLib il) d \<and> (disk_ok d \<longrightarrow> disk_ok d')"
  proof (cases rule: undo_cases [of il io n bk current d])
    case (swapped b b1 v x d1 o')
    have "sha_hex (ilLib il) b1 \<in> known (ilLib il) d"
    proof (cases "backup_binary d1 n = backup_binary d n")
      case True
      then have "b1 = b" using swapped by simp
      moreover have "bkSHA256 bk \<in> known (ilLib il) d" using meta by (force simp: known_def)
      ultimately show ?thesis using swapped by simp
    next
      case False
      then have "dkExe d = ExeRegular b1" using backup_other_binary [OF swapped(5), of n] swapped(6) by auto
      then show ?thesis by (simp add: known_def exe_digests_def)
    qed
    moreover have "known (ilLib il) (d1\<lparr>dkExe := ExeRegular b1\<rparr>) \<subseteq> insert (sha_hex (ilLib il) b1) (known (ilLib il) d1)"
      by (auto simp: known_def exe_digests_def metas_def)
    moreover have "disk_ok (d1\<lparr>dkExe := ExeRegular b1\<rparr>) = disk_ok d1" by (simp add: disk_ok_def metas_def)
    ultimately show ?thesis using assms(1) swapped bkp by auto
  qed (use assms bkp in auto)
  then show "known (ilLib il) d' \<subseteq> known (ilLib il) d" "disk_ok d \<Longrightarrow> disk_ok d'" by blast+
qed

section \<open>The newest backup\<close>

lemma listed_distinct:
  assumes "st_ok (dkBackups d)"
  shows "distinct (Backups d)"
proof -
  have one: "distinct (listed_backup p)" for p by (auto simp: listed_backup_def split: option.splits)
  have "distinct (map fst es) \<Longrightarrow> distinct (concat (map listed_backup es))" for es :: "backup_dir store"
    by (induction es) (force simp: one listed_backup_iff)+
  moreover have "distinct (map fst (dkBackups d))" using assms by (auto simp: st_ok_def strict_sorted_iff)
  ultimately show ?thesis by (simp add: Backups_def)
qed

lemma hd_sort_key:
  fixes f :: "'a \<Rightarrow> int"
  assumes "p \<in> set xs" "\<And>q. q \<in> set xs \<Longrightarrow> q \<noteq> p \<Longrightarrow> f p < f q"
  shows "hd (sort_key f xs) = p"
proof (cases "sort_key f xs")
  case Nil
  then show ?thesis using assms(1) by (metis empty_iff list.set(1) set_sort)
next
  case (Cons y ys)
  then have "y \<in> set xs" "p \<in> set (y # ys)" using assms(1) by (metis list.set_intros(1) set_sort, metis set_sort)
  moreover have "sorted (map f (y # ys))" using Cons sorted_sort_key [of f xs] by simp
  ultimately show ?thesis using assms(2) [of y] Cons by force
qed

lemma newest_backup:
  assumes ok: "disk_ok d" and "st_get (dkBackups d) n = Some e" "bdMeta e = Some m" "bdBinary e \<noteq> None"
    and newest: "\<And>q. q \<in> metas d \<Longrightarrow> q \<noteq> (n, m) \<Longrightarrow> bkSavedAt (snd q) < bkSavedAt m"
  shows "Backups d \<noteq> []" "hd (Backups d) = (n, m)"
proof -
  have st: "st_ok (dkBackups d)" using ok by (simp add: disk_ok_def)
  have l: "(n, m) \<in> set (Backups d)" using assms by (simp add: listed_backup_get [OF st])
  then show "Backups d \<noteq> []" by auto
  have "set (concat (map listed_backup (dkBackups d))) = set (Backups d)" by (simp add: Backups_def)
  with l newest listed_metas [OF _ st] show "hd (Backups d) = (n, m)"
    unfolding Backups_def by (intro hd_sort_key) force+
qed

lemma newest_survives_prune:
  assumes ok: "disk_ok d" and keep: "0 < ilKeep il"
    and e: "st_get (dkBackups d) n = Some e" "bdMeta e = Some m" "bdBinary e \<noteq> None"
    and newest: "\<And>q. q \<in> metas d \<Longrightarrow> q \<noteq> (n, m) \<Longrightarrow> bkSavedAt (snd q) < bkSavedAt m"
  shows "st_get (dkBackups (snd (pruneBackups il listed io d))) n = Some e"
proof -
  have st: "st_ok (dkBackups d)" using ok by (simp add: disk_ok_def)
  obtain rest where rest: "Backups d = (n, m) # rest" using newest_backup [OF ok e newest] by (cases "Backups d") auto
  have "n \<noteq> bkID (snd p)" if p: "p \<in> set (drop (nat (ilKeep il)) (Backups d))" for p
  proof
    assume n: "n = bkID (snd p)"
    have "p \<in> set rest" using p keep rest by (cases "nat (ilKeep il)") (auto dest: in_set_dropD)
    moreover have "p \<in> metas d" using in_set_dropD [OF p] listed_metas [OF _ st] by blast
    then have "p = (n, m)" using ok n e by (cases p) (auto simp: disk_ok_def metas_def)
    ultimately show False using listed_distinct [OF st] rest by simp
  qed
  then have "n \<notin> (\<lambda>p. bkID (snd p)) ` set (drop (nat (ilKeep il)) (Backups d))" by auto
  with remove_backups_effect [of io "drop (nat (ilKeep il)) (Backups d)" d] e show ?thesis
    by (auto simp: pruneBackups_def)
qed

definition backup_good :: "backup_io \<Rightarrow> bool" where
  "backup_good io \<longleftrightarrow> bi_stat io \<and> bi_digest io \<and> bi_mkdir io \<and> bi_copy io = Copied \<and> bi_write io"

definition swap_good :: "swap_io \<Rightarrow> bool" where
  "swap_good io \<longleftrightarrow> si_copy io \<and> si_rename io \<and> si_sync io"

definition rollback_good :: "rollback_io \<Rightarrow> bool" where
  "rollback_good io \<longleftrightarrow> ri_digest io \<and> ri_ready io \<and> backup_good (ri_backup io) \<and> swap_good (ri_swap io)"

lemma rollback_restores:
  assumes good: "rollback_good io" and b: "backup_binary d n = Some b" "bkSHA256 m = sha_hex (ilLib il) b"
    and exe: "dkExe d = ExeRegular new" and names: "backup_name il (ri_backup io) new \<noteq> n"
    and v: "ProbeVersion (ri_run io) (ilComponent il) b = Some v" and w: "ParseVersion (bkVersion m) = Inr w" "SameRelease w v"
  shows "\<exists>inst. fst (Rollback il io (n, m) current d) = Inr inst" "dkExe (snd (Rollback il io (n, m) current d)) = ExeRegular b"
proof -
  let ?n = "backup_name il (ri_backup io) new" and ?m = "backup_of il (ri_backup io) current new"
  let ?d = "write_meta ?n ?m (write_binary ?n (Some new) d)"
  have bk: "backupCurrent il (ri_backup io) current d = (Inr (Some ?m), ?d)"
    using good exe by (simp add: backupCurrent_def rollback_good_def backup_good_def Let_def backup_name_def backup_of_def)
  have "backup_binary ?d n = Some b"
    using b(1) names by (simp add: backup_binary_def write_meta_def write_binary_get)
  then show "\<exists>inst. fst (Rollback il io (n, m) current d) = Inr inst" "dkExe (snd (Rollback il io (n, m) current d)) = ExeRegular b"
    using good b v w bk by (simp_all add: Rollback_def rollback_good_def swap_def swap_good_def)
qed

lemma names_differ:
  assumes "\<forall>s. length (ul_sha (ilLib il) s) = 32" and "take 12 (sha_hex (ilLib il) x) \<noteq> take 12 (sha_hex (ilLib il) y)"
  shows "backup_name il io x \<noteq> backup_name il io' y"
proof
  assume eq: "backup_name il io x = backup_name il io' y"
  have "length (hex_encode s) = 2 * length s" for s by (induction s) (simp_all add: hex_encode_def)
  then have "length (take 12 (sha_hex (ilLib il) s)) = 12" for s using assms(1) by (simp add: sha_hex_def)
  then have "length (''-'' @ take 12 (sha_hex (ilLib il) x)) = length (''-'' @ take 12 (sha_hex (ilLib il) y))" by simp
  with eq assms(2) show False unfolding backup_name_def by (metis append_eq_append_conv)
qed

lemma metas_exe [simp]: "metas (d\<lparr>dkExe := x\<rparr>) = metas d"
  by (simp add: metas_def)

lemma installed_backup:
  assumes ok: "disk_ok d" and exe: "dkExe d = ExeRegular old" and keep: "0 < ilKeep il"
    and fresh: "\<forall>(n, m)\<in>metas d. bkSavedAt m < bi_now (ii_backup io)"
    and inst: "Install il io r a current d = (Inr inst, d')"
  defines "n \<equiv> backup_name il (ii_backup io) old" and "m \<equiv> backup_of il (ii_backup io) current old"
  shows "isBackupID inst = n" "disk_ok d'" "st_get (dkBackups d') n = Some \<lparr>bdMeta = Some m, bdBinary = Some old\<rparr>"
    "hd (Backups d') = (n, m)" "Backups d' \<noteq> []" "\<exists>new. dkExe d' = ExeRegular new \<and> sha_hex (ilLib il) new = arBinarySHA256 a"
proof -
  from install_cases [of il io r a current d] inst obtain b out d1 where b: "stage il (ii_stage io) a = Inr b"
    and bk: "backupCurrent il (ii_backup io) current d = (Inr out, d1)"
    and d': "d' = snd (pruneBackups il (ii_list io) (ii_remove io) (d1\<lparr>dkExe := ExeRegular b\<rparr>))"
    and id: "isBackupID inst = (case out of None \<Rightarrow> [] | Some m \<Rightarrow> bkID m)"
    by (cases rule: install_cases [of il io r a current d]) auto
  have o: "out = Some m" "d1 = write_meta n m (write_binary n (Some old) d)"
    using bk exe by (cases rule: backup_cases [of il "ii_backup io" current d]; simp add: n_def m_def)+
  show "isBackupID inst = n" using id o(1) by (simp add: m_def n_def backup_of_def)
  let ?d2 = "d1\<lparr>dkExe := ExeRegular b\<rparr>" and ?e = "\<lparr>bdMeta = Some m, bdBinary = Some old\<rparr>"
  have ok2: "disk_ok ?d2" using backup_effect(3) [OF ok, of il "ii_backup io" current] bk by (simp add: disk_ok_def metas_def)
  have e: "st_get (dkBackups ?d2) n = Some ?e" by (simp add: o(2) write_meta_def write_binary_get)
  have metas2: "metas ?d2 \<subseteq> insert (n, m) (metas d)"
    using write_meta_metas [of n m "write_binary n (Some old) d"] by (simp add: o(2) metas_exe)
  have new: "bkSavedAt (snd q) < bkSavedAt m" if "q \<in> insert (n, m) (metas d)" "q \<noteq> (n, m)" for q
    using that fresh by (cases q) (auto simp: m_def backup_of_def)
  have e': "st_get (dkBackups d') n = Some ?e"
    unfolding d' by (rule newest_survives_prune [OF ok2 keep e]) (use new metas2 in auto)
  then show "st_get (dkBackups d') n = Some ?e" .
  have metas': "metas d' \<subseteq> metas ?d2" unfolding d' by (rule prune_effect(2))
  show ok': "disk_ok d'" unfolding d' by (rule prune_effect(4) [OF ok2])
  show "hd (Backups d') = (n, m)" "Backups d' \<noteq> []"
    using newest_backup [OF ok' e', of m] new metas' metas2 by auto
  show "\<exists>new. dkExe d' = ExeRegular new \<and> sha_hex (ilLib il) new = arBinarySHA256 a"
    using stage_digest [OF b] prune_effect(1) [of il "ii_list io" "ii_remove io" ?d2] by (simp add: d')
qed

section \<open>A sample machine\<close>

text \<open>A binary of the sample is the text of its version, which is what it prints.\<close>

definition sample_install_lib :: update_lib where
  "sample_install_lib = sample_update_lib\<lparr>ul_sha := (\<lambda>s. take 32 (s @ replicate 32 CHR ''a''))\<rparr>"

definition sample_installer :: installer where
  "sample_installer = \<lparr>ilComponent = ''agent'', ilKeep = 2, ilLib = sample_install_lib, ilStamp = (\<lambda>t. itoa (t div 1000000000)), ilGunzip = (\<lambda>b. None)\<rparr>"

definition sample_run :: "string \<Rightarrow> string \<Rightarrow> string option" where
  "sample_run b argument = (if argument = ''--version'' then Some (''shift-agent '' @ b @ [CHR 0x0A]) else None)"

definition sample_backup_io :: "time \<Rightarrow> backup_io" where
  "sample_backup_io t = \<lparr>bi_stat = True, bi_digest = True, bi_now = t, bi_mkdir = True, bi_copy = Copied, bi_write = True\<rparr>"

definition sample_swap_io :: swap_io where
  "sample_swap_io = \<lparr>si_copy = True, si_rename = True, si_sync = True\<rparr>"

definition sample_install_io :: "time \<Rightarrow> string \<Rightarrow> install_io" where
  "sample_install_io t b = \<lparr>ii_ready = True, ii_ready_again = True, ii_tempdir = True,
     ii_stage = \<lparr>sg_open = True, sg_fetch = (\<lambda>a. Some b), sg_sync = True, sg_close = True, sg_rename = True, sg_file_digest = True, sg_chmod = True\<rparr>,
     ii_run = sample_run, ii_backup = sample_backup_io t, ii_swap = sample_swap_io, ii_now = t, ii_list = True, ii_remove = (\<lambda>n. True)\<rparr>"

definition sample_rollback_io :: "time \<Rightarrow> rollback_io" where
  "sample_rollback_io t = \<lparr>ri_digest = True, ri_ready = True, ri_run = sample_run, ri_backup = sample_backup_io t, ri_swap = sample_swap_io, ri_now = t\<rparr>"

definition sample_binary_artifact :: "string \<Rightarrow> artifact" where
  "sample_binary_artifact b = \<lparr>arComponent = ''agent'', arOS = ''linux'', arArchitecture = ''amd64'', arURL = ''https://h/a'', arFormat = ''binary'',
     arSizeBytes = int (length b), arSHA256 = sha_hex sample_install_lib b, arBinarySHA256 = sha_hex sample_install_lib b\<rparr>"

definition sample_disk :: "string \<Rightarrow> update_disk" where
  "sample_disk b = \<lparr>dkExe = ExeRegular b, dkBackups = []\<rparr>"

lemma sample_sha_size: "\<forall>s. length (ul_sha (ilLib sample_installer) s) = 32"
  by (auto simp: sample_installer_def sample_install_lib_def min_def)

section \<open>The properties\<close>

text \<open>
  C25. The executable changes only to a binary with the digest the release signed, for this component,
  that ran and reported the version the release promises, and only while the machine said twice that it
  is idle.  An answer of success means the new binary is in place; a failure leaves the old one, except
  when only the last sync of the directory failed.
\<close>

theorem install_swaps_only_verified:
  assumes "Install il io r a current d = (out, d')"
  shows "(dkExe d' \<noteq> dkExe d \<longrightarrow>
       (\<exists>b v w. dkExe d' = ExeRegular b \<and> sha_hex (ilLib il) b = arBinarySHA256 a \<and> arComponent a = ilComponent il
          \<and> ProbeVersion (ii_run io) (ilComponent il) b = Some v \<and> ParseVersion (rlVersion r) = Inr w \<and> SameRelease v w
          \<and> ii_ready io \<and> ii_ready_again io))
     \<and> (\<forall>inst. out = Inr inst \<longrightarrow> (\<exists>b. dkExe d' = ExeRegular b \<and> sha_hex (ilLib il) b = isSHA256 inst))
     \<and> (\<forall>e. out = Inl e \<longrightarrow> dkExe d' = dkExe d \<or> e = ErrTransient \<and> \<not> si_sync (ii_swap io))"
proof (cases rule: install_cases [of il io r a current d])
  case backup
  then show ?thesis using assms backup_effect(1) [of il "ii_backup io" current d] by auto
next
  case (unsynced b v w x d1)
  then show ?thesis using assms stage_digest [OF unsynced(2)] by auto
next
  case (swapped b v w x d1 inst)
  then show ?thesis using assms stage_digest [OF swapped(2)]
      prune_effect(1) [of il "ii_list io" "ii_remove io" "d1\<lparr>dkExe := ExeRegular b\<rparr>"] by auto
qed (use assms in auto)

theorem install_swaps_only_verified_witness:
  "\<exists>inst d'. Install sample_installer (sample_install_io (seconds 9) ''1.2.0'') (sample_release ''1.2.0'') (sample_binary_artifact ''1.2.0'') ''1.1.0'' (sample_disk ''1.1.0'') = (Inr inst, d')
     \<and> (\<exists>b. dkExe d' = ExeRegular b \<and> sha_hex (ilLib sample_installer) b = isSHA256 inst)"
proof -
  let ?r = "Install sample_installer (sample_install_io (seconds 9) ''1.2.0'') (sample_release ''1.2.0'') (sample_binary_artifact ''1.2.0'') ''1.1.0'' (sample_disk ''1.1.0'')"
  have "\<not> failed (fst ?r)" by code_simp
  then obtain inst d' where r: "?r = (Inr inst, d')" by (cases ?r) (auto simp: failed_def split: sum.splits)
  with install_swaps_only_verified [OF r] show ?thesis by blast
qed



text \<open>
  When the directory cannot be synced after the rename, the new binary is in place and the answer is a
  transient failure.  The next attempt preserves the new binary under the old version, and a rollback to
  that backup is refused.
\<close>

definition unsynced_install_io :: install_io where
  "unsynced_install_io = (sample_install_io (seconds 9) ''1.2.0'')\<lparr>ii_swap := sample_swap_io\<lparr>si_sync := False\<rparr>\<rparr>"

lemma unsynced_swap_mislabels_backup:
  "let r1 = Install sample_installer unsynced_install_io (sample_release ''1.2.0'') (sample_binary_artifact ''1.2.0'') ''1.1.0'' (sample_disk ''1.1.0'');
       r2 = Install sample_installer (sample_install_io (seconds 20) ''1.2.0'') (sample_release ''1.2.0'') (sample_binary_artifact ''1.2.0'') ''1.1.0'' (snd r1);
       bk = hd (Backups (snd r2)) in
   fst r1 = Inl ErrTransient \<and> dkExe (snd r1) = ExeRegular ''1.2.0'' \<and> \<not> failed (fst r2)
     \<and> bkVersion (snd bk) = ''1.1.0'' \<and> backup_binary (snd r2) (fst bk) = Some ''1.2.0''
     \<and> failed (fst (Rollback sample_installer (sample_rollback_io (seconds 30)) bk ''1.2.0'' (snd r2)))"
  by code_simp

end
