(* ===== verification/Update_Manager.thy ===== *)
theory Update_Manager
  imports Update_Installer
begin

text \<open>
  \<^verbatim>\<open>src/internal/update/manager.go\<close>: the manager that ties the feed, the verdicts and the
  installer together and keeps the record of what the machine did.  Every
  operation runs under the manager's mutex and is one step.  Texts of errors are not modelled: a history
  entry has its code, a blocked version the reason or the error that blocked it.
\<close>

section \<open>State\<close>

datatype update_policy = PolicyManual | PolicyMandatory | PolicyAutomatic

datatype event_kind = EventChecked | EventInstalled | EventRolledBack | EventFailed | EventDeferred

record event =
  heAt :: time
  heKind :: event_kind
  heComponent :: string
  heFrom :: string
  heTo :: string
  heCode :: string

datatype block_reason = ReasonText string | ReasonError install_error

record blocked_version =
  bvVersion :: string
  bvBlockedAt :: time
  bvReason :: block_reason

datatype check_error = FeedUnavailable | EvaluationFailed update_error

record update_state =
  usSchema :: int
  usComponent :: string
  usLastCheckedAt :: "time option"
  usLastCheckError :: "check_error option"
  usLastInstalled :: "installed option"
  usPending :: string
  usBlocked :: "blocked_version list"
  usHistory :: "event list"

record check_result =
  crCheckedAt :: time
  crPending :: string
  crAvailable :: "evaluation option"
  crEvaluations :: "evaluation list"

text \<open>\<open>mgFile\<close> is the state file, \<open>mgDisk\<close> the executable and its backups.\<close>

record manager =
  mgInstallation :: installation
  mgRing :: key_ring
  mgInstaller :: installer
  mgPolicy :: update_policy
  mgInterval :: duration
  mgState :: update_state
  mgLastCheck :: "check_result option"
  mgFile :: "update_state option"
  mgDisk :: update_disk

datatype manager_error =
  CheckFailed check_error | PersistFailed | NoApplicableRelease | BadRequest version_error | NotApplicable "skip_code option" | NotInFeed
  | InstallFailed install_error | BackupsUnreadable | NoBackup | NoSuchBackup | NotBlocked | NilArtifact

text \<open>The readings of the clock, the feed document, the control plane's protocol, and whether the state file can be written.\<close>

record check_io =
  ck_now :: time
  ck_feed :: "feed option"
  ck_peer :: "int option"
  ck_at :: time
  ck_write :: bool

record apply_io =
  ap_check :: check_io
  ap_peer :: "int option"
  ap_install :: install_io
  ap_at :: time
  ap_write :: bool

section \<open>Reading and writing the state\<close>

definition default_check_interval :: duration where
  "default_check_interval = hours 6"

definition minimum_check_interval :: duration where
  "minimum_check_interval = seconds 900"

definition maximum_history :: nat where
  "maximum_history = 100"

definition sameVersion :: "string \<Rightarrow> string \<Rightarrow> bool" where
  "sameVersion a b \<longleftrightarrow> (case (ParseVersion a, ParseVersion b) of (Inr v, Inr w) \<Rightarrow> SameRelease v w | _ \<Rightarrow> trim_space a = trim_space b)"

definition empty_state :: "string \<Rightarrow> update_state" where
  "empty_state component = \<lparr>usSchema = 1, usComponent = component, usLastCheckedAt = None, usLastCheckError = None, usLastInstalled = None,
     usPending = [], usBlocked = [], usHistory = []\<rparr>"

definition load_state :: "installation \<Rightarrow> update_state option \<Rightarrow> update_state option" where
  "load_state i stored =
     (case stored of None \<Rightarrow> Some (empty_state (inComponent i))
      | Some s \<Rightarrow>
      if usSchema s \<noteq> 1 then None
      else if usComponent s \<noteq> [] \<and> usComponent s \<noteq> inComponent i then None
      else Some (s\<lparr>usComponent := inComponent i, usPending := (if usPending s \<noteq> [] \<and> sameVersion (usPending s) (inVersion i) then [] else usPending s)\<rparr>))"

definition NewManager :: "installation \<Rightarrow> key_ring \<Rightarrow> installer \<Rightarrow> string \<Rightarrow> string \<Rightarrow> duration \<Rightarrow> update_state option \<Rightarrow> update_disk \<Rightarrow> manager option" where
  "NewManager i0 ring il state_path policy interval stored d =
     (case validate_installation i0 of Inl _ \<Rightarrow> None | Inr i \<Rightarrow>
      if ilComponent il \<noteq> inComponent i then None
      else if \<not> is_abs_path state_path then None
      else if policy \<notin> {[], ''manual'', ''mandatory'', ''automatic''} then None
      else let every = (if interval \<le> 0 then default_check_interval else interval) in
      if every < minimum_check_interval then None
      else case load_state i stored of None \<Rightarrow> None | Some s \<Rightarrow>
        Some \<lparr>mgInstallation = i, mgRing = ring, mgInstaller = il,
              mgPolicy = (if policy = ''mandatory'' then PolicyMandatory else if policy = ''automatic'' then PolicyAutomatic else PolicyManual),
              mgInterval = every, mgState = s, mgLastCheck = None, mgFile = stored, mgDisk = d\<rparr>)"

definition effectiveInstallation :: "int option \<Rightarrow> manager \<Rightarrow> installation" where
  "effectiveInstallation peer m =
     (let i = (case peer of Some p \<Rightarrow> if 0 < p then (mgInstallation m)\<lparr>inPeerProtocol := p\<rparr> else mgInstallation m | None \<Rightarrow> mgInstallation m) in
      if usPending (mgState m) = [] then i
      else case (ParseVersion (inVersion i), ParseVersion (usPending (mgState m))) of
        (Inr running, Inr pending) \<Rightarrow> if Precedes running pending then i\<lparr>inVersion := version_string pending\<rparr> else i
      | _ \<Rightarrow> i)"

definition persist_state :: "bool \<Rightarrow> manager \<Rightarrow> bool \<times> manager" where
  "persist_state ok m =
     (let s = (mgState m)\<lparr>usHistory := drop (length (usHistory (mgState m)) - maximum_history) (usHistory (mgState m))\<rparr> in
      (ok, m\<lparr>mgState := s, mgFile := (if ok then Some s else mgFile m)\<rparr>))"

definition record_event :: "time \<Rightarrow> event_kind \<Rightarrow> string \<Rightarrow> string \<Rightarrow> string \<Rightarrow> manager \<Rightarrow> manager" where
  "record_event t k from to code m =
     m\<lparr>mgState := (mgState m)\<lparr>usHistory := usHistory (mgState m)
        @ [\<lparr>heAt = t, heKind = k, heComponent = inComponent (mgInstallation m), heFrom = from, heTo = to, heCode = code\<rparr>]\<rparr>\<rparr>"

fun reblock :: "time \<Rightarrow> string \<Rightarrow> block_reason \<Rightarrow> blocked_version list \<Rightarrow> blocked_version list option" where
  "reblock t v r [] = None"
| "reblock t v r (b # bs) =
     (if bvVersion b = v then Some (b\<lparr>bvReason := r, bvBlockedAt := t\<rparr> # bs) else map_option (\<lambda>cs. b # cs) (reblock t v r bs))"

definition blockLocked :: "time \<Rightarrow> string \<Rightarrow> block_reason \<Rightarrow> manager \<Rightarrow> manager" where
  "blockLocked t v reason m =
     (if v = [] then m
      else let r = (if reason = ReasonText [] then ReasonText ''blocked on this machine'' else reason); bs = usBlocked (mgState m) in
      m\<lparr>mgState := (mgState m)\<lparr>usBlocked := (case reblock t v r bs of Some cs \<Rightarrow> cs
         | None \<Rightarrow> sort_key bvVersion (bs @ [\<lparr>bvVersion = v, bvBlockedAt = t, bvReason = r\<rparr>]))\<rparr>\<rparr>)"

section \<open>Checking\<close>

definition applyBlocks :: "blocked_version list \<Rightarrow> evaluation list \<Rightarrow> evaluation list" where
  "applyBlocks bs es = map (\<lambda>e. if evVersion e \<in> bvVersion ` set bs \<and> evApplicable e then skip SkipBlocked e else e) es"

definition set_check :: "time \<Rightarrow> check_error option \<Rightarrow> manager \<Rightarrow> manager" where
  "set_check t e m = m\<lparr>mgState := (mgState m)\<lparr>usLastCheckedAt := Some t, usLastCheckError := e\<rparr>\<rparr>"

definition fetch_feed :: "update_lib \<Rightarrow> feed option \<Rightarrow> feed option" where
  "fetch_feed lib document = (case document of None \<Rightarrow> None | Some f \<Rightarrow> (case validate_feed lib f of Inl _ \<Rightarrow> None | Inr g \<Rightarrow> Some g))"

definition checkLocked :: "check_io \<Rightarrow> manager \<Rightarrow> (manager_error, check_result) outcome \<times> manager" where
  "checkLocked io m =
     (case fetch_feed (ilLib (mgInstaller m)) (ck_feed io) of
        None \<Rightarrow>
          (case persist_state (ck_write io) (record_event (ck_at io) EventFailed [] [] ''FEED_UNAVAILABLE'' (set_check (ck_now io) (Some FeedUnavailable) m)) of
             (ok, m1) \<Rightarrow> (Inl (if ok then CheckFailed FeedUnavailable else PersistFailed), m1))
      | Some f \<Rightarrow>
     (case Evaluate (ilLib (mgInstaller m)) f (effectiveInstallation (ck_peer io) m) (mgRing m) (ck_now io) of
        Inl e \<Rightarrow>
          (case persist_state (ck_write io) (set_check (ck_now io) (Some (EvaluationFailed e)) m) of
             (ok, m1) \<Rightarrow> (Inl (if ok then CheckFailed (EvaluationFailed e) else PersistFailed), m1))
      | Inr es0 \<Rightarrow>
     (let es = applyBlocks (usBlocked (mgState m)) es0;
          result = \<lparr>crCheckedAt = ck_now io, crPending = usPending (mgState m), crAvailable = Select es, crEvaluations = es\<rparr>;
          detail = (case Select es of None \<Rightarrow> ''no newer release'' | Some e \<Rightarrow> evVersion e) in
      case persist_state (ck_write io) (record_event (ck_at io) EventChecked (inVersion (mgInstallation m)) detail [] (set_check (ck_now io) None m)) of
        (ok, m1) \<Rightarrow> if ok then (Inr result, m1\<lparr>mgLastCheck := Some result\<rparr>) else (Inl PersistFailed, m1))))"

section \<open>Applying and rolling back\<close>

definition same_release_as :: "version \<Rightarrow> evaluation \<Rightarrow> bool" where
  "same_release_as v e \<longleftrightarrow> (case ParseVersion (evVersion e) of Inl _ \<Rightarrow> False | Inr w \<Rightarrow> SameRelease w v)"

definition choose_release :: "check_result \<Rightarrow> string \<Rightarrow> (manager_error, evaluation) outcome" where
  "choose_release result v =
     (if v = [] then (case crAvailable result of None \<Rightarrow> Inl NoApplicableRelease | Some e \<Rightarrow> Inr e)
      else case ParseVersion v of Inl e \<Rightarrow> Inl (BadRequest e) | Inr requested \<Rightarrow>
     (case find (same_release_as requested) (crEvaluations result) of None \<Rightarrow> Inl NotInFeed
      | Some e \<Rightarrow> if evApplicable e then Inr e else Inl (NotApplicable (evCode e))))"

definition pending_after :: "installed \<Rightarrow> manager \<Rightarrow> string" where
  "pending_after inst m = (if sameVersion (isVersion inst) (inVersion (mgInstallation m)) then [] else isVersion inst)"

definition note_installed :: "installed \<Rightarrow> manager \<Rightarrow> manager" where
  "note_installed inst m = m\<lparr>mgState := (mgState m)\<lparr>usLastInstalled := Some inst, usPending := pending_after inst m\<rparr>\<rparr>"

definition Apply :: "apply_io \<Rightarrow> string \<Rightarrow> manager \<Rightarrow> (manager_error, installed) outcome \<times> manager" where
  "Apply io v m0 =
     (case checkLocked (ap_check io) m0 of (Inl e, m) \<Rightarrow> (Inl e, m) | (Inr result, m) \<Rightarrow>
     (case choose_release result (trim_space v) of Inl e \<Rightarrow> (Inl e, m) | Inr chosen \<Rightarrow>
     (case evArtifact chosen of None \<Rightarrow> (Inl NilArtifact, m) | Some a \<Rightarrow>
     (let running = inVersion (mgInstallation m);
          on_disk = inVersion (effectiveInstallation (ap_peer io) m) in
      case Install (mgInstaller m) (ap_install io) (evRelease chosen) a on_disk (mgDisk m) of
        (Inl e, d) \<Rightarrow>
          (let m1 = m\<lparr>mgDisk := d\<rparr>;
               m2 = (if e = ErrNotReady then record_event (ap_at io) EventDeferred running (evVersion chosen) ''BUSY'' m1
                     else if e = ErrTransient then record_event (ap_at io) EventFailed running (evVersion chosen) ''INSTALL_RETRYABLE'' m1
                     else record_event (ap_at io) EventFailed running (evVersion chosen) ''INSTALL_FAILED''
                            (blockLocked (ap_at io) (evVersion chosen) (ReasonError e) m1)) in
           case persist_state (ap_write io) m2 of (ok, m3) \<Rightarrow> (Inl (if ok then InstallFailed e else PersistFailed), m3))
      | (Inr inst, d) \<Rightarrow>
          (case persist_state (ap_write io) (record_event (ap_at io) EventInstalled (isPrevious inst) (isVersion inst) [] (note_installed inst (m\<lparr>mgDisk := d\<rparr>))) of
             (ok, m1) \<Rightarrow> (Inr (inst\<lparr>isCleanupWarning := (isCleanupWarning inst \<or> \<not> ok)\<rparr>), m1))))))"

record undo_io =
  un_list :: bool
  un_peer :: "int option"
  un_rollback :: rollback_io
  un_at :: time
  un_write :: bool

definition rollback_target :: "string \<Rightarrow> (string \<times> backup) list \<Rightarrow> (manager_error, string \<times> backup) outcome" where
  "rollback_target i bs =
     (if bs = [] then Inl NoBackup
      else if trim_space i = [] then Inr (hd bs)
      else case find (\<lambda>p. bkID (snd p) = trim_space i) bs of None \<Rightarrow> Inl NoSuchBackup | Some p \<Rightarrow> Inr p)"

definition manager_rollback :: "undo_io \<Rightarrow> string \<Rightarrow> manager \<Rightarrow> (manager_error, installed) outcome \<times> manager" where
  "manager_rollback io i m =
     (if \<not> un_list io then (Inl BackupsUnreadable, m)
      else case rollback_target i (Backups (mgDisk m)) of Inl e \<Rightarrow> (Inl e, m) | Inr target \<Rightarrow>
     (let current = inVersion (effectiveInstallation (un_peer io) m) in
      case Rollback (mgInstaller m) (un_rollback io) target current (mgDisk m) of
        (Inl e, d) \<Rightarrow>
          (case persist_state (un_write io) (record_event (un_at io) EventFailed current (bkVersion (snd target)) ''ROLLBACK_FAILED'' (m\<lparr>mgDisk := d\<rparr>)) of
             (ok, m1) \<Rightarrow> (Inl (if ok then InstallFailed e else PersistFailed), m1))
      | (Inr inst, d) \<Rightarrow>
          (let m1 = m\<lparr>mgDisk := d\<rparr>;
               m2 = (if current \<noteq> [] \<and> current \<noteq> isVersion inst then blockLocked (un_at io) current (ReasonText ''rolled back on this machine'') m1 else m1) in
           case persist_state (un_write io) (record_event (un_at io) EventRolledBack current (isVersion inst) [] (note_installed inst m2)) of
             (ok, m3) \<Rightarrow> if ok then (Inr inst, m3) else (Inl PersistFailed, m3))))"

definition Block :: "time \<Rightarrow> bool \<Rightarrow> string \<Rightarrow> string \<Rightarrow> manager \<Rightarrow> manager_error option \<times> manager" where
  "Block t write v reason m =
     (case ParseVersion v of Inl e \<Rightarrow> (Some (BadRequest e), m)
      | Inr p \<Rightarrow> (case persist_state write (blockLocked t (version_string p) (ReasonText (trim_space reason)) m) of
          (ok, m1) \<Rightarrow> (if ok then None else Some PersistFailed, m1)))"

definition Unblock :: "bool \<Rightarrow> string \<Rightarrow> manager \<Rightarrow> manager_error option \<times> manager" where
  "Unblock write v m =
     (case ParseVersion v of Inl e \<Rightarrow> (Some (BadRequest e), m)
      | Inr p \<Rightarrow>
      if version_string p \<notin> bvVersion ` set (usBlocked (mgState m)) then (Some NotBlocked, m)
      else case persist_state write (m\<lparr>mgState := (mgState m)\<lparr>usBlocked := filter (\<lambda>b. bvVersion b \<noteq> version_string p) (usBlocked (mgState m))\<rparr>\<rparr>) of
          (ok, m1) \<Rightarrow> (if ok then None else Some PersistFailed, m1))"

definition runOnce :: "check_io \<Rightarrow> apply_io \<Rightarrow> manager \<Rightarrow> manager" where
  "runOnce io ap m =
     (case checkLocked io m of (Inl _, m1) \<Rightarrow> m1 | (Inr result, m1) \<Rightarrow>
      (case (case mgPolicy m1 of PolicyManual \<Rightarrow> None | PolicyMandatory \<Rightarrow> SelectMandatory (crEvaluations result)
               | PolicyAutomatic \<Rightarrow> crAvailable result) of
         None \<Rightarrow> m1 | Some e \<Rightarrow> snd (Apply ap (evVersion e) m1)))"


section \<open>What the steps leave alone\<close>

lemma persist_frame [simp]:
  "mgInstallation (snd (persist_state ok m)) = mgInstallation m" "mgRing (snd (persist_state ok m)) = mgRing m"
  "mgInstaller (snd (persist_state ok m)) = mgInstaller m" "mgDisk (snd (persist_state ok m)) = mgDisk m"
  "usPending (mgState (snd (persist_state ok m))) = usPending (mgState m)" "usBlocked (mgState (snd (persist_state ok m))) = usBlocked (mgState m)"
  "fst (persist_state ok m) = ok"
  by (simp_all add: persist_state_def Let_def)

lemma record_frame [simp]:
  "mgInstallation (record_event t k a b c m) = mgInstallation m" "mgRing (record_event t k a b c m) = mgRing m"
  "mgInstaller (record_event t k a b c m) = mgInstaller m" "mgDisk (record_event t k a b c m) = mgDisk m"
  "usPending (mgState (record_event t k a b c m)) = usPending (mgState m)" "usBlocked (mgState (record_event t k a b c m)) = usBlocked (mgState m)"
  by (simp_all add: record_event_def)

lemma set_check_frame [simp]:
  "mgInstallation (set_check t e m) = mgInstallation m" "mgRing (set_check t e m) = mgRing m"
  "mgInstaller (set_check t e m) = mgInstaller m" "mgDisk (set_check t e m) = mgDisk m"
  "usPending (mgState (set_check t e m)) = usPending (mgState m)" "usBlocked (mgState (set_check t e m)) = usBlocked (mgState m)"
  by (simp_all add: set_check_def)

lemma block_frame [simp]:
  "mgInstallation (blockLocked t v r m) = mgInstallation m" "mgRing (blockLocked t v r m) = mgRing m"
  "mgInstaller (blockLocked t v r m) = mgInstaller m" "mgDisk (blockLocked t v r m) = mgDisk m"
  by (simp_all add: blockLocked_def Let_def)

lemma note_frame [simp]:
  "mgInstallation (note_installed i m) = mgInstallation m" "mgRing (note_installed i m) = mgRing m"
  "mgInstaller (note_installed i m) = mgInstaller m" "mgDisk (note_installed i m) = mgDisk m"
  "usPending (mgState (note_installed i m)) = pending_after i m"
  by (simp_all add: note_installed_def)

lemma persist_pair: "persist_state ok m = (ok, snd (persist_state ok m))"
  by (simp add: persist_state_def Let_def)

lemma checked:
  assumes "checkLocked io m = (out, m1)"
  shows "mgInstallation m1 = mgInstallation m" "mgRing m1 = mgRing m" "mgInstaller m1 = mgInstaller m" "mgDisk m1 = mgDisk m"
    "usPending (mgState m1) = usPending (mgState m)" "usBlocked (mgState m1) = usBlocked (mgState m)"
    and "out = Inr result \<Longrightarrow> \<exists>f es. fetch_feed (ilLib (mgInstaller m)) (ck_feed io) = Some f
       \<and> Evaluate (ilLib (mgInstaller m)) f (effectiveInstallation (ck_peer io) m) (mgRing m) (ck_now io) = Inr es
       \<and> crEvaluations result = applyBlocks (usBlocked (mgState m)) es \<and> crAvailable result = Select (crEvaluations result)"
proof -
  let ?p = "persist_state (ck_write io)"
  have eq: "(out, m1) = (case fetch_feed (ilLib (mgInstaller m)) (ck_feed io) of
        None \<Rightarrow> (Inl (if ck_write io then CheckFailed FeedUnavailable else PersistFailed),
            snd (?p (record_event (ck_at io) EventFailed [] [] ''FEED_UNAVAILABLE'' (set_check (ck_now io) (Some FeedUnavailable) m))))
      | Some f \<Rightarrow>
     (case Evaluate (ilLib (mgInstaller m)) f (effectiveInstallation (ck_peer io) m) (mgRing m) (ck_now io) of
        Inl e \<Rightarrow> (Inl (if ck_write io then CheckFailed (EvaluationFailed e) else PersistFailed), snd (?p (set_check (ck_now io) (Some (EvaluationFailed e)) m)))
      | Inr es0 \<Rightarrow>
     (let es = applyBlocks (usBlocked (mgState m)) es0;
          result = \<lparr>crCheckedAt = ck_now io, crPending = usPending (mgState m), crAvailable = Select es, crEvaluations = es\<rparr>;
          m2 = snd (?p (record_event (ck_at io) EventChecked (inVersion (mgInstallation m))
                 (case Select es of None \<Rightarrow> ''no newer release'' | Some e \<Rightarrow> evVersion e) [] (set_check (ck_now io) None m))) in
      if ck_write io then (Inr result, m2\<lparr>mgLastCheck := Some result\<rparr>) else (Inl PersistFailed, m2))))"
    unfolding assms [symmetric] checkLocked_def Let_def by (subst (1 2 3) persist_pair) (simp cong: option.case_cong sum.case_cong)
  show "mgInstallation m1 = mgInstallation m" "mgRing m1 = mgRing m" "mgInstaller m1 = mgInstaller m" "mgDisk m1 = mgDisk m"
    "usPending (mgState m1) = usPending (mgState m)" "usBlocked (mgState m1) = usBlocked (mgState m)"
    using eq by (auto simp: Let_def split: option.splits sum.splits if_splits)
  show "\<exists>f es. fetch_feed (ilLib (mgInstaller m)) (ck_feed io) = Some f
       \<and> Evaluate (ilLib (mgInstaller m)) f (effectiveInstallation (ck_peer io) m) (mgRing m) (ck_now io) = Inr es
       \<and> crEvaluations result = applyBlocks (usBlocked (mgState m)) es \<and> crAvailable result = Select (crEvaluations result)" if "out = Inr result"
    using eq that by (auto simp: Let_def split: option.splits sum.splits if_splits)
qed

section \<open>The release that is applied\<close>

lemma parse_revoked_again: "parse_revoked ss = Inr vs \<Longrightarrow> parse_revoked vs = Inr vs"
  by (induction ss arbitrary: vs) (auto simp: parse_printed [OF parsed_version_ok] split: sum.splits)

lemma validate_releases_again: "validate_releases lib ch i ss = Inr rs \<Longrightarrow> validate_releases lib ch j rs = Inr rs"
proof (induction ss arbitrary: i j rs)
  case (Cons s ss)
  then obtain r rest where r: "validate_release lib (srRelease s) = Inr r" "rlChannel r = ch" "srSignatures s \<noteq> []"
      "validate_releases lib ch (Suc i) ss = Inr rest" "rs = s\<lparr>srRelease := r\<rparr> # rest"
    by (auto split: sum.splits if_splits)
  from Cons.IH [OF r(4), of "Suc j"] r validated_again [OF r(1)] show ?case by simp
qed simp

lemma validate_feed_again:
  assumes "validate_feed lib f0 = Inr f"
  shows "validate_feed lib f = Inr f"
proof -
  from assms obtain rv rs where f: "fdVersion f0 = 1" "channel_valid (lower_trim (fdChannel f0))" "parse_revoked (fdRevoked f0) = Inr rv"
      "validate_releases lib (lower_trim (fdChannel f0)) 0 (fdReleases f0) = Inr rs"
      "f = f0\<lparr>fdChannel := lower_trim (fdChannel f0), fdRevoked := rv, fdReleases := rs\<rparr>"
    by (auto simp: validate_feed_def Let_def split: if_splits sum.splits)
  then show ?thesis using parse_revoked_again [OF f(3)] validate_releases_again [OF f(4), of 0] by (simp add: validate_feed_def Let_def)
qed

lemma feed_release_valid: "validate_feed lib f0 = Inr f \<Longrightarrow> sr \<in> set (fdReleases f) \<Longrightarrow> \<exists>r0. validate_release lib r0 = Inr (srRelease sr)"
  by (auto simp: validate_feed_def Let_def split: if_splits sum.splits dest: validated_releases)

lemma fetched_feed: "fetch_feed lib doc = Some f \<Longrightarrow> validate_feed lib f = Inr f"
  by (auto simp: fetch_feed_def dest: validate_feed_again split: option.splits sum.splits)

lemma unblocked:
  assumes "e \<in> set (applyBlocks bs es)" "evApplicable e"
  shows "e \<in> set es" "evVersion e \<notin> bvVersion ` set bs"
  using assms by (auto simp: applyBlocks_def skip_def split: if_splits)

lemma chosen_applicable:
  assumes "choose_release result v = Inr e" "crAvailable result = Select (crEvaluations result)"
  shows "e \<in> set (crEvaluations result)" "evApplicable e"
  using assms by (auto simp: choose_release_def Select_def find_Some_iff split: if_splits option.splits sum.splits)

definition sanctioned :: "update_lib \<Rightarrow> key_ring \<Rightarrow> feed option \<Rightarrow> string set" where
  "sanctioned lib ring doc =
     (case fetch_feed lib doc of None \<Rightarrow> {}
      | Some f \<Rightarrow> (\<Union>sr\<in>{sr \<in> set (fdReleases f). vouched lib ring sr}. arBinarySHA256 ` set (rlArtifacts (srRelease sr))))"

lemma evaluate_installation: "Evaluate lib f i0 ring now = Inr es \<Longrightarrow> \<exists>i. validate_installation i0 = Inr i"
  by (auto simp: Evaluate_def split: sum.splits)

text \<open>What is known of the evaluation an \<open>Apply\<close> installs.\<close>

lemma chosen_facts:
  assumes ck: "checkLocked io m = (Inr result, m1)" and ch: "choose_release result v = Inr e"
  obtains f i installed sr w a where "fetch_feed (ilLib (mgInstaller m)) (ck_feed io) = Some f" "sr \<in> set (fdReleases f)"
    and "vouched (ilLib (mgInstaller m)) (mgRing m) sr" "evRelease e = srRelease sr" "evArtifact e = Some a" "a \<in> set (rlArtifacts (srRelease sr))"
    and "validate_installation (effectiveInstallation (ck_peer io) m) = Inr i" "ParseVersion (inVersion i) = Inr installed"
    and "ParseVersion (rlVersion (srRelease sr)) = Inr w" "rlVersion (srRelease sr) = version_string w"
    and "inAllowDowngrade i \<or> precedence installed < precedence w" "rlVersion (srRelease sr) \<notin> bvVersion ` set (usBlocked (mgState m))"
proof -
  let ?lib = "ilLib (mgInstaller m)" and ?i0 = "effectiveInstallation (ck_peer io) m"
  obtain f es where f: "fetch_feed ?lib (ck_feed io) = Some f" "Evaluate ?lib f ?i0 (mgRing m) (ck_now io) = Inr es"
    and r: "crEvaluations result = applyBlocks (usBlocked (mgState m)) es" "crAvailable result = Select (crEvaluations result)"
    using checked(7) [OF ck refl] by blast
  have e: "e \<in> set es" "evVersion e \<notin> bvVersion ` set (usBlocked (mgState m))" "evApplicable e"
    using unblocked [of e "usBlocked (mgState m)" es] chosen_applicable [OF ch r(2)] r(1) by auto
  obtain i where i: "validate_installation ?i0 = Inr i" using evaluate_installation [OF f(2)] by blast
  obtain installed where v: "ParseVersion (inVersion i) = Inr installed"
    and s: "set es = (\<lambda>sr. evaluateRelease ?lib f sr i installed (mgRing m) (ck_now io)) ` set (fdReleases f)"
    using evaluated [OF f(2) fetched_feed [OF f(1)] i] by metis
  from s e(1) obtain sr where sr: "sr \<in> set (fdReleases f)" "e = evaluateRelease ?lib f sr i installed (mgRing m) (ck_now io)" by auto
  have su: "suits ?lib (mgRing m) f i installed (ck_now io) sr" using e(3) sr(2) applicable_iff [OF i] by simp
  obtain a where a: "evArtifact e = Some a" "a \<in> set (rlArtifacts (srRelease sr))"
    using applicable_artifact [OF i, of ?lib f sr installed "mgRing m" "ck_now io"] e(3) sr(2) by metis
  have "\<exists>r0. validate_release ?lib r0 = Inr (srRelease sr)"
    by (rule feed_release_valid [OF fetched_feed [OF f(1)] sr(1)])
  then obtain w where w: "ParseVersion (rlVersion (srRelease sr)) = Inr w" "rlVersion (srRelease sr) = version_string w"
    by (auto elim: validated_release)
  show ?thesis
    by (rule that [OF f(1) sr(1) _ _ a i v w]) (use su sr e(2) w in \<open>auto simp: suits_def Let_def evaluate_release_fields\<close>)
qed

section \<open>Only sanctioned binaries\<close>

lemma apply_cases:
  obtains (refused) m e where "Apply io v m0 = (Inl e, m)" "mgDisk m = mgDisk m0" "mgRing m = mgRing m0" "mgInstaller m = mgInstaller m0"
      "mgInstallation m = mgInstallation m0"
  | (attempted) result m e a res d m' where "checkLocked (ap_check io) m0 = (Inr result, m)" "choose_release result (trim_space v) = Inr e" "evArtifact e = Some a"
      "Install (mgInstaller m0) (ap_install io) (evRelease e) a (inVersion (effectiveInstallation (ap_peer io) m)) (mgDisk m0) = (res, d)"
      "snd (Apply io v m0) = m'" "mgDisk m' = d" "mgRing m' = mgRing m0" "mgInstaller m' = mgInstaller m0" "mgInstallation m' = mgInstallation m0"
      "\<And>x. fst (Apply io v m0) = Inr x \<Longrightarrow> \<exists>inst. res = Inr inst \<and> isVersion x = isVersion inst \<and> usPending (mgState m') = pending_after inst m0"
proof -
  obtain out m where ck: "checkLocked (ap_check io) m0 = (out, m)" by fastforce
  note fr = checked(1-4) [OF ck]
  show ?thesis
  proof (cases out)
    case (Inl e)
    then show ?thesis using refused ck fr by (simp add: Apply_def)
  next
    case (Inr result)
    show ?thesis
    proof (cases "choose_release result (trim_space v)")
      case (Inl e)
      then show ?thesis using refused ck fr Inr by (simp add: Apply_def)
    next
      case ch: (Inr e)
      show ?thesis
      proof (cases "evArtifact e")
        case None
        then show ?thesis using refused ck fr Inr ch by (simp add: Apply_def)
      next
        case (Some a)
        obtain res d where ins: "Install (mgInstaller m0) (ap_install io) (evRelease e) a (inVersion (effectiveInstallation (ap_peer io) m)) (mgDisk m0) = (res, d)"
          by fastforce
        show ?thesis
        proof (rule attempted [OF _ ch Some ins refl])
          show "checkLocked (ap_check io) m0 = (Inr result, m)" using ck Inr by simp
        qed (use ck Inr ch Some ins fr in \<open>auto simp: Apply_def Let_def pending_after_def persist_state_def note_installed_def record_event_def blockLocked_def split: sum.splits\<close>)
      qed
    qed
  qed
qed

lemma apply_known:
  fixes io :: apply_io and v :: string and m :: manager
  assumes "disk_ok (mgDisk m)"
  defines "m' \<equiv> snd (Apply io v m)"
  shows "disk_ok (mgDisk m')" "mgRing m' = mgRing m" "mgInstaller m' = mgInstaller m"
    "known (ilLib (mgInstaller m)) (mgDisk m') \<subseteq> known (ilLib (mgInstaller m)) (mgDisk m)
       \<union> sanctioned (ilLib (mgInstaller m)) (mgRing m) (ck_feed (ap_check io))"
proof -
  have "disk_ok (mgDisk m') \<and> mgRing m' = mgRing m \<and> mgInstaller m' = mgInstaller m
     \<and> known (ilLib (mgInstaller m)) (mgDisk m') \<subseteq> known (ilLib (mgInstaller m)) (mgDisk m)
         \<union> sanctioned (ilLib (mgInstaller m)) (mgRing m) (ck_feed (ap_check io))"
  proof (cases rule: apply_cases [of io v m])
    case (refused m1 e)
    then show ?thesis using assms(1) by (simp add: m'_def)
  next
    case (attempted result m1 e a res d m2)
    from chosen_facts [OF attempted(1,2)] attempted(3) obtain f sr where
      f: "fetch_feed (ilLib (mgInstaller m)) (ck_feed (ap_check io)) = Some f" "sr \<in> set (fdReleases f)"
         "vouched (ilLib (mgInstaller m)) (mgRing m) sr" "a \<in> set (rlArtifacts (srRelease sr))"
      by (metis option.inject)
    then have "arBinarySHA256 a \<in> sanctioned (ilLib (mgInstaller m)) (mgRing m) (ck_feed (ap_check io))"
      by (auto simp: sanctioned_def)
    then show ?thesis using install_known [OF attempted(4)] attempted(5-8) assms(1) by (auto simp: m'_def)
  qed
  then show "disk_ok (mgDisk m')" "mgRing m' = mgRing m" "mgInstaller m' = mgInstaller m"
    "known (ilLib (mgInstaller m)) (mgDisk m') \<subseteq> known (ilLib (mgInstaller m)) (mgDisk m)
       \<union> sanctioned (ilLib (mgInstaller m)) (mgRing m) (ck_feed (ap_check io))" by blast+
qed

lemma target_listed: "rollback_target i bs = Inr p \<Longrightarrow> p \<in> set bs"
  by (auto simp: rollback_target_def find_Some_iff split: if_splits option.splits)

lemma undo_known:
  fixes io :: undo_io and i :: string and m :: manager
  assumes "disk_ok (mgDisk m)"
  defines "m' \<equiv> snd (manager_rollback io i m)"
  shows "disk_ok (mgDisk m')" "mgRing m' = mgRing m" "mgInstaller m' = mgInstaller m"
    "known (ilLib (mgInstaller m)) (mgDisk m') \<subseteq> known (ilLib (mgInstaller m)) (mgDisk m)"
proof -
  have "disk_ok (mgDisk m') \<and> mgRing m' = mgRing m \<and> mgInstaller m' = mgInstaller m
     \<and> known (ilLib (mgInstaller m)) (mgDisk m') \<subseteq> known (ilLib (mgInstaller m)) (mgDisk m)"
  proof (cases "un_list io \<and> (\<exists>p. rollback_target i (Backups (mgDisk m)) = Inr p)")
    case False
    then have "m' = m" by (auto simp: m'_def manager_rollback_def split: sum.splits)
    then show ?thesis using assms(1) by simp
  next
    case True
    then obtain n bk where t: "un_list io" "rollback_target i (Backups (mgDisk m)) = Inr (n, bk)" by (metis surj_pair)
    obtain res d where r: "Rollback (mgInstaller m) (un_rollback io) (n, bk) (inVersion (effectiveInstallation (un_peer io) m)) (mgDisk m) = (res, d)"
      by fastforce
    have "(n, bk) \<in> metas (mgDisk m)"
      using listed_metas [OF target_listed [OF t(2)]] assms(1) by (simp add: disk_ok_def)
    note k = rollback_known [OF r this]
    have "mgDisk m' = d" "mgRing m' = mgRing m" "mgInstaller m' = mgInstaller m"
      using t r by (auto simp: m'_def manager_rollback_def Let_def persist_state_def record_event_def note_installed_def blockLocked_def split: sum.splits)
    then show ?thesis using k assms(1) by simp
  qed
  then show "disk_ok (mgDisk m')" "mgRing m' = mgRing m" "mgInstaller m' = mgInstaller m"
    "known (ilLib (mgInstaller m)) (mgDisk m') \<subseteq> known (ilLib (mgInstaller m)) (mgDisk m)" by blast+
qed

text \<open>
  The operations on a manager in any order.  A restart loads the state file and runs the version that
  is compiled into the executable; when the manager cannot be built the agent does not start.
\<close>

datatype update_op =
  OpCheck check_io | OpApply string apply_io | OpRollback string undo_io | OpBlock time bool string string | OpUnblock bool string
  | OpRun check_io apply_io | OpRestart string

definition policy_text :: "update_policy \<Rightarrow> string" where
  "policy_text p = (case p of PolicyManual \<Rightarrow> ''manual'' | PolicyMandatory \<Rightarrow> ''mandatory'' | PolicyAutomatic \<Rightarrow> ''automatic'')"

definition restart :: "string \<Rightarrow> manager \<Rightarrow> manager" where
  "restart v m =
     (case NewManager ((mgInstallation m)\<lparr>inVersion := v\<rparr>) (mgRing m) (mgInstaller m) ''/'' (policy_text (mgPolicy m)) (mgInterval m) (mgFile m) (mgDisk m) of
        None \<Rightarrow> m | Some m1 \<Rightarrow> m1)"

definition update_step :: "update_op \<Rightarrow> manager \<Rightarrow> manager" where
  "update_step op m =
     (case op of OpCheck io \<Rightarrow> snd (checkLocked io m) | OpApply v io \<Rightarrow> snd (Apply io v m) | OpRollback i io \<Rightarrow> snd (manager_rollback io i m)
      | OpBlock t w v r \<Rightarrow> snd (Block t w v r m) | OpUnblock w v \<Rightarrow> snd (Unblock w v m)
      | OpRun io ap \<Rightarrow> runOnce io ap m | OpRestart v \<Rightarrow> restart v m)"

definition op_document :: "update_op \<Rightarrow> feed option" where
  "op_document op = (case op of OpApply v io \<Rightarrow> ck_feed (ap_check io) | OpRun io ap \<Rightarrow> ck_feed (ap_check ap) | _ \<Rightarrow> None)"

lemma step_known:
  fixes op :: update_op and m :: manager
  assumes ok: "disk_ok (mgDisk m)"
  defines "m' \<equiv> update_step op m"
  shows "disk_ok (mgDisk m')" "mgRing m' = mgRing m" "mgInstaller m' = mgInstaller m"
    "known (ilLib (mgInstaller m)) (mgDisk m') \<subseteq> known (ilLib (mgInstaller m)) (mgDisk m)
       \<union> sanctioned (ilLib (mgInstaller m)) (mgRing m) (op_document op)"
proof -
  let ?good = "\<lambda>x. disk_ok (mgDisk x) \<and> mgRing x = mgRing m \<and> mgInstaller x = mgInstaller m
     \<and> known (ilLib (mgInstaller m)) (mgDisk x) \<subseteq> known (ilLib (mgInstaller m)) (mgDisk m)
         \<union> sanctioned (ilLib (mgInstaller m)) (mgRing m) (op_document op)"
  have "?good m'"
  proof (cases op)
    case (OpCheck io)
    then show ?thesis using checked(2-4) [of io m "fst (checkLocked io m)" "snd (checkLocked io m)"] ok by (simp add: m'_def update_step_def)
  next
    case (OpApply v io)
    then show ?thesis using apply_known [OF ok, of io v] by (simp add: m'_def update_step_def op_document_def)
  next
    case (OpRollback i io)
    then show ?thesis using undo_known [OF ok, of io i] by (auto simp: m'_def update_step_def)
  next
    case (OpBlock t w v r)
    then show ?thesis using ok by (auto simp: m'_def update_step_def Block_def persist_state_def Let_def blockLocked_def split: sum.splits)
  next
    case (OpUnblock w v)
    then show ?thesis using ok by (auto simp: m'_def update_step_def Unblock_def persist_state_def Let_def split: sum.splits)
  next
    case (OpRun io ap)
    obtain out m1 where c: "checkLocked io m = (out, m1)" by fastforce
    note fr = checked(2-4) [OF c]
    have m1: "?good m1" using fr ok by simp
    have "\<exists>v. m' = m1 \<or> m' = snd (Apply ap v m1)"
      using OpRun c by (auto simp: m'_def update_step_def runOnce_def split: sum.splits option.splits)
    then obtain v where "m' = m1 \<or> m' = snd (Apply ap v m1)" by blast
    then show ?thesis
    proof
      assume "m' = snd (Apply ap v m1)"
      then show ?thesis using apply_known [of m1 ap v] m1 fr OpRun by (simp add: op_document_def)
    qed (use m1 in simp)
  next
    case (OpRestart v)
    then show ?thesis using ok by (auto simp: m'_def update_step_def restart_def NewManager_def Let_def split: sum.splits option.splits if_splits)
  qed
  then show "disk_ok (mgDisk m')" "mgRing m' = mgRing m" "mgInstaller m' = mgInstaller m"
    "known (ilLib (mgInstaller m)) (mgDisk m') \<subseteq> known (ilLib (mgInstaller m)) (mgDisk m)
       \<union> sanctioned (ilLib (mgInstaller m)) (mgRing m) (op_document op)" by blast+
qed

lemma run_known:
  assumes "disk_ok (mgDisk m)"
  shows "known (ilLib (mgInstaller m)) (mgDisk (foldl (\<lambda>x op. update_step op x) m ops))
     \<subseteq> known (ilLib (mgInstaller m)) (mgDisk m) \<union> (\<Union>op\<in>set ops. sanctioned (ilLib (mgInstaller m)) (mgRing m) (op_document op))"
  using assms
proof (induction ops arbitrary: m)
  case (Cons op ops)
  note s = step_known [OF Cons.prems, of op]
  from Cons.IH [OF s(1)] s show ?case by auto
qed simp

section \<open>Applying only ever upgrades\<close>

lemma effective_version:
  assumes "ParseVersion (inVersion (mgInstallation m)) = Inr running"
  obtains old where "\<And>p. ParseVersion (inVersion (effectiveInstallation p m)) = Inr old" "precedence running \<le> precedence old"
proof (cases "\<exists>pending. usPending (mgState m) \<noteq> [] \<and> ParseVersion (usPending (mgState m)) = Inr pending \<and> Precedes running pending")
  case True
  then obtain pending where p: "usPending (mgState m) \<noteq> []" "ParseVersion (usPending (mgState m)) = Inr pending" "Precedes running pending" by blast
  show ?thesis
  proof (rule that [of pending])
    show "ParseVersion (inVersion (effectiveInstallation q m)) = Inr pending" for q
      using p assms parse_printed [OF parsed_version_ok [OF p(2)]] by (cases q) (auto simp: effectiveInstallation_def Let_def)
  qed (use p(3) in \<open>simp add: Precedes_iff\<close>)
next
  case False
  show ?thesis
  proof (rule that [of running])
    show "ParseVersion (inVersion (effectiveInstallation q m)) = Inr running" for q
      using False assms by (cases q) (auto simp: effectiveInstallation_def Let_def split: sum.splits)
  qed simp
qed

lemma effective_downgrade: "inAllowDowngrade (effectiveInstallation p m) = inAllowDowngrade (mgInstallation m)"
  by (auto simp: effectiveInstallation_def Let_def split: option.splits sum.splits)

lemma validated_installation_version:
  assumes "validate_installation i0 = Inr i" "ParseVersion (inVersion i0) = Inr v"
  shows "ParseVersion (inVersion i) = Inr v" "inAllowDowngrade i = inAllowDowngrade i0"
  using assms parse_printed [OF parsed_version_ok [OF assms(2)]] by (auto simp: validate_installation_def Let_def split: if_splits sum.splits)

section \<open>The properties\<close>

text \<open>
  C23. Through every sequence of checks, installations, rollbacks, blocks, automatic runs and restarts,
  with every failure of the disk in between, the executable is one that was there at the start or one
  whose digest is in a release of the applied feed that enough trusted keys signed.
\<close>

theorem only_sanctioned_binaries:
  assumes "disk_ok (mgDisk m)" and "dkExe (mgDisk (foldl (\<lambda>x op. update_step op x) m ops)) = ExeRegular b"
  shows "sha_hex (ilLib (mgInstaller m)) b \<in> known (ilLib (mgInstaller m)) (mgDisk m)
     \<union> (\<Union>op\<in>set ops. sanctioned (ilLib (mgInstaller m)) (mgRing m) (op_document op))"
  using run_known [OF assms(1), of ops] assms(2) by (auto simp: known_def exe_digests_def)

text \<open>
  C27. A successful \<open>Apply\<close> installs a release that is newer than what is installed or staged, and that is
  not blocked here; from then on it is what later releases are compared with, so a check does not offer it
  again.
\<close>

theorem apply_strictly_upgrades:
  assumes "Apply io v m = (Inr x, m')" and "\<not> inAllowDowngrade (mgInstallation m)" and "ParseVersion (inVersion (mgInstallation m)) = Inr running"
  shows "\<exists>old new. ParseVersion (inVersion (effectiveInstallation p m)) = Inr old \<and> ParseVersion (isVersion x) = Inr new
     \<and> precedence old < precedence new \<and> isVersion x \<notin> bvVersion ` set (usBlocked (mgState m))
     \<and> inVersion (effectiveInstallation q m') = isVersion x"
proof (cases rule: apply_cases [of io v m])
  case (attempted result m1 e a res d m2)
  from effective_version [OF assms(3)] obtain old where old: "\<And>p. ParseVersion (inVersion (effectiveInstallation p m)) = Inr old"
    "precedence running \<le> precedence old" by blast
  from attempted(10) [of x] assms(1) obtain inst where inst: "res = Inr inst" "isVersion x = isVersion inst"
    "usPending (mgState m2) = pending_after inst m" by auto
  obtain i :: installation and installed w :: version and sr :: signed_release where
    i: "validate_installation (effectiveInstallation (ck_peer (ap_check io)) m) = Inr i" "ParseVersion (inVersion i) = Inr installed"
    and sr: "evRelease e = srRelease sr" "ParseVersion (rlVersion (srRelease sr)) = Inr w" "rlVersion (srRelease sr) = version_string w"
    and up: "inAllowDowngrade i \<or> precedence installed < precedence w" and nb: "rlVersion (srRelease sr) \<notin> bvVersion ` set (usBlocked (mgState m))"
    by (rule chosen_facts [OF attempted(1,2)]) blast
  have up: "precedence old < precedence w"
    using up validated_installation_version [OF i(1) old(1)] i(2) assms(2) by (auto simp: effective_downgrade)
  have v: "isVersion inst = version_string w" "ParseVersion (version_string w) = Inr w"
    using attempted(4) sr(2) inst(1) parse_printed [OF parsed_version_ok [OF sr(2)]] unfolding sr(1)
    by (cases rule: install_cases [of "mgInstaller m" "ap_install io" "srRelease sr" a "inVersion (effectiveInstallation (ap_peer io) m1)" "mgDisk m"]; auto)+
  have "pending_after inst m = version_string w" "version_string w \<noteq> []"
    using up old(2) v assms(3) version_text_trimmed(2) [OF parsed_version_ok [OF sr(2)]]
    by (auto simp: pending_after_def sameVersion_def SameRelease_iff)
  moreover have "m2 = m'" using attempted(5) assms(1) by simp
  moreover have "Precedes running w" using up old(2) by (simp add: Precedes_iff)
  ultimately have "inVersion (effectiveInstallation q m') = version_string w"
    using inst(3) attempted(9) v(2) assms(3) by (cases q) (auto simp: effectiveInstallation_def Let_def)
  then show ?thesis using old(1) v inst(2) up nb sr(3) by auto
qed (use assms(1) in auto)

section \<open>Sample runs\<close>

definition sample_update_signer :: release_signer where
  "sample_update_signer = \<lparr>siKeyID = sha_hex sample_install_lib ''k'', siPrivate = ''k'', siPublicPEM = ''k''\<rparr>"

definition sample_update_ring :: key_ring where
  "sample_update_ring = \<lparr>krKeys = [\<lparr>tkID = sha_hex sample_install_lib ''k'', tkPublicPEM = ''k'', tkComment = [], tkRevoked = False, tkExpiresAt = None\<rparr>], krThreshold = 1\<rparr>"

text \<open>A feed with one release \<open>v\<close> whose binary is \<open>b\<close>, open to everybody.\<close>

definition sample_update_feed :: "string \<Rightarrow> string \<Rightarrow> feed" where
  "sample_update_feed v b = \<lparr>fdVersion = 1, fdChannel = ''stable'',
     fdReleases = (case SignRelease sample_install_lib sample_update_signer
         ((sample_release v)\<lparr>rlArtifacts := [sample_binary_artifact b], rlRollout := []\<rparr>) of Inr sr \<Rightarrow> [sr] | Inl _ \<Rightarrow> []), fdRevoked = []\<rparr>"

definition sample_check_io :: "time \<Rightarrow> string \<Rightarrow> string \<Rightarrow> check_io" where
  "sample_check_io t v b = \<lparr>ck_now = t, ck_feed = Some (sample_update_feed v b), ck_peer = None, ck_at = t, ck_write = True\<rparr>"

definition sample_apply_io :: "time \<Rightarrow> string \<Rightarrow> string \<Rightarrow> apply_io" where
  "sample_apply_io t v b = \<lparr>ap_check = sample_check_io t v b, ap_peer = None, ap_install = sample_install_io t b, ap_at = t, ap_write = True\<rparr>"

definition sample_undo_io :: "time \<Rightarrow> undo_io" where
  "sample_undo_io t = \<lparr>un_list = True, un_peer = None, un_rollback = sample_rollback_io t, un_at = t, un_write = True\<rparr>"

definition sample_manager :: "string \<Rightarrow> update_disk \<Rightarrow> manager" where
  "sample_manager v d = \<lparr>mgInstallation = \<lparr>inComponent = ''agent'', inVersion = v, inChannel = ''stable'', inOS = ''linux'', inArchitecture = ''amd64'',
       inMachineID = ''m'', inProtocol = 2, inConfig = 1, inState = 1, inPeerProtocol = 0, inAllowDowngrade = False\<rparr>,
     mgRing = sample_update_ring, mgInstaller = sample_installer, mgPolicy = PolicyAutomatic, mgInterval = hours 6,
     mgState = empty_state ''agent'', mgLastCheck = None, mgFile = None, mgDisk = d\<rparr>"

lemma sample_apply:
  "case Apply (sample_apply_io (seconds 20) ''1.2.0'' ''1.2.0'') [] (sample_manager ''1.1.0'' (sample_disk ''1.1.0'')) of
     (Inr x, m) \<Rightarrow> isVersion x = ''1.2.0'' \<and> dkExe (mgDisk m) = ExeRegular ''1.2.0'' | _ \<Rightarrow> False"
  by code_simp

lemma sample_disk_ok: "disk_ok (sample_disk b)"
  by (simp add: disk_ok_def metas_def sample_disk_def)

definition sample_ops :: "update_op list" where
  "sample_ops = [OpApply [] (sample_apply_io (seconds 20) ''1.2.0'' ''1.2.0'')]"

theorem only_sanctioned_binaries_witness:
  "dkExe (mgDisk (foldl (\<lambda>x op. update_step op x) (sample_manager ''1.1.0'' (sample_disk ''1.1.0'')) sample_ops)) = ExeRegular ''1.2.0''
   \<and> sha_hex sample_install_lib ''1.2.0'' \<in> known sample_install_lib (sample_disk ''1.1.0'')
     \<union> sanctioned sample_install_lib sample_update_ring (Some (sample_update_feed ''1.2.0'' ''1.2.0''))"
proof -
  have exe: "dkExe (mgDisk (foldl (\<lambda>x op. update_step op x) (sample_manager ''1.1.0'' (sample_disk ''1.1.0'')) sample_ops)) = ExeRegular ''1.2.0''"
    using sample_apply by (auto simp: sample_ops_def update_step_def split: prod.splits sum.splits)
  have "disk_ok (mgDisk (sample_manager ''1.1.0'' (sample_disk ''1.1.0'')))" by (simp add: sample_manager_def sample_disk_ok)
  from only_sanctioned_binaries [OF this exe] exe show ?thesis
    by (simp add: sample_ops_def sample_manager_def sample_installer_def op_document_def sample_apply_io_def sample_check_io_def)
qed

theorem apply_strictly_upgrades_witness:
  "\<exists>x m'. Apply (sample_apply_io (seconds 20) ''1.2.0'' ''1.2.0'') [] (sample_manager ''1.1.0'' (sample_disk ''1.1.0'')) = (Inr x, m')
     \<and> inVersion (effectiveInstallation None m') = ''1.2.0'' \<and> isVersion x = ''1.2.0''"
proof -
  let ?v = "\<lparr>vMajor = 1, vMinor = 1, vPatch = 0, vPreRelease = [], vBuild = []\<rparr> :: version"
  obtain x m' where a: "Apply (sample_apply_io (seconds 20) ''1.2.0'' ''1.2.0'') [] (sample_manager ''1.1.0'' (sample_disk ''1.1.0'')) = (Inr x, m')"
    and x: "isVersion x = ''1.2.0''" using sample_apply by (auto split: prod.splits sum.splits)
  have "ParseVersion ''1.1.0'' = Inr ?v" by code_simp
  then have i: "\<not> inAllowDowngrade (mgInstallation (sample_manager ''1.1.0'' (sample_disk ''1.1.0'')))"
    "ParseVersion (inVersion (mgInstallation (sample_manager ''1.1.0'' (sample_disk ''1.1.0'')))) = Inr ?v" by (simp_all add: sample_manager_def)
  from apply_strictly_upgrades [OF a i, of None None] a x show ?thesis by auto
qed

section \<open>Runs that go wrong\<close>


text \<open>
  After a rollback that awaits its restart the version taken for the one on disk is still the running
  one.  The next installation preserves the older binary under the running version, and rolling back to
  that newest backup is refused.
\<close>

theorem pending_rollback_mislabels_backup:
  "let m1 = update_step (OpApply [] (sample_apply_io (seconds 20) ''1.2.0'' ''1.2.0'')) (sample_manager ''1.1.0'' (sample_disk ''1.1.0''));
       m2 = update_step (OpRestart ''1.2.0'') m1;
       m3 = update_step (OpRollback [] (sample_undo_io (seconds 30))) m2;
       m4 = update_step (OpApply [] (sample_apply_io (seconds 40) ''1.3.0'' ''1.3.0'')) m3;
       newest = hd (Backups (mgDisk m4)) in
   dkExe (mgDisk m3) = ExeRegular ''1.1.0'' \<and> dkExe (mgDisk m4) = ExeRegular ''1.3.0''
     \<and> bkVersion (snd newest) = ''1.2.0'' \<and> backup_binary (mgDisk m4) (fst newest) = Some ''1.1.0''
     \<and> fst (manager_rollback (sample_undo_io (seconds 50)) [] m4) = Inl (InstallFailed ErrOther)"
  by code_simp

end
