(* ===== verification/Agent_Updates.thy ===== *)
theory Agent_Updates
  imports Update_Manager Restore_Transaction Transfer_Session
begin

text \<open>
  \<^verbatim>\<open>src/internal/agent/updates.go\<close>: the gate that keeps an update from running under the agent's own
  work, and the handlers that let a local caller manage updates.  The gate reads the records of the
  migration, restore and session theories; of a fork only its state is read.
\<close>

section \<open>Work in flight\<close>

datatype fork_state = ForkPreparing | ForkMaterialized | ForkActivating | ForkRunning | ForkCommitted | ForkRollingBack | ForkRolledBack | ForkFailed

record fork_record =
  fk_id :: string
  fk_state :: fork_state

record in_flight_work =
  iw_migrations :: "migration list"
  iw_restores :: "restore_record list"
  iw_forks :: "fork_record list"
  iw_sessions :: "session list"

datatype busy_with = BusyMigration string | BusyRestore string | BusyFork string | BusySession string

definition migration_ended :: "migration \<Rightarrow> bool" where
  "migration_ended m \<longleftrightarrow> m_stage m \<in> {MigrationCompleted, MigrationFailed, MigrationRolledBack, MigrationCancelled}"

definition restore_ended :: "restore_record \<Rightarrow> bool" where
  "restore_ended r \<longleftrightarrow> rr_state r \<in> {RestoreCommitted, RestoreRolledBack, RestoreFailed}"

definition fork_ended :: "fork_record \<Rightarrow> bool" where
  "fork_ended f \<longleftrightarrow> fk_state f \<in> {ForkCommitted, ForkRolledBack, ForkFailed}"

definition session_parked :: "session \<Rightarrow> bool" where
  "session_parked s \<longleftrightarrow> ss_state s \<in> {SessionCommitted, SessionRolledBack, SessionFailed, SessionHeld}"

definition busy :: "in_flight_work \<Rightarrow> busy_with option" where
  "busy w =
     (case find (\<lambda>m. \<not> migration_ended m) (iw_migrations w) of Some m \<Rightarrow> Some (BusyMigration (m_id m)) | None \<Rightarrow>
     (case find (\<lambda>r. \<not> restore_ended r) (iw_restores w) of Some r \<Rightarrow> Some (BusyRestore (rr_id r)) | None \<Rightarrow>
     (case find (\<lambda>f. \<not> fork_ended f) (iw_forks w) of Some f \<Rightarrow> Some (BusyFork (fk_id f)) | None \<Rightarrow>
     (case find (\<lambda>s. \<not> session_parked s) (iw_sessions w) of Some s \<Rightarrow> Some (BusySession (ss_id s)) | None \<Rightarrow> None))))"

section \<open>The handlers\<close>

datatype update_reply = UpdateOK | UpdatesDisabled | UpdateForbidden | UpdateDeferred | UpdateApplyFailed | UpdateCheckFailed
  | UpdateRollbackFailed | UpdateBlockFailed | UpdateUnblockFailed

definition authorizeUpdateMutation :: "nat \<Rightarrow> nat \<Rightarrow> bool" where
  "authorizeUpdateMutation euid uid \<longleftrightarrow> uid = 0 \<or> uid = euid"

text \<open>The two readings of the gate during an installation, and the one during a rollback.\<close>

definition gated_install :: "in_flight_work \<Rightarrow> in_flight_work \<Rightarrow> apply_io \<Rightarrow> apply_io" where
  "gated_install before again io = io\<lparr>ap_install := (ap_install io)\<lparr>ii_ready := (busy before = None), ii_ready_again := (busy again = None)\<rparr>\<rparr>"

definition gated_rollback :: "in_flight_work \<Rightarrow> undo_io \<Rightarrow> undo_io" where
  "gated_rollback work io = io\<lparr>un_rollback := (un_rollback io)\<lparr>ri_ready := (busy work = None)\<rparr>\<rparr>"

definition for_caller :: "nat \<Rightarrow> nat \<Rightarrow> manager option \<Rightarrow> (manager \<Rightarrow> update_reply \<times> manager) \<Rightarrow> update_reply \<times> manager option" where
  "for_caller euid uid updates body =
     (case updates of None \<Rightarrow> (UpdatesDisabled, None)
      | Some m \<Rightarrow> if \<not> authorizeUpdateMutation euid uid then (UpdateForbidden, Some m)
                 else case body m of (reply, m1) \<Rightarrow> (reply, Some m1))"

definition handleUpdateCheck :: "nat \<Rightarrow> nat \<Rightarrow> check_io \<Rightarrow> manager option \<Rightarrow> update_reply \<times> manager option" where
  "handleUpdateCheck euid uid io updates =
     for_caller euid uid updates (\<lambda>m. case checkLocked io m of (Inl _, m1) \<Rightarrow> (UpdateCheckFailed, m1) | (Inr _, m1) \<Rightarrow> (UpdateOK, m1))"

definition handleUpdateApply :: "nat \<Rightarrow> nat \<Rightarrow> in_flight_work \<Rightarrow> in_flight_work \<Rightarrow> apply_io \<Rightarrow> string \<Rightarrow> manager option \<Rightarrow> update_reply \<times> manager option" where
  "handleUpdateApply euid uid before again io v updates =
     for_caller euid uid updates (\<lambda>m. case Apply (gated_install before again io) v m of
        (Inl e, m1) \<Rightarrow> (if e = InstallFailed ErrNotReady then UpdateDeferred else UpdateApplyFailed, m1)
      | (Inr _, m1) \<Rightarrow> (UpdateOK, m1))"

definition handleUpdateRollback :: "nat \<Rightarrow> nat \<Rightarrow> in_flight_work \<Rightarrow> undo_io \<Rightarrow> string \<Rightarrow> manager option \<Rightarrow> update_reply \<times> manager option" where
  "handleUpdateRollback euid uid work io i updates =
     for_caller euid uid updates (\<lambda>m. case manager_rollback (gated_rollback work io) i m of
        (Inl _, m1) \<Rightarrow> (UpdateRollbackFailed, m1) | (Inr _, m1) \<Rightarrow> (UpdateOK, m1))"

definition handleUpdateBlock :: "nat \<Rightarrow> nat \<Rightarrow> time \<Rightarrow> bool \<Rightarrow> string \<Rightarrow> string \<Rightarrow> manager option \<Rightarrow> update_reply \<times> manager option" where
  "handleUpdateBlock euid uid t w v r updates =
     for_caller euid uid updates (\<lambda>m. case Block t w v r m of (Some _, m1) \<Rightarrow> (UpdateBlockFailed, m1) | (None, m1) \<Rightarrow> (UpdateOK, m1))"

definition handleUpdateUnblock :: "nat \<Rightarrow> nat \<Rightarrow> bool \<Rightarrow> string \<Rightarrow> manager option \<Rightarrow> update_reply \<times> manager option" where
  "handleUpdateUnblock euid uid w v updates =
     for_caller euid uid updates (\<lambda>m. case Unblock w v m of (Some _, m1) \<Rightarrow> (UpdateUnblockFailed, m1) | (None, m1) \<Rightarrow> (UpdateOK, m1))"

section \<open>The gate is closed while there is work\<close>

definition idle :: "in_flight_work \<Rightarrow> bool" where
  "idle w \<longleftrightarrow> (\<forall>m\<in>set (iw_migrations w). terminal (m_stage m)) \<and> (\<forall>r\<in>set (iw_restores w). restore_ended r)
     \<and> (\<forall>f\<in>set (iw_forks w). fork_ended f) \<and> (\<forall>s\<in>set (iw_sessions w). session_parked s)"

lemma busy_iff: "busy w = None \<longleftrightarrow> idle w"
proof -
  have "busy w = None \<longleftrightarrow> find (\<lambda>m. \<not> migration_ended m) (iw_migrations w) = None \<and> find (\<lambda>r. \<not> restore_ended r) (iw_restores w) = None
      \<and> find (\<lambda>f. \<not> fork_ended f) (iw_forks w) = None \<and> find (\<lambda>s. \<not> session_parked s) (iw_sessions w) = None"
    by (simp add: busy_def split: option.splits)
  moreover have "migration_ended m \<longleftrightarrow> terminal (m_stage m)" for m by (auto simp: migration_ended_def terminal_def)
  ultimately show ?thesis by (auto simp: idle_def find_None_iff)
qed

lemma install_needs_gate:
  assumes "Install il io r a current d = (out, d')" and "dkExe d' \<noteq> dkExe d"
  shows "ii_ready io" "ii_ready_again io"
proof -
  have "ii_ready io \<and> ii_ready_again io"
  proof (cases rule: install_cases [of il io r a current d])
    case backup
    then show ?thesis using assms backup_effect(1) [of il "ii_backup io" current d] by simp
  qed (use assms in auto)
  then show "ii_ready io" "ii_ready_again io" by blast+
qed

lemma rollback_needs_gate:
  assumes "Rollback il io (n, bk) current d = (out, d')" and "dkExe d' \<noteq> dkExe d"
  shows "ri_ready io"
proof (cases rule: undo_cases [of il io n bk current d])
  case (backup e)
  then show ?thesis using assms backup_effect(1) [of il "ri_backup io" current d] by simp
qed (use assms in auto)


definition idle_work :: in_flight_work where
  "idle_work = \<lparr>iw_migrations = [], iw_restores = [\<lparr>rr_id = ''r'', rr_checkpoint = [], rr_workload = [], rr_state = RestoreCommitted, rr_target = [],
     rr_backup = None, rr_pid = 0, rr_created = False, rr_previous = None, rr_lazy = False\<rparr>], iw_forks = [], iw_sessions = []\<rparr>"


end
