(* ===== verification/Spec2Isabelle.thy ===== *)
theory Spec2Isabelle
  imports Encrypted_Collection Migration_Recovery Migration_Admission Garbage_Collector Agent_Updates
begin

text \<open>
  Verification of the shiftgate agent: the program that moves a running workload, as a checkpoint of
  its process tree and its files, from one Linux machine to another.

  \<^bold>\<open>The program and how its parts interact.\<close>  An agent runs on each machine.  Its runtime manager
  owns workloads and their processes.  A migration is driven by the orchestrator of the source: it
  checks and reserves the destination, captures a checkpoint, sends its chunks to the transfer server of
  the destination, has it restored there, commits, and only then retires the source; on failure, on
  cancellation and after a restart it rolls back.  Records are kept in encrypted, journalled collections.
  Checkpoint contents are deduplicated, encrypted chunks; a repository of signed manifests says which
  chunks a checkpoint needs, retention removes old checkpoints and a collector removes chunks nothing
  refers to.  The agent replaces its own binary with signed releases, in a staged rollout.

  \<^bold>\<open>Theories and sources\<close> (paths under \<^verbatim>\<open>src/internal\<close>).
  \<^item> \<open>Shift_Prelude\<close>: times, 64-bit integers, results, retry loops, the keyed store and its locale
    \<open>keyed_store\<close>.  \<open>Go_Strings\<close>: the functions of the \<^verbatim>\<open>strings\<close> and \<^verbatim>\<open>strconv\<close> libraries.
  \<^item> \<open>Encrypted_Collection\<close>: \<^verbatim>\<open>securestore/collection.go\<close>.  Snapshot, journal, replay and every fault of a
    write; acknowledged changes survive a restart.
  \<^item> \<open>Migration_Model\<close>, \<open>Workload_Spec\<close>: \<^verbatim>\<open>model/types.go\<close>.  The stage table and the record of a migration;
    normalising a workload specification.
  \<^item> \<open>Runtime_Manager\<close>: \<^verbatim>\<open>runtime/manager.go\<close>, \<^verbatim>\<open>platform/linux/process.go\<close>.  Workload records against the
    processes of the kernel.
  \<^item> \<open>Restore_Transaction\<close>: \<^verbatim>\<open>checkpoint/restore.go\<close>.  Restoring a checkpoint as a transaction on the
    workload's directory, with a crash between any two steps.
  \<^item> \<open>Workload_Keys\<close>: \<^verbatim>\<open>securestore/keys.go\<close>.  \<open>Chunk_Store\<close>: \<^verbatim>\<open>chunkstore/store.go\<close>.
  \<^item> \<open>Transfer_Session\<close>, \<open>Transfer_Server\<close>: \<^verbatim>\<open>transfer/session.go\<close>, \<^verbatim>\<open>transfer/server.go\<close>.  Sessions and the
    handlers of the receiving agent, interleaved.
  \<^item> \<open>Checkpoint_Service\<close>, \<open>Peer_Client\<close>: the interfaces the orchestrator uses, \<^verbatim>\<open>checkpoint/service.go\<close>,
    \<^verbatim>\<open>checkpoint/live.go\<close>, \<^verbatim>\<open>transfer/client.go\<close>; locales \<open>restore_service\<close> and \<open>peer_client\<close>, interpreted on the
    transaction and on the server of the theories above.
  \<^item> \<open>Migration_Orchestrator\<close>, \<open>Migration_Run\<close>, \<open>Migration_Safety\<close>, \<open>Migration_Recovery\<close>, \<open>Migration_Admission\<close>:
    \<^verbatim>\<open>migration/orchestrator.go\<close> and its neighbours.  One migration from creation to the end, failure,
    cancellation, recovery after a restart, admission of new ones.
  \<^item> \<open>Checkpoint_Repository\<close>: \<^verbatim>\<open>checkpoint/repository.go\<close>, \<^verbatim>\<open>checkpoint/trust.go\<close> and the retention of
    \<^verbatim>\<open>checkpoint/service.go\<close>.  \<open>Garbage_Collector\<close>: \<^verbatim>\<open>gc/gc.go\<close>, with captures, deletions, plans and sweeps as the
    steps of one run.
  \<^item> \<open>Update_Version\<close>, \<open>Update_Release\<close>: \<^verbatim>\<open>update/version.go\<close>, \<^verbatim>\<open>rollout.go\<close>, \<^verbatim>\<open>release.go\<close>, \<^verbatim>\<open>trust.go\<close>,
    \<^verbatim>\<open>compatibility.go\<close>.  Versions and their order, release documents, rollout, signatures, and which release
    a machine takes.
  \<^item> \<open>Update_Installer\<close>, \<open>Update_Manager\<close>, \<open>Agent_Updates\<close>: \<^verbatim>\<open>update/installer.go\<close>, \<^verbatim>\<open>update/fetch.go\<close>,
    \<^verbatim>\<open>update/manager.go\<close>, \<^verbatim>\<open>agent/updates.go\<close>.  Fetching, checking and swapping the binary, its backups, the record of
    what the machine did, and the gate over the migrations, restores and sessions of the theories above.

  \<^bold>\<open>How state and operations correspond.\<close>  A Go struct is a record, an operation a function from the
  state to its answer and the new state, an error a value of a sum.  What the code asks the operating
  system, the clock or a peer is an argument: a record with one field per call, so that a theorem holds
  for every way those calls can fail.  A critical section under a mutex is one step; what runs between two
  sections is a separate step and interleaves.

  \<^bold>\<open>What the lemmas show.\<close>  At most one live copy of a workload exists through any run, crash and recovery;
  a completed migration was committed; recovery ends in a settled record.  A restore leaves the old
  workload or the new one, never a mixture, also when interrupted.  Acknowledged writes, keys and
  checkpoints are readable later; stored assets are restored byte for byte; retention and collection keep
  every checkpoint that exists restorable, and what nothing needs is collected.  The selected release is the
  newest that is signed by enough trusted keys and suits the machine; the executable is never anything but
  a binary that was there or that such a release signed, and it is not replaced under running work.  Some theorems exhibit runs in which
  the code does not do what its comments promise; each of them says so in the text above it.

  \<^bold>\<open>Bounds and fuel.\<close>  Retry loops are bounded by the constants of the code.  The chain walk of retention and
  the sweep loop have termination proofs; the pre-copy loop is bounded by its pass limit.  The step sequences
  in the run theorems are arbitrary finite lists.

  \<^bold>\<open>Parameters.\<close>  Cryptographic functions, compression, JSON, URL and PEM parsing are parameters; what is
  assumed of them is a named hypothesis (\<open>digest_binds_parent\<close>, \<open>signing_works\<close>, the codec laws of the chunk
  store), each with an instance in the witness of the property that uses it.

  \<^bold>\<open>Not modelled.\<close>  Code whose meaning is that of another system: CRIU, namespaces, cgroups and archives
  (\<^verbatim>\<open>checkpoint/criu.go\<close>, \<^verbatim>\<open>filesystem\<close>), SQL (\<^verbatim>\<open>database\<close>, \<^verbatim>\<open>controlplane\<close>), object stores, payment and identity
  providers, HTTP routing and command lines.  The scheduler, the
  compatibility tables and network planning are decision code that this library does not cover.
\<close>

end
